(* ===== verification/Sys_Prelude.thy ===== *)
theory Sys_Prelude
  imports Main "HOL-Library.Word"
begin

text \<open>
  The process model that every component of the development shares.

  A program of the repository is a C process that talks to the kernel (or to a library
  outside the repository) by calls, and computes in between. A component declares the
  datatype \<open>'c\<close> of the calls it makes; the answers have one record type, \<open>resp\<close>. The
  kernel is a parameter: a function from the history of the process and the call it makes to
  an answer, or to \<open>None\<close> when the call has not returned. A program is a function of the
  kernel, of a bound \<open>N\<close> on the iterations of its unbounded loops that are observed, and of
  the history so far; it yields an outcome and the extended history. All theorems are about
  every kernel (within a stated contract) and every \<open>N\<close>, that is about every finite prefix
  of every run.

  The theory also holds the weakest-precondition equations that the component proofs use, the
  loop rules, the contract of an interface as a locale, and the fragments of the C library
  that the programs use on strings and numbers.
\<close>

declare One_nat_def [simp del]

named_theorems io_simps
named_theorems wp_simps

section \<open>Answers, events, outcomes\<close>

type_synonym byte = "8 word"

datatype errno = ENONE | EINTR | EWOULDBLOCK | EINVAL | EOTHER

text \<open>
  The answer to a call: the return value, \<open>errno\<close>, the bytes stored in the caller's buffer,
  the descriptors reported as ready, the integers stored through other out parameters or in the
  fields of a returned structure, and the arrays of numbers and of strings in such a structure.
\<close>

record resp =
  rv :: int
  err :: errno
  bytes :: "byte list"
  ready :: "int list"
  nums :: "int list"
  tables :: "int list list"
  texts :: "byte list list"

definition ok :: "int \<Rightarrow> resp" where
  "ok n = \<lparr>rv = n, err = ENONE, bytes = [], ready = [], nums = [],
     tables = [], texts = []\<rparr>"

definition failed :: "errno \<Rightarrow> resp" where
  "failed e = \<lparr>rv = -1, err = e, bytes = [], ready = [], nums = [],
     tables = [], texts = []\<rparr>"

definition got :: "byte list \<Rightarrow> resp" where
  "got bs = \<lparr>rv = int (length bs), err = ENONE, bytes = bs, ready = [], nums = [],
     tables = [], texts = []\<rparr>"

definition ready_fds :: "int list \<Rightarrow> resp" where
  "ready_fds fs = \<lparr>rv = int (length fs), err = ENONE, bytes = [], ready = fs, nums = [],
     tables = [], texts = []\<rparr>"

definition with_nums :: "int \<Rightarrow> int list \<Rightarrow> resp" where
  "with_nums n ns = \<lparr>rv = n, err = ENONE, bytes = [], ready = [], nums = ns,
     tables = [], texts = []\<rparr>"

definition num :: "resp \<Rightarrow> nat \<Rightarrow> int" where
  "num r i = (if i < length (nums r) then nums r ! i else 0)"

definition table :: "resp \<Rightarrow> nat \<Rightarrow> int list" where
  "table r i = (if i < length (tables r) then tables r ! i else [])"

definition first_byte :: "resp \<Rightarrow> byte" where
  "first_byte r = (case bytes r of [] \<Rightarrow> 0 | b # _ \<Rightarrow> b)"

lemma resp_sel [simp]:
  "rv (ok n) = n" "err (ok n) = ENONE" "bytes (ok n) = []" "ready (ok n) = []" "nums (ok n) = []"
  "rv (failed e) = -1" "err (failed e) = e" "bytes (failed e) = []" "ready (failed e) = []"
  "nums (failed e) = []"
  "rv (got bs) = int (length bs)" "err (got bs) = ENONE" "bytes (got bs) = bs"
  "ready (got bs) = []" "nums (got bs) = []"
  "rv (ready_fds fs) = int (length fs)" "err (ready_fds fs) = ENONE"
  "bytes (ready_fds fs) = []" "ready (ready_fds fs) = fs" "nums (ready_fds fs) = []"
  "rv (with_nums n ns) = n" "err (with_nums n ns) = ENONE" "bytes (with_nums n ns) = []"
  "ready (with_nums n ns) = []" "nums (with_nums n ns) = ns"
  by (simp_all add: ok_def failed_def got_def ready_fds_def with_nums_def)

text \<open>
  What a process prints: literal text, a number (\<open>%d\<close>) or the bytes of a C string
  (\<open>%s\<close>). Trailing newlines of the format strings are left out.
\<close>

datatype out = S string | D int | B "byte list"

text \<open>An event is an answered call or something printed. A history has its newest event first.\<close>

datatype 'c event = Ev 'c resp | Out "out list"

type_synonym 'c history = "'c event list"
type_synonym 'c kernel = "'c history \<Rightarrow> 'c \<Rightarrow> resp option"

text \<open>
  Outcomes: a value, the process has exited with a status, undefined behaviour (named), or the
  observation ends here (a call has not returned, or a loop has used up \<open>N\<close>).
\<close>

datatype 'a res = Val 'a | Exit int | Fault string | Wait

type_synonym ('a, 'c) io = "'c kernel \<Rightarrow> nat \<Rightarrow> 'c history \<Rightarrow> 'a res \<times> 'c history"

section \<open>Programs\<close>

definition ret :: "'a \<Rightarrow> ('a, 'c) io" where
  "ret a = (\<lambda>K N l. (Val a, l))"

definition exit :: "int \<Rightarrow> ('a, 'c) io" where
  "exit n = (\<lambda>K N l. (Exit n, l))"

definition fault :: "string \<Rightarrow> ('a, 'c) io" where
  "fault m = (\<lambda>K N l. (Fault m, l))"

definition sys :: "'c \<Rightarrow> (resp \<Rightarrow> ('a, 'c) io) \<Rightarrow> ('a, 'c) io" where
  "sys c k = (\<lambda>K N l. case K l c of None \<Rightarrow> (Wait, l) | Some r \<Rightarrow> k r K N (Ev c r # l))"

definition say :: "out list \<Rightarrow> ('a, 'c) io \<Rightarrow> ('a, 'c) io" where
  "say os k = (\<lambda>K N l. k K N (Out os # l))"

abbreviation perror :: "string \<Rightarrow> ('a, 'c) io \<Rightarrow> ('a, 'c) io" where
  "perror s k \<equiv> say [S s] k"

definition bind :: "('a, 'c) io \<Rightarrow> ('a \<Rightarrow> ('b, 'c) io) \<Rightarrow> ('b, 'c) io" where
  "bind m f = (\<lambda>K N l. case m K N l of
     (Val a, l') \<Rightarrow> f a K N l'
   | (Exit n, l') \<Rightarrow> (Exit n, l')
   | (Fault e, l') \<Rightarrow> (Fault e, l')
   | (Wait, l') \<Rightarrow> (Wait, l'))"

text \<open>
  Loops. The body yields \<open>Inl s\<close> to go on with the state \<open>s\<close> (the end of the body or
  \<open>continue\<close>) and \<open>Inr a\<close> to leave the loop with \<open>a\<close> (\<open>break\<close>). \<open>loop\<close> is an
  unbounded loop, observed for at most \<open>N\<close> iterations; \<open>foreach\<close> is a \<open>for\<close> loop over the
  given index values and always ends by itself.
\<close>

primrec iter :: "nat \<Rightarrow> ('s \<Rightarrow> ('s + 'a, 'c) io) \<Rightarrow> 's \<Rightarrow> ('a, 'c) io" where
  "iter 0 body s = (\<lambda>K N l. (Wait, l))"
| "iter (Suc f) body s =
     bind (body s) (\<lambda>x. case x of Inl s' \<Rightarrow> iter f body s' | Inr a \<Rightarrow> ret a)"

definition loop :: "('s \<Rightarrow> ('s + 'a, 'c) io) \<Rightarrow> 's \<Rightarrow> ('a, 'c) io" where
  "loop body s = (\<lambda>K N l. iter N body s K N l)"

primrec foreach :: "'x list \<Rightarrow> ('x \<Rightarrow> 's \<Rightarrow> ('s + 'a, 'c) io) \<Rightarrow> 's \<Rightarrow> ('s + 'a, 'c) io" where
  "foreach [] body s = ret (Inl s)"
| "foreach (x # xs) body s =
     bind (body x s) (\<lambda>y. case y of Inl s' \<Rightarrow> foreach xs body s' | Inr a \<Rightarrow> ret (Inr a))"

text \<open>A loop that ends in the same way whether by \<open>break\<close> or by itself.\<close>

definition either :: "'a + 'a \<Rightarrow> 'a" where
  "either x = (case x of Inl a \<Rightarrow> a | Inr a \<Rightarrow> a)"

lemma either_simps [simp]: "either (Inl a) = a" "either (Inr a) = a"
  by (simp_all add: either_def)

text \<open>\<open>main\<close> has returned: the process exits with the value as its status.\<close>

definition as_exit :: "(int, 'c) io \<Rightarrow> (unit, 'c) io" where
  "as_exit m = bind m exit"



lemma run_prims [io_simps]:
  "ret a K N l = (Val a, l)"
  "exit n K N l = (Exit n, l)"
  "fault e K N l = (Fault e, l)"
  "loop body s K N l = iter N body s K N l"
  by (simp_all add: ret_def exit_def fault_def loop_def)

lemma run_say [io_simps]: "say os k K N l = k K N (Out os # l)"
  by (simp add: say_def)

lemma run_sys [io_simps]:
  "sys c k K N l = (case K l c of None \<Rightarrow> (Wait, l) | Some r \<Rightarrow> k r K N (Ev c r # l))"
  by (simp add: sys_def)

lemma run_bind [io_simps]:
  "bind m f K N l = (case m K N l of
     (Val a, l') \<Rightarrow> f a K N l'
   | (Exit n, l') \<Rightarrow> (Exit n, l')
   | (Fault e, l') \<Rightarrow> (Fault e, l')
   | (Wait, l') \<Rightarrow> (Wait, l'))"
  by (simp add: bind_def)

section \<open>Kernels and contracts\<close>

text \<open>
  A contract says which answers to a call are possible after a history. The code's reliance
  on documented behaviour of the kernel is stated as \<open>obeys K R\<close>.
\<close>

type_synonym 'c contract = "'c history \<Rightarrow> 'c \<Rightarrow> resp \<Rightarrow> bool"

definition obeys :: "'c kernel \<Rightarrow> 'c contract \<Rightarrow> bool" where
  "obeys K R \<longleftrightarrow> (\<forall>l c r. K l c = Some r \<longrightarrow> R l c r)"

lemma obeysD: "obeys K R \<Longrightarrow> K l c = Some r \<Longrightarrow> R l c r"
  by (simp add: obeys_def)

text \<open>The kernel always answers.\<close>

definition answers :: "'c kernel \<Rightarrow> bool" where
  "answers K \<longleftrightarrow> (\<forall>l c. K l c \<noteq> None)"

lemma answersD [simp]: "answers K \<Longrightarrow> K l c \<noteq> None"
  by (simp add: answers_def)

lemma answersE: "answers K \<Longrightarrow> \<exists>r. K l c = Some r"
  by (cases "K l c") (simp_all add: answers_def)

text \<open>
  Concrete kernels for the witnesses: the answers of a script in order (the number of answered
  calls in the history selects the answer), cut down to those a contract allows.
\<close>

primrec calls :: "'c history \<Rightarrow> nat" where
  "calls [] = 0"
| "calls (e # l) = (case e of Ev c r \<Rightarrow> Suc (calls l) | Out os \<Rightarrow> calls l)"

definition play :: "resp list \<Rightarrow> 'c kernel" where
  "play rs l c = (if calls l < length rs then Some (rs ! calls l) else None)"

definition guarded :: "'c contract \<Rightarrow> 'c kernel \<Rightarrow> 'c kernel" where
  "guarded R K l c = (case K l c of None \<Rightarrow> None | Some r \<Rightarrow> if R l c r then Some r else None)"

lemma obeys_guarded: "obeys (guarded R K) R"
  by (auto simp: obeys_def guarded_def split: option.splits if_splits)

section \<open>Weakest preconditions\<close>

definition wp :: "('a, 'c) io \<Rightarrow> ('a res \<Rightarrow> 'c history \<Rightarrow> bool) \<Rightarrow> 'c kernel \<Rightarrow> nat \<Rightarrow>
    'c history \<Rightarrow> bool" where
  "wp m Q K N l \<longleftrightarrow> (case m K N l of (r, l') \<Rightarrow> Q r l')"

text \<open>Sequencing postconditions: a value goes on, every other outcome is final.\<close>

definition seq :: "('a \<Rightarrow> 'c history \<Rightarrow> bool) \<Rightarrow> ('b res \<Rightarrow> 'c history \<Rightarrow> bool) \<Rightarrow>
    'a res \<Rightarrow> 'c history \<Rightarrow> bool" where
  "seq P Q r l \<longleftrightarrow> (case r of Val a \<Rightarrow> P a l | Exit n \<Rightarrow> Q (Exit n) l
     | Fault e \<Rightarrow> Q (Fault e) l | Wait \<Rightarrow> Q Wait l)"

lemma seq_simps [simp]:
  "seq P Q (Val a) l = P a l"
  "seq P Q (Exit n) l = Q (Exit n) l"
  "seq P Q (Fault e) l = Q (Fault e) l"
  "seq P Q Wait l = Q Wait l"
  by (simp_all add: seq_def)

lemma wp_ret [wp_simps]: "wp (ret a) Q K N l = Q (Val a) l"
  by (simp add: wp_def io_simps)

lemma wp_exit [wp_simps]: "wp (exit n) Q K N l = Q (Exit n) l"
  by (simp add: wp_def io_simps)

lemma wp_fault [wp_simps]: "wp (fault e) Q K N l = Q (Fault e) l"
  by (simp add: wp_def io_simps)

lemma wp_say [wp_simps]: "wp (say os k) Q K N l = wp k Q K N (Out os # l)"
  by (simp add: wp_def io_simps)

lemma wp_sys [wp_simps]:
  "wp (sys c k) Q K N l =
     (case K l c of None \<Rightarrow> Q Wait l | Some r \<Rightarrow> wp (k r) Q K N (Ev c r # l))"
  by (simp add: wp_def io_simps split: option.split)

lemma wp_bind [wp_simps]:
  "wp (bind m f) Q K N l = wp m (seq (\<lambda>a. wp (f a) Q K N) Q) K N l"
  by (simp add: wp_def io_simps seq_def split: prod.split res.split)

lemma wp_if [wp_simps]:
  "wp (if b then m1 else m2) Q K N l = (if b then wp m1 Q K N l else wp m2 Q K N l)"
  by simp

lemma wp_mono:
  assumes "wp m Q K N l" and "\<And>r l'. Q r l' \<Longrightarrow> Q' r l'"
  shows "wp m Q' K N l"
  using assms by (auto simp: wp_def split: prod.splits)

lemma wp_bindI:
  assumes "wp m (seq P Q) K N l" and "\<And>a l'. P a l' \<Longrightarrow> wp (f a) Q K N l'"
  shows "wp (bind m f) Q K N l"
  unfolding wp_bind
  by (rule wp_mono [OF assms(1)]) (auto simp: seq_def assms(2) split: res.splits)

lemma wp_conj: "wp m (\<lambda>r l'. P r l' \<and> Q r l') K N l \<longleftrightarrow> wp m P K N l \<and> wp m Q K N l"
  by (auto simp: wp_def split: prod.splits)

lemma wpD: "wp m Q K N l \<Longrightarrow> m K N l = (r, l') \<Longrightarrow> Q r l'"
  by (simp add: wp_def)

text \<open>
  A call under a contract: the rule the proofs apply step by step when the equations alone
  would leave the answer unconstrained.
\<close>

lemma wp_sysI:
  assumes "obeys K R" and "Q Wait l"
    and "\<And>r. R l c r \<Longrightarrow> wp (k r) Q K N (Ev c r # l)"
  shows "wp (sys c k) Q K N l"
  using assms by (auto simp: wp_sys dest: obeysD split: option.split)

text \<open>
  The introduction forms, which follow the program one statement at a time and never combine
  the cases of different statements; for long programs.
\<close>

lemma wp_stepI:
  assumes "Q Wait l" and "\<And>r. K l c = Some r \<Longrightarrow> wp (k r) Q K N (Ev c r # l)"
  shows "wp (sys c k) Q K N l"
  using assms by (simp add: wp_sys split: option.split)

lemma wp_ifI:
  assumes "b \<Longrightarrow> wp m1 Q K N l" and "\<not> b \<Longrightarrow> wp m2 Q K N l"
  shows "wp (if b then m1 else m2) Q K N l"
  using assms by simp

lemmas wp_intro = wp_stepI wp_ifI wp_say [THEN iffD2] wp_exit [THEN iffD2] wp_fault [THEN iffD2]

text \<open>The postcondition of a loop body, from the invariant and the loop's postcondition.\<close>

definition next_or :: "('s \<Rightarrow> 'c history \<Rightarrow> bool) \<Rightarrow> ('a res \<Rightarrow> 'c history \<Rightarrow> bool) \<Rightarrow>
    ('s + 'a) \<Rightarrow> 'c history \<Rightarrow> bool" where
  "next_or I Q x l \<longleftrightarrow> (case x of Inl s \<Rightarrow> I s l | Inr a \<Rightarrow> Q (Val a) l)"

lemma next_or_simps [simp]:
  "next_or I Q (Inl s) l = I s l"
  "next_or I Q (Inr a) l = Q (Val a) l"
  by (simp_all add: next_or_def)

lemma wp_iter:
  assumes "I s l"
    and "\<And>s l. I s l \<Longrightarrow> wp (body s) (seq (next_or I Q) Q) K N l"
    and "\<And>s l. I s l \<Longrightarrow> Q Wait l"
  shows "wp (iter f body s) Q K N l"
  using assms(1)
proof (induction f arbitrary: s l)
  case 0
  then show ?case using assms(3) by (simp add: wp_def)
next
  case (Suc f)
  have "wp (body s) (seq (\<lambda>x. wp (case x of Inl s' \<Rightarrow> iter f body s' | Inr a \<Rightarrow> ret a) Q K N) Q)
      K N l"
    by (rule wp_mono [OF assms(2) [OF Suc.prems]])
      (auto simp: seq_def next_or_def wp_ret intro: Suc.IH split: res.splits sum.splits)
  then show ?case by (simp add: wp_bind)
qed

lemma wp_loop:
  assumes "I s l"
    and "\<And>s l. I s l \<Longrightarrow> wp (body s) (seq (next_or I Q) Q) K N l"
    and "\<And>s l. I s l \<Longrightarrow> Q Wait l"
  shows "wp (loop body s) Q K N l"
proof -
  have "wp (iter N body s) Q K N l"
    by (rule wp_iter [where I = I]) (use assms in auto)
  then show ?thesis by (simp add: wp_def io_simps)
qed

text \<open>
  The same for a \<open>for\<close> loop over an index range: the invariant depends on the index, leaving
  by \<open>break\<close> is the value \<open>Inr\<close>, running off the end the value \<open>Inl\<close>.
\<close>

definition for_post :: "('s \<Rightarrow> 'c history \<Rightarrow> bool) \<Rightarrow> (('s + 'a) res \<Rightarrow> 'c history \<Rightarrow> bool) \<Rightarrow>
    ('s + 'a) \<Rightarrow> 'c history \<Rightarrow> bool" where
  "for_post I Q x l \<longleftrightarrow> (case x of Inl s \<Rightarrow> I s l | Inr a \<Rightarrow> Q (Val (Inr a)) l)"

lemma for_post_simps [simp]:
  "for_post I Q (Inl s) l = I s l"
  "for_post I Q (Inr a) l = Q (Val (Inr a)) l"
  by (simp_all add: for_post_def)

lemma wp_for:
  assumes "I a s l" and "a \<le> b"
    and "\<And>i s l. a \<le> i \<Longrightarrow> i < b \<Longrightarrow> I i s l \<Longrightarrow> wp (body i s) (seq (for_post (I (Suc i)) Q) Q) K N l"
    and "\<And>s l. I b s l \<Longrightarrow> Q (Val (Inl s)) l"
  shows "wp (foreach [a..<b] body s) Q K N l"
  using assms(1,2,3)
proof (induction "b - a" arbitrary: a s l)
  case 0
  then show ?case using assms(4) by (simp add: wp_ret)
next
  case (Suc n)
  then have ab: "a < b" by simp
  have step: "wp (body a s) (seq (for_post (I (Suc a)) Q) Q) K N l"
    by (rule Suc.prems(3)) (use ab Suc.prems(1) in simp_all)
  have IH: "wp (foreach [Suc a..<b] body s') Q K N l'" if "I (Suc a) s' l'" for s' l'
    by (rule Suc.hyps(1)) (use that ab Suc.hyps(2) Suc.prems(3) in auto)
  have "wp (body a s) (seq (\<lambda>y. wp (case y of Inl s' \<Rightarrow> foreach [Suc a..<b] body s'
      | Inr a \<Rightarrow> ret (Inr a)) Q K N) Q) K N l"
    by (rule wp_mono [OF step])
      (auto simp: seq_def for_post_def wp_ret intro: IH split: res.splits sum.splits)
  then show ?case using ab by (simp add: wp_bind upt_conv_Cons)
qed

lemma wp_foreach:
  assumes "I s l"
    and "\<And>x s l. x \<in> set xs \<Longrightarrow> I s l \<Longrightarrow> wp (body x s) (seq (for_post I Q) Q) K N l"
    and "\<And>s l. I s l \<Longrightarrow> Q (Val (Inl s)) l"
  shows "wp (foreach xs body s) Q K N l"
  using assms(1,2)
proof (induction xs arbitrary: s l)
  case Nil
  then show ?case using assms(3) by (simp add: wp_ret)
next
  case (Cons x xs)
  have step: "wp (body x s) (seq (for_post I Q) Q) K N l"
    by (rule Cons.prems(2)) (use Cons.prems(1) in simp_all)
  have rest: "wp (foreach xs body s') Q K N l'" if "I s' l'" for s' l'
    by (rule Cons.IH [OF that]) (use Cons.prems(2) in simp_all)
  have "wp (body x s) (seq (\<lambda>y. wp (case y of Inl s' \<Rightarrow> foreach xs body s'
      | Inr a \<Rightarrow> ret (Inr a)) Q K N) Q) K N l"
    by (rule wp_mono [OF step])
      (auto simp: seq_def for_post_def wp_ret intro: rest split: res.splits sum.splits)
  then show ?case by (simp add: wp_bind)
qed

section \<open>The contract of a service loop\<close>

text \<open>
  A server is a set-up phase followed by an unbounded loop. \<open>service\<close> is the interface
  between a server's iteration and everything that is said about its runs: an invariant of
  the state and the history, kept by one iteration under the kernel's contract, and what the
  invariant promises about a history. Interpreting it needs one proof about the body; its
  lemmas then speak about whole runs.
\<close>

locale service =
  fixes body :: "'s \<Rightarrow> ('s + 'a, 'c) io"
    and R :: "'c contract"
    and inv :: "'s \<Rightarrow> 'c history \<Rightarrow> bool"
    and good :: "'a res \<Rightarrow> 'c history \<Rightarrow> bool"
  assumes step: "obeys K R \<Longrightarrow> inv s l \<Longrightarrow> wp (body s) (seq (next_or inv good) good) K N l"
    and promise: "inv s l \<Longrightarrow> good Wait l"
begin

lemma serves: "obeys K R \<Longrightarrow> inv s l \<Longrightarrow> wp (loop body s) good K N l"
  by (rule wp_loop [where I = inv]) (auto intro: step promise)

lemma serves_run:
  assumes "obeys K R" and "inv s l" and "loop body s K N l = (r, l')"
  shows "good r l'"
  using serves [OF assms(1,2)] assms(3) by (rule wpD)

end

section \<open>C strings and buffers\<close>

text \<open>\<open>strlen\<close> and the bytes of the C string in a buffer; a buffer without a NUL is an error.\<close>

definition cstr :: "byte list \<Rightarrow> byte list" where
  "cstr buf = takeWhile (\<lambda>b. b \<noteq> 0) buf"

definition strlen :: "byte list \<Rightarrow> nat" where
  "strlen buf = length (cstr buf)"

definition terminated :: "byte list \<Rightarrow> bool" where
  "terminated buf \<longleftrightarrow> 0 \<in> set buf"

definition zeros :: "nat \<Rightarrow> byte list" where
  "zeros n = replicate n 0"

text \<open>The kernel or a library stores \<open>bs\<close> at the start of \<open>buf\<close>.\<close>

definition fill :: "byte list \<Rightarrow> byte list \<Rightarrow> byte list" where
  "fill buf bs = bs @ drop (length bs) buf"

lemma length_zeros [simp]: "length (zeros n) = n"
  by (simp add: zeros_def)

lemma length_fill [simp]: "length bs \<le> length buf \<Longrightarrow> length (fill buf bs) = length buf"
  by (simp add: fill_def)

lemma cstr_append_nul: "0 \<notin> set xs \<Longrightarrow> cstr (xs @ 0 # ys) = xs"
  unfolding cstr_def by (induction xs) auto

lemma cstr_append_zeros: "0 \<notin> set xs \<Longrightarrow> 0 < n \<Longrightarrow> cstr (xs @ zeros n) = xs"
  by (cases n) (simp_all add: zeros_def cstr_append_nul)

lemma cstr_no_nul: "0 \<notin> set xs \<Longrightarrow> cstr xs = xs"
  unfolding cstr_def by (induction xs) auto

lemma strlen_le: "strlen buf \<le> length buf"
  by (simp add: strlen_def cstr_def length_takeWhile_le)

lemma strlen_less: "terminated buf \<Longrightarrow> strlen buf < length buf"
  unfolding strlen_def cstr_def terminated_def
  by (induction buf) auto

lemma take_strlen [simp]: "take (strlen buf) buf = cstr buf"
  unfolding strlen_def cstr_def by (induction buf) auto

lemma cstr_no_zero [simp]: "0 \<notin> set (cstr buf)"
  using set_takeWhileD by (fastforce simp: cstr_def)

lemma drop_zeros: "drop k (zeros n) = zeros (n - k)"
  by (simp add: zeros_def)

definition chars :: "string \<Rightarrow> byte list" where
  "chars s = map (\<lambda>c. of_nat (of_char c :: nat)) s"

lemma length_chars [simp]: "length (chars s) = length s"
  by (simp add: chars_def)

end
