(* ===== verification/Posix.thy ===== *)
theory Posix
  imports Sys_Prelude
begin

text \<open>
  The system calls of the socket, pipe and process programs, the discipline of file
  descriptors (which calls open, close and use one), the documented behaviour of the kernel
  that the programs rely on, and the interface of a table of client descriptors.

  Addresses keep their fields in host byte order (\<open>htons\<close> and \<open>htonl\<close> are applied to
  constants only). Timeouts are in seconds, those of \<open>poll\<close> in milliseconds.
\<close>

datatype domain = AF_INET | AF_INET6 | AF_UNIX | AF_NETLINK | PF_PACKET

datatype stype = SOCK_STREAM | SOCK_DGRAM | SOCK_RAW

datatype sockaddr = SockIn int int | SockIn6 "byte list" int | SockUn string | SockNl int int

text \<open>The values that \<open>setsockopt\<close> is called with: an integer, or a group and an interface.\<close>

datatype sockopt = OptInt int | OptMreq int int | OptMreq6 "byte list" int

datatype (plugins only: code size) posix =
    Sigaction string
  | Sigprocmask string
  | Open string
  | SemOpen string int
  | Socket domain stype
  | Bind int sockaddr
  | Listen int int
  | Accept int
  | Connect int sockaddr
  | Getpeername int
  | Getsockname int
  | Inet_pton domain "byte list"
  | Close int
  | Read int nat
  | Write int "byte list"
  | Select int "int list" "int option"
  | Poll "int list" nat int
  | Fork
  | Waitpid
  | Fgets nat
  | Time
  | Setsockopt int string sockopt
  | IfAddr int "byte list"
  | IfIndex "byte list"
  | Sendto int "byte list" sockaddr
  | SleepSec nat
  | Getchar
  | Calloc nat
  | FreeMem int

section \<open>File descriptors in a history\<close>

text \<open>
  For any datatype of calls: the descriptors an answered call opens, closes and uses. A
  history is disciplined when every call uses only descriptors that are open at that point.
\<close>

record 'c fd_ops =
  opens :: "'c \<Rightarrow> resp \<Rightarrow> int list"
  closes :: "'c \<Rightarrow> int list"
  uses :: "'c \<Rightarrow> int list"

primrec open_fds :: "'c fd_ops \<Rightarrow> 'c history \<Rightarrow> int set" where
  "open_fds F [] = {}"
| "open_fds F (e # l) = (case e of
     Ev c r \<Rightarrow> (open_fds F l - set (closes F c)) \<union> set (opens F c r)
   | Out os \<Rightarrow> open_fds F l)"

lemma finite_open_fds [simp]: "finite (open_fds F l)"
  by (induction l) (auto split: event.split)

primrec disciplined :: "'c fd_ops \<Rightarrow> 'c history \<Rightarrow> bool" where
  "disciplined F [] = True"
| "disciplined F (e # l) = (case e of
     Ev c r \<Rightarrow> set (uses F c) \<subseteq> open_fds F l \<and> disciplined F l
   | Out os \<Rightarrow> disciplined F l)"

text \<open>A descriptor that the kernel hands out is not open yet, and not negative.\<close>

definition fresh_fds :: "'c fd_ops \<Rightarrow> 'c contract" where
  "fresh_fds F l c r \<longleftrightarrow> (\<forall>fd \<in> set (opens F c r). 0 \<le> fd \<and> fd \<notin> open_fds F l)"

fun posix_opens :: "posix \<Rightarrow> resp \<Rightarrow> int list" where
  "posix_opens (Socket d t) r = (if 0 \<le> rv r then [rv r] else [])"
| "posix_opens (Open p) r = (if 0 \<le> rv r then [rv r] else [])"
| "posix_opens (Accept fd) r = (if 0 \<le> rv r then [rv r] else [])"
| "posix_opens c r = []"

fun posix_closes :: "posix \<Rightarrow> int list" where
  "posix_closes (Close fd) = [fd]"
| "posix_closes c = []"

fun posix_uses :: "posix \<Rightarrow> int list" where
  "posix_uses (Bind fd a) = [fd]"
| "posix_uses (Listen fd n) = [fd]"
| "posix_uses (Accept fd) = [fd]"
| "posix_uses (Connect fd a) = [fd]"
| "posix_uses (Getpeername fd) = [fd]"
| "posix_uses (Getsockname fd) = [fd]"
| "posix_uses (Close fd) = [fd]"
| "posix_uses (Read fd n) = [fd]"
| "posix_uses (Write fd bs) = [fd]"
| "posix_uses (Setsockopt fd n v) = [fd]"
| "posix_uses (IfAddr fd n) = [fd]"
| "posix_uses (Sendto fd bs a) = [fd]"
| "posix_uses c = []"

definition posix_fds :: "posix fd_ops" where
  "posix_fds = \<lparr>opens = posix_opens, closes = posix_closes, uses = posix_uses\<rparr>"

lemma posix_fds_simps [simp]:
  "opens posix_fds = posix_opens"
  "closes posix_fds = posix_closes"
  "uses posix_fds = posix_uses"
  by (simp_all add: posix_fds_def)

abbreviation fresh :: "posix contract" where
  "fresh \<equiv> fresh_fds posix_fds"

text \<open>All data written in a history satisfies a predicate.\<close>

primrec writes_ok :: "(byte list \<Rightarrow> bool) \<Rightarrow> posix history \<Rightarrow> bool" where
  "writes_ok P [] = True"
| "writes_ok P (e # l) = ((case e of Ev (Write fd bs) r \<Rightarrow> P bs | _ \<Rightarrow> True) \<and> writes_ok P l)"

lemma writes_okD: "writes_ok P l \<Longrightarrow> Ev (Write fd bs) w \<in> set l \<Longrightarrow> P bs"
  by (induction l) auto

section \<open>The interface of a table of client descriptors\<close>

text \<open>
  The servers keep the descriptors of their clients in a fixed array whose free slots hold
  \<open>-1\<close>. \<open>tracks\<close> is the invariant that ties the array to the kernel's view: the open
  descriptors are exactly the listening one and those in the slots, each in one slot only.
\<close>

definition tracks :: "nat set \<Rightarrow> ('t \<Rightarrow> nat \<Rightarrow> int) \<Rightarrow> 't \<Rightarrow> int \<Rightarrow> int set \<Rightarrow> bool" where
  "tracks ixs slot t lfd F \<longleftrightarrow>
     inj_on (slot t) {i \<in> ixs. slot t i \<noteq> -1} \<and> lfd \<notin> slot t ` ixs \<and> lfd \<noteq> -1 \<and>
     F = insert lfd (slot t ` ixs - {-1})"

locale slot_table =
  fixes ixs :: "nat set"
    and slot :: "'t \<Rightarrow> nat \<Rightarrow> int"
    and set_slot :: "nat \<Rightarrow> int \<Rightarrow> 't \<Rightarrow> 't"
    and wf :: "'t \<Rightarrow> bool"
  assumes finite_ixs: "finite ixs"
    and wf_set: "wf t \<Longrightarrow> i \<in> ixs \<Longrightarrow> wf (set_slot i v t)"
    and slot_set: "wf t \<Longrightarrow> i \<in> ixs \<Longrightarrow> j \<in> ixs \<Longrightarrow>
      slot (set_slot i v t) j = (if j = i then v else slot t j)"
begin

lemma slots_put:
  "wf t \<Longrightarrow> i \<in> ixs \<Longrightarrow> slot t i = -1 \<Longrightarrow> v \<noteq> -1 \<Longrightarrow>
     slot (set_slot i v t) ` ixs - {-1} = insert v (slot t ` ixs - {-1})"
  by (auto simp: slot_set image_def)

lemma tracks_put:
  assumes "wf t" "tracks ixs slot t lfd F" "i \<in> ixs" "slot t i = -1" "fd \<notin> F" "0 \<le> fd"
  shows "tracks ixs slot (set_slot i fd t) lfd (insert fd F)"
proof -
  have F: "F = insert lfd (slot t ` ixs - {-1})" using assms(2) by (simp add: tracks_def)
  have "inj_on (slot (set_slot i fd t)) {j \<in> ixs. slot (set_slot i fd t) j \<noteq> -1}"
    using assms by (auto simp: tracks_def inj_on_def slot_set)
  moreover have "lfd \<notin> slot (set_slot i fd t) ` ixs"
    using assms by (auto simp: tracks_def slot_set)
  moreover have "insert fd F = insert lfd (slot (set_slot i fd t) ` ixs - {-1})"
    using assms by (subst slots_put) (auto simp: F)
  ultimately show ?thesis using assms(2) by (simp add: tracks_def)
qed

lemma tracks_free:
  assumes "wf t" "tracks ixs slot t lfd F" "i \<in> ixs" "slot t i \<noteq> -1"
  shows "tracks ixs slot (set_slot i (-1) t) lfd (F - {slot t i})"
proof -
  have inj: "inj_on (slot t) {j \<in> ixs. slot t j \<noteq> -1}" and lfd: "lfd \<notin> slot t ` ixs"
    and F: "F = insert lfd (slot t ` ixs - {-1})"
    using assms(2) by (simp_all add: tracks_def)
  have "inj_on (slot (set_slot i (-1) t)) {j \<in> ixs. slot (set_slot i (-1) t) j \<noteq> -1}"
    using assms inj by (auto simp: inj_on_def slot_set)
  moreover have "F - {slot t i} = insert lfd (slot (set_slot i (-1) t) ` ixs - {-1})"
    using assms inj lfd by (auto simp: F slot_set inj_on_def image_def)
  moreover have "lfd \<notin> slot (set_slot i (-1) t) ` ixs"
    using assms lfd by (auto simp: tracks_def slot_set)
  ultimately show ?thesis using assms(2) by (simp add: tracks_def)
qed

lemma tracks_open: "tracks ixs slot t lfd F \<Longrightarrow> i \<in> ixs \<Longrightarrow> slot t i \<noteq> -1 \<Longrightarrow> slot t i \<in> F"
  by (auto simp: tracks_def)

lemma tracks_listener: "tracks ixs slot t lfd F \<Longrightarrow> lfd \<in> F"
  by (auto simp: tracks_def)

lemma tracks_card:
  assumes "tracks ixs slot t lfd F"
  shows "card F \<le> card ixs + 1"
proof -
  have "F = insert lfd (slot t ` ixs - {-1})" using assms by (simp add: tracks_def)
  then have "card F \<le> Suc (card (slot t ` ixs - {-1}))"
    by (simp add: card_insert_if finite_ixs)
  also have "card (slot t ` ixs - {-1}) \<le> card (slot t ` ixs)"
    by (rule card_mono) (simp_all add: finite_ixs)
  also have "card (slot t ` ixs) \<le> card ixs"
    by (rule card_image_le [OF finite_ixs])
  finally show ?thesis by simp
qed

lemma tracks_init:
  "0 \<le> lfd \<Longrightarrow> (\<forall>i \<in> ixs. slot t i = -1) \<Longrightarrow> tracks ixs slot t lfd {lfd}"
  by (auto simp: tracks_def inj_on_def)

end

end
