(* ===== verification/Echo_Select.thy ===== *)
theory Echo_Select
  imports Posix
begin

text \<open>
  \<open>tcp/c/echo/s_select.c\<close>: an echo server for at most two clients, driven by \<open>select\<close>. Its
  state is the array \<open>clients\<close> of descriptors; an iteration of its loop accepts a client,
  places it in the array or drops it, and serves one line of every client that is ready.
\<close>

abbreviation LISTEN :: int where "LISTEN \<equiv> 5"
abbreviation MAXLEN :: nat where "MAXLEN \<equiv> 100"
abbreviation (input) sel_MAXCLIENTS :: nat where "sel_MAXCLIENTS \<equiv> 2"

section \<open>One line of a client\<close>

text \<open>
  The inner loop of \<open>handle_echo\<close>: the state is the array \<open>line\<close> and the offset of \<open>ptr\<close>.
  Storing through \<open>ptr\<close> past the end of \<open>line\<close> is undefined behaviour.
\<close>

definition echo_read :: "int \<Rightarrow> byte list \<times> nat \<Rightarrow>
    (byte list \<times> nat + (int + byte list), posix) io" where
  "echo_read sock st =
     sys (Read sock 1) (\<lambda>r.
     if rv r < 0 then perror ''>>> read'' (ret (Inr (Inl (-1))))
     else if rv r = 0 then ret (Inr (Inl 0))
     else let c = first_byte r; line = fst st; pos = snd st in
       if pos < MAXLEN then
         (if c = 10 then ret (Inr (Inr (line[pos := c])))
          else ret (Inl (line[pos := c], Suc pos)))
       else fault ''handle_echo: store past line'')"

definition handle_echo :: "int \<Rightarrow> (int, posix) io" where
  "handle_echo sock =
     bind (loop (echo_read sock) (zeros MAXLEN, 0)) (\<lambda>x.
     case x of
       Inl code \<Rightarrow> ret code
     | Inr line \<Rightarrow>
         sys (Write sock line) (\<lambda>w.
         if rv w < 0 then perror ''>>> write'' (ret (-1)) else ret 1))"

section \<open>The server\<close>

definition peer_name :: "string \<Rightarrow> resp \<Rightarrow> out list" where
  "peer_name msg p = [S msg, D (num p 0), S '' port '', D (num p 1)]"

definition sel_setup :: "(int, posix) io" where
  "sel_setup =
     sys (Sigaction ''SIGINT'') (\<lambda>_.
     sys (Socket AF_INET SOCK_STREAM) (\<lambda>s.
     if rv s < 0 then perror ''>>> socket'' (exit 1) else
     sys (Bind (rv s) (SockIn 0 10000)) (\<lambda>b.
     if rv b < 0 then perror ''>>> bind'' (exit 1) else
     sys (Listen (rv s) LISTEN) (\<lambda>b.
     if rv b < 0 then perror ''>>> listen'' (exit 1) else
     ret (rv s)))))"

text \<open>The read set and the highest descriptor given to \<open>select\<close>.\<close>

definition sel_rset :: "int \<Rightarrow> int list \<Rightarrow> int list" where
  "sel_rset listenfd clients = listenfd # filter (\<lambda>c. c \<noteq> -1) clients"

definition sel_max :: "int \<Rightarrow> int list \<Rightarrow> int" where
  "sel_max listenfd clients =
     foldl (\<lambda>mx c. if c = -1 then mx else if mx < c then c else mx) listenfd clients"

text \<open>The \<open>for\<close> loop that looks for a free slot for an accepted client.\<close>

definition sel_place :: "int \<Rightarrow> nat \<Rightarrow> int list \<Rightarrow> (int list + int list, posix) io" where
  "sel_place sockfd i clients =
     (if clients ! i = -1 then
        sys (Getpeername sockfd) (\<lambda>p.
        if rv p < 0 then perror ''>>> getpeername'' (exit 1)
        else say (peer_name ''>>> open connection from addr '' p)
          (ret (Inr (clients[i := sockfd]))))
      else if i = sel_MAXCLIENTS - 1 then
        say [S ''>>> Clients queue is full - drop client'']
          (sys (Close sockfd) (\<lambda>_. ret (Inl clients)))
      else ret (Inl clients))"

text \<open>A pending connection: \<open>Inl\<close> is the \<open>continue\<close> of the server's loop.\<close>

definition sel_accept :: "int \<Rightarrow> int list \<Rightarrow> (int list + int list, posix) io" where
  "sel_accept listenfd clients =
     sys (Accept listenfd) (\<lambda>a.
     if rv a < 0 then
       (if err a = EINTR then
          perror ''>>> 'accept' was interrupted, accept again'' (ret (Inl clients))
        else perror ''>>> accept'' (exit 1))
     else
       bind (foreach [0..<sel_MAXCLIENTS] (sel_place (rv a)) clients) (\<lambda>x.
       ret (Inr (either x))))"

text \<open>The \<open>for\<close> loop that serves the clients that \<open>select\<close> reported.\<close>

definition sel_serve :: "int list \<Rightarrow> nat \<Rightarrow> int list \<Rightarrow> (int list + unit, posix) io" where
  "sel_serve rset i clients =
     (if clients ! i = -1 then ret (Inl clients)
      else if clients ! i \<notin> set rset then ret (Inl clients)
      else
        sys (Getpeername (clients ! i)) (\<lambda>p.
        if rv p < 0 then perror ''>>> getpeername'' (exit 1)
        else
          bind (handle_echo (clients ! i)) (\<lambda>v.
          if v < 0 then
            say (peer_name ''>>> closing this connection: addr '' p)
              (sys (Close (clients ! i)) (\<lambda>_. ret (Inl (clients[i := -1]))))
          else if v = 0 then
            say (peer_name ''>>> client gone,closing connection: addr '' p)
              (sys (Close (clients ! i)) (\<lambda>_. ret (Inl (clients[i := -1]))))
          else say (peer_name ''>>> session  OK: addr '' p) (ret (Inl clients)))))"

definition sel_iteration :: "int \<Rightarrow> int list \<Rightarrow> (int list + unit, posix) io" where
  "sel_iteration listenfd clients =
     sys (Select (sel_max listenfd clients + 1) (sel_rset listenfd clients) (Some 5)) (\<lambda>s.
     if rv s = 0 then say [S ''>>> select timeout''] (ret (Inl clients))
     else if rv s = -1 then
       (if err s = EINTR then
          perror ''>>> 'select' was interrupted, try again'' (ret (Inl clients))
        else perror ''>>> select'' (exit 1))
     else
       bind (if listenfd \<in> set (ready s) then sel_accept listenfd clients
             else ret (Inr clients)) (\<lambda>x.
       case x of
         Inl clients' \<Rightarrow> ret (Inl clients')
       | Inr clients' \<Rightarrow>
           bind (foreach [0..<sel_MAXCLIENTS] (sel_serve (ready s)) clients') (\<lambda>y.
           case y of Inl clients'' \<Rightarrow> ret (Inl clients'') | Inr u \<Rightarrow> ret (Inr u))))"

definition s_select :: "(unit, posix) io" where
  "s_select = bind sel_setup (\<lambda>listenfd.
     loop (sel_iteration listenfd) (replicate sel_MAXCLIENTS (-1)))"

text \<open>The handler of \<open>SIGINT\<close>: it ends the process wherever it stands.\<close>

definition sel_int_handler :: "(unit, posix) io" where
  "sel_int_handler = say [S ''>>> SIGINT''] (exit 0)"

section \<open>What \<open>handle_echo\<close> does\<close>

text \<open>The history after single-byte reads with the given answers.\<close>

definition reads :: "int \<Rightarrow> resp list \<Rightarrow> posix history \<Rightarrow> posix history" where
  "reads s rs l = rev (map (Ev (Read s 1)) rs) @ l"

lemma reads_simps [simp]:
  "reads s [] l = l"
  "reads s (rs @ [r]) l = Ev (Read s 1) r # reads s rs l"
  by (simp_all add: reads_def)

text \<open>Answers that carry a byte other than the newline.\<close>

definition plain :: "resp list \<Rightarrow> bool" where
  "plain rs \<longleftrightarrow> (\<forall>r \<in> set rs. 0 < rv r \<and> first_byte r \<noteq> 10)"

lemma plain_simps [simp]:
  "plain []"
  "plain (rs @ [r]) \<longleftrightarrow> plain rs \<and> 0 < rv r \<and> first_byte r \<noteq> 10"
  by (auto simp: plain_def)

text \<open>A line as it stands in the zeroed array.\<close>

definition padded :: "byte list \<Rightarrow> byte list" where
  "padded bs = bs @ zeros (MAXLEN - length bs)"

lemma length_padded: "length bs \<le> MAXLEN \<Longrightarrow> length (padded bs) = MAXLEN"
  by (simp add: padded_def)

lemma padded_update:
  "length bs < MAXLEN \<Longrightarrow> (padded bs)[length bs := c] = padded (bs @ [c])"
proof -
  assume "length bs < MAXLEN"
  then obtain k where k: "MAXLEN - length bs = Suc k"
    by (metis Suc_diff_Suc)
  then have "MAXLEN - length (bs @ [c]) = k" by simp
  with k show ?thesis
    by (simp add: padded_def zeros_def list_update_append)
qed

lemma padded_update_map:
  "length rs < MAXLEN \<Longrightarrow> (padded (map f rs))[length rs := c] = padded (map f rs @ [c])"
  using padded_update [of "map f rs" c] by simp

text \<open>The invariant of the reading loop and the four ways it ends.\<close>

definition echo_inv :: "int \<Rightarrow> posix history \<Rightarrow> byte list \<times> nat \<Rightarrow> posix history \<Rightarrow> bool" where
  "echo_inv s l0 st l \<longleftrightarrow> (\<exists>rs. plain rs \<and> length rs \<le> MAXLEN \<and> l = reads s rs l0 \<and>
     st = (padded (map first_byte rs), length rs))"

definition echo_read_post :: "int \<Rightarrow> posix history \<Rightarrow> (int + byte list) res \<Rightarrow>
    posix history \<Rightarrow> bool" where
  "echo_read_post s l0 r l \<longleftrightarrow> (\<exists>rs. plain rs \<and> length rs \<le> MAXLEN \<and> (case r of
       Val (Inl v) \<Rightarrow> (\<exists>q. (v = -1 \<and> rv q < 0 \<and>
                            l = Out [S ''>>> read''] # Ev (Read s 1) q # reads s rs l0) \<or>
                           (v = 0 \<and> rv q = 0 \<and> l = Ev (Read s 1) q # reads s rs l0))
     | Val (Inr line) \<Rightarrow> (\<exists>q. 0 < rv q \<and> first_byte q = 10 \<and> length rs < MAXLEN \<and>
          l = Ev (Read s 1) q # reads s rs l0 \<and> line = padded (map first_byte rs @ [10]))
     | Fault e \<Rightarrow> (\<exists>q. length rs = MAXLEN \<and> 0 < rv q \<and> l = Ev (Read s 1) q # reads s rs l0)
     | Wait \<Rightarrow> l = reads s rs l0
     | Exit n \<Rightarrow> False))"

lemma echo_read_step:
  assumes "echo_inv s l0 st l"
  shows "wp (echo_read s st) (seq (next_or (echo_inv s l0) (echo_read_post s l0))
           (echo_read_post s l0)) K N l"
proof -
  from assms obtain rs where rs: "plain rs" "length rs \<le> MAXLEN" "l = reads s rs l0"
    "st = (padded (map first_byte rs), length rs)" by (auto simp: echo_inv_def)
  have next_inv: "echo_inv s l0 (padded (map first_byte rs @ [first_byte q]), Suc (length rs))
      (Ev (Read s 1) q # reads s rs l0)"
    if "0 < rv q" "first_byte q \<noteq> 10" "length rs < MAXLEN" for q
    unfolding echo_inv_def using rs that by (intro exI [of _ "rs @ [q]"]) simp
  show ?thesis
    unfolding echo_read_def rs(3,4) using rs(1,2)
    by (auto simp: wp_simps Let_def echo_read_post_def padded_update_map
             intro!: next_inv exI [of _ rs] split: option.split)
qed

lemma echo_loop_post:
  "wp (loop (echo_read s) (zeros MAXLEN, 0)) (echo_read_post s l) K N l"
proof (rule wp_loop [where I = "echo_inv s l"])
  show "echo_inv s l (zeros MAXLEN, 0) l"
    by (auto simp: echo_inv_def padded_def intro!: exI [of _ "[]"])
next
  fix st l' assume "echo_inv s l st l'"
  then show "wp (echo_read s st) (seq (next_or (echo_inv s l) (echo_read_post s l))
      (echo_read_post s l)) K N l'"
    by (rule echo_read_step)
next
  fix st l' assume "echo_inv s l st l'"
  then show "echo_read_post s l Wait l'" by (auto simp: echo_inv_def echo_read_post_def)
qed

text \<open>
  The whole of \<open>handle_echo\<close>: the answers to its reads, then at most one write. A complete
  line is written back zero-padded to the fixed length; the end of the stream gives 0, an
  error of \<open>read\<close> or \<open>write\<close> gives -1.
\<close>

definition echo_post :: "int \<Rightarrow> posix history \<Rightarrow> int res \<Rightarrow> posix history \<Rightarrow> bool" where
  "echo_post s l0 r l \<longleftrightarrow> (\<exists>rs. plain rs \<and> length rs \<le> MAXLEN \<and> (
       (\<exists>q. r = Val (-1) \<and> rv q < 0 \<and>
            l = Out [S ''>>> read''] # Ev (Read s 1) q # reads s rs l0)
     \<or> (\<exists>q. r = Val 0 \<and> rv q = 0 \<and> l = Ev (Read s 1) q # reads s rs l0)
     \<or> (\<exists>q w. 0 < rv q \<and> first_byte q = 10 \<and> length rs < MAXLEN \<and>
            (let sent = Ev (Write s (padded (map first_byte rs @ [10]))) w
                          # Ev (Read s 1) q # reads s rs l0
             in r = Val 1 \<and> 0 \<le> rv w \<and> l = sent \<or>
                r = Val (-1) \<and> rv w < 0 \<and> l = Out [S ''>>> write''] # sent))
     \<or> (\<exists>q e. r = Fault e \<and> length rs = MAXLEN \<and> 0 < rv q \<and>
            l = Ev (Read s 1) q # reads s rs l0)
     \<or> (r = Wait \<and> l = reads s rs l0)
     \<or> (\<exists>q. r = Wait \<and> 0 < rv q \<and> first_byte q = 10 \<and> length rs < MAXLEN \<and>
            l = Ev (Read s 1) q # reads s rs l0)))"

lemma handle_echo_post: "wp (handle_echo s) (echo_post s l) K N l"
  unfolding handle_echo_def wp_bind
proof (rule wp_mono [OF echo_loop_post])
  fix r l'
  assume post: "echo_read_post s l r l'"
  then obtain rs where rs: "plain rs" "length rs \<le> MAXLEN"
    by (auto simp: echo_read_post_def)
  show "seq (\<lambda>x. wp (case x of Inl code \<Rightarrow> ret code
      | Inr line \<Rightarrow> sys (Write s line) (\<lambda>w. if rv w < 0 then perror ''>>> write'' (ret (-1))
          else ret 1)) (echo_post s l) K N) (echo_post s l) r l'"
  proof (cases r)
    case (Val x)
    then show ?thesis
      using post
      by (cases x) (auto simp: echo_read_post_def echo_post_def wp_simps Let_def not_less
          split: option.splits)
  qed (use post in \<open>auto simp: echo_read_post_def echo_post_def\<close>)
qed

lemma reads_keep [simp]:
  "open_fds posix_fds (reads s rs l) = open_fds posix_fds l"
  "s \<in> open_fds posix_fds l \<Longrightarrow>
     disciplined posix_fds (reads s rs l) = disciplined posix_fds l"
  by (induction rs rule: rev_induct) auto

text \<open>What a server needs to know of it: it neither opens nor closes a descriptor.\<close>

definition echo_frame :: "int set \<Rightarrow> int res \<Rightarrow> posix history \<Rightarrow> bool" where
  "echo_frame F r l \<longleftrightarrow> open_fds posix_fds l = F \<and> disciplined posix_fds l \<and>
     (\<forall>v. r = Val v \<longrightarrow> v \<in> {-1, 0, 1}) \<and> (\<forall>n. r \<noteq> Exit n)"

lemma handle_echo_frame:
  assumes "s \<in> F" "open_fds posix_fds l = F" "disciplined posix_fds l"
  shows "wp (handle_echo s) (echo_frame F) K N l"
  by (rule wp_mono [OF handle_echo_post])
    (use assms in \<open>auto simp: echo_post_def echo_frame_def Let_def\<close>)

section \<open>The server's descriptors\<close>

interpretation sel_tab: slot_table "{..<sel_MAXCLIENTS}" nth "\<lambda>i v t. t[i := v]"
    "\<lambda>t. length t = sel_MAXCLIENTS"
  by unfold_locales (auto simp: nth_list_update)

abbreviation sel_tracks :: "int list \<Rightarrow> int \<Rightarrow> int set \<Rightarrow> bool" where
  "sel_tracks \<equiv> tracks {..<sel_MAXCLIENTS} nth"

definition sel_inv :: "int \<Rightarrow> int list \<Rightarrow> posix history \<Rightarrow> bool" where
  "sel_inv lfd clients l \<longleftrightarrow> length clients = sel_MAXCLIENTS \<and> disciplined posix_fds l \<and>
     sel_tracks clients lfd (open_fds posix_fds l)"

text \<open>While an accepted descriptor waits for its place, it is open but in no slot.\<close>

definition sel_pending :: "int \<Rightarrow> int \<Rightarrow> int list \<Rightarrow> posix history \<Rightarrow> bool" where
  "sel_pending lfd fd clients l \<longleftrightarrow> length clients = sel_MAXCLIENTS \<and> disciplined posix_fds l \<and>
     0 \<le> fd \<and> (\<exists>F. fd \<notin> F \<and> open_fds posix_fds l = insert fd F \<and> sel_tracks clients lfd F)"

text \<open>What holds of the history wherever the server is stopped.\<close>

definition sel_good :: "posix history \<Rightarrow> bool" where
  "sel_good l \<longleftrightarrow> disciplined posix_fds l \<and>
     card (open_fds posix_fds l) \<le> sel_MAXCLIENTS + 2"

lemma sel_inv_good: "sel_inv lfd clients l \<Longrightarrow> sel_good l"
  unfolding sel_inv_def sel_good_def using sel_tab.tracks_card by fastforce

lemma sel_pending_good: "sel_pending lfd fd clients l \<Longrightarrow> sel_good l"
  unfolding sel_pending_def sel_good_def
proof (elim conjE exE, intro conjI)
  fix F assume F: "fd \<notin> F" "open_fds posix_fds l = insert fd F" "sel_tracks clients lfd F"
  have "finite F" using F(3) by (simp add: tracks_def)
  then show "card (open_fds posix_fds l) \<le> sel_MAXCLIENTS + 2"
    using F(1,2) sel_tab.tracks_card [OF F(3)] by simp
qed

text \<open>The end of the placing loop, by \<open>break\<close> or not: the descriptor is in a slot or closed.\<close>

definition sel_done :: "int \<Rightarrow> (int list + int list) res \<Rightarrow> posix history \<Rightarrow> bool" where
  "sel_done lfd r l \<longleftrightarrow> (case r of Val x \<Rightarrow> sel_inv lfd (either x) l | _ \<Rightarrow> sel_good l)"

definition sel_placing :: "int \<Rightarrow> int \<Rightarrow> nat \<Rightarrow> int list \<Rightarrow> posix history \<Rightarrow> bool" where
  "sel_placing lfd fd i clients l \<longleftrightarrow>
     (if i < sel_MAXCLIENTS then sel_pending lfd fd clients l else sel_inv lfd clients l)"

lemma sel_place_step:
  assumes "i < sel_MAXCLIENTS" "sel_placing lfd fd i clients l"
  shows "wp (sel_place fd i clients)
     (seq (for_post (sel_placing lfd fd (Suc i)) (sel_done lfd)) (sel_done lfd)) K N l"
proof -
  have pend: "sel_pending lfd fd clients l" using assms by (simp add: sel_placing_def)
  then obtain F where F: "fd \<notin> F" "open_fds posix_fds l = insert fd F"
    "sel_tracks clients lfd F" and wf: "length clients = sel_MAXCLIENTS"
    and d: "disciplined posix_fds l" "0 \<le> fd"
    by (auto simp: sel_pending_def)
  have good: "sel_good l" by (rule sel_pending_good [OF pend])
  have placed: "sel_tracks (clients[i := fd]) lfd (insert fd F)" if "clients ! i = -1"
    by (rule sel_tab.tracks_put) (use F d wf that assms(1) in auto)
  show ?thesis
    using good F wf d placed pend assms(1)
    by (auto simp: sel_place_def wp_simps sel_inv_def sel_good_def sel_done_def sel_placing_def
        split: option.split)
qed

lemma sel_accept_step:
  assumes "obeys K fresh" "sel_inv lfd clients l"
  shows "wp (sel_accept lfd clients)
     (sel_done lfd) K N l"
proof -
  have inv: "length clients = sel_MAXCLIENTS" "disciplined posix_fds l"
    "sel_tracks clients lfd (open_fds posix_fds l)"
    using assms(2) by (simp_all add: sel_inv_def)
  have lfd: "lfd \<in> open_fds posix_fds l" by (rule sel_tab.tracks_listener [OF inv(3)])
  have pend: "sel_pending lfd (rv a) clients (Ev (Accept lfd) a # l)"
    if "fresh l (Accept lfd) a" "\<not> rv a < 0" for a
    using that inv lfd by (auto simp: sel_pending_def fresh_fds_def)
  have place: "wp (foreach [0..<sel_MAXCLIENTS] (sel_place (rv a)) clients) (sel_done lfd) K N
      (Ev (Accept lfd) a # l)" if "fresh l (Accept lfd) a" "\<not> rv a < 0" for a
    by (rule wp_for [where I = "sel_placing lfd (rv a)"])
      (use pend [OF that] in \<open>auto simp: sel_placing_def [of _ _ 0] sel_placing_def [of _ _ 2]
         sel_done_def intro: sel_place_step\<close>)
  show ?thesis
    unfolding sel_accept_def
    by (rule wp_sysI [OF assms(1)])
      (use inv lfd sel_inv_good [OF assms(2)] in
        \<open>auto simp: wp_simps sel_inv_def sel_good_def fresh_fds_def sel_done_def [abs_def]
              intro!: wp_mono [OF place] split: res.splits\<close>)
qed

definition sel_served :: "int \<Rightarrow> (int list + unit) res \<Rightarrow> posix history \<Rightarrow> bool" where
  "sel_served lfd r l \<longleftrightarrow> (case r of Val (Inl clients) \<Rightarrow> sel_inv lfd clients l
     | Val (Inr u) \<Rightarrow> False | Exit n \<Rightarrow> n = 1 \<and> sel_good l | _ \<Rightarrow> sel_good l)"

lemma sel_serve_step:
  assumes "i < sel_MAXCLIENTS" "sel_inv lfd clients l"
  shows "wp (sel_serve rset i clients)
     (seq (for_post (sel_inv lfd) (sel_served lfd)) (sel_served lfd)) K N l"
proof (cases "clients ! i = -1")
  case True
  then show ?thesis using assms by (simp add: sel_serve_def wp_simps)
next
  case False
  let ?c = "clients ! i" and ?F = "open_fds posix_fds l"
  have inv: "length clients = sel_MAXCLIENTS" "disciplined posix_fds l" "sel_tracks clients lfd ?F"
    using assms(2) by (simp_all add: sel_inv_def)
  have c: "?c \<in> ?F" by (rule sel_tab.tracks_open [OF inv(3)]) (use assms(1) False in auto)
  have card: "card ?F \<le> 4" using sel_tab.tracks_card [OF inv(3)] by simp
  have freed: "sel_tracks (clients[i := -1]) lfd (?F - {?c})"
    by (rule sel_tab.tracks_free) (use inv assms(1) False in auto)
  have echo: "wp (handle_echo ?c) (echo_frame ?F) K N (Ev (Getpeername ?c) p # l)" for p
    by (rule handle_echo_frame) (use inv c in auto)
  show ?thesis
    using inv c card freed assms(1)
    by (auto simp: sel_serve_def wp_simps sel_inv_def sel_good_def sel_served_def echo_frame_def
          seq_def intro!: wp_mono [OF echo] split: option.split res.splits)
qed

text \<open>The server never leaves its loop by \<open>break\<close>.\<close>

definition sel_end :: "unit res \<Rightarrow> posix history \<Rightarrow> bool" where
  "sel_end r l \<longleftrightarrow> r \<noteq> Val () \<and> sel_good l"

lemma sel_iteration_step:
  assumes "obeys K fresh" "sel_inv lfd clients l"
  shows "wp (sel_iteration lfd clients)
     (seq (next_or (sel_inv lfd) sel_end)
        sel_end) K N l"
proof -
  have serve: "wp (foreach [0..<sel_MAXCLIENTS] (sel_serve rset) cs) (sel_served lfd) K N l'"
    if "sel_inv lfd cs l'" for rset cs l'
    by (rule wp_for [where I = "\<lambda>i. sel_inv lfd"])
      (use that in \<open>auto intro: sel_serve_step simp: sel_served_def\<close>)
  have inv': "sel_inv lfd clients (Ev (Select a b c) s # l)" for a b c s
    using assms(2) by (simp add: sel_inv_def)
  have good: "sel_good (Ev (Select a b c) s # l)" for a b c s
    by (rule sel_inv_good [OF inv'])
  have accept: "wp (sel_accept lfd clients) (sel_done lfd) K N (Ev (Select a b c) s # l)" for a b c s
    by (rule sel_accept_step [OF assms(1) inv'])
  have good0: "sel_good l" by (rule sel_inv_good [OF assms(2)])
  show ?thesis
    unfolding sel_iteration_def
    using good good0 inv'
    by (auto simp: wp_simps sel_done_def sel_served_def seq_def sel_good_def sel_inv_def sel_end_def
          intro!: wp_mono [OF accept] wp_mono [OF serve] split: option.split res.splits sum.splits)
qed

interpretation sel: service "sel_iteration lfd" fresh "sel_inv lfd" sel_end for lfd
  by unfold_locales (auto intro: sel_iteration_step sel_inv_good simp: sel_end_def)

lemma sel_setup_step:
  assumes "obeys K fresh"
  shows "wp sel_setup (seq (\<lambda>lfd. sel_inv lfd (replicate sel_MAXCLIENTS (-1))) sel_end) K N []"
proof -
  have tab: "sel_tracks (replicate sel_MAXCLIENTS (-1)) lfd {lfd}" if "0 \<le> lfd" for lfd
    by (rule sel_tab.tracks_init) (use that in auto)
  show ?thesis
    by (auto simp: sel_setup_def wp_simps sel_inv_def sel_good_def sel_end_def tab
        split: option.split)
qed

text \<open>
  C1: in every run of \<open>s_select\<close>, for every behaviour of the kernel that hands out fresh
  descriptors and however long the run is observed, each \<open>accept\<close>, \<open>getpeername\<close>, \<open>read\<close>,
  \<open>write\<close> and \<open>close\<close> is on an open descriptor (no use after close), at most four
  descriptors are ever open (no leak: the listener, two clients, and one that has been accepted
  and finds no slot), and the server's loop is never left but by the end of the process.
\<close>

theorem s_select_descriptors:
  assumes "obeys K fresh"
  shows "case s_select K N [] of (r, l) \<Rightarrow>
    disciplined posix_fds l \<and> card (open_fds posix_fds l) \<le> sel_MAXCLIENTS + 2 \<and> r \<noteq> Val ()"
proof -
  have "wp s_select sel_end K N []"
    unfolding s_select_def
    by (rule wp_bindI [OF sel_setup_step [OF assms] sel.serves [OF assms]])
  then show ?thesis by (auto simp: wp_def sel_end_def sel_good_def)
qed

text \<open>Two clients connect, one sends a line, a third is dropped, the first goes away.\<close>

definition sel_script :: "resp list" where
  "sel_script = [ok 0, ok 3, ok 0, ok 0,
     ready_fds [3], ok 4, with_nums 0 [1, 40000],
     ready_fds [3, 4], ok 5, with_nums 0 [1, 40001],
     with_nums 0 [1, 40000], got [104], got [10], ok 100,
     ready_fds [3], ok 6, ok 0,
     ready_fds [4], with_nums 0 [1, 40000], ok 0, ok 0]"

theorem s_select_descriptors_witness:
  "(case s_select (guarded fresh (play sel_script)) 10 [] of (r, l) \<Rightarrow>
      disciplined posix_fds l \<and> card (open_fds posix_fds l) \<le> sel_MAXCLIENTS + 2 \<and> r \<noteq> Val ()) \<and>
   calls (snd (s_select (guarded fresh (play sel_script)) 10 [])) = 21"
  by (rule conjI [OF s_select_descriptors [OF obeys_guarded]]) code_simp

section \<open>The echo\<close>

text \<open>
  C5: when \<open>handle_echo\<close> reports a served line, what it did is exactly this: it read bytes up
  to and with the first newline, at most 100 of them, and wrote them back followed by NULs to
  the fixed length of 100 bytes, on the same descriptor.
\<close>

theorem handle_echo_line:
  assumes "handle_echo s K N l = (Val 1, l')"
  shows "\<exists>rs q w. plain rs \<and> length rs < MAXLEN \<and> 0 < rv q \<and> first_byte q = 10 \<and> 0 \<le> rv w \<and>
    l' = Ev (Write s (padded (map first_byte rs @ [10]))) w
           # Ev (Read s 1) q # rev (map (Ev (Read s 1)) rs) @ l"
  using wpD [OF handle_echo_post assms] by (auto simp: echo_post_def Let_def reads_def)

theorem handle_echo_line_witness:
  "\<exists>rs q w. plain rs \<and> length rs < MAXLEN \<and> 0 < rv q \<and> first_byte q = 10 \<and> 0 \<le> rv w \<and>
    snd (handle_echo 4 (play [got [104], got [10], ok 100]) 101 []) =
      Ev (Write 4 (padded (map first_byte rs @ [10]))) w
           # Ev (Read 4 1) q # rev (map (Ev (Read 4 1)) rs) @ []"
proof (rule handle_echo_line)
  have "fst (handle_echo 4 (play [got [104], got [10], ok 100]) 101 []) = Val 1" by code_simp
  then show "handle_echo 4 (play [got [104], got [10], ok 100]) 101 [] =
      (Val 1, snd (handle_echo 4 (play [got [104], got [10], ok 100]) 101 []))"
    by (metis prod.collapse)
qed

lemma echo_read_run:
  "echo_read s (line, pos) K N l = (case K l (Read s 1) of
     None \<Rightarrow> (Wait, l)
   | Some r \<Rightarrow>
       let l' = Ev (Read s 1) r # l; c = first_byte r in
       if rv r < 0 then (Val (Inr (Inl (-1))), Out [S ''>>> read''] # l')
       else if rv r = 0 then (Val (Inr (Inl 0)), l')
       else if MAXLEN \<le> pos then (Fault ''handle_echo: store past line'', l')
       else if c = 10 then (Val (Inr (Inr (line[pos := c]))), l')
       else (Val (Inl (line[pos := c], Suc pos)), l'))"
  by (simp add: echo_read_def io_simps Let_def split: option.split)

lemma echo_read_ends:
  assumes "answers K" and "pos \<le> MAXLEN" and "MAXLEN < pos + f"
  shows "fst (iter f (echo_read s) (line, pos) K N l) \<noteq> Wait"
  using assms(2,3)
proof (induction f arbitrary: pos line l)
  case 0
  then show ?case by simp
next
  case (Suc f)
  obtain r where r: "K l (Read s 1) = Some r" using answersE [OF assms(1)] by blast
  have IH: "fst (iter f (echo_read s) (line', Suc pos) K N l') \<noteq> Wait" if "pos < MAXLEN" for line' l'
    by (rule Suc.IH) (use that Suc.prems in auto)
  show ?case using r Suc.prems by (auto simp: echo_read_run io_simps Let_def IH)
qed

text \<open>
  \<open>handle_echo\<close> returns: its loop makes at most 101 reads, so when the kernel answers every
  call, an observation of more than 100 iterations sees it end.
\<close>

theorem handle_echo_returns:
  assumes "answers K" and "MAXLEN < N"
  shows "fst (handle_echo s K N l) \<noteq> Wait"
proof -
  have "fst (iter N (echo_read s) (zeros MAXLEN, 0) K N l) \<noteq> Wait"
    by (rule echo_read_ends) (use assms in auto)
  then show ?thesis
    using assms(1)
    by (auto simp: handle_echo_def io_simps
        split: prod.splits res.splits sum.splits option.splits if_splits)
qed

theorem handle_echo_returns_witness:
  "answers (\<lambda>l c. Some (got [10]) :: resp option) \<and> MAXLEN < 101 \<and>
   fst (handle_echo 4 (\<lambda>l c. Some (got [10])) 101 []) \<noteq> Wait"
  using handle_echo_returns [of "\<lambda>l c. Some (got [10])" 101 4 "[]"] by (simp add: answers_def)

lemma echo_read_overruns:
  assumes "\<And>l. \<exists>r. K l (Read s 1) = Some r \<and> rv r = 1 \<and> first_byte r \<noteq> 10"
    and "pos \<le> MAXLEN" and "MAXLEN < pos + f"
  shows "\<exists>e l'. iter f (echo_read s) (line, pos) K N l = (Fault e, l')"
  using assms(2,3)
proof (induction f arbitrary: pos line l)
  case 0
  then show ?case by simp
next
  case (Suc f)
  obtain r where r: "K l (Read s 1) = Some r" "rv r = 1" "first_byte r \<noteq> 10"
    using assms(1) by blast
  show ?case
  proof (cases "pos < MAXLEN")
    case True
    obtain e l' where "iter f (echo_read s) (line[pos := first_byte r], Suc pos) K N
        (Ev (Read s 1) r # l) = (Fault e, l')"
      using Suc.IH [of "Suc pos"] True Suc.prems by force
    then show ?thesis using r True by (simp add: echo_read_run io_simps Let_def)
  next
    case False
    then show ?thesis using r by (simp add: echo_read_run io_simps Let_def)
  qed
qed

text \<open>
  The array \<open>line\<close> has 100 bytes and nothing stops \<open>handle_echo\<close> at its end: a peer that
  keeps sending bytes without a newline makes it store past the array. (A defect of the code.)
\<close>

theorem handle_echo_overruns:
  assumes "\<And>l. \<exists>r. K l (Read s 1) = Some r \<and> rv r = 1 \<and> first_byte r \<noteq> 10" and "MAXLEN < N"
  shows "\<exists>e. fst (handle_echo s K N l) = Fault e"
proof -
  have "\<exists>e l'. iter N (echo_read s) (zeros MAXLEN, 0) K N l = (Fault e, l')"
    by (rule echo_read_overruns) (use assms in auto)
  then obtain e l' where "iter N (echo_read s) (zeros MAXLEN, 0) K N l = (Fault e, l')" by blast
  then show ?thesis by (simp add: handle_echo_def io_simps)
qed

theorem handle_echo_overruns_witness:
  "MAXLEN < 101 \<and> (\<exists>e. fst (handle_echo 4 (\<lambda>l c. Some (got [97])) 101 []) = Fault e)"
  using handle_echo_overruns [of "\<lambda>l c. Some (got [97])" 4 101 "[]"] by (simp add: first_byte_def)

end
