(* ===== verification/Echo_Poll.thy ===== *)
theory Echo_Poll
  imports Echo_Select
begin

unbundle bit_operations_syntax

text \<open>
  \<open>tcp/c/echo/s_poll.c\<close>: the echo server driven by \<open>poll\<close>. Its state is the array \<open>clients\<close>
  of three \<open>struct pollfd\<close>: the listening socket in slot 0, the clients in slots 1 and 2. The
  kernel overwrites \<open>revents\<close> of the slots that a call of \<open>poll\<close> covers, the others keep
  what they held; the server therefore starts from an array with arbitrary contents.
\<close>

abbreviation (input) poll_MAXCLIENTS :: nat where "poll_MAXCLIENTS \<equiv> 3"

definition POLLIN :: "16 word" where "POLLIN = 1"
definition POLLERR :: "16 word" where "POLLERR = 8"

record pollfd =
  pfd :: int
  pevents :: "16 word"
  prevents :: "16 word"

section \<open>One line of a client\<close>

text \<open>\<open>handle_echo\<close> of this file, statement by statement the same as in \<open>s_select.c\<close>.\<close>

definition poll_echo_read :: "int \<Rightarrow> byte list \<times> nat \<Rightarrow>
    (byte list \<times> nat + (int + byte list), posix) io" where
  "poll_echo_read sock st =
     sys (Read sock 1) (\<lambda>r.
     if rv r < 0 then perror ''>>> read'' (ret (Inr (Inl (-1))))
     else if rv r = 0 then ret (Inr (Inl 0))
     else let c = first_byte r; line = fst st; pos = snd st in
       if pos < MAXLEN then
         (if c = 10 then ret (Inr (Inr (line[pos := c])))
          else ret (Inl (line[pos := c], Suc pos)))
       else fault ''handle_echo: store past line'')"

definition poll_handle_echo :: "int \<Rightarrow> (int, posix) io" where
  "poll_handle_echo sock =
     bind (loop (poll_echo_read sock) (zeros MAXLEN, 0)) (\<lambda>x.
     case x of
       Inl code \<Rightarrow> ret code
     | Inr line \<Rightarrow>
         sys (Write sock line) (\<lambda>w.
         if rv w < 0 then perror ''>>> write'' (ret (-1)) else ret 1))"

lemma poll_handle_echo_same: "poll_handle_echo sock = handle_echo sock"
proof -
  have "poll_echo_read sock = echo_read sock"
    by (simp add: fun_eq_iff poll_echo_read_def echo_read_def)
  then show ?thesis by (simp add: poll_handle_echo_def handle_echo_def)
qed

section \<open>The server\<close>

definition poll_setup :: "(int, posix) io" where
  "poll_setup =
     sys (Sigaction ''SIGINT'') (\<lambda>_.
     sys (Socket AF_INET SOCK_STREAM) (\<lambda>s.
     if rv s < 0 then perror ''>>> socket'' (exit 1) else
     sys (Bind (rv s) (SockIn 0 10000)) (\<lambda>b.
     if rv b < 0 then perror ''>>> bind'' (exit 1) else
     sys (Listen (rv s) LISTEN) (\<lambda>b.
     if rv b < 0 then perror ''>>> listen'' (exit 1) else
     ret (rv s)))))"

text \<open>The array before the loop: slot 0 is the listening socket, the others are free.\<close>

definition poll_init :: "int \<Rightarrow> pollfd list \<Rightarrow> pollfd list" where
  "poll_init listenfd garbage =
     (let a = garbage[0 := (garbage ! 0)\<lparr>pevents := POLLIN, pfd := listenfd\<rparr>]
      in foldl (\<lambda>a i. a[i := (a ! i)\<lparr>pfd := -1\<rparr>]) a [1..<poll_MAXCLIENTS])"

text \<open>The highest slot in use.\<close>

definition poll_max :: "pollfd list \<Rightarrow> nat" where
  "poll_max clients =
     foldl (\<lambda>mx i. if pfd (clients ! i) \<noteq> -1 then i else mx) 0 [1..<poll_MAXCLIENTS]"

text \<open>The kernel stores \<open>revents\<close> of the first \<open>n\<close> slots, unless the call fails.\<close>

definition poll_store :: "nat \<Rightarrow> resp \<Rightarrow> pollfd list \<Rightarrow> pollfd list" where
  "poll_store n p clients =
     (if rv p < 0 then clients
      else foldl (\<lambda>a i. a[i := (a ! i)\<lparr>prevents := word_of_int (num p i)\<rparr>]) clients [0..<n])"

definition poll_place :: "int \<Rightarrow> nat \<Rightarrow> pollfd list \<Rightarrow>
    (pollfd list + pollfd list, posix) io" where
  "poll_place sockfd i clients =
     (if pfd (clients ! i) = -1 then
        sys (Getpeername sockfd) (\<lambda>p.
        if rv p < 0 then perror ''>>> getpeername'' (exit 1)
        else say (peer_name ''>>> open connection from addr '' p)
          (ret (Inr (clients[i := (clients ! i)\<lparr>pevents := POLLIN, pfd := sockfd\<rparr>]))))
      else if i = poll_MAXCLIENTS - 1 then
        say [S ''>>> Clients queue is full - drop client'']
          (sys (Close sockfd) (\<lambda>_. ret (Inl clients)))
      else ret (Inl clients))"

text \<open>A pending connection: \<open>Inl\<close> is the \<open>continue\<close> of the server's loop.\<close>

definition poll_accept :: "int \<Rightarrow> int \<Rightarrow> pollfd list \<Rightarrow>
    (pollfd list + (pollfd list \<times> int), posix) io" where
  "poll_accept listenfd count clients =
     sys (Accept listenfd) (\<lambda>a.
     if rv a < 0 then
       (if err a = EINTR then
          perror ''>>> 'accept' was interrupted, accept again'' (ret (Inl clients))
        else perror ''>>> accept'' (exit 1))
     else
       bind (foreach [1..<poll_MAXCLIENTS] (poll_place (rv a)) clients) (\<lambda>x.
       if count - 1 = 0 then ret (Inl (either x)) else ret (Inr (either x, count - 1))))"

definition free_slot :: "nat \<Rightarrow> pollfd list \<Rightarrow> pollfd list" where
  "free_slot i clients = clients[i := (clients ! i)\<lparr>pfd := -1\<rparr>]"

text \<open>The \<open>for\<close> loop over the clients; leaving it by \<open>break\<close> when \<open>count\<close> reaches 0.\<close>

definition poll_serve :: "nat \<Rightarrow> pollfd list \<times> int \<Rightarrow>
    (pollfd list \<times> int + pollfd list, posix) io" where
  "poll_serve i st =
     (let clients = fst st; count = snd st; c = clients ! i;
          next = (\<lambda>cs. if count - 1 = 0 then ret (Inr cs) else ret (Inl (cs, count - 1)))
      in
      if pfd c = -1 then ret (Inl (clients, count))
      else if prevents c AND (POLLIN OR POLLERR) = 0 then ret (Inl (clients, count))
      else
        sys (Getpeername (pfd c)) (\<lambda>p.
        if rv p < 0 then perror ''>>> getpeername'' (exit 1)
        else
          bind (poll_handle_echo (pfd c)) (\<lambda>v.
          if v < 0 then
            perror ''>>> problem with socket''
             (say (peer_name ''>>> closing this connection: addr '' p)
               (sys (Close (pfd c)) (\<lambda>_. next (free_slot i clients))))
          else if v = 0 then
            say (peer_name ''>>> client gone,closing connection: addr '' p)
              (sys (Close (pfd c)) (\<lambda>_. next (free_slot i clients)))
          else say (peer_name ''>>> session  OK: addr '' p) (next clients))))"

definition poll_iteration :: "int \<Rightarrow> pollfd list \<Rightarrow> (pollfd list + unit, posix) io" where
  "poll_iteration listenfd clients0 =
     (let mx = poll_max clients0 in
      sys (Poll (map pfd (take (mx + 1) clients0)) (mx + 1) 5000) (\<lambda>p.
      let clients = poll_store (mx + 1) p clients0 in
      if rv p = 0 then say [S ''>>> poll timeout''] (ret (Inl clients))
      else if rv p = -1 then
        (if err p = EINTR then
           perror ''>>> 'poll' was interrupted, try again'' (ret (Inl clients))
         else perror ''>>> poll'' (exit 1))
      else
        bind (if prevents (clients ! 0) AND POLLIN \<noteq> 0 then poll_accept listenfd (rv p) clients
              else ret (Inr (clients, rv p))) (\<lambda>x.
        case x of
          Inl cs \<Rightarrow> ret (Inl cs)
        | Inr st \<Rightarrow>
            bind (foreach [1..<poll_MAXCLIENTS] poll_serve st) (\<lambda>y.
            case y of Inl st' \<Rightarrow> ret (Inl (fst st')) | Inr cs \<Rightarrow> ret (Inl cs)))))"

definition s_poll :: "pollfd list \<Rightarrow> (unit, posix) io" where
  "s_poll garbage = bind poll_setup (\<lambda>listenfd.
     loop (poll_iteration listenfd) (poll_init listenfd garbage))"

definition poll_int_handler :: "(unit, posix) io" where
  "poll_int_handler = say [S ''>>>SIGINT''] (exit 0)"

section \<open>The server's descriptors\<close>

definition set_pfd :: "nat \<Rightarrow> int \<Rightarrow> pollfd list \<Rightarrow> pollfd list" where
  "set_pfd i v cs = cs[i := (cs ! i)\<lparr>pfd := v\<rparr>]"

interpretation poll_tab: slot_table "{1..<poll_MAXCLIENTS}" "\<lambda>cs i. pfd (cs ! i)" set_pfd
    "\<lambda>cs. length cs = poll_MAXCLIENTS"
  by unfold_locales (auto simp: set_pfd_def nth_list_update)

abbreviation poll_tracks :: "pollfd list \<Rightarrow> int \<Rightarrow> int set \<Rightarrow> bool" where
  "poll_tracks \<equiv> tracks {1..<poll_MAXCLIENTS} (\<lambda>cs i. pfd (cs ! i))"

text \<open>Only the descriptors matter for \<open>tracks\<close>.\<close>

lemma poll_tracks_cong:
  "map pfd cs = map pfd cs' \<Longrightarrow> length cs = poll_MAXCLIENTS \<Longrightarrow>
     poll_tracks cs = poll_tracks cs'"
proof (intro ext)
  fix lfd F
  assume eq: "map pfd cs = map pfd cs'" and len: "length cs = poll_MAXCLIENTS"
  have "length cs' = poll_MAXCLIENTS" using eq len by (metis length_map)
  then have "pfd (cs ! i) = pfd (cs' ! i)" if "i < poll_MAXCLIENTS" for i
    using eq len that by (metis nth_map)
  then have "\<forall>i \<in> {1..<poll_MAXCLIENTS}. pfd (cs ! i) = pfd (cs' ! i)" by auto
  then show "poll_tracks cs lfd F = poll_tracks cs' lfd F"
    unfolding tracks_def by (intro conj_cong arg_cong2 [of _ _ _ _ "(=)"]) (auto simp: inj_on_def image_def)
qed

lemma map_pfd_update:
  "i < length cs \<Longrightarrow> pfd c = pfd (cs ! i) \<Longrightarrow> map pfd (cs[i := c]) = map pfd cs"
  by (simp add: map_update list_update_same_conv)

lemma poll_store_same [simp]:
  "length (poll_store n p cs) = length cs"
  "n \<le> length cs \<Longrightarrow> map pfd (poll_store n p cs) = map pfd cs"
proof -
  have "n \<le> length cs \<longrightarrow> (let cs' = foldl (\<lambda>a i. a[i := (a ! i)\<lparr>prevents := word_of_int (num p i)\<rparr>])
      cs [0..<n] in length cs' = length cs \<and> map pfd cs' = map pfd cs)" for n
    by (induction n) (auto simp: Let_def map_pfd_update)
  moreover have "length (foldl (\<lambda>a i. a[i := f a i]) cs xs) = length cs" for f xs
    by (induction xs arbitrary: cs) auto
  ultimately show "length (poll_store n p cs) = length cs"
    "n \<le> length cs \<Longrightarrow> map pfd (poll_store n p cs) = map pfd cs"
    by (auto simp: poll_store_def Let_def)
qed

lemma poll_max_less: "poll_max cs < poll_MAXCLIENTS"
  by (simp add: poll_max_def upt_conv_Cons)

definition poll_inv :: "int \<Rightarrow> pollfd list \<Rightarrow> posix history \<Rightarrow> bool" where
  "poll_inv lfd cs l \<longleftrightarrow> length cs = poll_MAXCLIENTS \<and> disciplined posix_fds l \<and>
     poll_tracks cs lfd (open_fds posix_fds l)"

definition poll_good :: "posix history \<Rightarrow> bool" where
  "poll_good l \<longleftrightarrow> disciplined posix_fds l \<and>
     card (open_fds posix_fds l) \<le> poll_MAXCLIENTS + 1"

definition poll_pending :: "int \<Rightarrow> int \<Rightarrow> pollfd list \<Rightarrow> posix history \<Rightarrow> bool" where
  "poll_pending lfd fd cs l \<longleftrightarrow> length cs = poll_MAXCLIENTS \<and> disciplined posix_fds l \<and>
     0 \<le> fd \<and> (\<exists>F. fd \<notin> F \<and> open_fds posix_fds l = insert fd F \<and> poll_tracks cs lfd F)"

lemma poll_inv_good: "poll_inv lfd cs l \<Longrightarrow> poll_good l"
  unfolding poll_inv_def poll_good_def using poll_tab.tracks_card by fastforce

lemma poll_pending_good: "poll_pending lfd fd cs l \<Longrightarrow> poll_good l"
  unfolding poll_pending_def poll_good_def
proof (elim conjE exE, intro conjI)
  fix F assume F: "fd \<notin> F" "open_fds posix_fds l = insert fd F" "poll_tracks cs lfd F"
  have "finite F" using F(3) by (simp add: tracks_def)
  then show "card (open_fds posix_fds l) \<le> poll_MAXCLIENTS + 1"
    using F(1,2) poll_tab.tracks_card [OF F(3)] by simp
qed

definition poll_placing :: "int \<Rightarrow> int \<Rightarrow> nat \<Rightarrow> pollfd list \<Rightarrow> posix history \<Rightarrow> bool" where
  "poll_placing lfd fd i cs l \<longleftrightarrow>
     (if i < poll_MAXCLIENTS then poll_pending lfd fd cs l else poll_inv lfd cs l)"

definition poll_placed :: "int \<Rightarrow> (pollfd list + pollfd list) res \<Rightarrow> posix history \<Rightarrow> bool" where
  "poll_placed lfd r l \<longleftrightarrow>
     (case r of Val x \<Rightarrow> poll_inv lfd (either x) l | _ \<Rightarrow> poll_good l)"

lemma poll_place_step:
  assumes "1 \<le> i" "i < poll_MAXCLIENTS" "poll_placing lfd fd i cs l"
  shows "wp (poll_place fd i cs)
     (seq (for_post (poll_placing lfd fd (Suc i)) (poll_placed lfd)) (poll_placed lfd)) K N l"
proof -
  have pend: "poll_pending lfd fd cs l" using assms by (simp add: poll_placing_def)
  then obtain F where F: "fd \<notin> F" "open_fds posix_fds l = insert fd F" "poll_tracks cs lfd F"
    and wf: "length cs = poll_MAXCLIENTS" and d: "disciplined posix_fds l" "0 \<le> fd"
    by (auto simp: poll_pending_def)
  have good: "poll_good l" by (rule poll_pending_good [OF pend])
  have "poll_tracks (set_pfd i fd cs) lfd (insert fd F)" if "pfd (cs ! i) = -1"
    by (rule poll_tab.tracks_put) (use F d wf that assms(1,2) in auto)
  moreover have "poll_tracks (cs[i := (cs ! i)\<lparr>pevents := POLLIN, pfd := fd\<rparr>]) =
      poll_tracks (set_pfd i fd cs)"
    by (rule poll_tracks_cong) (use wf in \<open>auto simp: set_pfd_def map_update\<close>)
  ultimately have placed: "poll_tracks (cs[i := (cs ! i)\<lparr>pevents := POLLIN, pfd := fd\<rparr>]) lfd
      (insert fd F)" if "pfd (cs ! i) = -1" using that by simp
  show ?thesis
    using good F wf d placed pend assms(1,2)
    by (auto simp: poll_place_def wp_simps poll_inv_def poll_good_def poll_placed_def
        poll_placing_def split: option.split)
qed

text \<open>A pair of the array and \<open>count\<close>, or the array alone.\<close>

definition poll_accepted :: "int \<Rightarrow> (pollfd list + (pollfd list \<times> int)) res \<Rightarrow>
    posix history \<Rightarrow> bool" where
  "poll_accepted lfd r l \<longleftrightarrow> (case r of Val (Inl cs) \<Rightarrow> poll_inv lfd cs l
     | Val (Inr st) \<Rightarrow> poll_inv lfd (fst st) l | _ \<Rightarrow> poll_good l)"

lemma poll_accept_step:
  assumes "obeys K fresh" "poll_inv lfd cs l"
  shows "wp (poll_accept lfd count cs) (poll_accepted lfd) K N l"
proof -
  have inv: "length cs = poll_MAXCLIENTS" "disciplined posix_fds l"
    "poll_tracks cs lfd (open_fds posix_fds l)"
    using assms(2) by (simp_all add: poll_inv_def)
  have lfd: "lfd \<in> open_fds posix_fds l" by (rule poll_tab.tracks_listener [OF inv(3)])
  have pend: "poll_pending lfd (rv a) cs (Ev (Accept lfd) a # l)"
    if "fresh l (Accept lfd) a" "\<not> rv a < 0" for a
    using that inv lfd by (auto simp: poll_pending_def fresh_fds_def)
  have place: "wp (foreach [1..<poll_MAXCLIENTS] (poll_place (rv a)) cs) (poll_placed lfd) K N
      (Ev (Accept lfd) a # l)" if "fresh l (Accept lfd) a" "\<not> rv a < 0" for a
    by (rule wp_for [where I = "poll_placing lfd (rv a)"])
      (use pend [OF that] in \<open>auto simp: poll_placing_def [of _ _ 1] poll_placing_def [of _ _ 3]
         poll_placed_def intro: poll_place_step\<close>)
  show ?thesis
    unfolding poll_accept_def
    by (rule wp_sysI [OF assms(1)])
      (use inv lfd poll_inv_good [OF assms(2)] in
        \<open>auto simp: wp_simps poll_inv_def poll_good_def fresh_fds_def poll_placed_def [abs_def]
              poll_accepted_def seq_def intro!: wp_mono [OF place] split: res.splits\<close>)
qed

definition poll_served :: "int \<Rightarrow> (pollfd list \<times> int + pollfd list) res \<Rightarrow>
    posix history \<Rightarrow> bool" where
  "poll_served lfd r l \<longleftrightarrow> (case r of Val (Inl st) \<Rightarrow> poll_inv lfd (fst st) l
     | Val (Inr cs) \<Rightarrow> poll_inv lfd cs l | _ \<Rightarrow> poll_good l)"

lemma poll_serve_step:
  assumes "1 \<le> i" "i < poll_MAXCLIENTS" "poll_inv lfd (fst st) l"
  shows "wp (poll_serve i st)
     (seq (for_post (\<lambda>st. poll_inv lfd (fst st)) (poll_served lfd)) (poll_served lfd)) K N l"
proof (cases "pfd (fst st ! i) = -1 \<or> prevents (fst st ! i) AND (POLLIN OR POLLERR) = 0")
  case True
  then show ?thesis using assms by (auto simp: poll_serve_def wp_simps Let_def)
next
  case False
  let ?cs = "fst st" let ?c = "pfd (?cs ! i)" and ?F = "open_fds posix_fds l"
  have inv: "length ?cs = poll_MAXCLIENTS" "disciplined posix_fds l" "poll_tracks ?cs lfd ?F"
    using assms(3) by (simp_all add: poll_inv_def)
  have c: "?c \<in> ?F" by (rule poll_tab.tracks_open [OF inv(3)]) (use assms(1,2) False in auto)
  have card: "card ?F \<le> 3" using poll_tab.tracks_card [OF inv(3)] by simp
  have freed: "poll_tracks (free_slot i ?cs) lfd (?F - {?c})"
    using poll_tab.tracks_free [OF inv(1,3), of i] False assms(1,2)
    by (simp add: free_slot_def set_pfd_def)
  have echo: "wp (poll_handle_echo ?c) (echo_frame ?F) K N (Ev (Getpeername ?c) p # l)" for p
    unfolding poll_handle_echo_same by (rule handle_echo_frame) (use inv c in auto)
  have len: "length (free_slot i ?cs) = poll_MAXCLIENTS" using inv by (simp add: free_slot_def)
  show ?thesis
    using inv c card freed len False
    by (auto simp: poll_serve_def wp_simps Let_def poll_inv_def poll_good_def poll_served_def
          echo_frame_def seq_def intro!: wp_mono [OF echo] split: option.split res.splits)
qed

definition poll_end :: "unit res \<Rightarrow> posix history \<Rightarrow> bool" where
  "poll_end r l \<longleftrightarrow> r \<noteq> Val () \<and> poll_good l"

lemma poll_iteration_step:
  assumes "obeys K fresh" "poll_inv lfd cs l"
  shows "wp (poll_iteration lfd cs) (seq (next_or (poll_inv lfd) poll_end) poll_end) K N l"
proof -
  let ?mx = "poll_max cs"
  let ?call = "Poll (map pfd (take (?mx + 1) cs)) (?mx + 1) 5000"
  have len: "?mx + 1 \<le> length cs" using poll_max_less [of cs] assms(2) by (simp add: poll_inv_def)
  have serve: "wp (foreach [1..<poll_MAXCLIENTS] poll_serve st) (poll_served lfd) K N l'"
    if "poll_inv lfd (fst st) l'" for st l'
    by (rule wp_for [where I = "\<lambda>i st. poll_inv lfd (fst st)"])
      (use that in \<open>auto intro: poll_serve_step simp: poll_served_def\<close>)
  have tracks: "poll_tracks (poll_store (?mx + 1) p cs) = poll_tracks cs" for p
    by (rule poll_tracks_cong) (use len assms(2) in \<open>auto simp: poll_inv_def\<close>)
  have inv': "poll_inv lfd (poll_store (?mx + 1) p cs) (Ev ?call p # l)" for p
    using assms(2) by (simp add: poll_inv_def tracks)
  have good: "poll_good (Ev ?call p # l)" for p
    by (rule poll_inv_good [OF inv'])
  have accept: "wp (poll_accept lfd n (poll_store (?mx + 1) p cs)) (poll_accepted lfd) K N
      (Ev ?call p # l)" for n p
    by (rule poll_accept_step [OF assms(1) inv'])
  have good0: "poll_good l" by (rule poll_inv_good [OF assms(2)])
  have inv2: "poll_inv lfd cs' (Out os # l') = poll_inv lfd cs' l'"
    and good2: "poll_good (Out os # l') = poll_good l'" for cs' os l'
    by (simp_all add: poll_inv_def poll_good_def)
  show ?thesis
    unfolding poll_iteration_def Let_def
    using good good0 inv'
    by (auto simp: wp_simps poll_accepted_def poll_served_def seq_def inv2 good2 poll_end_def
          simp del: poll_store_same
          intro!: wp_mono [OF accept] wp_mono [OF serve] intro: poll_inv_good
          split: option.split res.splits sum.splits)
qed

interpretation poll: service "poll_iteration lfd" fresh "poll_inv lfd" poll_end for lfd
  by unfold_locales (auto intro: poll_iteration_step poll_inv_good simp: poll_end_def)

lemma poll_init_inv:
  assumes "length garbage = poll_MAXCLIENTS" "0 \<le> lfd"
  shows "length (poll_init lfd garbage) = poll_MAXCLIENTS"
    "poll_tracks (poll_init lfd garbage) lfd {lfd}"
proof -
  show len: "length (poll_init lfd garbage) = poll_MAXCLIENTS"
    using assms(1) by (simp add: poll_init_def Let_def upt_conv_Cons)
  show "poll_tracks (poll_init lfd garbage) lfd {lfd}"
    by (rule poll_tab.tracks_init)
      (use assms in \<open>auto simp: poll_init_def Let_def upt_conv_Cons nth_list_update\<close>)
qed

lemma poll_setup_step:
  assumes "obeys K fresh" "length garbage = poll_MAXCLIENTS"
  shows "wp poll_setup (seq (\<lambda>lfd. poll_inv lfd (poll_init lfd garbage)) poll_end) K N []"
  by (auto simp: poll_setup_def wp_simps poll_inv_def poll_good_def poll_end_def
      poll_init_inv [OF assms(2)] split: option.split)

text \<open>
  C2: the same for \<open>s_poll\<close>, whatever its uninitialised array holds: every call is on an open
  descriptor, at most \<open>MAXCLIENTS + 1\<close> descriptors are ever open, the loop is never left.
\<close>

theorem s_poll_descriptors:
  assumes "obeys K fresh" and "length garbage = poll_MAXCLIENTS"
  shows "case s_poll garbage K N [] of (r, l) \<Rightarrow>
    disciplined posix_fds l \<and> card (open_fds posix_fds l) \<le> poll_MAXCLIENTS + 1 \<and> r \<noteq> Val ()"
proof -
  have "wp (s_poll garbage) poll_end K N []"
    unfolding s_poll_def
    by (rule wp_bindI [OF poll_setup_step [OF assms] poll.serves [OF assms(1)]])
  then show ?thesis by (auto simp: wp_def poll_end_def poll_good_def)
qed

definition poll_garbage :: "pollfd list" where
  "poll_garbage = replicate 3 \<lparr>pfd = 7, pevents = 0, prevents = 1\<rparr>"

definition poll_script :: "resp list" where
  "poll_script = [ok 0, ok 3, ok 0, ok 0,
     with_nums 1 [1], ok 4, with_nums 0 [1, 40000],
     with_nums 1 [0, 1], with_nums 0 [1, 40000], got [104], got [10], ok 100,
     with_nums 1 [0, 1], with_nums 0 [1, 40000], ok 0, ok 0]"

theorem s_poll_descriptors_witness:
  "(case s_poll poll_garbage (guarded fresh (play poll_script)) 10 [] of (r, l) \<Rightarrow>
      disciplined posix_fds l \<and> card (open_fds posix_fds l) \<le> poll_MAXCLIENTS + 1 \<and> r \<noteq> Val ()) \<and>
   calls (snd (s_poll poll_garbage (guarded fresh (play poll_script)) 10 [])) = 16"
proof (rule conjI [OF s_poll_descriptors [OF obeys_guarded]])
  show "length poll_garbage = poll_MAXCLIENTS" by (simp add: poll_garbage_def)
  show "calls (snd (s_poll poll_garbage (guarded fresh (play poll_script)) 10 [])) = 16"
    by code_simp
qed

end
