(* ===== verification/Echo_Fork.thy ===== *)
theory Echo_Fork
  imports Echo_Select
begin

text \<open>
  The forking servers: \<open>tcp/c/echo/s_fork.c\<close> (a child per client echoes lines until the client
  goes) and \<open>tcp/c/time/s_time_fork.c\<close> (a child per client reports the time). A history is that
  of one process: the answer of \<open>fork\<close> says whether it goes on as the parent or as the child.
\<close>

section \<open>s_fork.c\<close>

text \<open>One line; \<open>Inl\<close> is a \<open>return\<close> of \<open>handle_echo\<close>, \<open>Inr\<close> the \<open>break\<close> at the newline.\<close>

definition fork_read :: "int \<Rightarrow> byte list \<times> nat \<Rightarrow>
    (byte list \<times> nat + (int + byte list), posix) io" where
  "fork_read sock st =
     sys (Read sock 1) (\<lambda>r.
     if rv r < 0 then perror ''>>> read'' (ret (Inr (Inl (-1))))
     else if rv r = 0 then ret (Inr (Inl 0))
     else let c = first_byte r; line = fst st; pos = snd st in
       if pos < MAXLEN then
         (if c = 10 then ret (Inr (Inr (line[pos := c])))
          else ret (Inl (line[pos := c], Suc pos)))
       else fault ''handle_echo: store past line'')"

definition fork_echo_once :: "int \<Rightarrow> unit \<Rightarrow> (unit + int, posix) io" where
  "fork_echo_once sock u =
     bind (loop (fork_read sock) (zeros MAXLEN, 0)) (\<lambda>x.
     case x of
       Inl code \<Rightarrow> ret (Inr code)
     | Inr line \<Rightarrow>
         sys (Write sock line) (\<lambda>w.
         if rv w < 0 then perror ''>>> write'' (ret (Inr (-1))) else ret (Inl ())))"

definition fork_handle_echo :: "int \<Rightarrow> (int, posix) io" where
  "fork_handle_echo sock = loop (fork_echo_once sock) ()"

definition fork_setup :: "(int, posix) io" where
  "fork_setup =
     sys (Sigaction ''SIGCHLD'') (\<lambda>_.
     sys (Socket AF_INET SOCK_STREAM) (\<lambda>s.
     if rv s < 0 then perror ''>>> socket'' (exit 1) else
     sys (Bind (rv s) (SockIn 0 10000)) (\<lambda>b.
     if rv b < 0 then perror ''>>> bind'' (exit 1) else
     sys (Listen (rv s) LISTEN) (\<lambda>b.
     if rv b < 0 then perror ''>>> listen'' (exit 1) else
     ret (rv s)))))"

definition fork_child :: "int \<Rightarrow> int \<Rightarrow> (unit + unit, posix) io" where
  "fork_child listenfd sockfd =
     sys (Close listenfd) (\<lambda>_.
     sys (Getpeername sockfd) (\<lambda>p.
     if rv p < 0 then perror ''>>> getpeername'' (exit 1) else
     say (peer_name ''>>> open connection from addr '' p)
       (bind (fork_handle_echo sockfd) (\<lambda>v.
        if v < 0 then perror ''>>> problem'' (exit 1)
        else say (peer_name ''>>> closing connection for addr '' p)
          (sys (Close sockfd) (\<lambda>_. exit 0))))))"

definition fork_iteration :: "int \<Rightarrow> unit \<Rightarrow> (unit + unit, posix) io" where
  "fork_iteration listenfd u =
     sys (Accept listenfd) (\<lambda>a.
     if rv a < 0 then
       (if err a = EINTR then
          perror ''>>> 'accept' was interrupted, accept again'' (ret (Inl ()))
        else perror ''>>> exit - some other problem '' (exit 1))
     else
       sys Fork (\<lambda>f.
       if rv f < 0 then perror ''>>> fork'' (exit 1)
       else if rv f = 0 then fork_child listenfd (rv a)
       else sys (Close (rv a)) (\<lambda>_. ret (Inl ()))))"

definition s_fork :: "(unit, posix) io" where
  "s_fork = bind fork_setup (\<lambda>listenfd. loop (fork_iteration listenfd) ())"

text \<open>
  The handler of \<open>SIGCHLD\<close>. \<open>Waitpid\<close> answers with the pid (0 when no further child has ended)
  and the wait status, whose low seven bits are 0 after an exit, the signal after a kill and
  127 while stopped; the exit status is in the next eight.
\<close>

definition WIFEXITED :: "int \<Rightarrow> bool" where
  "WIFEXITED st \<longleftrightarrow> st mod 128 = 0"

definition WEXITSTATUS :: "int \<Rightarrow> int" where
  "WEXITSTATUS st = (st div 256) mod 256"

definition WTERMSIG :: "int \<Rightarrow> int" where
  "WTERMSIG st = st mod 128"

definition WIFSIGNALED :: "int \<Rightarrow> bool" where
  "WIFSIGNALED st \<longleftrightarrow> 0 < st mod 128 \<and> st mod 128 < 127"

definition chld_report :: "int \<Rightarrow> int \<Rightarrow> ('a, 'c) io \<Rightarrow> ('a, 'c) io" where
  "chld_report pid st k =
     say [S ''>>> child '', D pid, S '' terminated'']
      ((if WIFEXITED st then say [S ''>>exit status '', D (WEXITSTATUS st)] else (\<lambda>k. k))
      ((if WIFSIGNALED st then say [S ''>>terminated by signal '', D (WTERMSIG st)] else (\<lambda>k. k))
      k))"

definition chld_handler :: "(unit, posix) io" where
  "chld_handler = loop (\<lambda>u. sys Waitpid (\<lambda>w.
     if 0 < rv w then chld_report (rv w) (num w 0) (ret (Inl ())) else ret (Inr ()))) ()"

section \<open>s_time_fork.c\<close>

text \<open>
  The answer of \<open>Time\<close> carries the text that \<open>ctime\<close> makes of it. The format
  \<open>"%.24s\er\en"\<close> ends in ESC, \<open>r\<close>, ESC, \<open>n\<close>.
\<close>

definition time_message :: "byte list \<Rightarrow> byte list" where
  "time_message ct =
     (let text = take 24 (cstr ct) @ [27, 114, 27, 110]
      in take (MAXLEN + 1 - 1) text @ [0])"

definition time_setup :: "(int, posix) io" where
  "time_setup =
     sys (Socket AF_INET SOCK_STREAM) (\<lambda>s.
     if rv s < 0 then perror ''>>> socket'' (exit 1) else
     sys (Bind (rv s) (SockIn 0 5555)) (\<lambda>b.
     if rv b < 0 then perror ''>>> bind'' (exit 1) else
     sys (Listen (rv s) LISTEN) (\<lambda>b.
     if rv b < 0 then perror ''>>> listen'' (exit 1) else
     ret (rv s))))"

definition time_child :: "int \<Rightarrow> (unit + unit, posix) io" where
  "time_child sockfd =
     sys (Getpeername sockfd) (\<lambda>p.
     if rv p < 0 then perror ''>>> getpeername'' (exit 1) else
     say (peer_name ''connection from addr '' p)
      (sys Time (\<lambda>t.
       let message = time_message (bytes t) in
       sys (Write sockfd (take (strlen message) message)) (\<lambda>w.
       if rv w < 0 then perror ''>>> write'' (exit (-1)) else
       say [S ''reported time: '', B (cstr message)]
        (sys (Close sockfd) (\<lambda>_. exit 0))))))"

definition time_iteration :: "int \<Rightarrow> unit \<Rightarrow> (unit + unit, posix) io" where
  "time_iteration listenfd u =
     sys (Accept listenfd) (\<lambda>a.
     if rv a < 0 then perror ''>>> accept'' (exit 1)
     else
       sys Fork (\<lambda>f.
       if rv f < 0 then perror ''>>> fork'' (exit 1)
       else if rv f = 0 then time_child (rv a)
       else sys (Close (rv a)) (\<lambda>_. ret (Inl ()))))"

definition s_time_fork :: "(unit, posix) io" where
  "s_time_fork = bind time_setup (\<lambda>listenfd. loop (time_iteration listenfd) ())"

section \<open>The child's echo loop\<close>

lemma fork_read_same: "fork_read sock = echo_read sock"
  by (simp add: fun_eq_iff fork_read_def echo_read_def)

text \<open>One round of the loop is \<open>handle_echo\<close> of the other servers, going on when it served.\<close>

lemma fork_echo_once_eq:
  "fork_echo_once s u K N l =
     bind (handle_echo s) (\<lambda>v. ret (if v = 1 then Inl () else Inr v)) K N l"
proof -
  have neg: "v \<noteq> 1" if "loop (echo_read s) (zeros MAXLEN, 0) K N l = (Val (Inl v), l')" for v l'
    using wpD [OF echo_loop_post that] by (auto simp: echo_read_post_def)
  obtain r l' where run: "loop (echo_read s) (zeros MAXLEN, 0) K N l = (r, l')" by fastforce
  show ?thesis
  proof (cases r)
    case (Val x)
    show ?thesis
    proof (cases x)
      case (Inl v)
      have "v \<noteq> 1" by (rule neg) (use run Val Inl in simp)
      then show ?thesis
        using run Val Inl
        by (simp add: fork_echo_once_def fork_read_same handle_echo_def run_bind run_prims(1))
    next
      case (Inr line)
      then show ?thesis
        using run Val
        by (simp add: fork_echo_once_def fork_read_same handle_echo_def run_bind run_sys run_say
            run_prims(1) split: option.split)
    qed
  qed (simp_all add: fork_echo_once_def fork_read_same handle_echo_def run_bind run)
qed

lemma fork_echo_once_frame:
  assumes "s \<in> F" "open_fds posix_fds l = F" "disciplined posix_fds l"
  shows "wp (fork_echo_once s u)
    (seq (next_or (\<lambda>_ l. open_fds posix_fds l = F \<and> disciplined posix_fds l) (echo_frame F))
       (echo_frame F)) K N l"
proof -
  have "wp (bind (handle_echo s) (\<lambda>v. ret (if v = 1 then Inl () else Inr v)))
    (seq (next_or (\<lambda>_ l. open_fds posix_fds l = F \<and> disciplined posix_fds l) (echo_frame F))
       (echo_frame F)) K N l"
    unfolding wp_bind
    by (rule wp_mono [OF handle_echo_frame [OF assms]])
      (auto simp: seq_def wp_simps echo_frame_def split: res.splits)
  then show ?thesis by (simp add: wp_def fork_echo_once_eq)
qed

lemma fork_handle_echo_frame:
  assumes "s \<in> F" "open_fds posix_fds l = F" "disciplined posix_fds l"
  shows "wp (fork_handle_echo s) (echo_frame F) K N l"
  unfolding fork_handle_echo_def
  by (rule wp_loop [where I = "\<lambda>u l. open_fds posix_fds l = F \<and> disciplined posix_fds l"])
    (use assms in \<open>auto intro: fork_echo_once_frame simp: echo_frame_def\<close>)

section \<open>Parent and child\<close>

text \<open>
  The parent holds only the listening socket between two clients. \<open>in_child\<close> and \<open>in_parent\<close>
  read the role of the process off its history.
\<close>

primrec in_child :: "posix history \<Rightarrow> bool" where
  "in_child [] = False"
| "in_child (e # l) = ((case e of Ev Fork r \<Rightarrow> rv r = 0 | _ \<Rightarrow> False) \<or> in_child l)"

primrec transfers :: "posix history \<Rightarrow> nat" where
  "transfers [] = 0"
| "transfers (e # l) = (case e of
     Ev (Read fd n) r \<Rightarrow> Suc (transfers l)
   | Ev (Write fd bs) r \<Rightarrow> Suc (transfers l)
   | _ \<Rightarrow> transfers l)"

definition fork_inv :: "int \<Rightarrow> unit \<Rightarrow> posix history \<Rightarrow> bool" where
  "fork_inv lfd u l \<longleftrightarrow> open_fds posix_fds l = {lfd} \<and> disciplined posix_fds l \<and>
     \<not> in_child l \<and> transfers l = 0"

definition fork_good :: "unit res \<Rightarrow> posix history \<Rightarrow> bool" where
  "fork_good r l \<longleftrightarrow> disciplined posix_fds l \<and> r \<noteq> Val () \<and>
     card (open_fds posix_fds l) \<le> 2 \<and>
     (\<not> in_child l \<longrightarrow> transfers l = 0) \<and>
     (in_child l \<and> r = Exit 0 \<longrightarrow> open_fds posix_fds l = {})"

text \<open>A serving child neither forks nor forgets that it is one.\<close>

definition child_frame :: "int set \<Rightarrow> int res \<Rightarrow> posix history \<Rightarrow> bool" where
  "child_frame F r l \<longleftrightarrow> echo_frame F r l \<and> in_child l"

lemma reads_in_child [simp]: "in_child (reads s rs l) = in_child l"
  by (induction rs rule: rev_induct) auto

lemma handle_echo_child: "in_child l \<Longrightarrow> wp (handle_echo s) (\<lambda>r. in_child) K N l"
  by (rule wp_mono [OF handle_echo_post]) (auto simp: echo_post_def Let_def)

lemma fork_handle_echo_child:
  assumes "in_child l"
  shows "wp (fork_handle_echo s) (\<lambda>r. in_child) K N l"
  unfolding fork_handle_echo_def
proof (rule wp_loop [where I = "\<lambda>u. in_child"])
  fix u l assume "in_child (l :: posix history)"
  then have "wp (bind (handle_echo s) (\<lambda>v. ret (if v = 1 then Inl () else Inr v)))
      (seq (next_or (\<lambda>u. in_child) (\<lambda>r. in_child)) (\<lambda>r. in_child)) K N l"
    unfolding wp_bind
    by (intro wp_mono [OF handle_echo_child]) (auto simp: seq_def wp_simps split: res.splits)
  then show "wp (fork_echo_once s u)
      (seq (next_or (\<lambda>u. in_child) (\<lambda>r. in_child)) (\<lambda>r. in_child)) K N l"
    by (simp add: wp_def fork_echo_once_eq)
qed (use assms in auto)

lemma fork_child_serves:
  assumes "s \<in> F" "open_fds posix_fds l = F" "disciplined posix_fds l" "in_child l"
  shows "wp (fork_handle_echo s) (child_frame F) K N l"
  unfolding child_frame_def wp_conj
  by (intro conjI fork_handle_echo_frame fork_handle_echo_child) (use assms in auto)

text \<open>The whole child, from the answer of \<open>fork\<close> on.\<close>

lemma fork_child_step:
  assumes "open_fds posix_fds l = {lfd, fd}" "fd \<noteq> lfd" "disciplined posix_fds l" "in_child l"
  shows "wp (fork_child lfd fd) (seq (\<lambda>x l. False) fork_good) K N l"
proof -
  have child: "wp (fork_handle_echo fd) (child_frame {fd}) K N l'"
    if "open_fds posix_fds l' = {fd}" "disciplined posix_fds l'" "in_child l'" for l'
    by (rule fork_child_serves) (use that in auto)
  have closed: "open_fds posix_fds l - {lfd} = {fd}" using assms(1,2) by auto
  show ?thesis
    unfolding fork_child_def wp_simps
    using assms closed
    by (auto simp: wp_simps fork_good_def child_frame_def echo_frame_def seq_def
        intro!: wp_mono [OF child] split: option.splits res.splits)
qed

lemma fork_iteration_step:
  assumes "obeys K fresh" "fork_inv lfd u l"
  shows "wp (fork_iteration lfd u) (seq (next_or (fork_inv lfd) fork_good) fork_good) K N l"
  unfolding fork_iteration_def
proof (rule wp_sysI [OF assms(1)])
  have inv: "open_fds posix_fds l = {lfd}" "disciplined posix_fds l" "\<not> in_child l"
    "transfers l = 0" using assms(2) by (simp_all add: fork_inv_def)
  then show "seq (next_or (fork_inv lfd) fork_good) fork_good Wait l"
    by (simp add: fork_good_def)
  fix a assume a: "fresh l (Accept lfd) a"
  have child: "wp (fork_child lfd (rv a)) (seq (next_or (fork_inv lfd) fork_good) fork_good) K N
      (Ev Fork f # Ev (Accept lfd) a # l)" if "rv f = 0" "0 \<le> rv a" for f
    by (rule wp_mono [OF fork_child_step])
      (use inv a that in \<open>auto simp: fresh_fds_def fork_good_def seq_def split: res.splits\<close>)
  have two: "card {lfd, rv a} \<le> 2" by (simp add: card_insert_if)
  have closed: "{lfd, rv a} - {rv a} = {lfd}" if "0 \<le> rv a"
    using a inv that by (auto simp: fresh_fds_def)
  show "wp (if rv a < 0 then if err a = EINTR
        then perror ''>>> 'accept' was interrupted, accept again'' (ret (Inl ()))
        else perror ''>>> exit - some other problem '' (exit 1)
      else sys Fork (\<lambda>f. if rv f < 0 then perror ''>>> fork'' (exit 1)
        else if rv f = 0 then fork_child lfd (rv a)
        else sys (Close (rv a)) (\<lambda>_. ret (Inl ()))))
      (seq (next_or (fork_inv lfd) fork_good) fork_good) K N (Ev (Accept lfd) a # l)"
    using inv child two closed
    by (simp add: wp_simps fork_inv_def fork_good_def split: option.split)
qed

interpretation forking: service "fork_iteration lfd" fresh "fork_inv lfd" fork_good for lfd
  by unfold_locales (auto intro: fork_iteration_step simp: fork_inv_def fork_good_def)

lemma fork_setup_step:
  "obeys K fresh \<Longrightarrow> wp fork_setup (seq (\<lambda>lfd. fork_inv lfd ()) fork_good) K N []"
  by (auto simp: fork_setup_def wp_simps fork_inv_def fork_good_def split: option.split)

text \<open>
  C3: \<open>s_fork\<close>, in the parent and in every child: each call is on an open descriptor; the parent
  never reads or writes a client's socket and closes it before the next \<open>accept\<close> (at most two
  descriptors are open); a child that ends regularly has closed every descriptor.
\<close>

theorem s_fork_descriptors:
  assumes "obeys K fresh"
  shows "case s_fork K N [] of (r, l) \<Rightarrow>
    disciplined posix_fds l \<and> r \<noteq> Val () \<and> card (open_fds posix_fds l) \<le> 2 \<and>
    (\<not> in_child l \<longrightarrow> transfers l = 0) \<and>
    (in_child l \<and> r = Exit 0 \<longrightarrow> open_fds posix_fds l = {})"
proof -
  have "wp s_fork fork_good K N []"
    unfolding s_fork_def by (rule wp_bindI [OF fork_setup_step [OF assms] forking.serves [OF assms]])
  then show ?thesis by (auto simp: wp_def fork_good_def)
qed

definition fork_script :: "resp list" where
  "fork_script = [ok 0, ok 3, ok 0, ok 0, failed EINTR, ok 4, ok 120, ok 0,
     ok 4, ok 0, ok 0, with_nums 0 [1, 40000], got [104], got [10], ok 100, ok 0, ok 0]"

theorem s_fork_descriptors_witness:
  "(case s_fork (guarded fresh (play fork_script)) 10 [] of (r, l) \<Rightarrow>
      disciplined posix_fds l \<and> r \<noteq> Val () \<and> card (open_fds posix_fds l) \<le> 2 \<and>
      (\<not> in_child l \<longrightarrow> transfers l = 0) \<and>
      (in_child l \<and> r = Exit 0 \<longrightarrow> open_fds posix_fds l = {})) \<and>
   fst (s_fork (guarded fresh (play fork_script)) 10 []) = Exit 0 \<and>
   in_child (snd (s_fork (guarded fresh (play fork_script)) 10 []))"
  by (rule conjI [OF s_fork_descriptors [OF obeys_guarded]]) code_simp

section \<open>Reaping\<close>

text \<open>The lines printed for one collected child, newest first.\<close>

definition chld_lines :: "resp \<Rightarrow> posix history" where
  "chld_lines w =
     (if WIFSIGNALED (num w 0) then [Out [S ''>>terminated by signal '', D (WTERMSIG (num w 0))]]
      else []) @
     (if WIFEXITED (num w 0) then [Out [S ''>>exit status '', D (WEXITSTATUS (num w 0))]]
      else []) @
     [Out [S ''>>> child '', D (rv w), S '' terminated'']]"

definition collected :: "resp list \<Rightarrow> posix history \<Rightarrow> posix history" where
  "collected ws l = fold (\<lambda>w l. chld_lines w @ Ev Waitpid w # l) ws l"

lemma collected_snoc [simp]:
  "collected [] l = l"
  "collected (ws @ [w]) l = chld_lines w @ Ev Waitpid w # collected ws l"
  by (simp_all add: collected_def)

lemma wp_chld_report:
  "wp (chld_report (rv w) (num w 0) k) Q K N (Ev Waitpid w # l) =
     wp k Q K N (chld_lines w @ Ev Waitpid w # l)"
  by (simp add: chld_report_def chld_lines_def wp_simps)

text \<open>
  The handler of \<open>SIGCHLD\<close> collects every child that has ended, not one: it goes on until
  \<open>waitpid\<close> has no more, and prints for each exactly one of an exit status (0 to 255) or a
  terminating signal (1 to 126), or neither when the child is stopped.
\<close>

theorem chld_handler_reaps:
  assumes "chld_handler K N l = (Val (), l')"
  shows "\<exists>ws w. l' = Ev Waitpid w # collected ws l \<and> rv w \<le> 0 \<and>
    (\<forall>x \<in> set ws. 0 < rv x \<and> length (chld_lines x) \<le> 2 \<and>
       0 \<le> WEXITSTATUS (num x 0) \<and> WEXITSTATUS (num x 0) < 256)"
proof -
  let ?I = "\<lambda>u l1. \<exists>ws. l1 = collected ws l \<and> (\<forall>x \<in> set ws. 0 < rv x)"
  let ?Q = "\<lambda>r l1. r = Val () \<longrightarrow> (\<exists>ws w. l1 = Ev Waitpid w # collected ws l \<and> rv w \<le> 0 \<and>
      (\<forall>x \<in> set ws. 0 < rv x))"
  have next_I: "?I () (chld_lines x @ Ev Waitpid x # collected ws l)"
    if "0 < rv x" "\<forall>x \<in> set ws. 0 < rv x" for x ws
    by (intro exI [of _ "ws @ [x]"]) (use that in auto)
  have "wp chld_handler ?Q K N l"
    unfolding chld_handler_def
  proof (rule wp_loop [where I = ?I])
    show "?I () l" by (intro exI [of _ "[]"]) simp
  qed (auto simp: wp_simps wp_chld_report not_less intro!: next_I split: option.split)
  then obtain ws w where "l' = Ev Waitpid w # collected ws l" "rv w \<le> 0" "\<forall>x \<in> set ws. 0 < rv x"
    using assms by (auto simp: wp_def)
  moreover have "length (chld_lines x) \<le> 2" for x
    by (simp add: chld_lines_def WIFSIGNALED_def WIFEXITED_def)
  ultimately show ?thesis by (fastforce simp: WEXITSTATUS_def)
qed

theorem chld_handler_reaps_witness:
  "\<exists>ws w. snd (chld_handler (play [with_nums 120 [256], with_nums 121 [9], ok 0]) 5 []) =
      Ev Waitpid w # collected ws [] \<and> rv w \<le> 0 \<and>
    (\<forall>x \<in> set ws. 0 < rv x \<and> length (chld_lines x) \<le> 2 \<and>
       0 \<le> WEXITSTATUS (num x 0) \<and> WEXITSTATUS (num x 0) < 256)"
proof (rule chld_handler_reaps)
  have "fst (chld_handler (play [with_nums 120 [256], with_nums 121 [9], ok 0]) 5 []) = Val ()"
    by code_simp
  then show "chld_handler (play [with_nums 120 [256], with_nums 121 [9], ok 0]) 5 [] =
      (Val (), snd (chld_handler (play [with_nums 120 [256], with_nums 121 [9], ok 0]) 5 []))"
    by (metis prod.collapse)
qed

section \<open>The time server\<close>

lemma time_message_cstr:
  "cstr (time_message ct) = take 24 (cstr ct) @ [27, 114, 27, 110]"
  "terminated (time_message ct)"
proof -
  let ?t = "take 24 (cstr ct) @ [27, 114, 27, 110 :: byte]"
  have "length ?t \<le> MAXLEN" by simp
  then have m: "time_message ct = ?t @ [0]" by (simp add: time_message_def Let_def)
  have "0 \<notin> set ?t" using in_set_takeD [of 0 24 "cstr ct"] by auto
  then show "cstr (time_message ct) = ?t" unfolding m by (rule cstr_append_nul)
  show "terminated (time_message ct)" by (simp add: m terminated_def)
qed

text \<open>Every \<open>write\<close> sends the text of a \<open>time\<close> answer of the same history.\<close>

definition time_writes :: "posix history \<Rightarrow> bool" where
  "time_writes l \<longleftrightarrow> (\<forall>fd bs r. Ev (Write fd bs) r \<in> set l \<longrightarrow>
     (\<exists>t. Ev Time t \<in> set l \<and> bs = take 24 (cstr (bytes t)) @ [27, 114, 27, 110]))"

lemma time_writes_simps [simp]:
  "time_writes []"
  "time_writes (Out os # l) = time_writes l"
  "(\<And>fd bs. c \<noteq> Write fd bs) \<Longrightarrow> time_writes l \<Longrightarrow> time_writes (Ev c r # l)"
  "time_writes l \<Longrightarrow> time_writes (Ev (Write fd bs) w # Ev Time t # l) \<longleftrightarrow>
     bs = take 24 (cstr (bytes t)) @ [27, 114, 27, 110] \<or>
     (\<exists>t. Ev Time t \<in> set l \<and> bs = take 24 (cstr (bytes t)) @ [27, 114, 27, 110])"
  by (auto simp: time_writes_def) blast+

definition time_inv :: "int \<Rightarrow> unit \<Rightarrow> posix history \<Rightarrow> bool" where
  "time_inv lfd u l \<longleftrightarrow> open_fds posix_fds l = {lfd} \<and> disciplined posix_fds l \<and> time_writes l"

definition time_good :: "unit res \<Rightarrow> posix history \<Rightarrow> bool" where
  "time_good r l \<longleftrightarrow> disciplined posix_fds l \<and> r \<noteq> Val () \<and> time_writes l \<and>
     card (open_fds posix_fds l) \<le> 2"

lemma time_iteration_step:
  assumes "obeys K fresh" "time_inv lfd u l"
  shows "wp (time_iteration lfd u) (seq (next_or (time_inv lfd) time_good) time_good) K N l"
  unfolding time_iteration_def
proof (rule wp_sysI [OF assms(1)])
  have inv: "open_fds posix_fds l = {lfd}" "disciplined posix_fds l" "time_writes l"
    using assms(2) by (simp_all add: time_inv_def)
  then show "seq (next_or (time_inv lfd) time_good) time_good Wait l"
    by (simp add: time_good_def)
  fix a assume a: "fresh l (Accept lfd) a"
  have two: "card {lfd, rv a} \<le> 2" by (simp add: card_insert_if)
  have closed: "{lfd, rv a} - {rv a} = {lfd}" if "0 \<le> rv a"
    using a inv that by (auto simp: fresh_fds_def)
  show "wp (if rv a < 0 then perror ''>>> accept'' (exit 1)
      else sys Fork (\<lambda>f. if rv f < 0 then perror ''>>> fork'' (exit 1)
        else if rv f = 0 then time_child (rv a)
        else sys (Close (rv a)) (\<lambda>_. ret (Inl ()))))
      (seq (next_or (time_inv lfd) time_good) time_good) K N (Ev (Accept lfd) a # l)"
    using inv two closed
    by (simp add: wp_simps time_inv_def time_good_def time_child_def Let_def time_message_cstr
        split: option.split)
qed

interpretation timing: service "time_iteration lfd" fresh "time_inv lfd" time_good for lfd
  by unfold_locales (auto intro: time_iteration_step simp: time_inv_def time_good_def)

lemma time_setup_step:
  "obeys K fresh \<Longrightarrow> wp time_setup (seq (\<lambda>lfd. time_inv lfd ()) time_good) K N []"
  by (auto simp: time_setup_def wp_simps time_inv_def time_good_def split: option.split)

text \<open>
  Whatever a process of \<open>s_time_fork\<close> writes to a client is the first 24 characters of the
  \<open>ctime\<close> text of a time it has asked for, followed by ESC r ESC n (the source has \<open>"\er\en"\<close>
  where CR LF is meant), at most 28 bytes and no NUL; its calls are on open descriptors.
\<close>

theorem s_time_fork_reports:
  assumes "obeys K fresh"
  shows "case s_time_fork K N [] of (r, l) \<Rightarrow>
    disciplined posix_fds l \<and> r \<noteq> Val () \<and> card (open_fds posix_fds l) \<le> 2 \<and>
    (\<forall>fd bs w. Ev (Write fd bs) w \<in> set l \<longrightarrow> 0 \<notin> set bs \<and> length bs \<le> 28 \<and>
       (\<exists>t. Ev Time t \<in> set l \<and> bs = take 24 (cstr (bytes t)) @ [27, 114, 27, 110]))"
proof -
  have "wp s_time_fork time_good K N []"
    unfolding s_time_fork_def
    by (rule wp_bindI [OF time_setup_step [OF assms] timing.serves [OF assms]])
  then have good: "time_good r l" if "s_time_fork K N [] = (r, l)" for r l
    using that by (simp add: wp_def)
  have sent: "0 \<notin> set bs \<and> length bs \<le> 28"
    if "bs = take 24 (cstr ct) @ [27, 114, 27, 110 :: byte]" for bs ct
    using in_set_takeD [of 0 24 "cstr ct"] that by auto
  show ?thesis
  proof (cases "s_time_fork K N []")
    case (Pair r l)
    have "time_writes l" using good [OF Pair] by (simp add: time_good_def)
    then have "0 \<notin> set bs \<and> length bs \<le> 28 \<and>
        (\<exists>t. Ev Time t \<in> set l \<and> bs = take 24 (cstr (bytes t)) @ [27, 114, 27, 110])"
      if "Ev (Write fd bs) w \<in> set l" for fd bs w
      unfolding time_writes_def using that sent by blast
    moreover have "disciplined posix_fds l \<and> r \<noteq> Val () \<and> card (open_fds posix_fds l) \<le> 2"
      using good [OF Pair] by (simp add: time_good_def)
    ultimately show ?thesis unfolding Pair by blast
  qed
qed

definition time_script :: "resp list" where
  "time_script = [ok 3, ok 0, ok 0, ok 4, ok 120, ok 0, ok 4, ok 0, with_nums 0 [1, 40000],
     got (chars ''Thu Jan  1 00:00:00 1970'' @ [10, 0]), ok 28, ok 0]"

theorem s_time_fork_reports_witness:
  "(case s_time_fork (guarded fresh (play time_script)) 10 [] of (r, l) \<Rightarrow>
    disciplined posix_fds l \<and> r \<noteq> Val () \<and> card (open_fds posix_fds l) \<le> 2 \<and>
    (\<forall>fd bs w. Ev (Write fd bs) w \<in> set l \<longrightarrow> 0 \<notin> set bs \<and> length bs \<le> 28 \<and>
       (\<exists>t. Ev Time t \<in> set l \<and> bs = take 24 (cstr (bytes t)) @ [27, 114, 27, 110]))) \<and>
   fst (s_time_fork (guarded fresh (play time_script)) 10 []) = Exit 0"
  by (rule conjI [OF s_time_fork_reports [OF obeys_guarded]]) code_simp

end
