(* ===== verification/C_Lib.thy ===== *)
theory C_Lib
  imports Sys_Prelude
begin

text \<open>
  The parts of the C library that the programs use on text: decimal and hexadecimal printing
  (\<open>%d\<close>, \<open>%u\<close>, \<open>%02x\<close>), \<open>atoi\<close> and the \<open>%d\<close> of \<open>sscanf\<close>, \<open>snprintf\<close> into a buffer of a
  given size, \<open>strncpy\<close>, \<open>strncmp\<close>; and the round trip of printing and scanning a number.
\<close>

section \<open>Printing numbers\<close>

definition digit :: "int \<Rightarrow> byte" where
  "digit n = of_int (48 + n)"

function udec :: "int \<Rightarrow> byte list" where
  "udec n = (if n < 10 then [digit n] else udec (n div 10) @ [digit (n mod 10)])"
  by auto
termination by (relation "measure nat") auto

declare udec.simps [simp del]

definition dec :: "int \<Rightarrow> byte list" where
  "dec i = (if i < 0 then 45 # udec (- i) else udec i)"

definition hex_digit :: "nat \<Rightarrow> byte" where
  "hex_digit n = (if n < 10 then of_nat (48 + n) else of_nat (87 + n))"

fun uhex :: "nat \<Rightarrow> byte list" where
  "uhex n = (if n < 16 then [hex_digit n] else uhex (n div 16) @ [hex_digit (n mod 16)])"

declare uhex.simps [simp del]

text \<open>\<open>%02x\<close>\<close>

definition hex02 :: "nat \<Rightarrow> byte list" where
  "hex02 n = (if n < 16 then 48 # uhex n else uhex n)"

section \<open>Scanning numbers\<close>

definition is_digit :: "byte \<Rightarrow> bool" where
  "is_digit b \<longleftrightarrow> 48 \<le> b \<and> b \<le> 57"

definition is_space :: "byte \<Rightarrow> bool" where
  "is_space b \<longleftrightarrow> b = 32 \<or> (9 \<le> b \<and> b \<le> 13)"

definition digits_value :: "byte list \<Rightarrow> int" where
  "digits_value = foldl (\<lambda>a b. 10 * a + (uint b - 48)) 0"

text \<open>
  The value of a run of digits as \<open>strtol\<close> gives it (held at the ends of a 64-bit range) and
  its conversion to \<open>int\<close>.
\<close>

definition int32 :: "int \<Rightarrow> int" where
  "int32 i = signed_take_bit 31 i"

definition strtol_clamp :: "int \<Rightarrow> int" where
  "strtol_clamp i = max (- (2 ^ 63)) (min (2 ^ 63 - 1) i)"

text \<open>\<open>%d\<close> of \<open>sscanf\<close>: the number and the rest of the text, \<open>None\<close> when nothing matches.\<close>

definition scan_unsigned :: "bool \<Rightarrow> byte list \<Rightarrow> (int \<times> byte list) option" where
  "scan_unsigned neg bs =
     (let ds = takeWhile is_digit bs; v = digits_value ds in
      if ds = [] then None
      else Some (int32 (strtol_clamp (if neg then - v else v)), dropWhile is_digit bs))"

definition scan_int :: "byte list \<Rightarrow> (int \<times> byte list) option" where
  "scan_int bs = (case dropWhile is_space bs of
     [] \<Rightarrow> None
   | b # r \<Rightarrow>
       if b = 45 then scan_unsigned True r
       else if b = 43 then scan_unsigned False r
       else scan_unsigned False (b # r))"

definition atoi :: "byte list \<Rightarrow> int" where
  "atoi bs = (case scan_int bs of None \<Rightarrow> 0 | Some (v, r) \<Rightarrow> v)"

section \<open>Buffers\<close>

text \<open>
  \<open>snprintf (buf, n, ...)\<close>: the text cut to \<open>n - 1\<close> bytes, followed by a NUL; \<open>strncpy\<close>
  copies at most \<open>n\<close> bytes and pads with NULs.
\<close>

definition snprintf :: "nat \<Rightarrow> byte list \<Rightarrow> byte list" where
  "snprintf n bs = take (n - 1) bs"

definition strncpy :: "nat \<Rightarrow> byte list \<Rightarrow> byte list" where
  "strncpy n src = take n (cstr src) @ zeros (n - strlen src)"

text \<open>\<open>fgets\<close> stores at most \<open>n - 1\<close> bytes and a NUL; at end of file it stores nothing.\<close>

definition fgets_store :: "byte list \<Rightarrow> resp \<Rightarrow> byte list" where
  "fgets_store buf f = (if rv f = 0 then buf else fill buf (bytes f @ [0]))"

section \<open>The round trip\<close>

lemma uint_digit: "0 \<le> n \<Longrightarrow> n < 10 \<Longrightarrow> uint (digit n) = 48 + n"
  unfolding digit_def uint_word_of_int by simp

lemma is_digit_digit: "0 \<le> n \<Longrightarrow> n < 10 \<Longrightarrow> is_digit (digit n)"
  by (simp add: is_digit_def word_le_def uint_digit)

lemma udec_digits: "0 \<le> n \<Longrightarrow> \<forall>b \<in> set (udec n). is_digit b"
proof (induction n rule: udec.induct)
  case (1 n)
  then show ?case by (subst udec.simps) (auto simp: is_digit_digit)
qed

lemma udec_not_Nil [simp]: "udec n \<noteq> []"
  by (subst udec.simps) simp

lemma digits_value_snoc: "digits_value (ds @ [d]) = 10 * digits_value ds + (uint d - 48)"
  by (simp add: digits_value_def)

lemma digits_value_udec [simp]: "0 \<le> n \<Longrightarrow> digits_value (udec n) = n"
proof (induction n rule: udec.induct)
  case (1 n)
  show ?case
  proof (cases "n < 10")
    case True
    then show ?thesis using 1(2) by (subst udec.simps) (simp add: digits_value_def uint_digit)
  next
    case False
    then show ?thesis
      using 1 by (subst udec.simps) (simp add: digits_value_snoc uint_digit)
  qed
qed

lemma length_udec: "0 < k \<Longrightarrow> n < 10 ^ k \<Longrightarrow> length (udec n) \<le> k"
proof (induction n arbitrary: k rule: udec.induct)
  case (1 n)
  show ?case
  proof (cases "n < 10")
    case True
    then show ?thesis using 1(2) by (subst udec.simps) simp
  next
    case False
    then obtain j where j: "k = Suc j" "0 < j" using 1(2,3) by (cases k; cases "k - 1") auto
    have "n div 10 < 10 ^ j" using 1(3) j False by simp
    then show ?thesis using 1(1) [OF False j(2)] False j by (subst udec.simps) simp
  qed
qed

lemma takeWhile_digits:
  assumes "\<forall>b \<in> set ds. is_digit b" "rest = [] \<or> \<not> is_digit (hd rest)"
  shows "takeWhile is_digit (ds @ rest) = ds" "dropWhile is_digit (ds @ rest) = rest"
  using assms by (induction ds; cases rest; auto)+

lemma int32_id: "- (2 ^ 31) \<le> i \<Longrightarrow> i < 2 ^ 31 \<Longrightarrow> int32 i = i"
  by (simp add: int32_def signed_take_bit_int_eq_self)

lemma sint_uint32: "0 \<le> n \<Longrightarrow> n < 2 ^ 31 \<Longrightarrow> sint (word_of_int n :: 32 word) = n"
  unfolding sint_sbintrunc' by (simp add: signed_take_bit_int_eq_self)

lemma scan_unsigned_udec:
  assumes "rest = [] \<or> \<not> is_digit (hd rest)" "0 \<le> n" "n \<le> 2 ^ 31" "neg \<or> n < 2 ^ 31"
  shows "scan_unsigned neg (udec n @ rest) = Some (if neg then - n else n, rest)"
proof -
  have "int32 (strtol_clamp (if neg then - n else n)) = (if neg then - n else n)"
    using assms(2-4) by (auto simp: strtol_clamp_def int32_id)
  then show ?thesis
    using assms(2)
    by (auto simp: scan_unsigned_def takeWhile_digits [OF udec_digits assms(1)] Let_def)
qed

lemma digit_not_special: "is_digit b \<Longrightarrow> \<not> is_space b \<and> b \<noteq> 45 \<and> b \<noteq> 43 \<and> b \<noteq> 0"
  by (auto simp: is_digit_def is_space_def word_le_nat_alt)

lemma scan_int_dec:
  assumes "rest = [] \<or> \<not> is_digit (hd rest)" "- (2 ^ 31) \<le> i" "i < 2 ^ 31"
  shows "scan_int (dec i @ rest) = Some (i, rest)"
proof (cases "i < 0")
  case True
  have "\<not> is_space 45" by (simp add: is_space_def)
  then show ?thesis
    using True assms(2) scan_unsigned_udec [OF assms(1), of "- i" True]
    by (simp add: dec_def scan_int_def)
next
  case False
  obtain d ds where d: "udec i = d # ds" by (cases "udec i") auto
  then have "is_digit d" using udec_digits [of i] False by simp
  then have "\<not> is_space d" "d \<noteq> 45" "d \<noteq> 43" using digit_not_special by auto
  then show ?thesis
    using False assms(3) d scan_unsigned_udec [OF assms(1), of i False]
    by (simp add: dec_def scan_int_def)
qed

lemma atoi_dec: "- (2 ^ 31) \<le> i \<Longrightarrow> i < 2 ^ 31 \<Longrightarrow> atoi (dec i) = i"
  using scan_int_dec [of "[]" i] by (simp add: atoi_def)

lemma dec_no_nul: "0 \<notin> set (dec i)"
proof -
  have "\<not> is_digit 0" using digit_not_special [of 0] by blast
  then show ?thesis
    using udec_digits [of i] udec_digits [of "- i"] by (auto simp: dec_def)
qed

lemma length_dec: "0 < k \<Longrightarrow> \<bar>i\<bar> < 10 ^ k \<Longrightarrow> length (dec i) \<le> Suc k"
  using length_udec [of k "\<bar>i\<bar>"] by (auto simp: dec_def split: if_split_asm)

end
