(* ===== verification/Echo_Client.thy ===== *)
theory Echo_Client
  imports Echo_Select C_Lib
begin

text \<open>
  \<open>tcp/c/echo/c_select.c\<close>: the client of the echo servers. It waits for a line on its standard
  input (descriptor 0) or for data from the server. Its state is the \<open>fd_set\<close>, which the code
  never clears: the descriptors in it before the first \<open>FD_SET\<close> are arbitrary, later ones are
  those that \<open>select\<close> left in it. The server's properties and the client's meet in the round
  trip at the end.
\<close>

definition FD_SET :: "int \<Rightarrow> int list \<Rightarrow> int list" where
  "FD_SET fd fds = (if fd \<in> set fds then fds else fds @ [fd])"

text \<open>The part for standard input: \<open>Some v\<close> is a \<open>return v\<close>.\<close>

definition client_send :: "int \<Rightarrow> (int option, posix) io" where
  "client_send sockfd =
     sys (Fgets (MAXLEN - 1)) (\<lambda>f.
     let send = fgets_store (zeros MAXLEN) f in
     if strlen send = 0 then ret (Some 0)
     else
       sys (Write sockfd (take (strlen send) send)) (\<lambda>w.
       if rv w < 0 then ret (Some (-1)) else ret None))"

text \<open>The part for the socket. Printing \<open>recv\<close> as a string needs a NUL in it.\<close>

definition client_receive :: "int \<Rightarrow> (int option, posix) io" where
  "client_receive sockfd =
     sys (Read sockfd MAXLEN) (\<lambda>r.
     let recv = fill (zeros MAXLEN) (bytes r) in
     if rv r < 0 then ret (Some (-1))
     else if rv r = 0 then say [S ''>>> server terminated prematurely''] (ret (Some 0))
     else if terminated recv then
       say [S ''>>> reading from server: '', B (cstr recv)] (ret None)
     else fault ''echo_handler: recv is not terminated'')"

definition client_on_socket :: "int \<Rightarrow> int list \<Rightarrow> (int list + int, posix) io" where
  "client_on_socket sockfd rset =
     bind (if sockfd \<in> set rset then client_receive sockfd else ret None) (\<lambda>y.
     case y of Some v \<Rightarrow> ret (Inr v) | None \<Rightarrow> ret (Inl rset))"

definition client_on_ready :: "int \<Rightarrow> int list \<Rightarrow> (int list + int, posix) io" where
  "client_on_ready sockfd rset =
     bind (if 0 \<in> set rset then client_send sockfd else ret None) (\<lambda>x.
     case x of Some v \<Rightarrow> ret (Inr v) | None \<Rightarrow> client_on_socket sockfd rset)"

definition client_round :: "int \<Rightarrow> int list \<Rightarrow> (int list + int, posix) io" where
  "client_round sockfd rset0 =
     (let rset = FD_SET sockfd (FD_SET 0 rset0) in
      sys (Select (sockfd + 1) rset None) (\<lambda>s.
      if rv s < 0 then
        (if err s = EINTR then
           perror ''>>> 'accept' was interrupted, accept again'' (ret (Inl rset))
         else perror ''>>> select'' (exit 1))
      else client_on_ready sockfd (ready s)))"

definition client_echo_handler :: "int list \<Rightarrow> int \<Rightarrow> (int, posix) io" where
  "client_echo_handler junk sockfd = loop (client_round sockfd) junk"

definition c_select :: "int list \<Rightarrow> string list \<Rightarrow> (unit, posix) io" where
  "c_select junk argv =
     sys (Sigaction ''SIGPIPE'') (\<lambda>_.
     sys (Sigaction ''SIGUSR1'') (\<lambda>_.
     if length argv \<noteq> 2 then say [S ''Usage: '', S (argv ! 0), S '' <ip>''] (exit 0) else
     sys (Socket AF_INET SOCK_STREAM) (\<lambda>s.
     if rv s < 0 then perror ''>>> socket'' (exit 1) else
     sys (Inet_pton AF_INET (chars (argv ! 1))) (\<lambda>a.
     if rv a \<le> 0 then perror ''>>> inet_pton'' (exit 1) else
     sys (Connect (rv s) (SockIn (num a 0) 10000)) (\<lambda>c.
     if rv c < 0 then perror ''>>> connect'' (exit 1) else
     sys (Getsockname (rv s)) (\<lambda>n.
     if rv n < 0 then perror ''>>> getpeername'' (exit 1) else
     say [S ''>>> Local socket:  ADDR '', D (num n 0), S '' PORT '', D (num n 1)]
      (bind (client_echo_handler junk (rv s)) (\<lambda>v.
       if v < 0 then perror ''>>> echo_handler'' (exit 1)
       else sys (Close (rv s)) (\<lambda>_. exit 0)))))))))"

definition client_usr_handler :: "(unit, posix) io" where
  "client_usr_handler = say [S ''>>> got SIGUSR1''] (ret ())"

definition client_pipe_handler :: "(unit, posix) io" where
  "client_pipe_handler = say [S ''>>> got SIGPIPE''] (exit 1)"

section \<open>Every run of the client\<close>

text \<open>What the client relies on: fresh descriptors, and no more bytes than were asked for.\<close>

definition client_ok :: "posix contract" where
  "client_ok l c r \<longleftrightarrow> fresh l c r \<and> (case c of
     Fgets n \<Rightarrow> length (bytes r) < n
   | Read fd n \<Rightarrow> length (bytes r) \<le> n
   | _ \<Rightarrow> True)"

text \<open>
  The discipline of the socket, and of the data: what is written is non-empty, at most 98 bytes
  and holds no NUL, what is printed holds no NUL.
\<close>

definition client_data :: "posix history \<Rightarrow> bool" where
  "client_data = writes_ok (\<lambda>bs. bs \<noteq> [] \<and> length bs \<le> 98 \<and> 0 \<notin> set bs)"

definition client_inv :: "int \<Rightarrow> posix history \<Rightarrow> bool" where
  "client_inv s l \<longleftrightarrow> open_fds posix_fds l = {s} \<and> disciplined posix_fds l \<and> client_data l"

lemma client_inv_keep [simp]:
  "client_inv s (Out os # l) = client_inv s l"
  "client_inv s (Ev (Select n fs t) r # l) = client_inv s l"
  "client_inv s (Ev (Fgets k) r # l) = client_inv s l"
  "client_inv s l \<Longrightarrow> client_inv s (Ev (Read s k) r # l)"
  by (auto simp: client_inv_def client_data_def)

lemma fgets_store_cstr:
  assumes "strlen (fgets_store (zeros MAXLEN) f) \<noteq> 0" "length (bytes f) < 99"
  shows "cstr (fgets_store (zeros MAXLEN) f) \<noteq> []"
    "length (cstr (fgets_store (zeros MAXLEN) f)) \<le> 98"
proof -
  show "cstr (fgets_store (zeros MAXLEN) f) \<noteq> []" using assms(1) by (auto simp: strlen_def)
  have z: "cstr (zeros MAXLEN) = []"
    using cstr_append_zeros [of "[]" MAXLEN] by simp
  have "length (cstr (bs @ 0 # ys)) \<le> length bs" for bs ys :: "byte list"
    by (induction bs) (auto simp: cstr_def)
  from order_trans [OF this [of "bytes f"]]
  show "length (cstr (fgets_store (zeros MAXLEN) f)) \<le> 98"
    using assms(2) z by (simp add: fgets_store_def fill_def)
qed

lemma client_send_step:
  assumes "obeys K client_ok" "client_inv s l"
  shows "wp (client_send s) (\<lambda>r. client_inv s) K N l"
  unfolding client_send_def
proof (rule wp_sysI [OF assms(1)])
  show "client_inv s l" by (rule assms(2))
  fix f assume f: "client_ok l (Fgets (MAXLEN - 1)) f"
  then have len: "length (bytes f) < 99" by (simp add: client_ok_def)
  let ?send = "fgets_store (zeros MAXLEN) f"
  have "client_inv s (Ev (Write s (cstr ?send)) w # Ev (Fgets (MAXLEN - 1)) f # l)"
    if "strlen ?send \<noteq> 0" for w
    using fgets_store_cstr [OF that len] assms(2) by (simp add: client_inv_def client_data_def)
  then show "wp (let send = ?send in if strlen send = 0 then ret (Some 0)
      else sys (Write s (take (strlen send) send)) (\<lambda>w. if rv w < 0 then ret (Some (-1))
        else ret None)) (\<lambda>r. client_inv s) K N (Ev (Fgets (MAXLEN - 1)) f # l)"
    using assms(2) by (simp add: Let_def wp_simps split: option.split)
qed

lemma client_receive_step:
  "client_inv s l \<Longrightarrow> wp (client_receive s) (\<lambda>r. client_inv s) K N l"
  by (simp add: client_receive_def Let_def wp_simps split: option.split)

abbreviation client_next :: "int \<Rightarrow> (int list + int) res \<Rightarrow> posix history \<Rightarrow> bool" where
  "client_next s \<equiv> seq (next_or (\<lambda>fds. client_inv s) (\<lambda>r. client_inv s))
     (\<lambda>r :: int res. client_inv s)"

lemma client_on_socket_step:
  "client_inv s l \<Longrightarrow> wp (client_on_socket s fds) (client_next s) K N l"
  unfolding client_on_socket_def
  by (rule wp_bindI [where P = "\<lambda>a. client_inv s"])
    (auto simp: wp_ret seq_def intro!: wp_mono [OF client_receive_step]
      split: res.splits option.splits)

lemma client_on_ready_step:
  "obeys K client_ok \<Longrightarrow> client_inv s l \<Longrightarrow> wp (client_on_ready s fds) (client_next s) K N l"
  unfolding client_on_ready_def
  by (rule wp_bindI [where P = "\<lambda>a. client_inv s"])
    (auto simp: wp_ret seq_def intro!: wp_mono [OF client_send_step]
      wp_mono [OF client_on_socket_step] split: res.splits option.splits)

lemma client_round_step:
  "obeys K client_ok \<Longrightarrow> client_inv s l \<Longrightarrow> wp (client_round s fds) (client_next s) K N l"
  by (simp add: client_round_def Let_def wp_sys wp_if wp_say wp_ret wp_exit client_on_ready_step
      split: option.split)

interpretation client: service "client_round s" client_ok "\<lambda>fds. client_inv s" "\<lambda>r. client_inv s" for s
  by unfold_locales (auto intro: client_round_step)

text \<open>
  In every run of \<open>c_select\<close>, whatever its uncleared \<open>fd_set\<close> holds, calls are on the open
  socket, and each \<open>write\<close> sends between 1 and 98 bytes without a NUL.
\<close>

theorem c_select_sends_strings:
  assumes "obeys K client_ok"
  shows "case c_select junk argv K N [] of (r, l) \<Rightarrow> disciplined posix_fds l \<and>
    (\<forall>fd bs w. Ev (Write fd bs) w \<in> set l \<longrightarrow> bs \<noteq> [] \<and> length bs \<le> 98 \<and> 0 \<notin> set bs)"
proof -
  let ?Q = "\<lambda>r l. disciplined posix_fds l \<and> client_data l"
  have keep: "client_inv s l \<Longrightarrow> ?Q r l" for s r l by (simp add: client_inv_def)
  have serve: "wp (client_echo_handler junk s) (\<lambda>r. client_inv s) K N l" if "client_inv s l" for s l
    unfolding client_echo_handler_def by (rule client.serves [OF assms that])
  have start: "client_inv (rv s) (Out os # Ev (Getsockname (rv s)) n # Ev (Connect (rv s) ad) c
      # Ev (Inet_pton d ip) a # Ev (Socket AF_INET SOCK_STREAM) s # Ev (Sigaction s2) r2
      # [Ev (Sigaction s1) r1])" if "\<not> rv s < 0" for s os n c a ad d ip s1 s2 r1 r2
    using that by (simp add: client_inv_def client_data_def)
  have "wp (c_select junk argv) ?Q K N []"
    unfolding c_select_def
    by (auto simp: wp_simps seq_def start intro!: wp_mono [OF serve]
        simp: client_inv_def client_data_def split: option.splits res.splits)
  then show ?thesis
    by (auto simp: wp_def client_data_def dest: writes_okD)
qed

definition client_script :: "resp list" where
  "client_script = [ok 0, ok 0, ok 3, with_nums 1 [2130706433], ok 0, with_nums 0 [1, 40000],
     ready_fds [0], got [104, 10], ok 2, ready_fds [3], got (padded [104, 10]),
     ready_fds [0], ok 0, ok 0]"

theorem c_select_sends_strings_witness:
  "(case c_select [7] [''c_select'', ''127.0.0.1''] (guarded client_ok (play client_script)) 9 [] of
     (r, l) \<Rightarrow> disciplined posix_fds l \<and>
    (\<forall>fd bs w. Ev (Write fd bs) w \<in> set l \<longrightarrow> bs \<noteq> [] \<and> length bs \<le> 98 \<and> 0 \<notin> set bs)) \<and>
   fst (c_select [7] [''c_select'', ''127.0.0.1''] (guarded client_ok (play client_script)) 9 []) =
     Exit 0"
  by (rule conjI [OF c_select_sends_strings [OF obeys_guarded]]) code_simp

section \<open>The round trip\<close>

lemma fgets_store_line:
  assumes "0 < length line" "length line \<le> 98" "0 \<notin> set line"
  shows "cstr (fgets_store (zeros MAXLEN) (got line)) = line"
    "strlen (fgets_store (zeros MAXLEN) (got line)) \<noteq> 0"
  using assms by (auto simp: fgets_store_def fill_def strlen_def cstr_append_nul)

lemma fill_padded: "length bs \<le> MAXLEN \<Longrightarrow> fill (zeros MAXLEN) (padded bs) = padded bs"
  by (simp add: fill_def length_padded drop_zeros zeros_def)

text \<open>
  The server's reading loop on a byte stream that carries a line: the history after the first
  bytes, one for each call of \<open>read\<close>, and the run of the loop over them.
\<close>

definition byte_reads :: "int \<Rightarrow> byte list \<Rightarrow> posix history \<Rightarrow> posix history" where
  "byte_reads s bs l = reads s (map (\<lambda>b. got [b]) bs) l"

definition delivers :: "posix kernel \<Rightarrow> int \<Rightarrow> posix history \<Rightarrow> byte list \<Rightarrow> bool" where
  "delivers K s l line \<longleftrightarrow> (\<forall>i < length line.
     K (byte_reads s (take i line) l) (Read s 1) = Some (got [line ! i]))"

lemma byte_reads_simps [simp]:
  "byte_reads s [] l = l"
  "byte_reads s (bs @ [b]) l = Ev (Read s 1) (got [b]) # byte_reads s bs l"
  by (simp_all add: byte_reads_def)

lemma echo_read_delivered:
  assumes "delivers K s l (typed @ [10])" "10 \<notin> set typed" "length typed < MAXLEN"
    and "n \<le> length typed"
  shows "iter (length typed + f) (echo_read s) (zeros MAXLEN, 0) K N l =
    iter (length typed - n + f) (echo_read s) (padded (take n typed), n) K N
      (byte_reads s (take n typed) l)"
  using assms(4)
proof (induction n)
  case 0
  then show ?case by (simp add: padded_def)
next
  case (Suc n)
  then have n: "n < length typed" by simp
  then have "length typed - n + f = Suc (length typed - Suc n + f)" by simp
  moreover have "K (byte_reads s (take n typed) l) (Read s 1) = Some (got [typed ! n])"
    using assms(1) n by (auto simp: delivers_def nth_append dest: spec [of _ n])
  moreover have "typed ! n \<noteq> 10" using assms(2) n by (metis nth_mem)
  moreover have "(padded (take n typed))[n := typed ! n] = padded (take (Suc n) typed)"
    using padded_update [of "take n typed" "typed ! n"] n assms(3)
    by (simp add: take_Suc_conv_app_nth)
  ultimately show ?case
    using Suc.IH n assms(3)
    by (simp add: echo_read_def io_simps first_byte_def take_Suc_conv_app_nth)
qed

lemma handle_echo_serves:
  assumes "delivers K s l (typed @ [10])" "10 \<notin> set typed" "length typed < MAXLEN"
    and "length typed < N"
    and "K (byte_reads s (typed @ [10]) l) (Write s (padded (typed @ [10]))) = Some w" "0 \<le> rv w"
  shows "handle_echo s K N l =
    (Val 1, Ev (Write s (padded (typed @ [10]))) w # byte_reads s (typed @ [10]) l)"
proof -
  from assms(4) obtain f where N: "N = length typed + Suc f"
    by (metis add_Suc_right less_imp_Suc_add)
  have "K (byte_reads s typed l) (Read s 1) = Some (got [10])"
    using assms(1) by (auto simp: delivers_def dest: spec [of _ "length typed"])
  then have "iter N (echo_read s) (zeros MAXLEN, 0) K N l =
      (Val (Inr (padded (typed @ [10]))), byte_reads s (typed @ [10]) l)"
    using echo_read_delivered [OF assms(1-3) order_refl, of "Suc f" N] padded_update [OF assms(3), of 10]
      assms(3) by (simp add: N echo_read_def io_simps first_byte_def)
  then show ?thesis
    using assms(5,6) by (simp add: handle_echo_def io_simps)
qed

text \<open>
  C4: client and server together, for a line of at most 97 bytes other than NUL and newline,
  typed at the client and ended by a newline. The client writes the line to the socket as it is.
  A server whose kernel hands it these bytes in order, one for each \<open>read\<close>, and whose \<open>write\<close>
  does not fail, serves the line: it reads nothing past the newline and writes the line back,
  followed by NULs to 100 bytes. A client that gets these 100 bytes from one \<open>read\<close> prints
  exactly the line that was typed.
\<close>

theorem echo_round_trip:
  assumes "length typed \<le> 97" and "0 \<notin> set typed" and "10 \<notin> set typed"
    and "line = typed @ [10]"
    and "delivers K s l line" and "length line \<le> N"
    and "K (byte_reads s line l) (Write s (padded line)) = Some w" and "0 \<le> rv w"
  shows "client_send c (\<lambda>_ _. Some (got line)) n h =
      (Val None, Ev (Write c line) (got line) # Ev (Fgets 99) (got line) # h) \<and>
    handle_echo s K N l = (Val 1, Ev (Write s (padded line)) w # byte_reads s line l) \<and>
    length (padded line) = 100 \<and>
    client_receive c (\<lambda>_ _. Some (got (padded line))) n h =
      (Val None, Out [S ''>>> reading from server: '', B line]
         # Ev (Read c 100) (got (padded line)) # h)"
proof (intro conjI)
  have len: "0 < length line" "length line \<le> 98" and nul: "0 \<notin> set line"
    using assms(1,2,4) by auto
  show "client_send c (\<lambda>_ _. Some (got line)) n h =
      (Val None, Ev (Write c line) (got line) # Ev (Fgets 99) (got line) # h)"
    by (simp add: client_send_def Let_def io_simps fgets_store_line [OF len nul])
  show "handle_echo s K N l = (Val 1, Ev (Write s (padded line)) w # byte_reads s line l)"
    using assms handle_echo_serves [of K s l typed N w] by simp
  show "length (padded line) = 100" using len by (simp add: length_padded)
  have "terminated (padded line)" "cstr (padded line) = line"
    "fill (zeros MAXLEN) (padded line) = padded line"
    using len nul cstr_append_zeros [OF nul, of "MAXLEN - length line"]
    by (auto simp: terminated_def padded_def fill_padded zeros_def fill_def)
  then show "client_receive c (\<lambda>_ _. Some (got (padded line))) n h =
      (Val None, Out [S ''>>> reading from server: '', B line]
         # Ev (Read c 100) (got (padded line)) # h)"
    using len by (simp add: client_receive_def Let_def io_simps length_padded)
qed

text \<open>A session of the server's side: the line \<open>hi\<close>, one byte a \<open>read\<close>.\<close>

definition hi_session :: "posix kernel" where
  "hi_session = play [got [104], got [105], got [10], ok 100]"

theorem echo_round_trip_witness:
  "client_send 3 (\<lambda>_ _. Some (got [104, 105, 10])) 0 [] =
     (Val None, [Ev (Write 3 [104, 105, 10]) (got [104, 105, 10]),
       Ev (Fgets 99) (got [104, 105, 10])]) \<and>
   handle_echo 5 hi_session 9 [] = (Val 1, Ev (Write 5 (padded [104, 105, 10])) (ok 100)
       # byte_reads 5 [104, 105, 10] []) \<and>
   length (padded [104, 105, 10]) = 100 \<and>
   client_receive 3 (\<lambda>_ _. Some (got (padded [104, 105, 10]))) 0 [] =
     (Val None, [Out [S ''>>> reading from server: '', B [104, 105, 10]],
       Ev (Read 3 100) (got (padded [104, 105, 10]))])"
proof (rule echo_round_trip [where typed = "[104, 105]"])
  show "delivers hi_session 5 [] [104, 105, 10]"
    by (simp add: delivers_def hi_session_def All_less_Suc numeral_eq_Suc byte_reads_def reads_def
        play_def)
  show "hi_session (byte_reads 5 [104, 105, 10] []) (Write 5 (padded [104, 105, 10]))
      = Some (ok 100)"
    by code_simp
qed simp_all

text \<open>
  The same client on the longest line a server echoes, 100 bytes with the newline: what it
  reads fills \<open>recv\<close> without a NUL, and printing it as a string runs past the array. (A defect
  of the code; the client's own \<open>fgets\<close> never sends so long a line, another peer may.)
\<close>

theorem client_overreads:
  assumes "length line = MAXLEN" and "0 \<notin> set line"
  shows "\<exists>e. fst (client_receive c (\<lambda>_ _. Some (got (padded line))) n h) = Fault e"
proof -
  have "padded line = line" "fill (zeros MAXLEN) line = line"
    using assms(1) by (simp_all add: padded_def zeros_def fill_def)
  then show ?thesis
    using assms by (simp add: client_receive_def Let_def io_simps terminated_def)
qed

theorem client_overreads_witness:
  "\<exists>e. fst (client_receive 3 (\<lambda>_ _. Some (got (padded (replicate 99 97 @ [10])))) 0 []) = Fault e"
  by (rule client_overreads) simp_all

end
