(* ===== verification/Exec_Fd.thy ===== *)
theory Exec_Fd
  imports Posix
begin

text \<open>
  \<open>sem/exec_fd.c\<close>: parent and child read the same file descriptor in turn, kept in step by two
  named semaphores. The two processes run interleaved: a state holds the semaphores, the shared
  file offset and both processes, a step is one call of one of them, and \<open>SIGINT\<close> may run the
  parent's handler between any two steps. The contents of the file are a parameter.
\<close>

abbreviation (input) CYCLE :: nat where "CYCLE \<equiv> 5"

section \<open>State\<close>

datatype who = Child | Parent

text \<open>
  Where a process stands: the five calls of the loop body, then its three clean-up calls
  (\<open>sem_close\<close> twice in the child, \<open>sem_unlink\<close> twice in the parent, \<open>close\<close>) and \<open>exit\<close>.
\<close>

datatype pc = SemWait | ReadByte | Print | Sleep | SemPost | Drop_a | Drop_b | CloseFd | CallExit

record proc =
  at_pc :: pc
  cycles :: nat
  char_c :: byte
  status :: "int option"

text \<open>
  \<open>val_a\<close> and \<open>val_b\<close> are the values of the semaphores \<open>lock_a\<close>, on which the child waits, and
  \<open>lock_b\<close>, on which the parent waits; \<open>names\<close> are the semaphore names that exist, \<open>offset\<close> is
  the position of the open file that both processes share, \<open>printed\<close> what has been printed.
\<close>

record exec =
  val_a :: nat
  val_b :: nat
  offset :: nat
  names :: "string list"
  child :: proc
  parent :: proc
  printed :: "(who \<times> byte) list"
  errors :: "string list"

section \<open>The program\<close>

text \<open>\<open>main\<close> up to \<open>fork\<close>: the value is the descriptor and what \<open>fork\<close> has returned.\<close>

definition exec_setup :: "(int \<times> int, posix) io" where
  "exec_setup =
     sys (Sigprocmask ''SIGCHLD'') (\<lambda>_.
     sys (Sigaction ''SIGINT'') (\<lambda>_.
     sys (Open ''exec_fd.c'') (\<lambda>f.
     if rv f < 0 then perror ''open'' (exit 1) else
     sys (SemOpen ''my_sem_a'' 1) (\<lambda>a.
     sys (SemOpen ''my_sem_b'' 0) (\<lambda>b.
     if rv a = 0 \<or> rv b = 0 then perror ''sem_open'' (exit 1) else
     sys Fork (\<lambda>p.
     if rv p < 0 then perror ''fork'' (exit 1) else ret (rv f, rv p)))))))"

text \<open>
  After \<open>fork\<close>, with semaphores that did not exist before: both processes are at the head of
  their loops with the same uninitialised \<open>c\<close>.
\<close>

definition exec_init :: "byte \<Rightarrow> exec" where
  "exec_init c0 = (let p = \<lparr>at_pc = SemWait, cycles = 0, char_c = c0, status = None\<rparr> in
     \<lparr>val_a = 1, val_b = 0, offset = 0, names = [''my_sem_a'', ''my_sem_b''],
      child = p, parent = p, printed = [], errors = []\<rparr>)"

definition proc_of :: "who \<Rightarrow> exec \<Rightarrow> proc" where
  "proc_of w s = (case w of Child \<Rightarrow> child s | Parent \<Rightarrow> parent s)"

definition put_proc :: "who \<Rightarrow> proc \<Rightarrow> exec \<Rightarrow> exec" where
  "put_proc w p s = (case w of Child \<Rightarrow> s\<lparr>child := p\<rparr> | Parent \<Rightarrow> s\<lparr>parent := p\<rparr>)"

text \<open>The semaphore calls of a process; \<open>sem_wait\<close> does not return while the value is 0.\<close>

definition sem_wait :: "who \<Rightarrow> exec \<Rightarrow> exec option" where
  "sem_wait w s = (case w of
     Child \<Rightarrow> if val_a s = 0 then None else Some (s\<lparr>val_a := val_a s - 1\<rparr>)
   | Parent \<Rightarrow> if val_b s = 0 then None else Some (s\<lparr>val_b := val_b s - 1\<rparr>))"

definition sem_post :: "who \<Rightarrow> exec \<Rightarrow> exec" where
  "sem_post w s = (case w of
     Child \<Rightarrow> s\<lparr>val_b := val_b s + 1\<rparr>
   | Parent \<Rightarrow> s\<lparr>val_a := val_a s + 1\<rparr>)"

definition sem_unlink :: "string \<Rightarrow> exec \<Rightarrow> exec" where
  "sem_unlink n s = (if n \<in> set (names s) then s\<lparr>names := removeAll n (names s)\<rparr>
     else s\<lparr>errors := errors s @ [''sem_unlink'']\<rparr>)"

text \<open>\<open>read (fd, &c, 1)\<close>: at the end of the file \<open>c\<close> keeps its value.\<close>

definition read_byte :: "byte list \<Rightarrow> who \<Rightarrow> exec \<Rightarrow> exec" where
  "read_byte data w s =
     (if offset s < length data then
        put_proc w (proc_of w s\<lparr>char_c := data ! offset s\<rparr>) (s\<lparr>offset := offset s + 1\<rparr>)
      else s)"

text \<open>The clean-up calls: the child closes its handles, the parent removes the names.\<close>

definition drop_sem :: "who \<Rightarrow> string \<Rightarrow> exec \<Rightarrow> exec" where
  "drop_sem w n s = (case w of Child \<Rightarrow> s | Parent \<Rightarrow> sem_unlink n s)"

definition goto :: "who \<Rightarrow> pc \<Rightarrow> exec \<Rightarrow> exec" where
  "goto w q s = put_proc w (proc_of w s\<lparr>at_pc := q\<rparr>) s"

definition end_of_body :: "who \<Rightarrow> exec \<Rightarrow> exec" where
  "end_of_body w s = (let p = proc_of w s; n = cycles p + 1 in
     put_proc w (p\<lparr>cycles := n, at_pc := if n < CYCLE then SemWait else Drop_a\<rparr>) s)"

definition print_byte :: "who \<Rightarrow> exec \<Rightarrow> exec" where
  "print_byte w s = s\<lparr>printed := printed s @ [(w, char_c (proc_of w s))]\<rparr>"

definition leave :: "who \<Rightarrow> exec \<Rightarrow> exec" where
  "leave w s = put_proc w (proc_of w s\<lparr>status := Some 0\<rparr>) s"

text \<open>One step of a process, \<open>None\<close> when it has exited or is blocked.\<close>

definition exec_step :: "byte list \<Rightarrow> who \<Rightarrow> exec \<Rightarrow> exec option" where
  "exec_step data w s =
     (if status (proc_of w s) \<noteq> None then None
      else case at_pc (proc_of w s) of
        SemWait \<Rightarrow> map_option (goto w ReadByte) (sem_wait w s)
      | ReadByte \<Rightarrow> Some (goto w Print (read_byte data w s))
      | Print \<Rightarrow> Some (goto w Sleep (print_byte w s))
      | Sleep \<Rightarrow> Some (goto w SemPost s)
      | SemPost \<Rightarrow> Some (end_of_body w (sem_post w s))
      | Drop_a \<Rightarrow> Some (goto w Drop_b (drop_sem w ''my_sem_a'' s))
      | Drop_b \<Rightarrow> Some (goto w CloseFd (drop_sem w ''my_sem_b'' s))
      | CloseFd \<Rightarrow> Some (goto w CallExit s)
      | CallExit \<Rightarrow> Some (leave w s))"

text \<open>The handler of \<open>SIGINT\<close>, which the child blocks.\<close>

definition exec_int_handler :: "exec \<Rightarrow> exec" where
  "exec_int_handler s = leave Parent (sem_unlink ''my_sem_b'' (sem_unlink ''my_sem_a'' s))"

text \<open>Reachable states: any interleaving of the two processes, with or without a \<open>SIGINT\<close>.\<close>

inductive reachable :: "byte list \<Rightarrow> byte \<Rightarrow> exec \<Rightarrow> bool" for data c0 where
  start: "reachable data c0 (exec_init c0)"
| step: "reachable data c0 s \<Longrightarrow> exec_step data w s = Some s' \<Longrightarrow> reachable data c0 s'"
| sigint: "reachable data c0 s \<Longrightarrow> status (parent s) = None \<Longrightarrow>
    reachable data c0 (exec_int_handler s)"

text \<open>Runs without a signal, with the number of their steps.\<close>

inductive quiet_run :: "byte list \<Rightarrow> nat \<Rightarrow> exec \<Rightarrow> exec \<Rightarrow> bool" for data where
  none: "quiet_run data 0 s s"
| after: "quiet_run data n s s' \<Longrightarrow> exec_step data w s' = Some s'' \<Longrightarrow>
    quiet_run data (Suc n) s s''"

inductive_cases quiet_runE: "quiet_run data n s s'"

text \<open>A scheduler: the processes named by a list take their turns, a blocked one misses it.\<close>

primrec turns :: "byte list \<Rightarrow> who list \<Rightarrow> exec \<Rightarrow> exec" where
  "turns data [] s = s"
| "turns data (w # ws) s =
     turns data ws (case exec_step data w s of None \<Rightarrow> s | Some s' \<Rightarrow> s')"

lemma reachable_turns: "reachable data c0 s \<Longrightarrow> reachable data c0 (turns data ws s)"
  by (induction ws arbitrary: s) (auto intro: reachable.step split: option.split)

primrec made :: "byte list \<Rightarrow> who list \<Rightarrow> exec \<Rightarrow> nat" where
  "made data [] s = 0"
| "made data (w # ws) s = (case exec_step data w s of
     None \<Rightarrow> made data ws s | Some s' \<Rightarrow> Suc (made data ws s'))"

lemma quiet_first:
  "quiet_run data n s1 s' \<Longrightarrow> exec_step data w s = Some s1 \<Longrightarrow> quiet_run data (Suc n) s s'"
  by (induction rule: quiet_run.induct) (auto intro: quiet_run.intros)

lemma quiet_turns: "quiet_run data (made data ws s) s (turns data ws s)"
  by (induction ws arbitrary: s) (auto intro: quiet_run.none quiet_first split: option.split)

lemma quiet_reachable:
  "quiet_run data n s s' \<Longrightarrow> reachable data c0 s \<Longrightarrow> reachable data c0 s'"
  by (induction rule: quiet_run.induct) (auto intro: reachable.step)

section \<open>Accounting\<close>

text \<open>
  How far a process is in its loop body: 1 between its \<open>sem_wait\<close> and its \<open>sem_post\<close>, 1 once
  it has read, 1 once it has printed; and whether it has left the loop.
\<close>

fun inside :: "pc \<Rightarrow> nat" where
  "inside ReadByte = 1"
| "inside Print = 1"
| "inside Sleep = 1"
| "inside SemPost = 1"
| "inside q = 0"

fun has_read :: "pc \<Rightarrow> nat" where
  "has_read Print = 1"
| "has_read Sleep = 1"
| "has_read SemPost = 1"
| "has_read q = 0"

fun has_printed :: "pc \<Rightarrow> nat" where
  "has_printed Sleep = 1"
| "has_printed SemPost = 1"
| "has_printed q = 0"

fun cleaning :: "pc \<Rightarrow> bool" where
  "cleaning Drop_a = True"
| "cleaning Drop_b = True"
| "cleaning CloseFd = True"
| "cleaning CallExit = True"
| "cleaning q = False"

definition balanced :: "exec \<Rightarrow> bool" where
  "balanced s \<longleftrightarrow>
     val_a s + cycles (child s) + inside (at_pc (child s)) = 1 + cycles (parent s) \<and>
     val_b s + cycles (parent s) + inside (at_pc (parent s)) = cycles (child s) \<and>
     cycles (child s) \<le> CYCLE \<and> (cycles (child s) = CYCLE \<longleftrightarrow> cleaning (at_pc (child s))) \<and>
     cycles (parent s) \<le> CYCLE \<and> (cycles (parent s) = CYCLE \<longleftrightarrow> cleaning (at_pc (parent s))) \<and>
     (status (child s) \<noteq> None \<longrightarrow> at_pc (child s) = CallExit)"

lemmas call_defs = sem_wait_def sem_post_def sem_unlink_def read_byte_def drop_sem_def goto_def
  end_of_body_def print_byte_def leave_def proc_of_def put_proc_def Let_def

lemma balanced_init: "balanced (exec_init c0)"
  by (simp add: balanced_def exec_init_def Let_def)

lemma balanced_step:
  "exec_step data w s = Some s' \<Longrightarrow> balanced s \<Longrightarrow> balanced s'"
  by (cases w; cases "at_pc (proc_of w s)")
    (auto simp: exec_step_def call_defs balanced_def split: if_split_asm)

lemma exec_int_handler_simps [simp]:
  "val_a (exec_int_handler s) = val_a s" "val_b (exec_int_handler s) = val_b s"
  "offset (exec_int_handler s) = offset s" "child (exec_int_handler s) = child s"
  "printed (exec_int_handler s) = printed s"
  "parent (exec_int_handler s) = parent s\<lparr>status := Some 0\<rparr>"
  by (simp_all add: exec_int_handler_def call_defs)

lemma balanced_reachable: "reachable data c0 s \<Longrightarrow> balanced s"
proof (induction rule: reachable.induct)
  case (sigint s)
  then show ?case by (simp add: balanced_def)
qed (auto intro: balanced_init balanced_step)

text \<open>
  What the \<open>k\<close>-th \<open>read\<close> of the two processes together leaves in its caller's \<open>c\<close>: the \<open>k\<close>-th
  byte of the file, or past its end the reader's previous byte.
\<close>

fun expect :: "byte list \<Rightarrow> byte \<Rightarrow> nat \<Rightarrow> byte" where
  "expect data c0 k =
     (if k < length data then data ! k else if k < 2 then c0 else expect data c0 (k - 2))"

declare expect.simps [simp del]

definition previous :: "byte list \<Rightarrow> byte \<Rightarrow> nat \<Rightarrow> byte" where
  "previous data c0 k = (if k < 2 then c0 else expect data c0 (k - 2))"

definition held :: "byte list \<Rightarrow> byte \<Rightarrow> nat \<Rightarrow> pc \<Rightarrow> byte" where
  "held data c0 k q = (if has_read q = 1 then expect data c0 k else previous data c0 k)"

definition turn :: "byte list \<Rightarrow> byte \<Rightarrow> nat \<Rightarrow> who \<times> byte" where
  "turn data c0 k = (if even k then Child else Parent, expect data c0 k)"

definition tells :: "byte list \<Rightarrow> byte \<Rightarrow> exec \<Rightarrow> bool" where
  "tells data c0 s \<longleftrightarrow>
     offset s = min (length data) (cycles (child s) + cycles (parent s)
       + has_read (at_pc (child s)) + has_read (at_pc (parent s))) \<and>
     char_c (child s) = held data c0 (2 * cycles (child s)) (at_pc (child s)) \<and>
     char_c (parent s) = held data c0 (2 * cycles (parent s) + 1) (at_pc (parent s)) \<and>
     printed s = map (turn data c0) [0..<cycles (child s) + cycles (parent s)
       + has_printed (at_pc (child s)) + has_printed (at_pc (parent s))]"

lemma expect_previous: "expect data c0 k = (if k < length data then data ! k else previous data c0 k)"
  by (subst expect.simps) (simp add: previous_def)

lemma previous_next: "previous data c0 (Suc (Suc k)) = expect data c0 k"
  by (simp add: previous_def)

lemma tells_init: "tells data c0 (exec_init c0)"
  by (simp add: tells_def exec_init_def held_def previous_def Let_def)

text \<open>While a process is between its semaphore calls the other one is not.\<close>

lemma outside: "inside q = 0 \<Longrightarrow> has_read q = 0 \<and> has_printed q = 0"
  by (cases q) simp_all

lemma child_inside:
  assumes "balanced s" "inside (at_pc (child s)) = 1"
  shows "has_read (at_pc (parent s)) = 0" "has_printed (at_pc (parent s)) = 0"
    "cycles (parent s) = cycles (child s)"
  using assms outside [of "at_pc (parent s)"] by (auto simp: balanced_def)

lemma parent_inside:
  assumes "balanced s" "inside (at_pc (parent s)) = 1"
  shows "has_read (at_pc (child s)) = 0" "has_printed (at_pc (child s)) = 0"
    "cycles (child s) = cycles (parent s) + 1"
  using assms outside [of "at_pc (child s)"] by (auto simp: balanced_def)

lemma held_simps [simp]:
  "held data c0 k SemWait = previous data c0 k"
  "held data c0 k ReadByte = previous data c0 k"
  "held data c0 k Print = expect data c0 k"
  "held data c0 k Sleep = expect data c0 k"
  "held data c0 k SemPost = expect data c0 k"
  "held data c0 k Drop_a = previous data c0 k"
  "held data c0 k Drop_b = previous data c0 k"
  "held data c0 k CloseFd = previous data c0 k"
  "held data c0 k CallExit = previous data c0 k"
  by (simp_all add: held_def)

lemma turn_simps [simp]:
  "turn data c0 (2 * k) = (Child, expect data c0 (2 * k))"
  "turn data c0 (Suc (2 * k)) = (Parent, expect data c0 (Suc (2 * k)))"
  by (simp_all add: turn_def)

lemma tells_child:
  assumes "exec_step data Child s = Some s'" "balanced s" "tells data c0 s"
  shows "tells data c0 s'"
  using assms(1,3) child_inside [OF assms(2)]
  by (cases "at_pc (child s)"; simp add: exec_step_def call_defs split: if_split_asm;
    clarsimp simp: tells_def One_nat_def;
    (simp add: previous_next One_nat_def flip: mult_2)?;
    (auto simp: expect_previous min_def One_nat_def split: if_split_asm)?)

lemma tells_parent:
  assumes "exec_step data Parent s = Some s'" "balanced s" "tells data c0 s"
  shows "tells data c0 s'"
  using assms(1,3) parent_inside [OF assms(2)]
  by (cases "at_pc (parent s)"; simp add: exec_step_def call_defs split: if_split_asm;
    clarsimp simp: tells_def One_nat_def;
    (simp add: previous_next One_nat_def flip: mult_2)?;
    (auto simp: expect_previous min_def One_nat_def split: if_split_asm)?)

lemma tells_reachable: "reachable data c0 s \<Longrightarrow> tells data c0 s"
proof (induction rule: reachable.induct)
  case start
  show ?case by (rule tells_init)
next
  case (step s w s')
  then show ?case
    using balanced_reachable [OF step(1)] by (cases w) (auto intro: tells_child tells_parent)
next
  case (sigint s)
  then show ?case by (simp add: tells_def)
qed

text \<open>The number of steps a process has left, and of both together.\<close>

fun ahead :: "pc \<Rightarrow> nat" where
  "ahead SemWait = 5"
| "ahead ReadByte = 4"
| "ahead Print = 3"
| "ahead Sleep = 2"
| "ahead SemPost = 1"
| "ahead Drop_a = 4"
| "ahead Drop_b = 3"
| "ahead CloseFd = 2"
| "ahead CallExit = 1"

definition proc_left :: "proc \<Rightarrow> nat" where
  "proc_left p = (if status p \<noteq> None then 0
     else if cleaning (at_pc p) then ahead (at_pc p)
     else 5 * (4 - cycles p) + ahead (at_pc p) + 4)"

definition steps_left :: "exec \<Rightarrow> nat" where
  "steps_left s = proc_left (child s) + proc_left (parent s)"

lemma five: "n < 4 \<Longrightarrow> 5 * (4 - n) = 5 * (3 - n) + (5 :: nat)"
  by simp

lemma steps_left_step:
  "exec_step data w s = Some s' \<Longrightarrow> balanced s \<Longrightarrow> steps_left s = Suc (steps_left s')"
  by (cases w; cases "at_pc (proc_of w s)"; simp add: exec_step_def call_defs split: if_split_asm;
    clarsimp simp: balanced_def steps_left_def proc_left_def; auto simp: five)

lemma quiet_left:
  "quiet_run data n s s' \<Longrightarrow> reachable data c0 s \<Longrightarrow> n + steps_left s' = steps_left s"
proof (induction rule: quiet_run.induct)
  case (after n s s' w s'')
  have "steps_left s' = Suc (steps_left s'')"
    by (rule steps_left_step [OF after.hyps(2)
        balanced_reachable [OF quiet_reachable [OF after.hyps(1) after.prems]]])
  then show ?case using after.IH [OF after.prems] by simp
qed simp

text \<open>A state in which neither process can make a step.\<close>

definition stuck :: "byte list \<Rightarrow> exec \<Rightarrow> bool" where
  "stuck data s \<longleftrightarrow> exec_step data Child s = None \<and> exec_step data Parent s = None"

lemma step_None:
  "exec_step data w s = None \<longleftrightarrow> status (proc_of w s) \<noteq> None \<or>
     (at_pc (proc_of w s) = SemWait \<and> sem_wait w s = None)"
  by (auto simp: exec_step_def split: pc.split)

lemma balanced_not_stuck:
  assumes "balanced s" "stuck data s" "status (parent s) = None \<or> at_pc (parent s) = CallExit"
  shows "status (child s) \<noteq> None \<and> status (parent s) \<noteq> None"
  using assms
  by (auto simp: stuck_def step_None balanced_def proc_of_def sem_wait_def split: if_split_asm)

text \<open>Without a \<open>SIGINT\<close>, what the parent's clean-up has done so far.\<close>

fun names_at :: "pc \<Rightarrow> string list" where
  "names_at Drop_b = [''my_sem_b'']"
| "names_at CloseFd = []"
| "names_at CallExit = []"
| "names_at q = [''my_sem_a'', ''my_sem_b'']"

definition tidy :: "exec \<Rightarrow> bool" where
  "tidy s \<longleftrightarrow> names s = names_at (at_pc (parent s)) \<and> errors s = [] \<and>
     (status (child s) = None \<or> status (child s) = Some 0) \<and>
     (status (parent s) = None \<or> status (parent s) = Some 0 \<and> at_pc (parent s) = CallExit)"

lemma tidy_init: "tidy (exec_init c0)"
  by (simp add: tidy_def exec_init_def Let_def)

lemma tidy_step: "exec_step data w s = Some s' \<Longrightarrow> tidy s \<Longrightarrow> tidy s'"
  by (cases w; cases "at_pc (proc_of w s)"; simp add: exec_step_def call_defs split: if_split_asm;
    clarsimp simp: tidy_def)

lemma quiet_tidy: "quiet_run data n s s' \<Longrightarrow> tidy s \<Longrightarrow> tidy s'"
  by (induction rule: quiet_run.induct) (auto intro: tidy_step)

section \<open>Properties\<close>

text \<open>
  Parent and child of \<open>exec_fd\<close> are never both between their \<open>sem_wait\<close> and their
  \<open>sem_post\<close>, in no interleaving and whether or not a \<open>SIGINT\<close> arrives.
\<close>

theorem exec_mutual_exclusion:
  assumes "reachable data c0 s"
  shows "\<not> (at_pc (child s) \<in> {ReadByte, Print, Sleep, SemPost} \<and>
    at_pc (parent s) \<in> {ReadByte, Print, Sleep, SemPost})"
  using balanced_reachable [OF assms] by (auto simp: balanced_def)

definition ten_bytes :: "byte list" where
  "ten_bytes = [48, 49, 50, 51, 52, 53, 54, 55, 56, 57]"

text \<open>Full turns of child and parent, with turns that the blocked process misses in between.\<close>

definition whole_run :: "who list" where
  "whole_run = concat (replicate 5 (Parent # replicate 5 Child @ Child # replicate 5 Parent))
     @ replicate 4 Child @ replicate 4 Parent"

theorem exec_mutual_exclusion_witness:
  "\<not> (at_pc (child (turns ten_bytes [Child, Parent, Child] (exec_init 0))) \<in>
      {ReadByte, Print, Sleep, SemPost} \<and>
    at_pc (parent (turns ten_bytes [Child, Parent, Child] (exec_init 0))) \<in>
      {ReadByte, Print, Sleep, SemPost}) \<and>
   at_pc (child (turns ten_bytes [Child, Parent, Child] (exec_init 0))) = Print"
  by (rule conjI [OF exec_mutual_exclusion [OF reachable_turns [OF reachable.start]]]) code_simp

text \<open>
  C6: the processes take turns, the child first: in every reachable state what has been printed
  is an alternating sequence of at most ten bytes, and with a file of ten bytes or more it is
  the beginning of the file, each byte printed once and in order. Past the end of a shorter
  file each process repeats the last byte it has read itself.
\<close>

theorem exec_takes_turns:
  assumes "reachable data c0 s"
  shows "length (printed s) \<le> 10 \<and>
    (\<forall>k < length (printed s). printed s ! k = (if even k then Child else Parent, expect data c0 k)) \<and>
    (10 \<le> length data \<longrightarrow> map snd (printed s) = take (length (printed s)) data)"
proof -
  let ?n = "cycles (child s) + cycles (parent s) + has_printed (at_pc (child s))
    + has_printed (at_pc (parent s))"
  have b: "balanced s" and p: "printed s = map (turn data c0) [0..<?n]"
    using balanced_reachable [OF assms] tells_reachable [OF assms] by (simp_all add: tells_def)
  have "?n \<le> 10"
    using b by (cases "at_pc (child s)"; cases "at_pc (parent s)") (auto simp: balanced_def)
  then show ?thesis
    unfolding p by (auto simp: turn_def expect_previous intro!: nth_equalityI)
qed

theorem exec_takes_turns_witness:
  "(let s = turns ten_bytes whole_run (exec_init 0) in length (printed s) \<le> 10 \<and>
    (\<forall>k < length (printed s).
      printed s ! k = (if even k then Child else Parent, expect ten_bytes 0 k)) \<and>
    (10 \<le> length ten_bytes \<longrightarrow> map snd (printed s) = take (length (printed s)) ten_bytes)) \<and>
   printed (turns ten_bytes whole_run (exec_init 0)) = [(Child, 48), (Parent, 49), (Child, 50),
     (Parent, 51), (Child, 52), (Parent, 53), (Child, 54), (Parent, 55), (Child, 56), (Parent, 57)]"
  unfolding Let_def
  by (rule conjI [OF exec_takes_turns [OF reachable_turns [OF reachable.start]]]) code_simp

text \<open>
  C7: no deadlock. As long as the parent has not been killed by \<open>SIGINT\<close> inside its loop, one of
  the two processes can make its next call, until both have exited.
\<close>

theorem exec_no_deadlock:
  assumes "reachable data c0 s"
    and "status (parent s) = None \<or> at_pc (parent s) = CallExit"
    and "status (child s) = None \<or> status (parent s) = None"
  shows "\<exists>w. exec_step data w s \<noteq> None"
proof -
  have "\<not> stuck data s"
    using balanced_not_stuck [OF balanced_reachable [OF assms(1)] _ assms(2)] assms(3) by auto
  then show ?thesis by (auto simp: stuck_def)
qed

theorem exec_no_deadlock_witness:
  "\<exists>w. exec_step [] w (turns [] [Child, Child, Parent] (exec_init 7)) \<noteq> None"
proof (rule exec_no_deadlock [OF reachable_turns [OF reachable.start]])
  have "status (parent (turns [] [Child, Child, Parent] (exec_init 7))) = None" by code_simp
  then show "status (parent (turns [] [Child, Child, Parent] (exec_init 7))) = None \<or>
      at_pc (parent (turns [] [Child, Child, Parent] (exec_init 7))) = CallExit"
    and "status (child (turns [] [Child, Child, Parent] (exec_init 7))) = None \<or>
      status (parent (turns [] [Child, Child, Parent] (exec_init 7))) = None"
    by simp_all
qed

text \<open>
  C8: every run without a signal ends. It has at most 58 steps however the processes are
  scheduled, and when no process can go on, all 58 have been made: both have exited with status
  0, ten bytes have been printed, the semaphore names are gone and no call has failed.
\<close>

theorem exec_terminates:
  assumes "quiet_run data n (exec_init c0) s"
  shows "n \<le> 58 \<and> ((\<forall>w. exec_step data w s = None) \<longrightarrow> n = 58 \<and> length (printed s) = 10 \<and>
    status (child s) = Some 0 \<and> status (parent s) = Some 0 \<and> names s = [] \<and> errors s = [])"
proof -
  have r: "reachable data c0 s" by (rule quiet_reachable [OF assms reachable.start])
  have n: "n + steps_left s = 58"
    using quiet_left [OF assms reachable.start]
    by (simp add: steps_left_def proc_left_def exec_init_def Let_def)
  have t: "tidy s" by (rule quiet_tidy [OF assms tidy_init])
  have "n = 58 \<and> length (printed s) = 10 \<and> status (child s) = Some 0 \<and>
    status (parent s) = Some 0 \<and> names s = [] \<and> errors s = []" if "stuck data s"
  proof -
    have st: "status (child s) \<noteq> None \<and> status (parent s) \<noteq> None"
      using balanced_not_stuck [OF balanced_reachable [OF r] that] t by (auto simp: tidy_def)
    then have "at_pc (child s) = CallExit" "at_pc (parent s) = CallExit"
      using balanced_reachable [OF r] t by (auto simp: balanced_def tidy_def)
    then show ?thesis
      using st n t balanced_reachable [OF r] tells_reachable [OF r]
      by (auto simp: steps_left_def proc_left_def tidy_def balanced_def tells_def)
  qed
  with n show ?thesis by (auto simp: stuck_def)
qed

theorem exec_terminates_witness:
  "(let n = made ten_bytes whole_run (exec_init 0); s = turns ten_bytes whole_run (exec_init 0) in
    n \<le> 58 \<and> ((\<forall>w. exec_step ten_bytes w s = None) \<longrightarrow> n = 58 \<and> length (printed s) = 10 \<and>
    status (child s) = Some 0 \<and> status (parent s) = Some 0 \<and> names s = [] \<and> errors s = [])) \<and>
   made ten_bytes whole_run (exec_init 0) = 58"
  unfolding Let_def by (rule conjI [OF exec_terminates [OF quiet_turns]]) code_simp

text \<open>
  C9: a \<open>SIGINT\<close> that reaches the parent before its last round strands the child: the parent's
  handler exits without posting \<open>lock_a\<close> again, and in no continuation does the child exit.
  (A defect of the code: the child blocks \<open>SIGINT\<close> and nobody wakes it.)
\<close>

theorem exec_sigint_strands_child:
  assumes "reachable data c0 s" and "status (parent s) = None" and "cycles (parent s) < 4"
    and "quiet_run data n (exec_int_handler s) s'"
  shows "status (child s') = None"
proof -
  have r: "reachable data c0 s'"
    by (rule quiet_reachable [OF assms(4) reachable.sigint [OF assms(1,2)]])
  have "status (parent s') \<noteq> None \<and> cycles (parent s') = cycles (parent s)"
    using assms(4)
  proof (induction n "exec_int_handler s" s' rule: quiet_run.induct)
    case (after n s' w s'')
    then show ?case
      by (cases w; cases "at_pc (proc_of w s')")
        (auto simp: exec_step_def call_defs split: if_split_asm)
  qed simp
  then show ?thesis
    using balanced_reachable [OF r] assms(3) by (auto simp: balanced_def)
qed

theorem exec_sigint_strands_child_witness:
  "status (child (turns ten_bytes whole_run (exec_int_handler
     (turns ten_bytes [Child, Child] (exec_init 0))))) = None"
proof (rule exec_sigint_strands_child [OF reachable_turns [OF reachable.start] _ _ quiet_turns])
  show "status (parent (turns ten_bytes [Child, Child] (exec_init 0))) = None" by code_simp
  show "cycles (parent (turns ten_bytes [Child, Child] (exec_init 0))) < 4" by code_simp
qed

end
