(* ===== verification/Mcast4.thy ===== *)
theory Mcast4
  imports Posix C_Lib
begin

text \<open>
  \<open>multicast/c/mcast4.c\<close>: the multicast test tool, a server that prints what it receives and a
  client that sends numbered packets. The options that \<open>getopt_long\<close> delivers are a parameter:
  the list of its results, an option character with its argument. Memory from \<open>calloc\<close> is an
  address, 0 when there is none.
\<close>

section \<open>Options\<close>

datatype tool_type = MCAST_NOTSET | MCAST_SERVER | MCAST_CLIENT

record mcast_opts =
  mtype :: tool_type
  addr :: "byte list option"
  port :: int
  ifname :: "byte list option"
  message :: "byte list option"
  dump :: bool
  hops :: int
  loopback :: int
  cont :: bool
  join :: bool

definition mcast4_default :: mcast_opts where
  "mcast4_default = \<lparr>mtype = MCAST_NOTSET, addr = None, port = 9999, ifname = None,
     message = None, dump = False, hops = 255, loopback = 1, cont = False, join = True\<rparr>"

text \<open>One case of the \<open>switch\<close>; \<open>None\<close> prints the usage and exits.\<close>

definition mcast4_opt :: "char \<Rightarrow> byte list \<Rightarrow> mcast_opts \<Rightarrow> mcast_opts option" where
  "mcast4_opt opt optarg o' =
     (if opt = CHR ''c'' then Some (o'\<lparr>mtype := MCAST_CLIENT\<rparr>)
      else if opt = CHR ''s'' then Some (o'\<lparr>mtype := MCAST_SERVER\<rparr>)
      else if opt = CHR ''a'' then Some (o'\<lparr>addr := Some optarg\<rparr>)
      else if opt = CHR ''p'' then Some (o'\<lparr>port := atoi optarg\<rparr>)
      else if opt = CHR ''i'' then Some (o'\<lparr>ifname := Some optarg\<rparr>)
      else if opt = CHR ''m'' then Some (o'\<lparr>message := Some optarg\<rparr>)
      else if opt = CHR ''0'' then Some (o'\<lparr>dump := True\<rparr>)
      else if opt = CHR ''1'' then Some (o'\<lparr>hops := atoi optarg\<rparr>)
      else if opt = CHR ''2'' then Some (o'\<lparr>loopback := 0\<rparr>)
      else if opt = CHR ''3'' then Some (o'\<lparr>cont := True\<rparr>)
      else if opt = CHR ''4'' then Some (o'\<lparr>join := False\<rparr>)
      else None)"

primrec mcast4_parse :: "(char \<times> byte list) list \<Rightarrow> mcast_opts \<Rightarrow> mcast_opts option" where
  "mcast4_parse [] o' = Some o'"
| "mcast4_parse (x # xs) o' = Option.bind (mcast4_opt (fst x) (snd x) o') (mcast4_parse xs)"

text \<open>The usage text, with the tabs left out.\<close>

definition mcast4_usage :: "byte list \<Rightarrow> (unit, posix) io" where
  "mcast4_usage name =
     say [S ''Usage: '', B name, S '' [-h] -i <interface> -a <address> -p <port>'']
     (say [S ''-h, --help this help message'']
     (say [S ''-c, --client multicast test client'']
     (say [S ''-s, --server multicast test server'']
     (say [S ''-m, --message message for multicast client'']
     (say [S ''-i, --intf <interface> bind to network interface'']
     (say [S ''-a, --addr <address> multicast address'']
     (say [S ''-p, --port <port> port, default is 9999'']
     (say [S ''--hops = <hops> multicast packet lifetime'']
     (say [S ''--noloop disable loopback for outgoing multicast diagrams'']
     (say [S ''--nojoin prevent client from joining multicast group'']
     (say [S ''--cont multicast client continous mode: no need to press enter to send next packet'']
     (say [S ''--hexdump hexdump packet mode for multicast server'']
     (say [S ''Minimal client example: '', B name,
        S '' -c -i eth0 -a 224.10.10.10 -p 12345 -m 'test message'']
     (say [S ''Minimal server example: '', B name, S '' -s -i eth0 -a 224.10.10.10 -p 12345'']
     (exit 0)))))))))))))))"

text \<open>The second \<open>switch\<close>: what must be given for each kind of tool.\<close>

definition mcast4_complete :: "mcast_opts \<Rightarrow> bool" where
  "mcast4_complete o' = (case mtype o' of
     MCAST_SERVER \<Rightarrow> \<not> (port o' = 0 \<or> addr o' = None \<or> ifname o' = None)
   | MCAST_CLIENT \<Rightarrow> \<not> (port o' = 0 \<or> addr o' = None \<or> ifname o' = None \<or> message o' = None)
   | MCAST_NOTSET \<Rightarrow> False)"

section \<open>Server\<close>

text \<open>
  \<open>dump_packet\<close>: each byte is a (signed) \<open>char\<close>, so \<open>%02x\<close> prints the sign-extended 32-bit
  value; a line break follows positions 64, 128 and so on.
\<close>

definition dump_byte :: "nat \<Rightarrow> byte \<Rightarrow> byte list" where
  "dump_byte p b =
     chars ''0x'' @ hex02 (unat (scast b :: 32 word)) @ [32] @
     (if 0 < p \<and> p mod 64 = 0 then [10] else [])"

definition dump_packet :: "byte list \<Rightarrow> byte list" where
  "dump_packet bs = concat (map (\<lambda>p. dump_byte p (bs ! p)) [0..<length bs]) @ [10]"

text \<open>
  One round of the server: its state is the number of faults and \<open>ret\<close>. The write of the NUL
  at \<open>buffer[len]\<close> comes before the test of \<open>len\<close>, and the buffer has 256 bytes.
\<close>

definition mcast4_receive :: "int \<Rightarrow> bool \<Rightarrow> nat \<times> int \<Rightarrow>
    ((nat \<times> int) + int, posix) io" where
  "mcast4_receive sd dmp st =
     sys (Read sd 256) (\<lambda>r.
     if rv r < 0 \<or> 256 \<le> rv r then fault ''mcast_server: buffer[len] out of bounds''
     else if rv r = 0 then
       say [S ''read zero bytes...''] (ret (Inl (fst st + 1, snd st)))
     else if dmp then say [B (dump_packet (bytes r))] (ret (Inl st))
     else say [S ''RECV: '', B (cstr (bytes r))] (ret (Inl st)))"

definition mcast4_round :: "int \<Rightarrow> bool \<Rightarrow> nat \<times> int \<Rightarrow> ((nat \<times> int) + int, posix) io" where
  "mcast4_round sd dmp st =
     (if 5 \<le> fst st then ret (Inr (snd st))
      else
        sys (Select (sd + 1) [sd] (Some 10)) (\<lambda>s.
        if rv s = 0 then ret (Inl (fst st, rv s))
        else if rv s < 0 then
          (if err s = EINTR then ret (Inl (fst st + 1, rv s))
           else perror ''select'' (ret (Inr (rv s))))
        else if sd \<in> set (ready s) then mcast4_receive sd dmp (fst st, rv s)
        else say [S ''unexpected select result...''] (ret (Inl (fst st + 1, rv s)))))"

definition mcast4_server :: "int \<Rightarrow> bool \<Rightarrow> sockaddr \<Rightarrow> int \<Rightarrow> int \<Rightarrow> (int, posix) io" where
  "mcast4_server sd dmp saddr grp iface =
     sys (Bind sd saddr) (\<lambda>b.
     if rv b < 0 then perror ''bind'' (ret (-1)) else
     sys (Setsockopt sd ''IP_ADD_MEMBERSHIP'' (OptMreq grp iface)) (\<lambda>j.
     if rv j < 0 then perror ''setsockopt IP_ADD_MEMBERSHIP'' (ret (-1)) else
     loop (mcast4_round sd dmp) (0, rv j)))"

section \<open>Client\<close>

text \<open>The packet numbered \<open>cnt\<close>, with its NUL: \<open>snprintf\<close> into \<open>strlen (msg) + 10\<close> bytes.\<close>

definition mcast4_packet :: "byte list \<Rightarrow> int \<Rightarrow> byte list" where
  "mcast4_packet msg n = snprintf (length msg + 10) (msg @ [58] @ dec n @ [10]) @ [0]"

text \<open>One round of the client: its state is the number of faults, \<open>cnt\<close> and \<open>ret\<close>.\<close>

definition mcast4_send :: "int \<Rightarrow> byte list \<Rightarrow> bool \<Rightarrow> sockaddr \<Rightarrow> nat \<times> int \<times> int \<Rightarrow>
    ((nat \<times> int \<times> int) + int, posix) io" where
  "mcast4_send sd msg cnt' saddr st =
     (let faults = fst st; n = fst (snd st) in
      if 5 \<le> faults then ret (Inr (snd (snd st)))
      else if n = 2 ^ 31 - 1 then fault ''mcast_client: cnt overflows''
      else
        sys (Sendto sd (mcast4_packet msg n) saddr) (\<lambda>w.
        let faults' = (if rv w < 0 then faults + 1 else faults);
            next' = (\<lambda>_. ret (Inl (faults', n + 1, rv w)));
            pause = (if cnt' then sys (SleepSec 1) next'
                     else say [S ''press enter to send next packet...''] (sys Getchar next')) in
        if rv w < 0 then perror ''sendto'' pause else pause))"

definition mcast4_client :: "int \<Rightarrow> byte list \<Rightarrow> bool \<Rightarrow> bool \<Rightarrow> sockaddr \<Rightarrow> int \<Rightarrow> int \<Rightarrow>
    (int, posix) io" where
  "mcast4_client sd msg cnt' jn saddr grp iface =
     (let go = sys (Calloc (length msg + 10)) (\<lambda>p.
        if rv p = 0 then fault ''mcast_client: memset of NULL''
        else bind (loop (mcast4_send sd msg cnt' saddr) (0, 0, 0)) (\<lambda>v.
          sys (FreeMem (rv p)) (\<lambda>_. ret v))) in
      if jn then
        sys (Setsockopt sd ''IP_ADD_MEMBERSHIP'' (OptMreq grp iface)) (\<lambda>j.
        if rv j < 0 then perror ''setsockopt IP_ADD_MEMBERSHIP'' (ret (-1)) else go)
      else go)"

section \<open>The whole tool\<close>

text \<open>
  \<open>main\<close>. \<open>-1\<close> as exit status is 255. \<open>ifr_name\<close> takes at most 15 bytes of the interface
  name, \<open>sin_port\<close> the low 16 bits of the port; the result of \<open>inet_pton\<close> is not looked at and
  leaves a zero address when it fails.
\<close>

definition mcast_addr :: "resp \<Rightarrow> int" where
  "mcast_addr r = (if rv r = 1 then num r 0 else 0)"

definition sin_port :: "mcast_opts \<Rightarrow> int" where
  "sin_port o' = port o' mod 2 ^ 16"

definition mcast4_announce :: "mcast_opts \<Rightarrow> out list" where
  "mcast4_announce o' = (case mtype o' of
     MCAST_SERVER \<Rightarrow> [S ''server: addr['', B (the (addr o')), S ''] ifname['', B (the (ifname o')),
       S ''] port['', D (port o'), S ''] dump['', D (of_bool (dump o')), S '']'']
   | MCAST_CLIENT \<Rightarrow> [S ''client: addr['', B (the (addr o')), S ''] ifname['', B (the (ifname o')),
       S ''] port['', D (port o'), S ''] hops['', D (hops o'), S ''] loop['', D (loopback o'),
       S ''] message['', B (the (message o')), S ''] cont['', D (of_bool (cont o')),
       S ''] join['', D (of_bool (join o')), S '']'']
   | MCAST_NOTSET \<Rightarrow> [S ''should be client or server...''])"

definition mcast4_alloc :: "nat \<Rightarrow> string \<Rightarrow> (int, posix) io" where
  "mcast4_alloc n what =
     sys (Calloc n) (\<lambda>p. if rv p = 0 then perror what (exit 255) else ret (rv p))"

text \<open>The \<open>setsockopt\<close> calls, giving the interface address.\<close>

definition mcast4_options :: "int \<Rightarrow> mcast_opts \<Rightarrow> (int, posix) io" where
  "mcast4_options sd o' =
     sys (Setsockopt sd ''SO_REUSEADDR'' (OptInt 1)) (\<lambda>r.
     if rv r < 0 then perror ''setsockopt SO_REUSEADDR'' (exit 255) else
     sys (IfAddr sd (take 15 (the (ifname o')))) (\<lambda>i.
     if rv i < 0 then perror ''ioctl SIOCGIFADDR'' (exit 255) else
     sys (Setsockopt sd ''IP_MULTICAST_IF'' (OptInt (num i 0))) (\<lambda>r.
     if rv r < 0 then perror ''setsockopt IPV_MULTICAST_IF'' (exit 255) else
     sys (Setsockopt sd ''IP_MULTICAST_TTL'' (OptInt (hops o'))) (\<lambda>r.
     if rv r < 0 then perror ''setsockopt IP_MULTICAST_TTL'' (exit 255) else
     sys (Setsockopt sd ''IP_MULTICAST_LOOP'' (OptInt (loopback o'))) (\<lambda>r.
     if rv r < 0 then perror ''setsockopt IP_MULTICAST_LOOP'' (exit 255) else
     ret (num i 0))))))"

text \<open>The addresses and the last \<open>switch\<close>.\<close>

definition mcast4_run :: "int \<Rightarrow> mcast_opts \<Rightarrow> int \<Rightarrow> (unit, posix) io" where
  "mcast4_run sd o' baddr =
     bind (mcast4_alloc 16 ''calloc saddr'') (\<lambda>saddr.
     sys (Inet_pton AF_INET (the (addr o'))) (\<lambda>a.
     bind (mcast4_alloc 16 ''calloc maddr'') (\<lambda>maddr.
     sys (Inet_pton AF_INET (the (addr o'))) (\<lambda>m.
     bind (mcast4_alloc 8 ''calloc mreq'') (\<lambda>mreq.
     bind (case mtype o' of
         MCAST_SERVER \<Rightarrow> mcast4_server sd (dump o') (SockIn (mcast_addr a) (sin_port o'))
           (mcast_addr m) baddr
       | MCAST_CLIENT \<Rightarrow> mcast4_client sd (the (message o')) (cont o') (join o')
           (SockIn (mcast_addr m) (sin_port o')) (mcast_addr m) baddr
       | MCAST_NOTSET \<Rightarrow> say [S ''undefined tool type...''] (ret 0)) (\<lambda>_.
     sys (FreeMem saddr) (\<lambda>_.
     sys (FreeMem maddr) (\<lambda>_.
     sys (FreeMem mreq) (\<lambda>_.
     sys (Close sd) (\<lambda>_. exit 0))))))))))"

definition mcast4_main :: "byte list \<Rightarrow> (char \<times> byte list) list \<Rightarrow> (unit, posix) io" where
  "mcast4_main name opts =
     (case mcast4_parse opts mcast4_default of
        None \<Rightarrow> mcast4_usage name
      | Some o' \<Rightarrow>
          if mtype o' = MCAST_NOTSET then say (mcast4_announce o') (mcast4_usage name)
          else if \<not> mcast4_complete o' then mcast4_usage name
          else say (mcast4_announce o')
            (sys (Socket AF_INET SOCK_DGRAM) (\<lambda>s.
             if rv s < 0 then perror ''socket'' (exit 255)
             else bind (mcast4_options (rv s) o') (mcast4_run (rv s) o'))))"

section \<open>What the options mean\<close>

text \<open>The last argument given for an option, and the last of \<open>-c\<close> and \<open>-s\<close>.\<close>

primrec last_arg :: "char \<Rightarrow> 'a option \<Rightarrow> (char \<times> 'a) list \<Rightarrow> 'a option" where
  "last_arg c d [] = d"
| "last_arg c d (x # xs) = last_arg c (if fst x = c then Some (snd x) else d) xs"

primrec last_type :: "tool_type \<Rightarrow> (char \<times> 'a) list \<Rightarrow> tool_type" where
  "last_type d [] = d"
| "last_type d (x # xs) = last_type (if fst x = CHR ''c'' then MCAST_CLIENT
     else if fst x = CHR ''s'' then MCAST_SERVER else d) xs"

definition known_opts :: "string" where
  "known_opts = ''csapim01234''"

definition number_or :: "int \<Rightarrow> byte list option \<Rightarrow> int" where
  "number_or d v = (case v of None \<Rightarrow> d | Some s \<Rightarrow> atoi s)"

definition opts_from :: "mcast_opts \<Rightarrow> (char \<times> byte list) list \<Rightarrow> mcast_opts" where
  "opts_from o' xs = \<lparr>mtype = last_type (mtype o') xs, addr = last_arg CHR ''a'' (addr o') xs,
     port = number_or (port o') (last_arg CHR ''p'' None xs),
     ifname = last_arg CHR ''i'' (ifname o') xs, message = last_arg CHR ''m'' (message o') xs,
     dump = (dump o' \<or> CHR ''0'' \<in> fst ` set xs),
     hops = number_or (hops o') (last_arg CHR ''1'' None xs),
     loopback = (if CHR ''2'' \<in> fst ` set xs then 0 else loopback o'),
     cont = (cont o' \<or> CHR ''3'' \<in> fst ` set xs),
     join = (join o' \<and> CHR ''4'' \<notin> fst ` set xs)\<rparr>"

lemma last_arg_default: "last_arg c (Some v) xs = Some (the (last_arg c (Some v) xs))"
  by (induction xs arbitrary: v) simp_all

lemma number_or_last:
  "number_or d (last_arg c (Some v) xs) = number_or (atoi v) (last_arg c None xs)"
  by (induction xs arbitrary: d v) (simp_all, simp add: number_or_def)

lemma mcast4_opt_from:
  "mcast4_opt (fst x) (snd x) o' =
     (if fst x \<in> set known_opts then Some (opts_from o' [x]) else None)"
  by (simp add: mcast4_opt_def opts_from_def known_opts_def number_or_def)

lemma opts_from_Cons: "opts_from o' (x # xs) = opts_from (opts_from o' [x]) xs"
  by (simp add: opts_from_def number_or_last) (simp add: number_or_def)

lemma mcast4_parse_from:
  "mcast4_parse xs o' = (if fst ` set xs \<subseteq> set known_opts then Some (opts_from o' xs) else None)"
proof (induction xs arbitrary: o')
  case Nil
  show ?case by (simp add: opts_from_def number_or_def)
next
  case (Cons x xs)
  then show ?case by (simp add: mcast4_opt_from opts_from_Cons [of o' x xs])
qed

text \<open>
  Option parsing of \<open>mcast4\<close>: it succeeds exactly when every option is one of the eleven
  known ones (\<open>-h\<close> and anything else print the usage); the last \<open>-c\<close> or \<open>-s\<close> decides the tool,
  the last argument of an option counts, numbers default to port 9999 and 255 hops, and the four
  switches are set by one occurrence.
\<close>

theorem mcast4_options_parsed:
  "mcast4_parse xs mcast4_default =
     (if \<exists>x \<in> set xs. fst x \<notin> set ''csapim01234'' then None
      else Some \<lparr>mtype = last_type MCAST_NOTSET xs, addr = last_arg CHR ''a'' None xs,
        port = (case last_arg CHR ''p'' None xs of None \<Rightarrow> 9999 | Some v \<Rightarrow> atoi v),
        ifname = last_arg CHR ''i'' None xs, message = last_arg CHR ''m'' None xs,
        dump = (CHR ''0'' \<in> fst ` set xs),
        hops = (case last_arg CHR ''1'' None xs of None \<Rightarrow> 255 | Some v \<Rightarrow> atoi v),
        loopback = (if CHR ''2'' \<in> fst ` set xs then 0 else 1),
        cont = (CHR ''3'' \<in> fst ` set xs), join = (CHR ''4'' \<notin> fst ` set xs)\<rparr>)"
  by (auto simp: mcast4_parse_from opts_from_def known_opts_def mcast4_default_def number_or_def)

section \<open>Runs of the server\<close>

text \<open>The faults that the server counts, read off a history.\<close>

primrec faults_in :: "posix history \<Rightarrow> nat" where
  "faults_in [] = 0"
| "faults_in (e # l) = faults_in l + (case e of
     Ev c r \<Rightarrow> (case c of
       Select n fds t \<Rightarrow> of_bool (rv r < 0 \<and> err r = EINTR \<or> 0 < rv r \<and> set fds \<inter> set (ready r) = {})
     | Read fd n \<Rightarrow> of_bool (rv r = 0)
     | _ \<Rightarrow> 0)
   | Out os \<Rightarrow> 0)"

text \<open>The last call of a history has failed (and was not an interrupted \<open>select\<close>).\<close>

definition ends_in_failure :: "posix history \<Rightarrow> bool" where
  "ends_in_failure l \<longleftrightarrow> (\<exists>os c w l'. l = Out os # Ev c w # l' \<and> rv w < 0)"

text \<open>Some \<open>read\<close> of a history has failed or has filled all the 256 bytes of the buffer.\<close>

primrec overrun :: "posix history \<Rightarrow> bool" where
  "overrun [] = False"
| "overrun (e # l) = (overrun l \<or> (case e of
     Ev c r \<Rightarrow> (case c of Read fd n \<Rightarrow> rv r < 0 \<or> 256 \<le> rv r | _ \<Rightarrow> False)
   | Out os \<Rightarrow> False))"

definition mcast_good :: "int res \<Rightarrow> posix history \<Rightarrow> bool" where
  "mcast_good r l \<longleftrightarrow> faults_in l \<le> 5 \<and> (case r of
     Val v \<Rightarrow> \<not> overrun l \<and> (faults_in l = 5 \<or> ends_in_failure l)
   | Exit n \<Rightarrow> False
   | Fault e \<Rightarrow> overrun l
   | Wait \<Rightarrow> \<not> overrun l)"

definition mcast_inv :: "nat \<times> int \<Rightarrow> posix history \<Rightarrow> bool" where
  "mcast_inv st l \<longleftrightarrow> fst st = faults_in l \<and> fst st \<le> 5 \<and> \<not> overrun l"

lemma obeys_any: "obeys K (\<lambda>l c r. True)"
  by (simp add: obeys_def)

lemma mcast_goodD:
  "mcast_good r l \<Longrightarrow> faults_in l \<le> 5 \<and> ((\<exists>e. r = Fault e) \<longleftrightarrow> overrun l) \<and>
    (\<forall>v. r = Val v \<longrightarrow> faults_in l = 5 \<or> ends_in_failure l)"
  by (cases r) (simp_all add: mcast_good_def)

lemma mcast4_round_step:
  "mcast_inv st l \<Longrightarrow>
     wp (mcast4_round sd dmp st) (seq (next_or mcast_inv mcast_good) mcast_good) K N l"
  by (auto simp: mcast4_round_def mcast4_receive_def wp_simps mcast_inv_def mcast_good_def
      ends_in_failure_def split: option.split)

interpretation mcast4: service "mcast4_round sd dmp" "\<lambda>l c r. True" mcast_inv mcast_good for sd dmp
  by unfold_locales (auto intro: mcast4_round_step simp: mcast_inv_def mcast_good_def)

text \<open>
  C10: in every run of the multicast server, whatever the calls answer, at most five faults are
  counted (an interrupted \<open>select\<close>, an empty datagram, a spurious wake-up), and the server
  returns only after exactly five of them or right after a call that has failed; a time-out is
  no fault. It stores outside of its buffer exactly when a \<open>read\<close> has failed or has filled all
  the 256 bytes, and is not observed any further then.
\<close>

theorem mcast4_server_stops:
  shows "case mcast4_server sd dmp saddr grp iface K N [] of (r, l) \<Rightarrow>
    faults_in l \<le> 5 \<and> ((\<exists>e. r = Fault e) \<longleftrightarrow> overrun l) \<and>
    (\<forall>v. r = Val v \<longrightarrow> faults_in l = 5 \<or> ends_in_failure l)"
proof -
  have serve: "wp (loop (mcast4_round sd dmp) (0, v)) mcast_good K N l"
    if "faults_in l = 0" "\<not> overrun l" for v l
    by (rule mcast4.serves [OF obeys_any]) (simp add: mcast_inv_def that)
  have "wp (mcast4_server sd dmp saddr grp iface) mcast_good K N []"
    unfolding mcast4_server_def
    by (auto simp: wp_simps serve mcast_good_def ends_in_failure_def split: option.splits)
  then show ?thesis
    by (auto simp: wp_def dest: mcast_goodD)
qed

definition mcast_script :: "resp list" where
  "mcast_script = [ok 0, ok 0, ok 0, ready_fds [3], got [104, 105, 10], failed EINTR, failed EINTR,
     ready_fds [3], got [], ready_fds [4], failed EINTR]"

theorem mcast4_server_stops_witness:
  "(case mcast4_server 3 False (SockIn 5 9999) 5 7 (play mcast_script) 20 [] of
    (r, l) \<Rightarrow> faults_in l \<le> 5 \<and> ((\<exists>e. r = Fault e) \<longleftrightarrow> overrun l) \<and>
    (\<forall>v. r = Val v \<longrightarrow> faults_in l = 5 \<or> ends_in_failure l)) \<and>
   fst (mcast4_server 3 False (SockIn 5 9999) 5 7 (play mcast_script) 20 []) = Val (-1)"
  by (rule conjI [OF mcast4_server_stops]) code_simp

text \<open>
  A datagram of 256 bytes or more fills the buffer, and the NUL is stored behind it; a
  failing \<open>read\<close> stores it in front of the buffer. (A defect of the code: the NUL is stored
  before \<open>len\<close> is tested.)
\<close>

theorem mcast4_server_overruns:
  assumes "fst st < 5" and "K l (Select (sd + 1) [sd] (Some 10)) = Some s" and "0 < rv s"
    and "sd \<in> set (ready s)"
    and "K (Ev (Select (sd + 1) [sd] (Some 10)) s # l) (Read sd 256) = Some r"
    and "rv r = 256 \<or> rv r = -1"
  shows "\<exists>e. fst (mcast4_round sd dmp st K N l) = Fault e"
  using assms by (auto simp: mcast4_round_def mcast4_receive_def io_simps)

theorem mcast4_server_overruns_witness:
  "\<exists>e. fst (mcast4_round 3 False (0, 0)
     (play [ready_fds [3], got (replicate 256 65)]) 9 []) = Fault e"
  by (rule mcast4_server_overruns [where s = "ready_fds [3]" and r = "got (replicate 256 65)"])
    (simp_all add: play_def)

section \<open>Runs of the client\<close>

text \<open>What a history has sent, the newest first, and how many of its \<open>sendto\<close> calls failed.\<close>

primrec sent :: "posix history \<Rightarrow> byte list list" where
  "sent [] = []"
| "sent (e # l) = (case e of Ev (Sendto fd bs a) r \<Rightarrow> bs # sent l | _ \<Rightarrow> sent l)"

primrec failed_sends :: "posix history \<Rightarrow> nat" where
  "failed_sends [] = 0"
| "failed_sends (e # l) = failed_sends l +
     (case e of Ev (Sendto fd bs a) r \<Rightarrow> of_bool (rv r < 0) | _ \<Rightarrow> 0)"

definition send_inv :: "byte list \<Rightarrow> nat \<times> int \<times> int \<Rightarrow> posix history \<Rightarrow> bool" where
  "send_inv msg st l \<longleftrightarrow> fst st = failed_sends l \<and> fst st \<le> 5 \<and>
     fst (snd st) = int (length (sent l)) \<and>
     rev (sent l) = map (\<lambda>k. mcast4_packet msg (int k)) [0..<length (sent l)]"

definition send_good :: "byte list \<Rightarrow> int res \<Rightarrow> posix history \<Rightarrow> bool" where
  "send_good msg r l \<longleftrightarrow> failed_sends l \<le> 5 \<and>
     rev (sent l) = map (\<lambda>k. mcast4_packet msg (int k)) [0..<length (sent l)] \<and>
     (\<forall>v. r = Val v \<longrightarrow> failed_sends l = 5)"

lemma mcast4_send_step:
  "send_inv msg st l \<Longrightarrow>
     wp (mcast4_send sd msg c sa st) (seq (next_or (send_inv msg) (send_good msg)) (send_good msg)) K N l"
  by (auto simp: mcast4_send_def Let_def wp_simps send_inv_def send_good_def split: option.split)

interpretation mcast4_sending: service "mcast4_send sd msg c sa" "\<lambda>l c r. True" "send_inv msg"
    "send_good msg" for sd msg c sa
  by unfold_locales (auto intro: mcast4_send_step simp: send_inv_def send_good_def)

lemma mcast4_packet_whole:
  assumes "k < 10 ^ 7"
  shows "mcast4_packet msg (int k) = msg @ [58] @ dec (int k) @ [10, 0]"
proof -
  have "length (dec (int k)) \<le> 7"
    using length_udec [of 7 "int k"] assms by (simp add: dec_def)
  then show ?thesis by (simp add: mcast4_packet_def snprintf_def)
qed

text \<open>
  The multicast client sends \<open>msg:0\<close>, \<open>msg:1\<close>, \<open>msg:2\<close> and so on without a gap, a repetition
  or a change of order, failed sends included; each of the first ten million packets is the
  whole text, its newline and its NUL. The client stops only after exactly five failed sends (or
  when it could not join the group).
\<close>

theorem mcast4_client_numbers:
  shows "case mcast4_client sd msg c jn sa grp iface K N [] of (r, l) \<Rightarrow>
    (\<forall>k < length (sent l). rev (sent l) ! k = mcast4_packet msg (int k) \<and>
      (k < 10 ^ 7 \<longrightarrow> rev (sent l) ! k = msg @ [58] @ dec (int k) @ [10, 0])) \<and>
    failed_sends l \<le> 5 \<and>
    (\<forall>v. r = Val v \<longrightarrow> failed_sends l = 5 \<or> ends_in_failure l)"
proof -
  let ?Q = "\<lambda>r :: int res. \<lambda>l. failed_sends l \<le> 5 \<and>
     rev (sent l) = map (\<lambda>k. mcast4_packet msg (int k)) [0..<length (sent l)] \<and>
     (\<forall>v. r = Val v \<longrightarrow> failed_sends l = 5 \<or> ends_in_failure l)"
  have loop: "wp (loop (mcast4_send sd msg c sa) (0, 0, 0)) (send_good msg) K N l"
    if "sent l = []" "failed_sends l = 0" for l
    by (rule mcast4_sending.serves) (simp_all add: obeys_def send_inv_def that)
  have "wp (mcast4_client sd msg c jn sa grp iface) ?Q K N []"
    unfolding mcast4_client_def Let_def
    by (auto simp: wp_simps ends_in_failure_def send_good_def seq_def intro!: wp_mono [OF loop]
        split: option.splits res.splits)
  then have "case mcast4_client sd msg c jn sa grp iface K N [] of (r, l) \<Rightarrow> ?Q r l"
    by (simp add: wp_def)
  then show ?thesis
    by (auto simp: mcast4_packet_whole split: prod.splits)
qed

definition mcast_client_script :: "resp list" where
  "mcast_client_script = [ok 0, ok 4096, ok 6, ok 0, failed EOTHER, ok 0, ok 6, ok 0, failed EOTHER,
     ok 0, failed EOTHER, ok 0, failed EOTHER, ok 0, failed EOTHER, ok 0, ok 0]"

theorem mcast4_client_numbers_witness:
  "(case mcast4_client 3 [104] True True (SockIn 5 9999) 5 7 (play mcast_client_script) 20 [] of
     (r, l) \<Rightarrow>
    (\<forall>k < length (sent l). rev (sent l) ! k = mcast4_packet [104] (int k) \<and>
      (k < 10 ^ 7 \<longrightarrow> rev (sent l) ! k = [104] @ [58] @ dec (int k) @ [10, 0])) \<and>
    failed_sends l \<le> 5 \<and> (\<forall>v. r = Val v \<longrightarrow> failed_sends l = 5 \<or> ends_in_failure l)) \<and>
   fst (mcast4_client 3 [104] True True (SockIn 5 9999) 5 7 (play mcast_client_script) 20 []) =
     Val (-1)"
  by (rule conjI [OF mcast4_client_numbers]) code_simp

section \<open>Where the tool talks\<close>

text \<open>
  Every packet goes to the configured group and port, every socket option is set on the tool's
  socket, and nothing is sent or received before the tool is told to be a client or a server.
\<close>

primrec dests :: "posix history \<Rightarrow> sockaddr list" where
  "dests [] = []"
| "dests (e # l) = (case e of Ev (Sendto fd bs a) r \<Rightarrow> a # dests l | Ev (Bind fd a) r \<Rightarrow> a # dests l
     | _ \<Rightarrow> dests l)"

fun sock_port :: "sockaddr \<Rightarrow> int option" where
  "sock_port (SockIn h p) = Some p"
| "sock_port (SockIn6 h p) = Some p"
| "sock_port a = None"

definition mcast_port_ok :: "int \<Rightarrow> posix history \<Rightarrow> bool" where
  "mcast_port_ok p l \<longleftrightarrow> (\<forall>a \<in> set (dests l). sock_port a = Some p)"

definition mcast_tool_inv :: "int \<Rightarrow> int \<Rightarrow> posix history \<Rightarrow> bool" where
  "mcast_tool_inv sd p l \<longleftrightarrow>
     open_fds posix_fds l = {sd} \<and> disciplined posix_fds l \<and> mcast_port_ok p l"

lemma mcast_tool_inv_keep [simp]:
  "mcast_tool_inv sd p (Out os # l) = mcast_tool_inv sd p l"
  "mcast_tool_inv sd p (Ev (Select n fs t) r # l) = mcast_tool_inv sd p l"
  "mcast_tool_inv sd p (Ev (SleepSec k) r # l) = mcast_tool_inv sd p l"
  "mcast_tool_inv sd p (Ev Getchar r # l) = mcast_tool_inv sd p l"
  "mcast_tool_inv sd p (Ev (Calloc k) r # l) = mcast_tool_inv sd p l"
  "mcast_tool_inv sd p (Ev (FreeMem q) r # l) = mcast_tool_inv sd p l"
  "mcast_tool_inv sd p (Ev (Inet_pton d nm) r # l) = mcast_tool_inv sd p l"
  "mcast_tool_inv sd p l \<Longrightarrow> mcast_tool_inv sd p (Ev (Read sd k) r # l)"
  "mcast_tool_inv sd p l \<Longrightarrow> mcast_tool_inv sd p (Ev (Setsockopt sd on v) r # l)"
  "mcast_tool_inv sd p l \<Longrightarrow> mcast_tool_inv sd p (Ev (IfAddr sd nm') r # l)"
  "mcast_tool_inv sd p (Ev (IfIndex nm') r # l) = mcast_tool_inv sd p l"
  "mcast_tool_inv sd p l \<Longrightarrow> sock_port a = Some p \<Longrightarrow> mcast_tool_inv sd p (Ev (Bind sd a) r # l)"
  "mcast_tool_inv sd p l \<Longrightarrow> sock_port a = Some p \<Longrightarrow>
     mcast_tool_inv sd p (Ev (Sendto sd bs a) r # l)"
  by (auto simp: mcast_tool_inv_def mcast_port_ok_def)

interpretation mcast4_receiving: service "mcast4_round sd dmp" "\<lambda>l c r. True"
    "\<lambda>st. mcast_tool_inv sd p" "\<lambda>r. mcast_tool_inv sd p" for sd dmp p
  by unfold_locales
    (auto simp: mcast4_round_def mcast4_receive_def wp_simps split: option.split)

interpretation mcast4_talking: service "mcast4_send sd msg c sa" "\<lambda>l c r. True"
    "\<lambda>st l. mcast_tool_inv sd p l \<and> sock_port sa = Some p" "\<lambda>r. mcast_tool_inv sd p"
    for sd msg c sa p
  by unfold_locales (auto simp: mcast4_send_def Let_def wp_simps split: option.split)

lemma mcast4_server_talks:
  "mcast_tool_inv sd p l \<Longrightarrow> sock_port sa = Some p \<Longrightarrow>
     wp (mcast4_server sd dmp sa g i) (\<lambda>r. mcast_tool_inv sd p) K N l"
  by (auto simp: mcast4_server_def wp_simps mcast4_receiving.serves [OF obeys_any]
      split: option.split)

lemma mcast4_client_talks:
  "mcast_tool_inv sd p l \<Longrightarrow> sock_port sa = Some p \<Longrightarrow>
     wp (mcast4_client sd msg c jn sa g i) (\<lambda>r. mcast_tool_inv sd p) K N l"
  by (auto simp: mcast4_client_def Let_def wp_simps seq_def
      intro!: wp_mono [OF mcast4_talking.serves [OF obeys_any]] split: option.split res.splits)

lemma mcast4_alloc_talks:
  "mcast_tool_inv sd p l \<Longrightarrow> wp (mcast4_alloc n w) (\<lambda>r. mcast_tool_inv sd p) K N l"
  by (auto simp: mcast4_alloc_def wp_simps split: option.split)

lemma mcast4_options_talks:
  "mcast_tool_inv sd p l \<Longrightarrow> wp (mcast4_options sd o') (\<lambda>r. mcast_tool_inv sd p) K N l"
  by (auto simp: mcast4_options_def wp_simps split: option.split)

text \<open>The invariant until the socket is closed, and what is left of it afterwards.\<close>

definition mcast_tool_end :: "int \<Rightarrow> unit res \<Rightarrow> posix history \<Rightarrow> bool" where
  "mcast_tool_end p r l \<longleftrightarrow> disciplined posix_fds l \<and> mcast_port_ok p l"

lemma mcast_tool_inv_end: "mcast_tool_inv sd p l \<Longrightarrow> mcast_tool_end p r l"
  by (simp add: mcast_tool_inv_def mcast_tool_end_def)

lemma mcast_tool_inv_close: "mcast_tool_inv sd p l \<Longrightarrow> mcast_tool_end p r (Ev (Close sd) w # l)"
  by (simp add: mcast_tool_inv_def mcast_tool_end_def mcast_port_ok_def)

lemmas mcast4_talks = mcast4_server_talks mcast4_client_talks mcast4_alloc_talks
  mcast4_options_talks

lemma seq_inv:
  "I l \<Longrightarrow> (\<And>r. I l \<Longrightarrow> Q r l) \<Longrightarrow> seq (\<lambda>a. I) Q r l"
  by (cases r) simp_all

lemma mcast4_run_ends:
  assumes "mcast_tool_inv sd (sin_port o') l"
  shows "wp (mcast4_run sd o' b) (mcast_tool_end (sin_port o')) K N l"
proof -
  let ?p = "sin_port o'"
  let ?I = "mcast_tool_inv sd ?p"
  have inv: "wp m (seq (\<lambda>a. ?I) (mcast_tool_end ?p)) K N l"
    if "wp m (\<lambda>r. ?I) K N l" for m :: "(int, posix) io" and l
    by (rule wp_mono [OF that]) (auto intro: seq_inv mcast_tool_inv_end)
  have tool: "wp (case mtype o' of
         MCAST_SERVER \<Rightarrow> mcast4_server sd (dump o') (SockIn h1 ?p) h2 b
       | MCAST_CLIENT \<Rightarrow> mcast4_client sd (the (message o')) (cont o') (join o') (SockIn h3 ?p) h4 b
       | MCAST_NOTSET \<Rightarrow> say [S ''undefined tool type...''] (ret 0)) (\<lambda>r. ?I) K N l"
    if "?I l" for l h1 h2 h3 h4
    using that by (cases "mtype o'") (auto simp: wp_simps mcast4_talks)
  have tail: "wp (sys (FreeMem p1) (\<lambda>_. sys (FreeMem p2) (\<lambda>_. sys (FreeMem p3) (\<lambda>_.
      sys (Close sd) (\<lambda>_. exit 0))))) (mcast_tool_end ?p) K N l" if "?I l" for l p1 p2 p3
    using that by (auto simp: wp_simps mcast_tool_inv_end mcast_tool_inv_close split: option.split)
  show ?thesis
    unfolding mcast4_run_def
    apply (rule wp_bindI [OF inv [OF mcast4_alloc_talks [OF assms]]])
    apply (simp add: wp_sys mcast_tool_inv_end split: option.split)
    apply (intro allI impI)
    apply (rule wp_bindI [OF inv [OF mcast4_alloc_talks]], simp)
    apply (simp add: wp_sys mcast_tool_inv_end split: option.split)
    apply (intro allI impI)
    apply (rule wp_bindI [OF inv [OF mcast4_alloc_talks]], simp)
    apply (rule wp_bindI [OF inv [OF tool]], simp)
    apply (rule tail, assumption)
    done
qed

text \<open>What the options must give for the tool to start, in terms of the options themselves.\<close>

definition mcast4_starts :: "(char \<times> byte list) list \<Rightarrow> bool" where
  "mcast4_starts opts = (case mcast4_parse opts mcast4_default of
     None \<Rightarrow> False | Some o' \<Rightarrow> mcast4_complete o')"

definition mcast4_port :: "(char \<times> byte list) list \<Rightarrow> int" where
  "mcast4_port opts = (case last_arg CHR ''p'' None opts of None \<Rightarrow> 9999 | Some v \<Rightarrow> atoi v) mod 2 ^ 16"

lemma mcast4_usage_ends: "wp (mcast4_usage name) (\<lambda>r l'. calls l' = calls l \<and> dests l' = dests l \<and>
    disciplined posix_fds l' = disciplined posix_fds l) K N l"
  by (simp add: mcast4_usage_def wp_simps)

text \<open>
  The whole multicast tool. Every call is on its open socket; the server binds and the
  client sends to the port that the last \<open>-p\<close> gives (9999 without one), cut to 16 bits, and to
  nothing else; and when an address, an interface, a port other than 0 or the client's message is
  missing, or an option is unknown, the tool makes no call at all.
\<close>

theorem mcast4_main_talks:
  assumes "obeys K fresh"
  shows "case mcast4_main name opts K N [] of (r, l) \<Rightarrow> disciplined posix_fds l \<and>
    (\<forall>a \<in> set (dests l). sock_port a = Some (mcast4_port opts)) \<and>
    (\<not> mcast4_starts opts \<longrightarrow> calls l = 0)"
proof -
  let ?Q = "\<lambda>r l. disciplined posix_fds l \<and> mcast_port_ok (mcast4_port opts) l \<and>
    (\<not> mcast4_starts opts \<longrightarrow> calls l = 0)"
  have usage: "wp (mcast4_usage name) ?Q K N l" if "calls l = 0" "dests l = []" "disciplined posix_fds l"
    for l
    by (rule wp_mono [OF mcast4_usage_ends]) (simp add: that mcast_port_ok_def)
  have start: "mcast_tool_inv (rv s) (mcast4_port opts)
      (Ev (Socket AF_INET SOCK_DGRAM) s # [Out os])" if "0 \<le> rv s" for s os
    using that by (simp add: mcast_tool_inv_def mcast_port_ok_def)
  have run: "wp (bind (mcast4_options sd q) (mcast4_run sd q)) (mcast_tool_end (sin_port q)) K N l"
    if inv: "mcast_tool_inv sd (sin_port q) l" for sd q l
    by (rule wp_bindI [where P = "\<lambda>a. mcast_tool_inv sd (sin_port q)"])
      (auto intro!: wp_mono [OF mcast4_options_talks [OF inv]] mcast4_run_ends
        intro: seq_inv mcast_tool_inv_end)
  have none: "mcast_port_ok p l" if "dests l = []" for p l
    using that by (simp add: mcast_port_ok_def)
  have "wp (mcast4_main name opts) ?Q K N []"
  proof (cases "mcast4_parse opts mcast4_default")
    case None
    then show ?thesis by (simp add: mcast4_main_def usage)
  next
    case (Some o')
    then have port: "sin_port o' = mcast4_port opts"
      by (auto simp: mcast4_options_parsed sin_port_def mcast4_port_def split: if_split_asm)
    have tool: "wp (bind (mcast4_options (rv s) o') (mcast4_run (rv s) o')) ?Q K N
        [Ev (Socket AF_INET SOCK_DGRAM) s, Out os]" if "0 \<le> rv s" "mcast4_complete o'" for s os
    proof (rule wp_mono)
      show "wp (bind (mcast4_options (rv s) o') (mcast4_run (rv s) o'))
        (mcast_tool_end (mcast4_port opts)) K N [Ev (Socket AF_INET SOCK_DGRAM) s, Out os]"
        using run [of "rv s" o'] start [OF that(1)] by (simp add: port)
      show "\<And>r l. mcast_tool_end (mcast4_port opts) r l \<Longrightarrow> ?Q r l"
        using Some that(2) by (simp add: mcast_tool_end_def mcast4_starts_def)
    qed
    have bad: "\<not> mcast4_complete o' \<Longrightarrow> \<not> mcast4_starts opts"
      "mtype o' = MCAST_NOTSET \<Longrightarrow> \<not> mcast4_starts opts"
      using Some by (simp_all add: mcast4_starts_def mcast4_complete_def)
    have good: "mcast4_complete o' \<Longrightarrow> mcast4_starts opts"
      using Some by (simp add: mcast4_starts_def)
    have us: "wp (mcast4_usage name) ?Q K N []" "wp (mcast4_usage name) ?Q K N [Out os]" for os
      by (rule usage; simp)+
    show ?thesis
      using Some bad good tool us
      by (auto simp: mcast4_main_def none wp_say wp_sys wp_if wp_exit split: option.split)
  qed
  then show ?thesis
    by (simp add: wp_def mcast_port_ok_def)
qed

text \<open>\<open>-c -i e0 -a 224 -p 12345 -m h --nojoin\<close>\<close>

definition mcast_args :: "(char \<times> byte list) list" where
  "mcast_args = [(CHR ''c'', []), (CHR ''i'', [101, 48]), (CHR ''a'', [50, 50, 52]),
     (CHR ''p'', [49, 50, 51, 52, 53]), (CHR ''m'', [104]), (CHR ''4'', [])]"

definition mcast_main_script :: "resp list" where
  "mcast_main_script = [ok 3, ok 0, with_nums 0 [99], ok 0, ok 0, ok 0, ok 1000, with_nums 1 [5],
     ok 2000, with_nums 1 [5], ok 3000, ok 4000, ok 5, ok 0, ok 5]"

theorem mcast4_main_talks_witness:
  "(case mcast4_main [109] mcast_args (guarded fresh (play mcast_main_script)) 9 [] of (r, l) \<Rightarrow>
     disciplined posix_fds l \<and>
     (\<forall>a \<in> set (dests l). sock_port a = Some (mcast4_port mcast_args)) \<and>
     (\<not> mcast4_starts mcast_args \<longrightarrow> calls l = 0)) \<and>
   dests (snd (mcast4_main [109] mcast_args (guarded fresh (play mcast_main_script)) 9 [])) =
     [SockIn 5 12345, SockIn 5 12345]"
  by (rule conjI [OF mcast4_main_talks [OF obeys_guarded]]) code_simp

end
