(* ===== verification/Mcast6.thy ===== *)
theory Mcast6
  imports Mcast4
begin

text \<open>
  \<open>multicast/c/mcast6.c\<close>: the IPv6 twin of \<open>mcast4.c\<close>. Its own definitions, in the order of the
  file; what it has in common with \<open>mcast4\<close> is then proved, not assumed. An IPv6 address is its
  16 bytes; the interface is an index.
\<close>

section \<open>Options\<close>

definition mcast6_default :: mcast_opts where
  "mcast6_default = \<lparr>mtype = MCAST_NOTSET, addr = None, port = 9999, ifname = None,
     message = None, dump = False, hops = 255, loopback = 1, cont = False, join = True\<rparr>"

text \<open>One case of the \<open>switch\<close>; \<open>None\<close> prints the usage and exits.\<close>

definition mcast6_opt :: "char \<Rightarrow> byte list \<Rightarrow> mcast_opts \<Rightarrow> mcast_opts option" where
  "mcast6_opt opt optarg o' =
     (if opt = CHR ''c'' then Some (o'\<lparr>mtype := MCAST_CLIENT\<rparr>)
      else if opt = CHR ''s'' then Some (o'\<lparr>mtype := MCAST_SERVER\<rparr>)
      else if opt = CHR ''a'' then Some (o'\<lparr>addr := Some optarg\<rparr>)
      else if opt = CHR ''p'' then Some (o'\<lparr>port := atoi optarg\<rparr>)
      else if opt = CHR ''i'' then Some (o'\<lparr>ifname := Some optarg\<rparr>)
      else if opt = CHR ''m'' then Some (o'\<lparr>message := Some optarg\<rparr>)
      else if opt = CHR ''0'' then Some (o'\<lparr>dump := True\<rparr>)
      else if opt = CHR ''1'' then Some (o'\<lparr>hops := atoi optarg\<rparr>)
      else if opt = CHR ''2'' then Some (o'\<lparr>loopback := 0\<rparr>)
      else if opt = CHR ''3'' then Some (o'\<lparr>cont := True\<rparr>)
      else if opt = CHR ''4'' then Some (o'\<lparr>join := False\<rparr>)
      else None)"

primrec mcast6_parse :: "(char \<times> byte list) list \<Rightarrow> mcast_opts \<Rightarrow> mcast_opts option" where
  "mcast6_parse [] o' = Some o'"
| "mcast6_parse (x # xs) o' = Option.bind (mcast6_opt (fst x) (snd x) o') (mcast6_parse xs)"

text \<open>The usage text, with the tabs left out.\<close>

definition mcast6_usage :: "byte list \<Rightarrow> (unit, posix) io" where
  "mcast6_usage name =
     say [S ''Usage: '', B name, S '' [-h] -i <interface> -a <address> -p <port>'']
     (say [S ''-h, --help this help message'']
     (say [S ''-c, --client multicast test client'']
     (say [S ''-s, --server multicast test server'']
     (say [S ''-m, --message message for multicast client'']
     (say [S ''-i, --intf <interface> bind to network interface'']
     (say [S ''-a, --addr <address> multicast address'']
     (say [S ''-p, --port <port> port, default is 9999'']
     (say [S ''--hops = <hops> multicast packet lifetime'']
     (say [S ''--noloop disable loopback for outgoing multicast diagrams'']
     (say [S ''--nojoin prevent client from joining multicast group'']
     (say [S ''--cont multicast client continous mode: no need to press enter to send next packet'']
     (say [S ''--hexdump hexdump packet mode for multicast server'']
     (say [S ''Minimal client example: '', B name,
        S '' -c -i eth0 -a ff02::5:6 -p 12345 -m 'test message'']
     (say [S ''Minimal server example: '', B name, S '' -s -i eth0 -a ff02::5:6 -p 12345'']
     (exit 0)))))))))))))))"

definition mcast6_complete :: "mcast_opts \<Rightarrow> bool" where
  "mcast6_complete o' = (case mtype o' of
     MCAST_SERVER \<Rightarrow> \<not> (port o' = 0 \<or> addr o' = None \<or> ifname o' = None)
   | MCAST_CLIENT \<Rightarrow> \<not> (port o' = 0 \<or> addr o' = None \<or> ifname o' = None \<or> message o' = None)
   | MCAST_NOTSET \<Rightarrow> False)"

section \<open>Server\<close>

definition dump6_byte :: "nat \<Rightarrow> byte \<Rightarrow> byte list" where
  "dump6_byte p b =
     chars ''0x'' @ hex02 (unat (scast b :: 32 word)) @ [32] @
     (if 0 < p \<and> p mod 64 = 0 then [10] else [])"

definition dump6_packet :: "byte list \<Rightarrow> byte list" where
  "dump6_packet bs = concat (map (\<lambda>p. dump6_byte p (bs ! p)) [0..<length bs]) @ [10]"

definition mcast6_receive :: "int \<Rightarrow> bool \<Rightarrow> nat \<times> int \<Rightarrow>
    ((nat \<times> int) + int, posix) io" where
  "mcast6_receive sd dmp st =
     sys (Read sd 256) (\<lambda>r.
     if rv r < 0 \<or> 256 \<le> rv r then fault ''mcast_server: buffer[len] out of bounds''
     else if rv r = 0 then
       say [S ''read zero bytes...''] (ret (Inl (fst st + 1, snd st)))
     else if dmp then say [B (dump6_packet (bytes r))] (ret (Inl st))
     else say [S ''RECV: '', B (cstr (bytes r))] (ret (Inl st)))"

definition mcast6_round :: "int \<Rightarrow> bool \<Rightarrow> nat \<times> int \<Rightarrow> ((nat \<times> int) + int, posix) io" where
  "mcast6_round sd dmp st =
     (if 5 \<le> fst st then ret (Inr (snd st))
      else
        sys (Select (sd + 1) [sd] (Some 10)) (\<lambda>s.
        if rv s = 0 then ret (Inl (fst st, rv s))
        else if rv s < 0 then
          (if err s = EINTR then ret (Inl (fst st + 1, rv s))
           else perror ''select'' (ret (Inr (rv s))))
        else if sd \<in> set (ready s) then mcast6_receive sd dmp (fst st, rv s)
        else say [S ''unexpected select result...''] (ret (Inl (fst st + 1, rv s)))))"

definition mcast6_server :: "int \<Rightarrow> bool \<Rightarrow> sockaddr \<Rightarrow> byte list \<Rightarrow> int \<Rightarrow> (int, posix) io" where
  "mcast6_server sd dmp saddr grp ifidx =
     sys (Bind sd saddr) (\<lambda>b.
     if rv b < 0 then perror ''bind'' (ret (-1)) else
     sys (Setsockopt sd ''IPV6_ADD_MEMBERSHIP'' (OptMreq6 grp ifidx)) (\<lambda>j.
     if rv j < 0 then perror ''setsockopt IPV6_ADD_MEMBERSHIP'' (ret (-1)) else
     loop (mcast6_round sd dmp) (0, rv j)))"

section \<open>Client\<close>

definition mcast6_packet :: "byte list \<Rightarrow> int \<Rightarrow> byte list" where
  "mcast6_packet msg n = snprintf (length msg + 10) (msg @ [58] @ dec n @ [10]) @ [0]"

definition mcast6_send :: "int \<Rightarrow> byte list \<Rightarrow> bool \<Rightarrow> sockaddr \<Rightarrow> nat \<times> int \<times> int \<Rightarrow>
    ((nat \<times> int \<times> int) + int, posix) io" where
  "mcast6_send sd msg cnt' saddr st =
     (let faults = fst st; n = fst (snd st) in
      if 5 \<le> faults then ret (Inr (snd (snd st)))
      else if n = 2 ^ 31 - 1 then fault ''mcast_client: cnt overflows''
      else
        sys (Sendto sd (mcast6_packet msg n) saddr) (\<lambda>w.
        let faults' = (if rv w < 0 then faults + 1 else faults);
            next' = (\<lambda>_. ret (Inl (faults', n + 1, rv w)));
            pause = (if cnt' then sys (SleepSec 1) next'
                     else say [S ''press enter to send next packet...''] (sys Getchar next')) in
        if rv w < 0 then perror ''sendto'' pause else pause))"

definition mcast6_client :: "int \<Rightarrow> byte list \<Rightarrow> bool \<Rightarrow> bool \<Rightarrow> sockaddr \<Rightarrow> byte list \<Rightarrow> int \<Rightarrow>
    (int, posix) io" where
  "mcast6_client sd msg cnt' jn saddr grp ifidx =
     (let go = sys (Calloc (length msg + 10)) (\<lambda>p.
        if rv p = 0 then fault ''mcast_client: memset of NULL''
        else bind (loop (mcast6_send sd msg cnt' saddr) (0, 0, 0)) (\<lambda>v.
          sys (FreeMem (rv p)) (\<lambda>_. ret v))) in
      if jn then
        sys (Setsockopt sd ''IPV6_ADD_MEMBERSHIP'' (OptMreq6 grp ifidx)) (\<lambda>j.
        if rv j < 0 then perror ''setsockopt IPV6_ADD_MEMBERSHIP'' (ret (-1)) else go)
      else go)"

section \<open>The whole tool\<close>

definition mcast6_addr :: "resp \<Rightarrow> byte list" where
  "mcast6_addr r = (if rv r = 1 then bytes r else zeros 16)"

definition sin6_port :: "mcast_opts \<Rightarrow> int" where
  "sin6_port o' = port o' mod 2 ^ 16"

definition mcast6_announce :: "mcast_opts \<Rightarrow> out list" where
  "mcast6_announce o' = (case mtype o' of
     MCAST_SERVER \<Rightarrow> [S ''server: addr['', B (the (addr o')), S ''] ifname['', B (the (ifname o')),
       S ''] port['', D (port o'), S ''] dump['', D (of_bool (dump o')), S '']'']
   | MCAST_CLIENT \<Rightarrow> [S ''client: addr['', B (the (addr o')), S ''] ifname['', B (the (ifname o')),
       S ''] port['', D (port o'), S ''] hops['', D (hops o'), S ''] loop['', D (loopback o'),
       S ''] message['', B (the (message o')), S ''] cont['', D (of_bool (cont o')),
       S ''] join['', D (of_bool (join o')), S '']'']
   | MCAST_NOTSET \<Rightarrow> [S ''should be client or server...''])"

definition mcast6_alloc :: "nat \<Rightarrow> string \<Rightarrow> (int, posix) io" where
  "mcast6_alloc n what =
     sys (Calloc n) (\<lambda>p. if rv p = 0 then perror what (exit 255) else ret (rv p))"

text \<open>
  The interface index and the \<open>setsockopt\<close> calls. The value given for \<open>SO_REUSEADDR\<close> is that of
  the multicast loop switch.
\<close>

definition mcast6_options :: "int \<Rightarrow> mcast_opts \<Rightarrow> (int, posix) io" where
  "mcast6_options sd o' =
     sys (IfIndex (the (ifname o'))) (\<lambda>i.
     if rv i = 0 then perror ''if_nametoindex'' (exit 255) else
     sys (Setsockopt sd ''SO_REUSEADDR'' (OptInt (loopback o'))) (\<lambda>r.
     if rv r < 0 then perror ''setsockopt SO_REUSEADDR'' (exit 255) else
     sys (Setsockopt sd ''IPV6_MULTICAST_IF'' (OptInt (rv i))) (\<lambda>r.
     if rv r < 0 then perror ''setsockopt IPV6_MULTICAST_IF'' (exit 255) else
     sys (Setsockopt sd ''IPV6_MULTICAST_HOPS'' (OptInt (hops o'))) (\<lambda>r.
     if rv r < 0 then perror ''setsockopt IPV6_MULTICAST_HOPS'' (exit 255) else
     sys (Setsockopt sd ''IPV6_MULTICAST_LOOP'' (OptInt (loopback o'))) (\<lambda>r.
     if rv r < 0 then perror ''setsockopt IPV6_MULTICAST_LOOP'' (exit 255) else
     ret (rv i))))))"

definition mcast6_run :: "int \<Rightarrow> mcast_opts \<Rightarrow> int \<Rightarrow> (unit, posix) io" where
  "mcast6_run sd o' ifidx =
     bind (mcast6_alloc 28 ''calloc saddr'') (\<lambda>saddr.
     sys (Inet_pton AF_INET6 (the (addr o'))) (\<lambda>a.
     bind (mcast6_alloc 28 ''calloc maddr'') (\<lambda>maddr.
     sys (Inet_pton AF_INET6 (the (addr o'))) (\<lambda>m.
     bind (mcast6_alloc 20 ''calloc mreq'') (\<lambda>mreq.
     bind (case mtype o' of
         MCAST_SERVER \<Rightarrow> mcast6_server sd (dump o') (SockIn6 (mcast6_addr a) (sin6_port o'))
           (mcast6_addr m) ifidx
       | MCAST_CLIENT \<Rightarrow> mcast6_client sd (the (message o')) (cont o') (join o')
           (SockIn6 (mcast6_addr m) (sin6_port o')) (mcast6_addr m) ifidx
       | MCAST_NOTSET \<Rightarrow> say [S ''undefined tool type...''] (ret 0)) (\<lambda>_.
     sys (FreeMem saddr) (\<lambda>_.
     sys (FreeMem maddr) (\<lambda>_.
     sys (FreeMem mreq) (\<lambda>_.
     sys (Close sd) (\<lambda>_. exit 0))))))))))"

definition mcast6_main :: "byte list \<Rightarrow> (char \<times> byte list) list \<Rightarrow> (unit, posix) io" where
  "mcast6_main name opts =
     (case mcast6_parse opts mcast6_default of
        None \<Rightarrow> mcast6_usage name
      | Some o' \<Rightarrow>
          if mtype o' = MCAST_NOTSET then say (mcast6_announce o') (mcast6_usage name)
          else if \<not> mcast6_complete o' then mcast6_usage name
          else say (mcast6_announce o')
            (sys (Socket AF_INET6 SOCK_DGRAM) (\<lambda>s.
             if rv s < 0 then perror ''socket'' (exit 255)
             else bind (mcast6_options (rv s) o') (mcast6_run (rv s) o'))))"

section \<open>What the two tools share\<close>

lemma mcast6_default_same: "mcast6_default = mcast4_default"
  by (simp add: mcast6_default_def mcast4_default_def)

lemma mcast6_opt_same: "mcast6_opt c v o' = mcast4_opt c v o'"
  by (simp add: mcast6_opt_def mcast4_opt_def)

lemma mcast6_parse_same: "mcast6_parse xs o' = mcast4_parse xs o'"
proof (induction xs arbitrary: o')
  case (Cons x xs)
  then have "mcast6_parse xs = mcast4_parse xs" by blast
  then show ?case by (simp add: mcast6_opt_same)
qed simp

lemma dump6_same: "dump6_packet = dump_packet"
  by (simp add: dump6_packet_def dump_packet_def dump6_byte_def dump_byte_def fun_eq_iff)

lemma mcast6_receive_same: "mcast6_receive = mcast4_receive"
  by (intro ext) (simp only: mcast6_receive_def mcast4_receive_def dump6_same)

lemma mcast6_round_same: "mcast6_round = mcast4_round"
  by (intro ext) (simp only: mcast6_round_def mcast4_round_def mcast6_receive_same)

lemma mcast6_send_same: "mcast6_send = mcast4_send"
  by (intro ext) (simp only: mcast6_send_def mcast4_send_def mcast6_packet_def mcast4_packet_def)

text \<open>
  C11: the loops of the IPv6 tool, whatever the calls answer. Its server counts at most five
  faults (an interrupted \<open>select\<close>, an empty datagram, a spurious wake-up), returns only after
  exactly five of them or right after a call that has failed, and stores outside of its buffer
  exactly when a \<open>read\<close> has failed or filled all the 256 bytes. Its client sends the packets
  \<open>msg:0\<close>, \<open>msg:1\<close>, \<open>msg:2\<close> and so on, none left out or repeated, failed sends included, each of the
  first ten million with its newline and its NUL, and returns only after exactly five failed
  sends or right after a call that has failed.
\<close>

theorem mcast6_loops:
  shows "(case mcast6_server sd dmp saddr grp ifidx K N [] of (r, l) \<Rightarrow>
      faults_in l \<le> 5 \<and> ((\<exists>e. r = Fault e) \<longleftrightarrow> overrun l) \<and>
      (\<forall>v. r = Val v \<longrightarrow> faults_in l = 5 \<or> ends_in_failure l)) \<and>
    (case mcast6_client sd msg cnt' jn saddr grp ifidx K' N' [] of (r, l) \<Rightarrow>
      (\<forall>k < length (sent l). rev (sent l) ! k = mcast6_packet msg (int k) \<and>
        (k < 10 ^ 7 \<longrightarrow> rev (sent l) ! k = msg @ [58] @ dec (int k) @ [10, 0])) \<and>
      failed_sends l \<le> 5 \<and> (\<forall>v. r = Val v \<longrightarrow> failed_sends l = 5 \<or> ends_in_failure l))"
proof
  have serve: "wp (loop (mcast4_round sd dmp) (0, v)) mcast_good K N l"
    if "faults_in l = 0" "\<not> overrun l" for v l
    by (rule mcast4.serves [OF obeys_any]) (simp add: mcast_inv_def that)
  have "wp (mcast6_server sd dmp saddr grp ifidx) mcast_good K N []"
    unfolding mcast6_server_def mcast6_round_same
    by (auto simp: wp_simps serve mcast_good_def ends_in_failure_def split: option.splits)
  then show "case mcast6_server sd dmp saddr grp ifidx K N [] of (r, l) \<Rightarrow>
      faults_in l \<le> 5 \<and> ((\<exists>e. r = Fault e) \<longleftrightarrow> overrun l) \<and>
      (\<forall>v. r = Val v \<longrightarrow> faults_in l = 5 \<or> ends_in_failure l)"
    by (auto simp: wp_def dest: mcast_goodD)
  have pkt: "mcast6_packet = mcast4_packet"
    by (simp add: mcast6_packet_def mcast4_packet_def fun_eq_iff)
  let ?Q = "\<lambda>r :: int res. \<lambda>l. failed_sends l \<le> 5 \<and>
     rev (sent l) = map (\<lambda>k. mcast4_packet msg (int k)) [0..<length (sent l)] \<and>
     (\<forall>v. r = Val v \<longrightarrow> failed_sends l = 5 \<or> ends_in_failure l)"
  have loop: "wp (loop (mcast4_send sd msg cnt' saddr) (0, 0, 0)) (send_good msg) K' N' l"
    if "sent l = []" "failed_sends l = 0" for l
    by (rule mcast4_sending.serves) (simp_all add: obeys_def send_inv_def that)
  have "wp (mcast6_client sd msg cnt' jn saddr grp ifidx) ?Q K' N' []"
    unfolding mcast6_client_def Let_def mcast6_send_same
    by (auto simp: wp_simps ends_in_failure_def send_good_def seq_def intro!: wp_mono [OF loop]
        split: option.splits res.splits)
  then have "case mcast6_client sd msg cnt' jn saddr grp ifidx K' N' [] of (r, l) \<Rightarrow> ?Q r l"
    by (simp add: wp_def)
  then show "case mcast6_client sd msg cnt' jn saddr grp ifidx K' N' [] of (r, l) \<Rightarrow>
      (\<forall>k < length (sent l). rev (sent l) ! k = mcast6_packet msg (int k) \<and>
        (k < 10 ^ 7 \<longrightarrow> rev (sent l) ! k = msg @ [58] @ dec (int k) @ [10, 0])) \<and>
      failed_sends l \<le> 5 \<and> (\<forall>v. r = Val v \<longrightarrow> failed_sends l = 5 \<or> ends_in_failure l)"
    by (auto simp: pkt mcast4_packet_whole split: prod.splits)
qed

theorem mcast6_loops_witness:
  "((case mcast6_server 3 True (SockIn6 [255, 2] 9999) [255, 2] 7
       (play mcast_script) 20 [] of (r, l) \<Rightarrow>
      faults_in l \<le> 5 \<and> ((\<exists>e. r = Fault e) \<longleftrightarrow> overrun l) \<and>
      (\<forall>v. r = Val v \<longrightarrow> faults_in l = 5 \<or> ends_in_failure l)) \<and>
    (case mcast6_client 3 [104] True True (SockIn6 [255, 2] 9999) [255, 2] 7
       (play mcast_client_script) 20 [] of (r, l) \<Rightarrow>
      (\<forall>k < length (sent l). rev (sent l) ! k = mcast6_packet [104] (int k) \<and>
        (k < 10 ^ 7 \<longrightarrow> rev (sent l) ! k = [104] @ [58] @ dec (int k) @ [10, 0])) \<and>
      failed_sends l \<le> 5 \<and> (\<forall>v. r = Val v \<longrightarrow> failed_sends l = 5 \<or> ends_in_failure l))) \<and>
   fst (mcast6_server 3 True (SockIn6 [255, 2] 9999) [255, 2] 7 (play mcast_script) 20 []) =
     Val (-1) \<and>
   fst (mcast6_client 3 [104] True True (SockIn6 [255, 2] 9999) [255, 2] 7
     (play mcast_client_script) 20 []) = Val (-1)"
  by (rule conjI [OF mcast6_loops]) code_simp

section \<open>Where the tool talks\<close>

text \<open>The values that a history has set \<open>SO_REUSEADDR\<close> to.\<close>

primrec reuse_values :: "posix history \<Rightarrow> sockopt list" where
  "reuse_values [] = []"
| "reuse_values (e # l) = (case e of
     Ev (Setsockopt fd n v) r \<Rightarrow> if n = ''SO_REUSEADDR'' then v # reuse_values l else reuse_values l
   | _ \<Rightarrow> reuse_values l)"

definition reuse_ok :: "int \<Rightarrow> posix history \<Rightarrow> bool" where
  "reuse_ok v l \<longleftrightarrow> set (reuse_values l) \<subseteq> {OptInt v}"

definition mcast6_inv :: "int \<Rightarrow> int \<Rightarrow> int \<Rightarrow> posix history \<Rightarrow> bool" where
  "mcast6_inv sd p v l \<longleftrightarrow> mcast_tool_inv sd p l \<and> reuse_ok v l"

definition mcast6_end :: "int \<Rightarrow> int \<Rightarrow> unit res \<Rightarrow> posix history \<Rightarrow> bool" where
  "mcast6_end p v r l \<longleftrightarrow> mcast_tool_end p r l \<and> reuse_ok v l"

lemma mcast6_inv_keep [simp]:
  "mcast6_inv sd p v (Out os # l) = mcast6_inv sd p v l"
  "mcast6_inv sd p v (Ev (Select n fs t) r # l) = mcast6_inv sd p v l"
  "mcast6_inv sd p v (Ev (SleepSec k) r # l) = mcast6_inv sd p v l"
  "mcast6_inv sd p v (Ev Getchar r # l) = mcast6_inv sd p v l"
  "mcast6_inv sd p v (Ev (Calloc k) r # l) = mcast6_inv sd p v l"
  "mcast6_inv sd p v (Ev (FreeMem q) r # l) = mcast6_inv sd p v l"
  "mcast6_inv sd p v (Ev (Inet_pton d nm) r # l) = mcast6_inv sd p v l"
  "mcast6_inv sd p v (Ev (IfIndex nm) r # l) = mcast6_inv sd p v l"
  "mcast6_inv sd p v l \<Longrightarrow> mcast6_inv sd p v (Ev (Read sd k) r # l)"
  "mcast6_inv sd p v l \<Longrightarrow> on \<noteq> ''SO_REUSEADDR'' \<Longrightarrow>
     mcast6_inv sd p v (Ev (Setsockopt sd on w) r # l)"
  "mcast6_inv sd p v l \<Longrightarrow> mcast6_inv sd p v (Ev (Setsockopt sd ''SO_REUSEADDR'' (OptInt v)) r # l)"
  "mcast6_inv sd p v l \<Longrightarrow> sock_port a = Some p \<Longrightarrow> mcast6_inv sd p v (Ev (Bind sd a) r # l)"
  "mcast6_inv sd p v l \<Longrightarrow> sock_port a = Some p \<Longrightarrow> mcast6_inv sd p v (Ev (Sendto sd bs a) r # l)"
  by (auto simp: mcast6_inv_def reuse_ok_def)

lemma mcast6_inv_end: "mcast6_inv sd p v l \<Longrightarrow> mcast6_end p v r l"
  by (auto simp: mcast6_inv_def mcast6_end_def intro: mcast_tool_inv_end)

lemma mcast6_inv_close: "mcast6_inv sd p v l \<Longrightarrow> mcast6_end p v r (Ev (Close sd) w # l)"
  by (simp add: mcast6_inv_def mcast6_end_def mcast_tool_inv_close reuse_ok_def)

interpretation mcast6_receiving: service "mcast6_round sd dmp" "\<lambda>l c r. True"
    "\<lambda>st. mcast6_inv sd p v" "\<lambda>r. mcast6_inv sd p v" for sd dmp p v
  by unfold_locales
    (auto simp: mcast6_round_def mcast6_receive_def wp_simps split: option.split)

interpretation mcast6_talking: service "mcast6_send sd msg c sa" "\<lambda>l c r. True"
    "\<lambda>st l. mcast6_inv sd p v l \<and> sock_port sa = Some p" "\<lambda>r. mcast6_inv sd p v"
    for sd msg c sa p v
  by unfold_locales (auto simp: mcast6_send_def Let_def wp_simps split: option.split)

lemma mcast6_server_talks:
  "mcast6_inv sd p v l \<Longrightarrow> sock_port sa = Some p \<Longrightarrow>
     wp (mcast6_server sd dmp sa g i) (\<lambda>r. mcast6_inv sd p v) K N l"
  by (auto simp: mcast6_server_def wp_simps mcast6_receiving.serves [OF obeys_any]
      split: option.split)

lemma mcast6_client_talks:
  "mcast6_inv sd p v l \<Longrightarrow> sock_port sa = Some p \<Longrightarrow>
     wp (mcast6_client sd msg c jn sa g i) (\<lambda>r. mcast6_inv sd p v) K N l"
  by (auto simp: mcast6_client_def Let_def wp_simps seq_def
      intro!: wp_mono [OF mcast6_talking.serves [OF obeys_any]] split: option.split res.splits)

lemma mcast6_alloc_talks:
  "mcast6_inv sd p v l \<Longrightarrow> wp (mcast6_alloc n w) (\<lambda>r. mcast6_inv sd p v) K N l"
  by (auto simp: mcast6_alloc_def wp_simps split: option.split)

lemma mcast6_options_talks:
  "mcast6_inv sd p (loopback o') l \<Longrightarrow>
     wp (mcast6_options sd o') (\<lambda>r. mcast6_inv sd p (loopback o')) K N l"
  by (auto simp: mcast6_options_def wp_simps split: option.split)

lemma mcast6_run_ends:
  assumes "mcast6_inv sd (sin6_port o') v l"
  shows "wp (mcast6_run sd o' b) (mcast6_end (sin6_port o') v) K N l"
proof -
  let ?p = "sin6_port o'"
  let ?I = "mcast6_inv sd ?p v"
  have inv: "wp m (seq (\<lambda>a. ?I) (mcast6_end ?p v)) K N l"
    if "wp m (\<lambda>r. ?I) K N l" for m :: "(int, posix) io" and l
    by (rule wp_mono [OF that]) (auto intro: seq_inv mcast6_inv_end)
  have tool: "wp (case mtype o' of
         MCAST_SERVER \<Rightarrow> mcast6_server sd (dump o') (SockIn6 h1 ?p) h2 b
       | MCAST_CLIENT \<Rightarrow> mcast6_client sd (the (message o')) (cont o') (join o') (SockIn6 h3 ?p) h4 b
       | MCAST_NOTSET \<Rightarrow> say [S ''undefined tool type...''] (ret 0)) (\<lambda>r. ?I) K N l"
    if "?I l" for l h1 h2 h3 h4
    using that by (cases "mtype o'")
      (auto simp: wp_simps mcast6_server_talks mcast6_client_talks)
  have tail: "wp (sys (FreeMem p1) (\<lambda>_. sys (FreeMem p2) (\<lambda>_. sys (FreeMem p3) (\<lambda>_.
      sys (Close sd) (\<lambda>_. exit 0))))) (mcast6_end ?p v) K N l" if "?I l" for l p1 p2 p3
    using that by (auto simp: wp_simps mcast6_inv_end mcast6_inv_close split: option.split)
  show ?thesis
    unfolding mcast6_run_def
    apply (rule wp_bindI [OF inv [OF mcast6_alloc_talks [OF assms]]])
    apply (simp add: wp_sys mcast6_inv_end split: option.split)
    apply (intro allI impI)
    apply (rule wp_bindI [OF inv [OF mcast6_alloc_talks]], simp)
    apply (simp add: wp_sys mcast6_inv_end split: option.split)
    apply (intro allI impI)
    apply (rule wp_bindI [OF inv [OF mcast6_alloc_talks]], simp)
    apply (rule wp_bindI [OF inv [OF tool]], simp)
    apply (rule tail, assumption)
    done
qed

lemma mcast6_usage_ends: "wp (mcast6_usage name) (\<lambda>r l'. calls l' = calls l \<and> dests l' = dests l \<and>
    reuse_values l' = reuse_values l \<and> disciplined posix_fds l' = disciplined posix_fds l) K N l"
  by (simp add: mcast6_usage_def wp_simps)

text \<open>
  The whole IPv6 tool. Every call is on its open socket, every packet goes to the configured
  port, and \<open>SO_REUSEADDR\<close> is only ever set to the value of the loop switch: with \<open>--noloop\<close> the
  tool disables address reuse, where \<open>mcast4\<close> always enables it. (The last part is a defect of the
  code: the wrong variable is passed.)
\<close>

theorem mcast6_main_talks:
  assumes "obeys K fresh"
  shows "case mcast6_main name opts K N [] of (r, l) \<Rightarrow> disciplined posix_fds l \<and>
    (\<forall>a \<in> set (dests l). sock_port a = Some (mcast4_port opts)) \<and>
    set (reuse_values l) \<subseteq> {OptInt (if CHR ''2'' \<in> fst ` set opts then 0 else 1)}"
proof -
  define v where "v = (if CHR ''2'' \<in> fst ` set opts then 0 else 1 :: int)"
  let ?Q = "\<lambda>r l. mcast6_end (mcast4_port opts) v r l"
  have usage: "wp (mcast6_usage name) ?Q K N l"
    if "reuse_values l = []" "dests l = []" "disciplined posix_fds l" for l
    by (rule wp_mono [OF mcast6_usage_ends])
      (simp add: that mcast6_end_def mcast_tool_end_def mcast_port_ok_def reuse_ok_def)
  have start: "mcast6_inv (rv s) p v (Ev (Socket AF_INET6 SOCK_DGRAM) s # [Out os])"
    if "0 \<le> rv s" for s os p v
    using that by (simp add: mcast6_inv_def mcast_tool_inv_def mcast_port_ok_def reuse_ok_def)
  have run: "wp (bind (mcast6_options sd q) (mcast6_run sd q)) (mcast6_end (sin6_port q) (loopback q)) K N l"
    if inv: "mcast6_inv sd (sin6_port q) (loopback q) l" for sd q l
    by (rule wp_bindI [where P = "\<lambda>a. mcast6_inv sd (sin6_port q) (loopback q)"])
      (auto intro!: wp_mono [OF mcast6_options_talks [OF inv]] mcast6_run_ends
        intro: seq_inv mcast6_inv_end)
  have fin: "mcast6_end p v r l" if "dests l = []" "reuse_values l = []" "disciplined posix_fds l"
    for p v r l
    using that by (simp add: mcast6_end_def mcast_tool_end_def mcast_port_ok_def reuse_ok_def)
  have "wp (mcast6_main name opts) ?Q K N []"
  proof (cases "mcast4_parse opts mcast4_default")
    case None
    then show ?thesis by (simp add: mcast6_main_def mcast6_parse_same mcast6_default_same usage)
  next
    case (Some o')
    then have "sin6_port o' = mcast4_port opts" "loopback o' = v"
      by (auto simp: mcast4_parse_from opts_from_def mcast4_default_def sin6_port_def
          mcast4_port_def number_or_def v_def split: if_split_asm)
    then have "wp (bind (mcast6_options (rv s) o') (mcast6_run (rv s) o')) ?Q K N
        [Ev (Socket AF_INET6 SOCK_DGRAM) s, Out os]" if "0 \<le> rv s" for s os
      using run [of "rv s" o'] start [OF that, of "sin6_port o'" "loopback o'" os] by simp
    moreover have "wp (mcast6_usage name) ?Q K N []" "wp (mcast6_usage name) ?Q K N [Out os]" for os
      by (rule usage; simp)+
    ultimately show ?thesis
      using Some
      by (auto simp: mcast6_main_def mcast6_parse_same mcast6_default_same fin wp_say wp_sys wp_if
          wp_exit split: option.split)
  qed
  then show ?thesis
    by (simp add: wp_def mcast6_end_def mcast_tool_end_def mcast_port_ok_def reuse_ok_def v_def)
qed

text \<open>\<open>-s -i e0 -a f --noloop\<close>\<close>

definition mcast6_args :: "(char \<times> byte list) list" where
  "mcast6_args = [(CHR ''s'', []), (CHR ''i'', [101, 48]), (CHR ''a'', [102]), (CHR ''2'', [])]"

definition mcast6_script :: "resp list" where
  "mcast6_script = [ok 3, ok 2, ok 0, ok 0, ok 0, ok 0, ok 1000, got (zeros 16), ok 2000,
     got (zeros 16), ok 3000, ok 0, ok 0, failed EOTHER, ok 0, ok 0, ok 0, ok 0]"

theorem mcast6_main_talks_witness:
  "(case mcast6_main [109] mcast6_args (guarded fresh (play mcast6_script)) 9 [] of (r, l) \<Rightarrow>
     disciplined posix_fds l \<and>
     (\<forall>a \<in> set (dests l). sock_port a = Some (mcast4_port mcast6_args)) \<and>
     set (reuse_values l) \<subseteq> {OptInt (if CHR ''2'' \<in> fst ` set mcast6_args then 0 else 1)}) \<and>
   reuse_values (snd (mcast6_main [109] mcast6_args (guarded fresh (play mcast6_script)) 9 [])) =
     [OptInt 0]"
  by (rule conjI [OF mcast6_main_talks [OF obeys_guarded]]) code_simp

end
