(* ===== verification/Gl_Calls.thy ===== *)
theory Gl_Calls
  imports Posix
begin

text \<open>
  The calls of the OpenGL programs to gbm, EGL and OpenGL, none of which is part of the repository. Objects are
  numbers, 0 for NULL or the \<open>EGL_NO_...\<close> values. Calls of OpenGL itself have the form \<open>Gl f args\<close>; they work on the
  state of the current context only. \<open>LockFront\<close> answers with the buffer object in \<open>rv\<close>, and its width, height, stride
  and handle; \<open>HandleEvent\<close> with the number of page flips that have completed.
\<close>

datatype (plugins only: code size) gl_call =
    GbmCreateDevice int
  | GbmDeviceDestroy int
  | GbmSurfaceCreate int "32 word" "32 word"
  | GbmSurfaceDestroy int
  | GbmBoCreate int "32 word" "32 word"
  | GbmBoDestroy int
  | LockFront int
  | ReleaseBuffer int int
  | EglGetDisplay int
  | EglInitialize int
  | EglQueryString int string
  | EglBindApi
  | EglChooseConfig int
  | EglCreateContext int int "int list"
  | EglMakeCurrent int int int
  | EglDestroyContext int int
  | EglTerminate int
  | EglCreateWindowSurface int int
  | EglDestroySurface int int
  | EglSwapBuffers int int
  | EglCreateImage int int
  | EglDestroyImage int int
  | PageFlip int "32 word" "32 word" bool
  | HandleEvent int
  | Usleep int
  | Gl string "int list"

fun gl_fd_uses :: "gl_call \<Rightarrow> int list" where
  "gl_fd_uses (GbmCreateDevice fd) = [fd]"
| "gl_fd_uses (PageFlip fd c f e) = [fd]"
| "gl_fd_uses (HandleEvent fd) = [fd]"
| "gl_fd_uses c = []"

end
