(* ===== verification/Drm_Sys.thy ===== *)
theory Drm_Sys
  imports Gl_Calls C_Lib
begin

text \<open>
  The calls of the display programs under \<open>drm-tests\<close>: those of the system (\<open>P\<close>) and those of
  libdrm and libkms, and of the OpenGL libraries (\<open>G\<close>), which are not part of the repository. A pointer that a library returns is a
  number, 0 for NULL; the fields of the structure behind it come with the answer. The memory
  discipline of the library's objects has the form of the discipline of file descriptors: a call
  gives out a new object, uses one, or frees one.
\<close>

type_synonym uint32 = "32 word"

datatype (plugins only: code size) drm_call =
    P posix
  | Unlink string
  | Running
  | SetMaster int
  | DropMaster int
  | GetMagic int
  | AuthMagic int uint32
  | GetResources int
  | FreeResources int
  | GetConnector int uint32
  | FreeConnector int
  | GetEncoder int uint32
  | FreeEncoder int
  | GetCrtc int uint32
  | FreeCrtc int
  | SetCrtc int uint32 uint32 uint32 uint32 uint32 "byte list"
  | GetPlaneResources int
  | GetPlane int uint32
  | FreePlane int
  | SetPlane int uint32 uint32 uint32 uint32 uint32 uint32 uint32 uint32 uint32
  | DirtyFB int uint32
  | AddFB int uint32 uint32 uint32 uint32
  | RmFB int uint32
  | KmsCreate int
  | KmsDestroy int
  | BoCreate int uint32 uint32
  | BoProp int string
  | BoMap int
  | BoUnmap int
  | BoDestroy int
  | GetCap int
  | CreateDumb int uint32 uint32
  | MapDumb int uint32
  | MmapDev int int int
  | Munmap int int
  | DestroyDumb int uint32
  | PutMem int "uint32 list"
  | PutPixels int "uint32 list"
  | PutBytes int "byte list"
  | GetFB int uint32
  | FreeFB int
  | GetFB2 int uint32
  | FreeFB2 int
  | G gl_call

fun drm_fd_opens :: "drm_call \<Rightarrow> resp \<Rightarrow> int list" where
  "drm_fd_opens (P c) r = posix_opens c r"
| "drm_fd_opens c r = []"

fun drm_fd_closes :: "drm_call \<Rightarrow> int list" where
  "drm_fd_closes (P c) = posix_closes c"
| "drm_fd_closes c = []"

fun drm_fd_uses :: "drm_call \<Rightarrow> int list" where
  "drm_fd_uses (P c) = posix_uses c"
| "drm_fd_uses (SetMaster fd) = [fd]"
| "drm_fd_uses (DropMaster fd) = [fd]"
| "drm_fd_uses (GetMagic fd) = [fd]"
| "drm_fd_uses (AuthMagic fd m) = [fd]"
| "drm_fd_uses (GetResources fd) = [fd]"
| "drm_fd_uses (GetConnector fd i) = [fd]"
| "drm_fd_uses (GetEncoder fd i) = [fd]"
| "drm_fd_uses (GetCrtc fd i) = [fd]"
| "drm_fd_uses (SetCrtc fd i f x y c m) = [fd]"
| "drm_fd_uses (GetPlaneResources fd) = [fd]"
| "drm_fd_uses (GetPlane fd i) = [fd]"
| "drm_fd_uses (SetPlane fd i c f x y w h sw sh) = [fd]"
| "drm_fd_uses (DirtyFB fd f) = [fd]"
| "drm_fd_uses (AddFB fd w h s d) = [fd]"
| "drm_fd_uses (RmFB fd f) = [fd]"
| "drm_fd_uses (KmsCreate fd) = [fd]"
| "drm_fd_uses (GetCap fd) = [fd]"
| "drm_fd_uses (CreateDumb fd w h) = [fd]"
| "drm_fd_uses (MapDumb fd h) = [fd]"
| "drm_fd_uses (MmapDev fd n off) = [fd]"
| "drm_fd_uses (DestroyDumb fd h) = [fd]"
| "drm_fd_uses (GetFB fd i) = [fd]"
| "drm_fd_uses (GetFB2 fd i) = [fd]"
| "drm_fd_uses (G c) = gl_fd_uses c"
| "drm_fd_uses c = []"

definition drm_fds :: "drm_call fd_ops" where
  "drm_fds = \<lparr>opens = drm_fd_opens, closes = drm_fd_closes, uses = drm_fd_uses\<rparr>"

text \<open>Objects of libdrm: given out with a pointer that is not NULL, used by being freed.\<close>

fun obj_opens :: "drm_call \<Rightarrow> resp \<Rightarrow> int list" where
  "obj_opens (GetResources fd) r = (if rv r = 0 then [] else [rv r])"
| "obj_opens (GetConnector fd i) r = (if rv r = 0 then [] else [rv r])"
| "obj_opens (GetEncoder fd i) r = (if rv r = 0 then [] else [rv r])"
| "obj_opens (GetCrtc fd i) r = (if rv r = 0 then [] else [rv r])"
| "obj_opens (GetPlaneResources fd) r = (if rv r = 0 then [] else [rv r])"
| "obj_opens (GetPlane fd i) r = (if rv r = 0 then [] else [rv r])"
| "obj_opens (GetFB fd i) r = (if rv r = 0 then [] else [rv r])"
| "obj_opens (GetFB2 fd i) r = (if rv r = 0 then [] else [rv r])"
| "obj_opens c r = []"

fun obj_closes :: "drm_call \<Rightarrow> int list" where
  "obj_closes (FreeResources p) = [p]"
| "obj_closes (FreeConnector p) = [p]"
| "obj_closes (FreeEncoder p) = [p]"
| "obj_closes (FreeCrtc p) = [p]"
| "obj_closes (FreePlane p) = (if p = 0 then [] else [p])"
| "obj_closes (FreeFB p) = [p]"
| "obj_closes (FreeFB2 p) = [p]"
| "obj_closes c = []"

definition drm_objs :: "drm_call fd_ops" where
  "drm_objs = \<lparr>opens = obj_opens, closes = obj_closes, uses = obj_closes\<rparr>"

lemma drm_ops_simps [simp]:
  "opens drm_fds = drm_fd_opens" "closes drm_fds = drm_fd_closes" "uses drm_fds = drm_fd_uses"
  "opens drm_objs = obj_opens" "closes drm_objs = obj_closes" "uses drm_objs = obj_closes"
  by (simp_all add: drm_fds_def drm_objs_def)

text \<open>The documented behaviour: descriptors and objects that are given out are new ones.\<close>

definition new_ptrs :: "drm_call contract" where
  "new_ptrs l c r \<longleftrightarrow> set (obj_opens c r) \<inter> open_fds drm_objs l = {}"

text \<open>Numbers in a structure are read as \<open>uint32_t\<close>.\<close>

definition unum :: "resp \<Rightarrow> nat \<Rightarrow> uint32" where
  "unum r i = word_of_int (num r i)"

definition utable :: "resp \<Rightarrow> nat \<Rightarrow> uint32 list" where
  "utable r i = map word_of_int (table r i)"

text \<open>
  The layout of the answers: a resource list has the ids of connectors, encoders and crtcs; a
  connector its id, state, current encoder, the ids of its encoders, and its modes (names and
  sizes); an encoder its id, current crtc and the mask of possible crtcs; a crtc its id, buffer,
  position, size, whether its mode is valid, and the name of that mode.
\<close>

abbreviation (input) "res_connectors r \<equiv> utable r 0"
abbreviation (input) "res_encoders r \<equiv> utable r 1"
abbreviation (input) "res_crtcs r \<equiv> utable r 2"

abbreviation (input) "conn_id_of r \<equiv> unum r 0"
abbreviation (input) "conn_state r \<equiv> unum r 1"
abbreviation (input) "conn_encoder r \<equiv> unum r 2"
abbreviation (input) "conn_encoders r \<equiv> utable r 0"
abbreviation (input) "conn_modes r \<equiv> texts r"

abbreviation (input) "enc_id_of r \<equiv> unum r 0"
abbreviation (input) "enc_crtc r \<equiv> unum r 1"
abbreviation (input) "enc_possible r \<equiv> unum r 2"

abbreviation (input) "crtc_id_of r \<equiv> unum r 0"

text \<open>A mode: its name and size, or nothing when the structure has no such entry.\<close>

record mode_info =
  mode_name :: "byte list"
  hdisplay :: uint32
  vdisplay :: uint32

definition mode_at :: "resp \<Rightarrow> nat \<Rightarrow> mode_info" where
  "mode_at r i = \<lparr>mode_name = texts r ! i,
     hdisplay = (if i < length (utable r 1) then utable r 1 ! i else 0),
     vdisplay = (if i < length (utable r 2) then utable r 2 ! i else 0)\<rparr>"

end
