(* ===== verification/Drm_Proto.thy ===== *)
theory Drm_Proto
  imports Drm_Sys
begin

text \<open>
  \<open>drm-tests/drm_proto.h\<close>: the commands and answers of the display server, the text form of the
  messages as client and server print it (\<open>snprintf\<close>) and scan it (\<open>sscanf\<close>), the state the
  server keeps for a client, and the round trips of all messages.
\<close>

text \<open>The size of the message buffers, \<open>DRM_SRV_MSGLEN + 1\<close>.\<close>

abbreviation (input) DRM_BUF :: nat where "DRM_BUF \<equiv> 1025"
abbreviation (input) DRM_MAXCLIENTS :: nat where "DRM_MAXCLIENTS \<equiv> 5"

definition CMD_AUTH :: uint32 where "CMD_AUTH = 0"
definition CMD_CRTC :: uint32 where "CMD_CRTC = 1"
definition CMD_PLANE :: uint32 where "CMD_PLANE = 2"
definition CMD_CRTC_STOP :: uint32 where "CMD_CRTC_STOP = 3"
definition CMD_PLANE_STOP :: uint32 where "CMD_PLANE_STOP = 4"

definition DRM_OK :: int where "DRM_OK = 0"
definition DRM_ERROR :: int where "DRM_ERROR = 1"

lemmas cmd_defs = CMD_AUTH_def CMD_CRTC_def CMD_PLANE_def CMD_CRTC_STOP_def CMD_PLANE_STOP_def

text \<open>
  What the server keeps for a client. A saved crtc is NULL, a crtc that libdrm has given out, or
  what an uninitialised pointer happens to hold.
\<close>

datatype crtc_ptr = NullPtr | CrtcAt resp | WildPtr

record drm_client_info =
  ci_magic :: uint32
  saved_crtc :: crtc_ptr
  current_crtc :: crtc_ptr
  ci_crtc_id :: uint32
  ci_conn_id :: uint32
  ci_plane_id :: uint32
  ci_w :: uint32
  ci_h :: uint32
  ci_x :: uint32
  ci_y :: uint32
  ci_fb :: uint32
  ci_mode_name :: "byte list"
  ci_mode :: "mode_info option"

section \<open>Printing and scanning fields\<close>

text \<open>Fields are printed with \<open>%d\<close> (a \<open>uint32_t\<close> as a signed number), with colons between.\<close>

fun print_fields :: "uint32 list \<Rightarrow> byte list" where
  "print_fields [] = []"
| "print_fields [v] = dec (sint v)"
| "print_fields (v # vs) = dec (sint v) @ [58] @ print_fields vs"

text \<open>
  \<open>sscanf\<close> with \<open>n\<close> times \<open>%d\<close> and colons between: the numbers it has converted, and the rest of
  the text after the last of the \<open>n\<close>.
\<close>

fun scan_fields :: "nat \<Rightarrow> byte list \<Rightarrow> int list \<times> byte list" where
  "scan_fields 0 bs = ([], bs)"
| "scan_fields (Suc n) bs = (case scan_int bs of
     None \<Rightarrow> ([], [])
   | Some (v, r) \<Rightarrow>
       if n = 0 then ([v], r)
       else (case r of
         [] \<Rightarrow> ([v], [])
       | b # r' \<Rightarrow> if b = 58 then (let x = scan_fields n r' in (v # fst x, snd x)) else ([v], [])))"

text \<open>\<open>:%s\<close> after the numbers.\<close>

definition scan_string :: "byte list \<Rightarrow> byte list option" where
  "scan_string rest = (case rest of
     [] \<Rightarrow> None
   | b # r \<Rightarrow>
       (let s = takeWhile (\<lambda>c. \<not> is_space c) (dropWhile is_space r) in
        if b = 58 \<and> s \<noteq> [] then Some s else None))"

text \<open>A number that was converted replaces the old value of its variable.\<close>

definition scanned :: "int list \<Rightarrow> nat \<Rightarrow> uint32 \<Rightarrow> uint32" where
  "scanned vs k old = (if k < length vs then word_of_int (vs ! k) else old)"

text \<open>A message in the buffer of 1025 zeroed bytes.\<close>

definition msg_buf :: "byte list \<Rightarrow> byte list" where
  "msg_buf text = fill (zeros DRM_BUF) (snprintf DRM_BUF text)"

definition response :: "uint32 \<Rightarrow> int \<Rightarrow> byte list" where
  "response magic code = msg_buf (dec (sint magic) @ [58] @ dec code)"

section \<open>The round trips\<close>

lemma sint32_range: "- (2 ^ 31) \<le> sint (v :: uint32)" "sint (v :: uint32) < 2 ^ 31"
  using sint_range_size [of v] by (simp_all add: word_size)

lemma scan_int_field:
  "rest = [] \<or> \<not> is_digit (hd rest) \<Longrightarrow> scan_int (dec (sint (v :: uint32)) @ rest) = Some (sint v, rest)"
  by (rule scan_int_dec) (use sint32_range [of v] in auto)

lemma colon_not_digit [simp]: "\<not> is_digit 58"
  by (simp add: is_digit_def)

lemma scan_print_fields:
  "vs \<noteq> [] \<Longrightarrow> rest = [] \<or> \<not> is_digit (hd rest) \<Longrightarrow>
     scan_fields (length vs) (print_fields vs @ rest) = (map sint vs, rest)"
proof (induction vs rule: print_fields.induct)
  case (2 v)
  then show ?case by (simp add: scan_int_field One_nat_def)
next
  case (3 v w vs)
  then show ?case by (simp add: scan_int_field)
qed simp

lemma print_fields_no_nul: "0 \<notin> set (print_fields vs)"
  by (induction vs rule: print_fields.induct) (auto simp: dec_no_nul)

lemma length_dec_uint32: "length (dec (sint (v :: uint32))) \<le> 11"
proof -
  have "\<bar>sint v\<bar> < 10 ^ 10" using sint32_range [of v] by simp
  then show ?thesis using length_dec [of 10 "sint v"] by simp
qed

lemma length_print_fields: "length (print_fields vs) \<le> 12 * length vs"
proof (induction vs rule: print_fields.induct)
  case (2 v)
  show ?case using length_dec_uint32 [of v] by simp
next
  case (3 v w vs)
  then show ?case using length_dec_uint32 [of v] by simp
qed simp

text \<open>A text of at most 1024 bytes without a NUL goes into the buffer whole.\<close>

lemma msg_buf_props:
  assumes "length text \<le> 1024" "0 \<notin> set text"
  shows "cstr (msg_buf text) = text" "terminated (msg_buf text)" "length (msg_buf text) = 1025"
proof -
  have eq: "msg_buf text = text @ zeros (1025 - length text)"
    using assms(1) by (simp add: msg_buf_def snprintf_def fill_def drop_zeros)
  show "cstr (msg_buf text) = text"
    using assms by (simp add: eq cstr_append_zeros)
  show "terminated (msg_buf text)"
    using assms(1) by (simp add: eq terminated_def zeros_def)
  show "length (msg_buf text) = 1025"
    using assms(1) by (simp add: eq)
qed

lemma length_msg_buf [simp]: "length (msg_buf text) = 1025"
  by (simp add: msg_buf_def snprintf_def)

lemma word_of_int_sint [simp]: "word_of_int (sint (v :: uint32)) = v"
  by simp

text \<open>
  A message of up to 80 numeric fields survives the wire. What \<open>snprintf\<close> has put into the
  sender's buffer is a C string for the receiver, and \<open>sscanf\<close> with as many conversions gives back
  every field, for every value of 32 bits.
\<close>

theorem drm_message_round_trip:
  assumes "vs \<noteq> []" and "length vs \<le> 80"
  shows "terminated (msg_buf (print_fields vs)) \<and>
    map word_of_int (fst (scan_fields (length vs) (cstr (msg_buf (print_fields vs))))) = vs"
proof -
  have "length (print_fields vs) \<le> 1024"
    using length_print_fields [of vs] assms(2) by simp
  note buf = msg_buf_props [OF this print_fields_no_nul]
  show ?thesis
    using scan_print_fields [of vs "[]"] assms(1) by (simp add: buf o_def)
qed

theorem drm_message_round_trip_witness:
  "terminated (msg_buf (print_fields [4000000000, 2, 41, 52, 7, 640, 480, 0, 0])) \<and>
    map word_of_int (fst (scan_fields (length [4000000000, 2, 41, 52, 7, 640, 480, 0, 0 :: uint32])
      (cstr (msg_buf (print_fields [4000000000, 2, 41, 52, 7, 640, 480, 0, 0]))))) =
      [4000000000, 2, 41, 52, 7, 640, 480, 0, 0 :: uint32]"
  by (rule drm_message_round_trip) simp_all

text \<open>
  The crtc request with its mode name: five numbers, a colon and a name of at most 900 bytes
  without white space or NUL. The server's \<open>sscanf\<close> gets the five numbers and the name back.
\<close>

theorem drm_crtc_round_trip:
  assumes "name \<noteq> []" and "length name \<le> 900"
    and "\<forall>b \<in> set name. \<not> is_space b \<and> b \<noteq> 0" and "length vs = 5"
  shows "let m = msg_buf (print_fields vs @ [58] @ name) in terminated m \<and>
    map word_of_int (fst (scan_fields 5 (cstr m))) = vs \<and>
    scan_string (snd (scan_fields 5 (cstr m))) = Some name"
proof -
  have ne: "vs \<noteq> []" using assms(4) by auto
  have "length (print_fields vs @ [58] @ name) \<le> 1024"
    using length_print_fields [of vs] assms(2,4) by simp
  moreover have "0 \<notin> set (print_fields vs @ [58] @ name)"
    using print_fields_no_nul [of vs] assms(3) by auto
  ultimately have buf: "cstr (msg_buf (print_fields vs @ [58] @ name)) = print_fields vs @ [58] @ name"
    "terminated (msg_buf (print_fields vs @ [58] @ name))"
    using msg_buf_props by blast+
  have dw: "dropWhile is_space name = name"
    using assms(1,3) by (cases name) auto
  have tw: "takeWhile (\<lambda>c. \<not> is_space c) name = name"
    using assms(3) by (simp add: takeWhile_eq_all_conv)
  have "scan_string (58 # name) = Some name"
    using assms(1) by (simp add: scan_string_def Let_def dw tw)
  then show ?thesis
    using scan_print_fields [OF ne, of "[58] @ name"] assms(4) buf by (simp add: Let_def o_def)
qed

theorem drm_crtc_round_trip_witness:
  "let m = msg_buf (print_fields [9, 1, 41, 20, 7] @ [58] @ [54, 52, 48, 120, 52, 56, 48]) in
    terminated m \<and>
    map word_of_int (fst (scan_fields 5 (cstr m))) = [9, 1, 41, 20, 7 :: uint32] \<and>
    scan_string (snd (scan_fields 5 (cstr m))) = Some [54, 52, 48, 120, 52, 56, 48]"
  by (rule drm_crtc_round_trip) (simp_all add: is_space_def)

section \<open>Requests\<close>

text \<open>
  The abstract requests, as the comment of the header lists them, and their wire form: the form in
  which the clients print them.
\<close>

datatype request =
    ReqAuth
  | ReqCrtc uint32 uint32 uint32 "byte list"
  | ReqPlane uint32 uint32 uint32 uint32 uint32 uint32 uint32
  | ReqCrtcStop
  | ReqPlaneStop

fun req_code :: "request \<Rightarrow> uint32" where
  "req_code ReqAuth = CMD_AUTH"
| "req_code (ReqCrtc cr co fb nm) = CMD_CRTC"
| "req_code (ReqPlane cr pl fb w h x y) = CMD_PLANE"
| "req_code ReqCrtcStop = CMD_CRTC_STOP"
| "req_code ReqPlaneStop = CMD_PLANE_STOP"

fun req_fields :: "request \<Rightarrow> uint32 list" where
  "req_fields (ReqCrtc cr co fb nm) = [cr, co, fb]"
| "req_fields (ReqPlane cr pl fb w h x y) = [cr, pl, fb, w, h, x, y]"
| "req_fields q = []"

fun req_tail :: "request \<Rightarrow> byte list" where
  "req_tail (ReqCrtc cr co fb nm) = [58] @ nm"
| "req_tail q = []"

definition req_text :: "uint32 \<Rightarrow> request \<Rightarrow> byte list" where
  "req_text m q = print_fields (m # req_code q # req_fields q) @ req_tail q"

definition req_wire :: "uint32 \<Rightarrow> request \<Rightarrow> byte list" where
  "req_wire m q = msg_buf (req_text m q)"

text \<open>A mode name that fits into the server's twenty bytes and is one word for \<open>%s\<close>.\<close>

fun req_ok :: "request \<Rightarrow> bool" where
  "req_ok (ReqCrtc cr co fb nm) \<longleftrightarrow> nm \<noteq> [] \<and> length nm < 20 \<and> (\<forall>b \<in> set nm. \<not> is_space b \<and> b \<noteq> 0)"
| "req_ok q \<longleftrightarrow> True"

lemma req_text_no_nul: "req_ok q \<Longrightarrow> 0 \<notin> set (req_text m q)"
  unfolding req_text_def using print_fields_no_nul by (cases q) (auto simp del: print_fields.simps)

lemma length_req_text: "req_ok q \<Longrightarrow> length (req_text m q) \<le> 1024"
  unfolding req_text_def
  using length_print_fields [of "m # req_code q # req_fields q"]
  by (cases q) (simp_all del: print_fields.simps)

lemma req_wire_props:
  assumes "req_ok q"
  shows "cstr (req_wire m q) = req_text m q" "terminated (req_wire m q)" "length (req_wire m q) = 1025"
  unfolding req_wire_def
  using msg_buf_props [OF length_req_text [OF assms] req_text_no_nul [OF assms]] by simp_all

text \<open>Scanning fewer fields than there are gives the first ones.\<close>

lemma scan_print_prefix:
  "vs \<noteq> [] \<Longrightarrow> n < length vs \<Longrightarrow> fst (scan_fields n (print_fields vs @ rest)) = map sint (take n vs)"
proof (induction vs arbitrary: n rule: print_fields.induct)
  case (3 v w vs)
  then show ?case
    by (cases n) (auto simp: scan_int_field Let_def)
qed simp_all

lemma scan_req:
  assumes "req_ok q"
  shows "fst (scan_fields 2 (req_text m q)) = [sint m, sint (req_code q)]"
proof (cases "req_fields q")
  case Nil
  then show ?thesis
    using scan_print_fields [of "[m, req_code q]" "req_tail q"]
    by (cases q) (simp_all add: req_text_def numeral_2_eq_2)
next
  case (Cons v vs)
  then show ?thesis
    using scan_print_prefix [of "m # req_code q # v # vs" 2 "req_tail q"]
    by (simp add: req_text_def numeral_2_eq_2 del: print_fields.simps)
qed

end
