(* ===== verification/Drm_Utils.thy ===== *)
theory Drm_Utils
  imports Drm_Sys
begin

text \<open>
  \<open>drm-tests/drm_utils.c\<close>: how the display programs choose a connector, an encoder, a mode and a
  crtc: from the command line, by themselves, or a mode by its name. The objects that libdrm
  hands out are the answers of the calls; \<open>mode\<close> points into the connector.
\<close>

abbreviation (input) DRM_MODE_CONNECTED :: uint32 where "DRM_MODE_CONNECTED \<equiv> 1"

record kms_display =
  connector :: resp
  encoder :: resp
  mode :: mode_info
  crtc :: "resp option"

section \<open>The loops over ids\<close>

text \<open>
  The loops that get objects one by one, skip those that cannot be got, stop at the first that
  satisfies a condition and free the others. \<open>None\<close> when the loop runs to its end.
\<close>

definition conn_loop :: "int \<Rightarrow> (resp \<Rightarrow> bool) \<Rightarrow> uint32 \<Rightarrow> unit \<Rightarrow> (unit + resp, drm_call) io" where
  "conn_loop fd p i u =
     sys (GetConnector fd i) (\<lambda>r.
     if rv r = 0 then ret (Inl ())
     else if p r then ret (Inr r)
     else sys (FreeConnector (rv r)) (\<lambda>_. ret (Inl ())))"

definition enc_loop :: "int \<Rightarrow> (resp \<Rightarrow> bool) \<Rightarrow> uint32 \<Rightarrow> unit \<Rightarrow> (unit + resp, drm_call) io" where
  "enc_loop fd p i u =
     sys (GetEncoder fd i) (\<lambda>r.
     if rv r = 0 then ret (Inl ())
     else if p r then ret (Inr r)
     else sys (FreeEncoder (rv r)) (\<lambda>_. ret (Inl ())))"

definition crtc_loop :: "int \<Rightarrow> (resp \<Rightarrow> bool) \<Rightarrow> uint32 \<Rightarrow> unit \<Rightarrow> (unit + resp, drm_call) io" where
  "crtc_loop fd p i u =
     sys (GetCrtc fd i) (\<lambda>r.
     if rv r = 0 then ret (Inl ())
     else if p r then ret (Inr r)
     else sys (FreeCrtc (rv r)) (\<lambda>_. ret (Inl ())))"

text \<open>The search for a mode: the index of the first with the given name.\<close>

primrec mode_index :: "byte list list \<Rightarrow> byte list \<Rightarrow> nat option" where
  "mode_index [] name = None"
| "mode_index (m # ms) name =
     (if m = name then Some 0 else map_option Suc (mode_index ms name))"

section \<open>The command line\<close>

record conf_args =
  arg_mode :: "byte list"
  arg_n :: int
  arg_c :: int
  arg_e :: int

definition conf_default :: conf_args where
  "conf_default = \<lparr>arg_mode = chars ''preferred'', arg_n = 0, arg_c = 0, arg_e = 0\<rparr>"

primrec conf_parse :: "(char \<times> byte list) list \<Rightarrow> conf_args \<Rightarrow> conf_args option" where
  "conf_parse [] a = Some a"
| "conf_parse (x # xs) a =
     (if fst x = CHR ''m'' then conf_parse xs (a\<lparr>arg_mode := snd x\<rparr>)
      else if fst x = CHR ''n'' then conf_parse xs (a\<lparr>arg_n := atoi (snd x)\<rparr>)
      else if fst x = CHR ''c'' then conf_parse xs (a\<lparr>arg_c := atoi (snd x)\<rparr>)
      else if fst x = CHR ''e'' then conf_parse xs (a\<lparr>arg_e := atoi (snd x)\<rparr>)
      else None)"

definition drm_cmdline_usage :: "byte list \<Rightarrow> ('a, drm_call) io \<Rightarrow> ('a, drm_call) io" where
  "drm_cmdline_usage name k =
     say [S ''usage: '', B name, S '' [-h] -c <connector> -e <encoder> -m <mode>'']
     (say [S ''-h: this help message'']
     (say [S ''-n <connector> connector id, default is 0'']
     (say [S ''-e <encoder> encoder id, default is 0'']
     (say [S ''-c <crtc> crtc id, default is 0'']
     (say [S ''-m <mode> mode name, default is preferred''] k)))))"

text \<open>The labels \<open>no_crtc\<close>, \<open>no_mode\<close>, \<open>no_encoder\<close> and \<open>no_connector\<close>.\<close>

definition no_connector :: "byte list \<Rightarrow> (kms_display option, drm_call) io" where
  "no_connector name = drm_cmdline_usage name (ret None)"

definition no_encoder :: "byte list \<Rightarrow> resp \<Rightarrow> (kms_display option, drm_call) io" where
  "no_encoder name con = sys (FreeConnector (rv con)) (\<lambda>_. no_connector name)"

definition no_mode :: "byte list \<Rightarrow> resp \<Rightarrow> resp \<Rightarrow> (kms_display option, drm_call) io" where
  "no_mode name con enc = sys (FreeEncoder (rv enc)) (\<lambda>_. no_encoder name con)"

text \<open>The part from the search for a crtc on, and the part from the search for an encoder on.\<close>

definition conf_crtc :: "int \<Rightarrow> byte list \<Rightarrow> conf_args \<Rightarrow> resp \<Rightarrow> resp \<Rightarrow> resp \<Rightarrow> nat \<Rightarrow>
    (kms_display option, drm_call) io" where
  "conf_crtc fd name a res con enc i =
     bind (foreach (res_crtcs res)
        (crtc_loop fd (\<lambda>r. word_of_int (arg_c a) = crtc_id_of r)) ()) (\<lambda>x. case x of
       Inl u \<Rightarrow> say [S ''Crtc with id = '', D (arg_c a), S '' does not exist''] (no_mode name con enc)
     | Inr crt \<Rightarrow>
         sys (FreeResources (rv res)) (\<lambda>_.
         ret (Some \<lparr>connector = con, encoder = enc, mode = mode_at con i, crtc = Some crt\<rparr>)))"

definition conf_encoder :: "int \<Rightarrow> byte list \<Rightarrow> conf_args \<Rightarrow> resp \<Rightarrow> resp \<Rightarrow>
    (kms_display option, drm_call) io" where
  "conf_encoder fd name a res con =
     bind (foreach (res_encoders res)
        (enc_loop fd (\<lambda>r. word_of_int (arg_e a) = enc_id_of r)) ()) (\<lambda>x. case x of
       Inl u \<Rightarrow> say [S ''Encoder with id = '', D (arg_e a), S '' does not exist''] (no_encoder name con)
     | Inr enc \<Rightarrow> (case mode_index (conn_modes con) (arg_mode a) of
         None \<Rightarrow> say [S ''Mode with name '', B (arg_mode a), S '' does not exist'']
           (no_mode name con enc)
       | Some i \<Rightarrow> conf_crtc fd name a res con enc i))"

definition drm_get_conf_cmdline :: "int \<Rightarrow> byte list \<Rightarrow> (char \<times> byte list) list \<Rightarrow>
    (kms_display option, drm_call) io" where
  "drm_get_conf_cmdline fd name opts =
     (case conf_parse opts conf_default of
        None \<Rightarrow> drm_cmdline_usage name (exit 0)
      | Some a \<Rightarrow>
          sys (GetResources fd) (\<lambda>res.
          if rv res = 0 then say [S ''drmModeGetResources failed''] (ret None)
          else
            bind (foreach (res_connectors res)
               (conn_loop fd (\<lambda>r. word_of_int (arg_n a) = conn_id_of r)) ()) (\<lambda>x. case x of
              Inl u \<Rightarrow> say [S ''Connector with id = '', D (arg_n a), S '' does not exist'']
                (no_connector name)
            | Inr con \<Rightarrow> conf_encoder fd name a res con)))"

section \<open>Automatic configuration\<close>

text \<open>
  The last loop remembers in \<open>c\<close> the first crtc the encoder can use and frees none. Its state
  is the loop index and \<open>c\<close>; a shift by 32 or more is undefined.
\<close>

definition auto_crtc_loop :: "int \<Rightarrow> resp \<Rightarrow> uint32 \<Rightarrow> nat \<times> resp option \<Rightarrow>
    ((nat \<times> resp option) + resp, drm_call) io" where
  "auto_crtc_loop fd enc i st =
     sys (GetCrtc fd i) (\<lambda>r.
     if rv r = 0 then ret (Inl (fst st + 1, snd st))
     else if crtc_id_of r = enc_crtc enc then ret (Inr r)
     else if snd st = None then
       (if 32 \<le> fst st then fault ''drm_autoconf: shift by 32''
        else if bit (enc_possible enc) (fst st) then ret (Inl (fst st + 1, Some r))
        else ret (Inl (fst st + 1, None)))
     else ret (Inl (fst st + 1, snd st)))"

definition auto_mode :: "resp \<Rightarrow> (nat \<Rightarrow> ('a, drm_call) io) \<Rightarrow> ('a, drm_call) io" where
  "auto_mode con k = (case mode_index (conn_modes con) (chars ''preferred'') of
     None \<Rightarrow> say [S ''No preferred mode, choose the first available mode''] (k 0)
   | Some i \<Rightarrow> k i)"

definition auto_crtc :: "int \<Rightarrow> resp \<Rightarrow> resp \<Rightarrow> resp \<Rightarrow> (kms_display option, drm_call) io" where
  "auto_crtc fd res con enc =
     auto_mode con (\<lambda>i.
     bind (foreach (res_crtcs res) (auto_crtc_loop fd enc) (0, None)) (\<lambda>x.
     let done' = (\<lambda>crt. sys (FreeResources (rv res)) (\<lambda>_.
       ret (Some \<lparr>connector = con, encoder = enc, mode = mode_at con i, crtc = crt\<rparr>))) in
     case x of
       Inl st \<Rightarrow> say [S ''No crtc for encoder, choose the first possible crtc''] (done' (snd st))
     | Inr crt \<Rightarrow> done' (Some crt)))"

definition auto_encoder :: "int \<Rightarrow> resp \<Rightarrow> resp \<Rightarrow> (kms_display option, drm_call) io" where
  "auto_encoder fd res con =
     bind (foreach (res_encoders res)
        (enc_loop fd (\<lambda>r. enc_id_of r = conn_encoder con)) ()) (\<lambda>x. case x of
       Inr enc \<Rightarrow> auto_crtc fd res con enc
     | Inl u \<Rightarrow>
         say [S ''No matching encoder for connector, use the first supported encoder'']
         (if conn_encoders con = [] then fault ''drm_autoconf: no encoders[0]''
          else sys (GetEncoder fd (hd (conn_encoders con))) (\<lambda>e.
            if rv e = 0 then
              say [S ''Can't get preferred encoders'']
                (sys (FreeConnector (rv con)) (\<lambda>_. ret None))
            else auto_crtc fd res con e)))"

definition drm_autoconf :: "int \<Rightarrow> (kms_display option, drm_call) io" where
  "drm_autoconf fd =
     sys (GetResources fd) (\<lambda>res.
     if rv res = 0 then say [S ''drmModeGetResources failed''] (ret None)
     else
       bind (foreach (res_connectors res)
          (conn_loop fd (\<lambda>r. conn_state r = DRM_MODE_CONNECTED \<and> conn_modes r \<noteq> [])) ()) (\<lambda>x.
       case x of
         Inl u \<Rightarrow> say [S ''No currently active connector found''] (ret None)
       | Inr con \<Rightarrow> auto_encoder fd res con))"

section \<open>A mode by its name\<close>

definition drm_get_mode_by_name :: "int \<Rightarrow> uint32 \<Rightarrow> byte list \<Rightarrow>
    (mode_info option, drm_call) io" where
  "drm_get_mode_by_name fd connector_id name =
     sys (GetResources fd) (\<lambda>res.
     if rv res = 0 then say [S ''drmModeGetResources failed''] (ret None)
     else
       bind (foreach (res_connectors res)
          (conn_loop fd (\<lambda>r. conn_id_of r = connector_id)) ()) (\<lambda>x. case x of
         Inl u \<Rightarrow> say [S ''No proper connector found'']
           (sys (FreeResources (rv res)) (\<lambda>_. ret None))
       | Inr con \<Rightarrow> (case mode_index (conn_modes con) name of
           None \<Rightarrow> say [S ''No selected mode'']
             (sys (FreeConnector (rv con)) (\<lambda>_. ret None))
         | Some i \<Rightarrow> sys (FreeResources (rv res)) (\<lambda>_. ret (Some (mode_at con i))))))"

text \<open>The two dumps; the first one needs all four parts.\<close>

definition dump_drm_configuration :: "kms_display \<Rightarrow> ('a, drm_call) io \<Rightarrow> ('a, drm_call) io" where
  "dump_drm_configuration kms k = (case crtc kms of
     None \<Rightarrow> fault ''dump_drm_configuration: crtc is NULL''
   | Some c \<Rightarrow>
       say [S ''setting mode '', B (mode_name (mode kms)), S '' on connector '',
         D (sint (conn_id_of (connector kms))), S '', encoder '',
         D (sint (enc_id_of (encoder kms))), S '', crtc '', D (sint (crtc_id_of c))] k)"

definition dump_crtc_configuration :: "string \<Rightarrow> resp \<Rightarrow> ('a, drm_call) io \<Rightarrow> ('a, drm_call) io" where
  "dump_crtc_configuration msg c k =
     say [S msg, S '': id fb pos size'']
     (say [D (sint (unum c 0)), S '' '', D (sint (unum c 1)), S '' ('',
        D (sint (unum c 2)), S '','', D (sint (unum c 3)), S '') ('', D (sint (unum c 4)), S ''x'',
        D (sint (unum c 5)), S '') mode['', B (case texts c of [] \<Rightarrow> [] | m # _ \<Rightarrow> m), S '']'']
     k)"

section \<open>Objects are freed once, and what is kept\<close>

text \<open>
  The pointers in use: no call frees an object that is not held, and the objects held are
  \<open>H\<close> (besides what the caller already held).
\<close>

definition holds :: "int set \<Rightarrow> drm_call history \<Rightarrow> bool" where
  "holds H l \<longleftrightarrow> open_fds drm_objs l = H \<and> disciplined drm_objs l"

lemma holds_Out [simp]: "holds H (Out os # l) = holds H l"
  by (simp add: holds_def)

lemma holds_get:
  assumes "holds H l" "obj_closes c = []"
  shows "holds (H \<union> set (obj_opens c r)) (Ev c r # l)"
  using assms by (simp add: holds_def)

lemma holds_null: "holds H l \<Longrightarrow> obj_closes c = [] \<Longrightarrow> obj_opens c r = [] \<Longrightarrow> holds H (Ev c r # l)"
  by (simp add: holds_def)

lemma holds_free:
  assumes "holds (insert p H) l" "p \<notin> H" "obj_closes c = [p]" "obj_opens c r = []"
  shows "holds H (Ev c r # l)"
  using assms by (auto simp: holds_def)

text \<open>The search loops: what is found is held, everything else has been freed again.\<close>

definition found :: "int set \<Rightarrow> (unit + resp) res \<Rightarrow> drm_call history \<Rightarrow> bool" where
  "found H x l \<longleftrightarrow> (case x of
     Val (Inl u) \<Rightarrow> holds H l
   | Val (Inr r) \<Rightarrow> holds (insert (rv r) H) l \<and> rv r \<noteq> 0 \<and> rv r \<notin> H
   | Exit n \<Rightarrow> False
   | Fault e \<Rightarrow> False
   | Wait \<Rightarrow> disciplined drm_objs l)"

lemma new_ptrsD:
  "obeys K new_ptrs \<Longrightarrow> K l c = Some r \<Longrightarrow> holds H l \<Longrightarrow> set (obj_opens c r) \<inter> H = {}"
  by (auto simp: new_ptrs_def holds_def dest!: obeysD)

text \<open>
  The three loops have one contract: the object they get, the call that frees it. What they leave
  behind is proved once, and so is what they find when the device answers a call always in the
  same way.
\<close>

locale object_search =
  fixes get :: "uint32 \<Rightarrow> drm_call"
    and free :: "int \<Rightarrow> drm_call"
    and body :: "(resp \<Rightarrow> bool) \<Rightarrow> uint32 \<Rightarrow> unit \<Rightarrow> (unit + resp, drm_call) io"
  assumes body: "body p i u = sys (get i) (\<lambda>r. if rv r = 0 then ret (Inl ())
      else if p r then ret (Inr r) else sys (free (rv r)) (\<lambda>_. ret (Inl ())))"
    and get_opens: "obj_opens (get i) r = (if rv r = 0 then [] else [rv r])"
    and get_closes: "obj_closes (get i) = []"
    and free_opens: "obj_opens (free q) r = []"
    and free_closes: "obj_closes (free q) = [q]"
begin

lemma finds:
  assumes "obeys K new_ptrs" "holds H l"
  shows "wp (foreach ids (body p) ()) (found H) K N l"
proof (rule wp_foreach [where I = "\<lambda>u. holds H"])
  show "holds H l" by (rule assms)
  show "\<And>s l. holds H l \<Longrightarrow> found H (Val (Inl s)) l" by (simp add: found_def)
  fix i u and l :: "drm_call history" assume H: "holds H l"
  have got: "rv r \<notin> H \<and> holds (insert (rv r) H) (Ev (get i) r # l)"
    if "K l (get i) = Some r" "rv r \<noteq> 0" for r
    using new_ptrsD [OF assms(1) that(1) H] that(2) H
    by (simp add: holds_def get_opens get_closes)
  have freed: "holds H (Ev (free (rv r)) w # Ev (get i) r # l)"
    if "K l (get i) = Some r" "rv r \<noteq> 0" for r w
    using got [OF that] by (auto intro: holds_free simp: free_opens free_closes)
  have null: "holds H (Ev (get i) r # l)" if "rv r = 0" for r
    using H that by (simp add: holds_def get_opens get_closes)
  show "wp (body p i u) (seq (for_post (\<lambda>u. holds H) (found H)) (found H)) K N l"
    using H got freed null
    by (auto simp: body wp_simps found_def holds_def split: option.split)
qed

text \<open>A device that answers each call always in the same way.\<close>

lemma static_search:
  "\<exists>l'. foreach ids (body p) () (\<lambda>_ c. Some (dev c)) N l =
     (Val (case List.find (\<lambda>r. rv r \<noteq> 0 \<and> p r) (map (\<lambda>i. dev (get i)) ids) of
       None \<Rightarrow> Inl () | Some r \<Rightarrow> Inr r), l')"
  by (induction ids arbitrary: l) (simp_all add: io_simps body)

end

interpretation conn_search: object_search "GetConnector fd" FreeConnector "conn_loop fd" for fd
  by unfold_locales (simp_all add: conn_loop_def)

interpretation enc_search: object_search "GetEncoder fd" FreeEncoder "enc_loop fd" for fd
  by unfold_locales (simp_all add: enc_loop_def)

interpretation crtc_search: object_search "GetCrtc fd" FreeCrtc "crtc_loop fd" for fd
  by unfold_locales (simp_all add: crtc_loop_def)

section \<open>The command line configuration\<close>

text \<open>
  What is held at the end: the three parts of the configuration when there is one; otherwise
  nothing but, on most error paths, the resource list.
\<close>

definition conf_end :: "kms_display option res \<Rightarrow> drm_call history \<Rightarrow> bool" where
  "conf_end x l \<longleftrightarrow> disciplined drm_objs l \<and> (case x of
     Val (Some kms) \<Rightarrow> \<exists>c. crtc kms = Some c \<and>
       open_fds drm_objs l = {rv (connector kms), rv (encoder kms), rv c}
   | Val None \<Rightarrow> open_fds drm_objs l = {} \<or> (\<exists>p. open_fds drm_objs l = {p})
   | Exit n \<Rightarrow> n = 0 \<and> open_fds drm_objs l = {}
   | Fault e \<Rightarrow> False
   | Wait \<Rightarrow> True)"

lemma seq_found:
  assumes "wp m (found H) K N l"
    and "\<And>l. holds H l \<Longrightarrow> wp (f (Inl ())) Q K N l"
    and "\<And>r l. holds (insert (rv r) H) l \<Longrightarrow> rv r \<noteq> 0 \<Longrightarrow> rv r \<notin> H \<Longrightarrow> wp (f (Inr r)) Q K N l"
    and "\<And>l. disciplined drm_objs l \<Longrightarrow> Q Wait l"
  shows "wp (bind m f) Q K N l"
  unfolding wp_bind
  by (rule wp_mono [OF assms(1)])
    (auto simp: seq_def found_def assms(2-4) split: res.splits sum.splits)

lemma no_connector_ends: "holds {p} l \<Longrightarrow> wp (no_connector name) conf_end K N l"
  by (simp add: no_connector_def drm_cmdline_usage_def wp_simps conf_end_def holds_def)

lemma no_encoder_ends:
  "holds {c, p} l \<Longrightarrow> rv con = c \<Longrightarrow> c \<noteq> p \<Longrightarrow> wp (no_encoder name con) conf_end K N l"
  by (auto simp: no_encoder_def wp_sys conf_end_def intro!: no_connector_ends
      intro: holds_free simp: holds_def split: option.split)

lemma no_mode_ends:
  "holds {e, c, p} l \<Longrightarrow> rv con = c \<Longrightarrow> rv enc = e \<Longrightarrow> c \<noteq> p \<Longrightarrow> e \<noteq> p \<Longrightarrow> e \<noteq> c \<Longrightarrow>
     wp (no_mode name con enc) conf_end K N l"
  by (auto simp: no_mode_def wp_sys conf_end_def holds_def insert_Diff_if
      intro!: no_encoder_ends split: option.split)

lemma conf_crtc_ends:
  assumes "obeys K new_ptrs" "holds {rv enc, rv con, rv res} l" "distinct [rv enc, rv con, rv res]"
  shows "wp (conf_crtc fd name a res con enc i) conf_end K N l"
  unfolding conf_crtc_def
  by (rule seq_found [OF crtc_search.finds [OF assms(1,2)]])
    (use assms(3) in \<open>auto simp: wp_simps conf_end_def holds_def insert_Diff_if
       insert_commute intro!: no_mode_ends split: option.split\<close>)

lemma conf_encoder_ends:
  assumes "obeys K new_ptrs" "holds {rv con, rv res} l" "rv con \<noteq> rv res"
  shows "wp (conf_encoder fd name a res con) conf_end K N l"
  unfolding conf_encoder_def
  by (rule seq_found [OF enc_search.finds [OF assms(1,2)]])
    (use assms in \<open>auto simp: wp_simps conf_end_def intro!: no_encoder_ends no_mode_ends
       conf_crtc_ends split: option.split\<close>)

text \<open>
  \<open>drm_get_conf_cmdline\<close> frees every libdrm object at most once and none that it does not
  hold, for every behaviour of the device. When it succeeds it keeps exactly the connector, the
  encoder and the crtc that it returns; when it fails it keeps at most one object (the resource
  list, which its error paths forget to free).
\<close>

theorem drm_get_conf_cmdline_keeps:
  assumes "obeys K new_ptrs"
  shows "case drm_get_conf_cmdline fd name opts K N [] of (r, l) \<Rightarrow> disciplined drm_objs l \<and>
    (\<forall>kms. r = Val (Some kms) \<longrightarrow> (\<exists>c. crtc kms = Some c \<and>
       open_fds drm_objs l = {rv (connector kms), rv (encoder kms), rv c})) \<and>
    (r = Val None \<longrightarrow> card (open_fds drm_objs l) \<le> 1)"
proof -
  have start: "holds {rv r} [Ev (GetResources fd) r]" if "rv r \<noteq> 0" for r
    using that by (simp add: holds_def)
  have "wp (drm_get_conf_cmdline fd name opts) conf_end K N []"
    unfolding drm_get_conf_cmdline_def
    by (auto simp: wp_sys wp_if wp_say wp_ret wp_exit drm_cmdline_usage_def conf_end_def start
        intro!: seq_found [OF conn_search.finds [OF assms]] no_connector_ends
          conf_encoder_ends [OF assms] simp: insert_commute split: option.split)
  then show ?thesis
    by (auto simp: wp_def conf_end_def split: prod.splits)
qed

text \<open>
  A device for the witnesses: one connector (id 20, connected, current encoder 30, two modes),
  one encoder (id 30, current crtc 41, possible crtcs 1 and 0) and two crtcs (40 and 41).
\<close>

fun demo_device :: "drm_call \<Rightarrow> resp" where
  "demo_device (GetResources fd) = (ok 1)\<lparr>tables := [[20], [30], [40, 41]]\<rparr>"
| "demo_device (GetConnector fd i) = (if i = 20 then
     (with_nums 2 [20, 1, 30])\<lparr>tables := [[30], [640, 800], [480, 600]], texts := [[97], [98]]\<rparr>
     else ok 0)"
| "demo_device (GetEncoder fd i) = (if i = 30 then with_nums 3 [30, 41, 3] else ok 0)"
| "demo_device (GetCrtc fd i) = (if i = 40 then with_nums 4 [40, 0, 0, 0, 0, 0, 0]
     else if i = 41 then with_nums 5 [41, 0, 0, 0, 0, 0, 0] else ok 0)"
| "demo_device c = ok 0"

definition demo_kernel :: "drm_call kernel" where
  "demo_kernel = guarded new_ptrs (\<lambda>l c. Some (demo_device c))"

definition demo_opts :: "(char \<times> byte list) list" where
  "demo_opts = [(CHR ''n'', [50, 48]), (CHR ''e'', [51, 48]), (CHR ''c'', [52, 49]), (CHR ''m'', [98])]"

theorem drm_get_conf_cmdline_keeps_witness:
  "(case drm_get_conf_cmdline 9 [] demo_opts demo_kernel 0 [] of (r, l) \<Rightarrow> disciplined drm_objs l \<and>
    (\<forall>kms. r = Val (Some kms) \<longrightarrow> (\<exists>c. crtc kms = Some c \<and>
       open_fds drm_objs l = {rv (connector kms), rv (encoder kms), rv c})) \<and>
    (r = Val None \<longrightarrow> card (open_fds drm_objs l) \<le> 1)) \<and>
   (case fst (drm_get_conf_cmdline 9 [] demo_opts demo_kernel 0 []) of
     Val (Some kms) \<Rightarrow> hdisplay (mode kms) = 800 \<and> map_option rv (crtc kms) = Some 5 | _ \<Rightarrow> False)"
  unfolding demo_kernel_def
  by (rule conjI [OF drm_get_conf_cmdline_keeps [OF obeys_guarded]]) code_simp

section \<open>The objects of the search for a mode\<close>

text \<open>
  What the search for a mode by its name keeps: the connector when it succeeds (no caller frees
  it), at most the resource list otherwise.
\<close>

definition name_end :: "mode_info option res \<Rightarrow> drm_call history \<Rightarrow> bool" where
  "name_end x l \<longleftrightarrow> (case x of
     Val (Some t) \<Rightarrow> \<exists>con. holds {con} l \<and> con \<noteq> 0
   | Val None \<Rightarrow> \<exists>H. holds H l \<and> card H \<le> 1
   | Wait \<Rightarrow> disciplined drm_objs l
   | _ \<Rightarrow> False)"

lemma mode_by_name_objects:
  assumes "obeys K new_ptrs" "holds {} l"
  shows "wp (drm_get_mode_by_name fd i nm) name_end K N l"
proof -
  have at_end: "name_end (Val None) l" if "holds {p} l \<or> holds {} l" for p l
    using that by (auto simp: name_end_def intro: exI [of _ "{p}"] exI [of _ "{}"])
  have stop: "name_end Wait l" if "holds H l" for H l
    using that by (simp add: name_end_def holds_def)
  have kept: "name_end (Val (Some t)) l" if "holds {p} l" "p \<noteq> 0" for p t l
    using that by (auto simp: name_end_def)
  let ?f = "\<lambda>q (x :: unit + resp). case x of
         Inl u \<Rightarrow> say [S ''No proper connector found''] (sys (FreeResources q) (\<lambda>_. ret None))
       | Inr con \<Rightarrow> (case mode_index (conn_modes con) nm of
           None \<Rightarrow> say [S ''No selected mode''] (sys (FreeConnector (rv con)) (\<lambda>_. ret None))
         | Some i \<Rightarrow> sys (FreeResources q) (\<lambda>_. ret (Some (mode_at con i))))"
  have search: "wp (bind (foreach ids (conn_loop fd p) ()) (?f q)) name_end K N l"
    if "holds {q} l" for ids p q l
  proof (rule seq_found [OF conn_search.finds [OF assms(1) that]])
    fix r :: resp and l assume r: "holds (insert (rv r) {q}) l" "rv r \<noteq> 0" "rv r \<notin> {q}"
    have "holds {q} (Ev (FreeConnector (rv r)) w # Out os # l)"
      "holds {rv r} (Ev (FreeResources q) w # l)" for w os
      using r by (auto simp: holds_def)
    then show "wp (?f q (Inr r)) name_end K N l"
      using r(1,2) stop by (auto simp: wp_simps intro: at_end kept split: option.split)
  next
    fix l assume "holds {q} l"
    moreover from this have "holds {} (Ev (FreeResources q) w # Out os # l)" for w os
      by (simp add: holds_def)
    ultimately show "wp (?f q (Inl ())) name_end K N l"
      using stop at_end by (auto simp: wp_simps split: option.split)
  qed (simp add: name_end_def)
  have start: "holds {rv r} (Ev (GetResources fd) r # l)" if "rv r \<noteq> 0" for r
    using that assms(2) by (simp add: holds_def)
  show ?thesis
    unfolding drm_get_mode_by_name_def wp_sys
    using holds_null [OF assms(2)]
    by (auto simp: wp_if wp_say wp_ret start stop [OF assms(2)] intro!: at_end search split: option.split)
qed
section \<open>The automatic configuration\<close>

text \<open>
  What is chosen on a device that does not change: the first connected connector with a mode; the
  encoder in use or else the connector's first one; the mode named preferred or else the first;
  the crtc in use or else the first one the encoder can use.
\<close>

definition pick :: "(resp \<Rightarrow> bool) \<Rightarrow> (uint32 \<Rightarrow> resp) \<Rightarrow> uint32 list \<Rightarrow> resp option" where
  "pick p get ids = List.find (\<lambda>r. rv r \<noteq> 0 \<and> p r) (map get ids)"

primrec first_possible :: "uint32 \<Rightarrow> (uint32 \<Rightarrow> resp) \<Rightarrow> nat \<Rightarrow> uint32 list \<Rightarrow> resp option" where
  "first_possible m get k [] = None"
| "first_possible m get k (i # ids) =
     (if rv (get i) \<noteq> 0 \<and> bit m k then Some (get i) else first_possible m get (k + 1) ids)"

definition or_else :: "'a option \<Rightarrow> 'a option \<Rightarrow> 'a option" where
  "or_else x y = (case x of None \<Rightarrow> y | Some a \<Rightarrow> Some a)"

definition autoconf_spec :: "(drm_call \<Rightarrow> resp) \<Rightarrow> int \<Rightarrow> resp \<Rightarrow> kms_display option" where
  "autoconf_spec dev fd con =
     (let res = dev (GetResources fd);
          first = dev (GetEncoder fd (hd (conn_encoders con))) in
      case or_else (pick (\<lambda>r. enc_id_of r = conn_encoder con) (\<lambda>i. dev (GetEncoder fd i))
             (res_encoders res)) (if rv first = 0 then None else Some first) of
        None \<Rightarrow> None
      | Some enc \<Rightarrow> Some \<lparr>connector = con, encoder = enc,
          mode = mode_at con (case mode_index (conn_modes con) (chars ''preferred'') of
            None \<Rightarrow> 0 | Some i \<Rightarrow> i),
          crtc = or_else (pick (\<lambda>r. crtc_id_of r = enc_crtc enc) (\<lambda>i. dev (GetCrtc fd i))
              (res_crtcs res))
            (first_possible (enc_possible enc) (\<lambda>i. dev (GetCrtc fd i)) 0 (res_crtcs res))\<rparr>)"

lemma auto_crtc_loop_run:
  "auto_crtc_loop fd enc i st (\<lambda>_ c. Some (dev c)) N l =
     (let r = dev (GetCrtc fd i); l' = Ev (GetCrtc fd i) r # l in
      if rv r \<noteq> 0 \<and> crtc_id_of r = enc_crtc enc then (Val (Inr r), l')
      else if rv r \<noteq> 0 \<and> snd st = None \<and> 32 \<le> fst st then
        (Fault ''drm_autoconf: shift by 32'', l')
      else (Val (Inl (fst st + 1, if rv r \<noteq> 0 \<and> snd st = None \<and> bit (enc_possible enc) (fst st)
        then Some r else snd st)), l'))"
  by (cases "snd st") (auto simp: auto_crtc_loop_def io_simps Let_def)

lemma auto_crtc_static:
  "k + length ids \<le> 32 \<Longrightarrow>
   fst (foreach ids (auto_crtc_loop fd enc) (k, c) (\<lambda>_ c. Some (dev c)) N l) =
     Val (case pick (\<lambda>r. crtc_id_of r = enc_crtc enc) (\<lambda>i. dev (GetCrtc fd i)) ids of
       Some r \<Rightarrow> Inr r
     | None \<Rightarrow> Inl (k + length ids,
         or_else c (first_possible (enc_possible enc) (\<lambda>i. dev (GetCrtc fd i)) k ids)))"
proof (induction ids arbitrary: k c l)
  case Nil
  then show ?case by (simp add: io_simps pick_def or_else_def split: option.split)
next
  case (Cons i ids)
  then show ?case
    by (cases c) (auto simp: io_simps auto_crtc_loop_run Let_def pick_def or_else_def
        split: option.split)
qed

lemma fst_eqE: "fst p = a \<Longrightarrow> \<exists>b. p = (a, b)"
  by (cases p) simp

lemma mode_by_auto: "auto_mode con k K N l = (case mode_index (conn_modes con) (chars ''preferred'') of
     None \<Rightarrow> k 0 K N (Out [S ''No preferred mode, choose the first available mode''] # l)
   | Some i \<Rightarrow> k i K N l)"
  by (simp add: auto_mode_def io_simps split: option.split)

text \<open>
  What \<open>drm_autoconf\<close> chooses, on a device that answers each call always in the same way, has
  at most 32 crtcs and gives its connectors at least one encoder. Without a connected connector
  that has a mode there is no configuration; otherwise the first such connector is taken with the
  encoder it uses (or its first one), the mode named \<open>preferred\<close> (or its first one) and the crtc
  that encoder uses (or the first one it can use).
\<close>

theorem drm_autoconf_chooses:
  assumes "length (res_crtcs (dev (GetResources fd))) \<le> 32"
    and "\<forall>i. conn_encoders (dev (GetConnector fd i)) \<noteq> []"
  shows "fst (drm_autoconf fd (\<lambda>_ c. Some (dev c)) N l) = Val
    (if rv (dev (GetResources fd)) = 0 then None
     else case pick (\<lambda>r. conn_state r = 1 \<and> conn_modes r \<noteq> []) (\<lambda>i. dev (GetConnector fd i))
            (res_connectors (dev (GetResources fd))) of
        None \<Rightarrow> None
      | Some con \<Rightarrow> autoconf_spec dev fd con)"
proof -
  let ?K = "\<lambda>_ c. Some (dev c)"
  let ?res = "dev (GetResources fd)"
  have crt: "fst (auto_crtc fd ?res con enc ?K N l) = Val (Some \<lparr>connector = con, encoder = enc,
      mode = mode_at con (case mode_index (conn_modes con) (chars ''preferred'') of
        None \<Rightarrow> 0 | Some i \<Rightarrow> i),
      crtc = or_else (pick (\<lambda>r. crtc_id_of r = enc_crtc enc) (\<lambda>i. dev (GetCrtc fd i)) (res_crtcs ?res))
        (first_possible (enc_possible enc) (\<lambda>i. dev (GetCrtc fd i)) 0 (res_crtcs ?res))\<rparr>)"
    for con enc l
  proof -
    have run: "\<exists>l'. foreach (res_crtcs ?res) (auto_crtc_loop fd enc) (0, None) ?K N l = (Val
        (case pick (\<lambda>r. crtc_id_of r = enc_crtc enc) (\<lambda>i. dev (GetCrtc fd i)) (res_crtcs ?res) of
         Some r \<Rightarrow> Inr r
       | None \<Rightarrow> Inl (0 + length (res_crtcs ?res), or_else None (first_possible (enc_possible enc)
           (\<lambda>i. dev (GetCrtc fd i)) 0 (res_crtcs ?res)))), l')" for l
      by (rule fst_eqE, rule auto_crtc_static) (use assms(1) in simp)
    show ?thesis
    proof (cases "mode_index (conn_modes con) (chars ''preferred'')")
      case None
      then show ?thesis
        using run [of "Out [S ''No preferred mode, choose the first available mode''] # l"]
        by (auto simp: auto_crtc_def mode_by_auto io_simps Let_def or_else_def split: option.split)
    next
      case (Some i)
      then show ?thesis
        using run [of l]
        by (auto simp: auto_crtc_def mode_by_auto io_simps Let_def or_else_def split: option.split)
    qed
  qed
  have enc: "fst (auto_encoder fd ?res con ?K N l) = Val (autoconf_spec dev fd con)"
    if "conn_encoders con \<noteq> []" for con l
    using enc_search.static_search [of "res_encoders ?res" fd
        "\<lambda>r. enc_id_of r = conn_encoder con" dev N l] that
    by (auto simp: auto_encoder_def io_simps crt autoconf_spec_def or_else_def pick_def Let_def
        split: option.split)
  let ?p = "pick (\<lambda>r. conn_state r = 1 \<and> conn_modes r \<noteq> []) (\<lambda>i. dev (GetConnector fd i))
      (res_connectors ?res)"
  have ne: "conn_encoders con \<noteq> []" if "?p = Some con" for con
    using that assms(2) by (auto simp: pick_def find_Some_iff)
  show ?thesis
  proof (cases ?p)
    case None
    then show ?thesis
      using conn_search.static_search [of "res_connectors ?res" fd
        "\<lambda>r. conn_state r = 1 \<and> conn_modes r \<noteq> []" dev N "Ev (GetResources fd) ?res # l"]
      by (auto simp: drm_autoconf_def io_simps pick_def)
  next
    case (Some con)
    then show ?thesis
      using conn_search.static_search [of "res_connectors ?res" fd
        "\<lambda>r. conn_state r = 1 \<and> conn_modes r \<noteq> []" dev N "Ev (GetResources fd) ?res # l"] ne
      by (auto simp: drm_autoconf_def io_simps enc pick_def)
  qed
qed

text \<open>The demonstration device with a connector behind every id.\<close>

fun demo_device' :: "drm_call \<Rightarrow> resp" where
  "demo_device' (GetConnector fd i) = demo_device (GetConnector fd 20)"
| "demo_device' c = demo_device c"

theorem drm_autoconf_chooses_witness:
  "fst (drm_autoconf 9 (\<lambda>_ c. Some (demo_device' c)) 0 []) = Val
    (if rv (demo_device' (GetResources 9)) = 0 then None
     else case pick (\<lambda>r. conn_state r = 1 \<and> conn_modes r \<noteq> []) (\<lambda>i. demo_device' (GetConnector 9 i))
            (res_connectors (demo_device' (GetResources 9))) of
        None \<Rightarrow> None
      | Some con \<Rightarrow> autoconf_spec demo_device' 9 con) \<and>
   map_option (\<lambda>k. map_option rv (crtc k)) (autoconf_spec demo_device' 9
     (demo_device' (GetConnector 9 20))) = Some (Some 5)"
proof (rule conjI [OF drm_autoconf_chooses])
  show "length (res_crtcs (demo_device' (GetResources 9))) \<le> 32" by code_simp
  show "\<forall>i. conn_encoders (demo_device' (GetConnector 9 i)) \<noteq> []"
    by (simp add: utable_def table_def)
qed code_simp

section \<open>What the search for a mode leaves alone\<close>

text \<open>
  Properties of histories that prints and the calls in \<open>A\<close> keep. The search for a mode, on its way
  or at its end, keeps all that reading and freeing resources and connectors keeps.
\<close>

definition closed_under :: "('c \<Rightarrow> bool) \<Rightarrow> ('c history \<Rightarrow> bool) \<Rightarrow> bool" where
  "closed_under A J \<longleftrightarrow> (\<forall>os l. J l \<longrightarrow> J (Out os # l)) \<and>
     (\<forall>c r l. A c \<longrightarrow> J l \<longrightarrow> J (Ev c r # l))"

lemma closed_underD:
  assumes "closed_under A J" "J l"
  shows "J (Out os # l)" "A c \<Longrightarrow> J (Ev c r # l)"
  using assms by (auto simp: closed_under_def)

fun look_call :: "int \<Rightarrow> drm_call \<Rightarrow> bool" where
  "look_call fd (GetResources d) \<longleftrightarrow> d = fd"
| "look_call fd (GetConnector d i) \<longleftrightarrow> d = fd"
| "look_call fd (FreeConnector p) \<longleftrightarrow> True"
| "look_call fd (FreeResources p) \<longleftrightarrow> True"
| "look_call fd c \<longleftrightarrow> False"

text \<open>A program that keeps \<open>J\<close> and comes to its end, unless a call does not return.\<close>

definition steady :: "('c history \<Rightarrow> bool) \<Rightarrow> 'a res \<Rightarrow> 'c history \<Rightarrow> bool" where
  "steady J x l \<longleftrightarrow> J l \<and> (case x of Val v \<Rightarrow> True | Wait \<Rightarrow> True | _ \<Rightarrow> False)"

lemma steady_simps [simp]:
  "steady J (Val v) l = J l" "steady J Wait l = J l" "\<not> steady J (Exit n) l" "\<not> steady J (Fault e) l"
  by (simp_all add: steady_def)

lemma wp_bind_steady:
  assumes "wp m (steady J) K N l" "\<And>l. J l \<Longrightarrow> Q Wait l" "\<And>a l. J l \<Longrightarrow> wp (f a) Q K N l"
  shows "wp (bind m f) Q K N l"
  by (rule wp_bindI [where P = "\<lambda>a. J"])
    (auto intro!: wp_mono [OF assms(1)] assms(2,3) simp: seq_def split: res.splits)

lemma conn_loop_looks:
  assumes J: "closed_under (look_call fd) J" "J l"
  shows "wp (foreach ids (conn_loop fd p) u) (steady J) K N l"
proof (rule wp_foreach [where I = "\<lambda>u. J"])
  show "J l" by (rule J(2))
  fix i u and l :: "drm_call history" assume "J l"
  then show "wp (conn_loop fd p i u) (seq (for_post (\<lambda>u. J) (steady J)) (steady J)) K N l"
    by (simp add: conn_loop_def wp_simps closed_underD [OF J(1)] split: option.split)
qed simp

lemma drm_get_mode_by_name_looks:
  assumes J: "closed_under (look_call fd) J" "J l"
  shows "wp (drm_get_mode_by_name fd i nm) (steady J) K N l"
proof -
  have find: "wp (bind (foreach ids (conn_loop fd p) ()) f) (steady J) K N l"
    if "J l" "\<And>x l. J l \<Longrightarrow> wp (f x) (steady J) K N l" for ids p l
    and f :: "unit + resp \<Rightarrow> (mode_info option, drm_call) io"
    by (rule wp_bind_steady [OF conn_loop_looks [OF J(1) that(1)]]) (simp_all add: that(2))
  show ?thesis
    unfolding drm_get_mode_by_name_def
    by (auto simp: wp_sys wp_if wp_say wp_ret closed_underD [OF J(1)] J(2)
        intro!: find split: option.split sum.split)
qed

lemma drm_get_mode_by_name_keeps:
  assumes "closed_under (look_call fd) J" "J l"
  shows "wp (drm_get_mode_by_name fd i nm) (\<lambda>x. J) K N l"
  by (rule wp_mono [OF drm_get_mode_by_name_looks [OF assms]]) (simp add: steady_def)

end
