(* ===== verification/Drm_Server.thy ===== *)
theory Drm_Server
  imports Drm_Proto Drm_Utils
begin

text \<open>
  \<open>drm-tests/drm_server.c\<close>: the display server. It owns the device, accepts up to five clients on
  a local socket and carries out their requests, one answer for each. Its state: the table of
  client descriptors, the record kept for each slot (uninitialised until the first
  authentication, and not cleared when a client leaves), and the variables \<open>magic\<close>, \<open>command\<close> and
  \<open>ret\<close>, which keep their last values. The flag \<open>running\<close>, which the signal handler clears, is
  read by the call \<open>Running\<close>. \<open>poll\<close> gives \<open>revents\<close> of the six elements of the array (the code
  passes seven as their number).
\<close>

abbreviation (input) DRM_SERVER_NAME :: string where "DRM_SERVER_NAME \<equiv> ''/tmp/drm_srv''"
abbreviation (input) device_name :: string where "device_name \<equiv> ''/dev/dri/card0''"

record drm_srv =
  slots :: "int list"
  drm_clients :: "drm_client_info list"
  tx_buf :: "byte list"
  magic :: uint32
  command :: uint32
  last_ret :: int

definition revent :: "resp \<Rightarrow> nat \<Rightarrow> 16 word" where
  "revent p i = word_of_int (num p i)"

definition readable :: "16 word \<Rightarrow> bool" where
  "readable v \<longleftrightarrow> bit v 0"

definition readable_or_error :: "16 word \<Rightarrow> bool" where
  "readable_or_error v \<longleftrightarrow> bit v 0 \<or> bit v 3"

definition zero_info :: "drm_client_info" where
  "zero_info = \<lparr>ci_magic = 0, saved_crtc = NullPtr, current_crtc = NullPtr, ci_crtc_id = 0,
     ci_conn_id = 0, ci_plane_id = 0, ci_w = 0, ci_h = 0, ci_x = 0, ci_y = 0, ci_fb = 0,
     ci_mode_name = [], ci_mode = None\<rparr>"

definition crtc_valid :: "resp \<Rightarrow> bool" where
  "crtc_valid r \<longleftrightarrow> unum r 6 \<noteq> 0"

definition crtc_mode_name :: "resp \<Rightarrow> byte list" where
  "crtc_mode_name r = (case texts r of [] \<Rightarrow> [] | m # _ \<Rightarrow> m)"

section \<open>The commands\<close>

text \<open>
  Each command works on the record of its client, the text received and the answer buffer, and
  yields the record, \<open>ret\<close> and the buffer.
\<close>

definition ok_response :: "uint32 \<Rightarrow> byte list" where
  "ok_response m = response m DRM_OK"

definition srv_auth :: "int \<Rightarrow> uint32 \<Rightarrow> drm_client_info \<Rightarrow> byte list \<Rightarrow>
    (drm_client_info \<times> int \<times> byte list, drm_call) io" where
  "srv_auth fd m ci tx =
     sys (AuthMagic fd m) (\<lambda>a.
     if rv a \<noteq> 0 then perror ''failed drmAuthMagic'' (ret (ci, -1, tx))
     else ret (zero_info\<lparr>ci_magic := m\<rparr>, rv a, ok_response m))"

text \<open>The \<open>sscanf\<close> of the crtc request; the mode name has room for 19 bytes.\<close>

definition crtc_fields :: "byte list \<Rightarrow> drm_client_info \<Rightarrow> drm_client_info" where
  "crtc_fields rx ci =
     (let x = scan_fields 5 (cstr rx); vs = fst x in
      ci\<lparr>ci_crtc_id := scanned vs 2 (ci_crtc_id ci), ci_conn_id := scanned vs 3 (ci_conn_id ci),
         ci_fb := scanned vs 4 (ci_fb ci),
         ci_mode_name := (case scan_string (snd x) of
           None \<Rightarrow> ci_mode_name ci | Some s \<Rightarrow> s)\<rparr>)"

definition name_fits :: "byte list \<Rightarrow> bool" where
  "name_fits rx = (case scan_string (snd (scan_fields 5 (cstr rx))) of
     None \<Rightarrow> True | Some s \<Rightarrow> length s < 20)"

text \<open>
  The first two numbers go into locals that are only printed; one that was not converted is
  uninitialised and prints as anything.
\<close>

definition shown :: "int list \<Rightarrow> nat \<Rightarrow> out" where
  "shown vs k = (if k < length vs then D (sint (word_of_int (vs ! k) :: uint32)) else S ''?'')"

text \<open>The part of the crtc request from the saving of the crtc on.\<close>

definition srv_set_crtc :: "int \<Rightarrow> uint32 \<Rightarrow> mode_info \<Rightarrow> drm_client_info \<Rightarrow> byte list \<Rightarrow>
    (drm_client_info \<times> int \<times> byte list, drm_call) io" where
  "srv_set_crtc fd m tm ci tx =
     sys (GetCrtc fd (ci_crtc_id ci)) (\<lambda>s.
     if rv s = 0 then
       perror ''failed drmModeGetCrtc(current)'' (ret (ci\<lparr>saved_crtc := NullPtr\<rparr>, -1, tx))
     else
     let ci' = ci\<lparr>saved_crtc := CrtcAt s\<rparr> in
     dump_crtc_configuration ''saved_crtc'' s
     (sys (SetCrtc fd (ci_crtc_id ci) (ci_fb ci) 0 0 (ci_conn_id ci) (mode_name tm)) (\<lambda>c.
     if rv c \<noteq> 0 then perror ''failed drmModeSetCrtc(new)'' (ret (ci', -1, tx))
     else
     sys (GetCrtc fd (ci_crtc_id ci)) (\<lambda>n.
     if rv n = 0 then
       perror ''failed drmModeGetCrtc(new)'' (ret (ci'\<lparr>current_crtc := NullPtr\<rparr>, -1, tx))
     else
       dump_crtc_configuration ''current_crtc'' n
         (ret (ci'\<lparr>current_crtc := CrtcAt n\<rparr>, rv c, ok_response m))))))"

definition srv_crtc :: "int \<Rightarrow> uint32 \<Rightarrow> byte list \<Rightarrow> drm_client_info \<Rightarrow> byte list \<Rightarrow>
    (drm_client_info \<times> int \<times> byte list, drm_call) io" where
  "srv_crtc fd m rx ci0 tx =
     (if \<not> name_fits rx then fault ''CMD_CRTC: mode_name overflows''
      else
      let ci = crtc_fields rx ci0; vs = fst (scan_fields 5 (cstr rx)) in
      say [S ''got req: '', shown vs 0, S '':'', shown vs 1, S '':'', D (sint (ci_crtc_id ci)), S '':'', 
        D (sint (ci_conn_id ci)), S '':'', D (sint (ci_fb ci)), S '':'', B (ci_mode_name ci)]
      (bind (drm_get_mode_by_name fd (ci_conn_id ci) (ci_mode_name ci)) (\<lambda>tm. case tm of
         None \<Rightarrow> perror ''failed drm_get_mode_by_name'' (ret (ci, -1, tx))
       | Some t \<Rightarrow> srv_set_crtc fd m t (ci\<lparr>ci_mode := Some t\<rparr>) tx)))"

definition plane_fields :: "byte list \<Rightarrow> drm_client_info \<Rightarrow> drm_client_info" where
  "plane_fields rx ci =
     (let vs = fst (scan_fields 9 (cstr rx)) in
      ci\<lparr>ci_crtc_id := scanned vs 2 (ci_crtc_id ci), ci_plane_id := scanned vs 3 (ci_plane_id ci),
         ci_fb := scanned vs 4 (ci_fb ci), ci_w := scanned vs 5 (ci_w ci),
         ci_h := scanned vs 6 (ci_h ci), ci_x := scanned vs 7 (ci_x ci),
         ci_y := scanned vs 8 (ci_y ci)\<rparr>)"

definition srv_plane :: "int \<Rightarrow> uint32 \<Rightarrow> byte list \<Rightarrow> drm_client_info \<Rightarrow> byte list \<Rightarrow>
    (drm_client_info \<times> int \<times> byte list, drm_call) io" where
  "srv_plane fd m rx ci0 tx =
     (let ci = plane_fields rx ci0; vs = fst (scan_fields 9 (cstr rx)) in
      say [S ''got req: '', shown vs 0, S '':'', shown vs 1, S '':'',
        D (sint (ci_crtc_id ci)), S '':'', D (sint (ci_plane_id ci)), S '':'',
        D (sint (ci_fb ci)), S '':'', D (sint (ci_w ci)), S '':'', D (sint (ci_h ci)), S '':'',
        D (sint (ci_x ci)), S '':'', D (sint (ci_y ci))]
      (sys (SetPlane fd (ci_plane_id ci) (ci_crtc_id ci) (ci_fb ci) (ci_x ci) (ci_y ci)
         (ci_w ci) (ci_h ci) (push_bit 16 (ci_w ci)) (push_bit 16 (ci_h ci))) (\<lambda>r.
       if rv r \<noteq> 0 then perror ''cannot set plane'' (ret (ci, -1, tx))
       else ret (ci, rv r, ok_response m))))"

text \<open>The crtc is put back; \<open>n\<close> is the value \<open>ret\<close> has from \<open>read\<close>.\<close>

definition srv_crtc_stop :: "int \<Rightarrow> uint32 \<Rightarrow> int \<Rightarrow> drm_client_info \<Rightarrow> byte list \<Rightarrow>
    (drm_client_info \<times> int \<times> byte list, drm_call) io" where
  "srv_crtc_stop fd m n ci tx = (case saved_crtc ci of
     NullPtr \<Rightarrow> fault ''CMD_CRTC_STOP: saved_crtc is NULL''
   | WildPtr \<Rightarrow> fault ''CMD_CRTC_STOP: saved_crtc is uninitialised''
   | CrtcAt s \<Rightarrow>
       if crtc_valid s then
         sys (SetCrtc fd (unum s 0) (unum s 1) (unum s 2) (unum s 3) (ci_conn_id ci)
           (crtc_mode_name s)) (\<lambda>r.
         if rv r \<noteq> 0 then perror ''failed drmModeSetCrtc(restore original)'' (ret (ci, -1, tx))
         else ret (ci, rv r, ok_response m))
       else ret (ci, n, ok_response m))"

definition srv_plane_stop :: "int \<Rightarrow> uint32 \<Rightarrow> drm_client_info \<Rightarrow> byte list \<Rightarrow>
    (drm_client_info \<times> int \<times> byte list, drm_call) io" where
  "srv_plane_stop fd m ci tx =
     sys (SetPlane fd (ci_plane_id ci) 0 0 0 0 0 0 0 0) (\<lambda>r.
     if rv r \<noteq> 0 then perror ''failed drmModeSetCrtc(restore original)'' (ret (ci, -1, tx))
     else ret (ci, rv r, ok_response m))"

definition srv_command :: "int \<Rightarrow> uint32 \<Rightarrow> uint32 \<Rightarrow> int \<Rightarrow> byte list \<Rightarrow> drm_client_info \<Rightarrow>
    byte list \<Rightarrow> (drm_client_info \<times> int \<times> byte list, drm_call) io" where
  "srv_command fd m c n rx ci tx =
     (if c = CMD_AUTH then srv_auth fd m ci tx
      else if c = CMD_CRTC then srv_crtc fd m rx ci tx
      else if c = CMD_PLANE then srv_plane fd m rx ci tx
      else if c = CMD_CRTC_STOP then srv_crtc_stop fd m n ci tx
      else if c = CMD_PLANE_STOP then srv_plane_stop fd m ci tx
      else ret (ci, -1, tx))"

section \<open>The loop\<close>

text \<open>A request of client \<open>i\<close> that has been read.\<close>

definition srv_reply :: "nat \<Rightarrow> uint32 \<Rightarrow> uint32 \<Rightarrow> drm_srv \<Rightarrow> drm_client_info \<times> int \<times> byte list \<Rightarrow>
    (drm_srv, drm_call) io" where
  "srv_reply i m c st x =
     (let rt = fst (snd x);
          tx = (if rt = -1 then response m DRM_ERROR else snd (snd x)) in
      say [S ''send to client '', D (int i), S '' response ['', B (cstr tx), S '']'']
      (sys (P (Write (slots st ! i) tx)) (\<lambda>_.
       ret (st\<lparr>drm_clients := (drm_clients st)[i := fst x], tx_buf := tx, magic := m,
         command := c, last_ret := rt\<rparr>))))"

definition srv_request :: "int \<Rightarrow> nat \<Rightarrow> resp \<Rightarrow> drm_srv \<Rightarrow> (drm_srv, drm_call) io" where
  "srv_request fd i r st =
     (let rx = fill (zeros DRM_BUF) (bytes r) in
      if \<not> terminated rx then fault ''rx_buf is not terminated''
      else
      let vs = fst (scan_fields 2 (cstr rx));
          m = scanned vs 0 (magic st); c = scanned vs 1 (command st) in
      say [S ''accepted request ['', B (cstr rx), S ''] -> ('', D (sint m), S '', '', D (sint c), S '')'']
      (bind (srv_command fd m c (rv r) rx (drm_clients st ! i) (tx_buf st)) (srv_reply i m c st)))"

text \<open>The loop over the clients: its state has \<open>rc\<close>; \<open>Inr\<close> is the \<open>break\<close>.\<close>

definition srv_serve :: "int \<Rightarrow> resp \<Rightarrow> nat \<Rightarrow> drm_srv \<times> int \<Rightarrow>
    ((drm_srv \<times> int) + drm_srv, drm_call) io" where
  "srv_serve fd p i st =
     (let s = fst st; rc = snd st in
      if slots s ! i = -1 then ret (Inl st)
      else if \<not> readable_or_error (revent p i) then ret (Inl st)
      else
        sys (P (Read (slots s ! i) DRM_BUF)) (\<lambda>r.
        if rv r < 0 then
          perror ''problem with socket''
          (sys (P (Close (slots s ! i))) (\<lambda>_.
           ret (Inl (s\<lparr>slots := (slots s)[i := -1], last_ret := rv r\<rparr>, rc))))
        else if rv r = 0 then
          say [S ''client '', D (int i), S '' gone,closing connection'']
          (sys (P (Close (slots s ! i))) (\<lambda>_.
           ret (Inl (s\<lparr>slots := (slots s)[i := -1], last_ret := rv r\<rparr>, rc))))
        else
          bind (srv_request fd i r s) (\<lambda>s'.
          if rc - 1 = 0 then ret (Inr s') else ret (Inl (s', rc - 1)))))"

text \<open>The search for a free slot: the index at which the loop stops.\<close>

primrec free_index :: "int list \<Rightarrow> nat" where
  "free_index [] = 0"
| "free_index (x # xs) = (if x = -1 then 0 else Suc (free_index xs))"

definition srv_place :: "int \<Rightarrow> drm_srv \<Rightarrow> (drm_srv, drm_call) io" where
  "srv_place clientfd st =
     (let i = free_index (slots st) in
      if i = DRM_MAXCLIENTS then
        say [S ''clients queue is full - drop client'']
          (sys (P (Close clientfd)) (\<lambda>_. ret st))
      else ret (st\<lparr>slots := (slots st)[i := clientfd]\<rparr>))"

text \<open>The end of an iteration, \<open>while (running)\<close>: \<open>Inl\<close> goes on, \<open>Inr\<close> leaves the loop.\<close>

definition srv_again :: "drm_srv \<Rightarrow> (drm_srv + drm_srv, drm_call) io" where
  "srv_again st = sys Running (\<lambda>r. if rv r \<noteq> 0 then ret (Inl st) else ret (Inr st))"

definition srv_clients :: "int \<Rightarrow> resp \<Rightarrow> drm_srv \<Rightarrow> int \<Rightarrow> (drm_srv + drm_srv, drm_call) io" where
  "srv_clients fd p st rc =
     bind (foreach [0..<DRM_MAXCLIENTS] (srv_serve fd p) (st, rc)) (\<lambda>x.
     srv_again (case x of Inl y \<Rightarrow> fst y | Inr s \<Rightarrow> s))"

definition srv_accept :: "int \<Rightarrow> int \<Rightarrow> resp \<Rightarrow> drm_srv \<Rightarrow> (drm_srv + drm_srv, drm_call) io" where
  "srv_accept fd sockfd p st =
     sys (P (Accept sockfd)) (\<lambda>a.
     if rv a < 0 then perror ''could not accept connection'' (ret (Inr st))
     else
       bind (srv_place (rv a) st) (\<lambda>st'.
       if rv p - 1 = 0 then srv_again st' else srv_clients fd p st' (rv p - 1)))"

definition srv_iteration :: "int \<Rightarrow> int \<Rightarrow> drm_srv \<Rightarrow> (drm_srv + drm_srv, drm_call) io" where
  "srv_iteration fd sockfd st =
     sys (P (Poll (slots st @ [sockfd]) (DRM_MAXCLIENTS + 2) 10000)) (\<lambda>p.
     if rv p = 0 then say [S ''poll timeout''] (srv_again st)
     else if rv p = -1 then
       (if err p = EINTR then perror '''poll' was interrupted'' (ret (Inr st))
        else perror ''some problems with poll'' (ret (Inr st)))
     else if readable (revent p 5) then srv_accept fd sockfd p st
     else srv_clients fd p st (rv p))"

text \<open>
  \<open>main\<close>; \<open>st0\<close> is what the uninitialised variables hold. The exit status is that of \<open>ret\<close>.
\<close>

definition drm_server :: "drm_srv \<Rightarrow> (unit, drm_call) io" where
  "drm_server st0 =
     sys (P (Sigaction ''SIGINT'')) (\<lambda>_.
     sys (P (Open device_name)) (\<lambda>f.
     if rv f < 0 then perror ''cannot open drm device'' (exit 255) else
     sys (SetMaster (rv f)) (\<lambda>_.
     let err_close = (\<lambda>rt. sys (P (Close (rv f))) (\<lambda>_. exit (rt mod 256))) in
     sys (P (Socket AF_UNIX SOCK_STREAM)) (\<lambda>s.
     if rv s < 0 then perror ''could not create socket'' (err_close (last_ret st0)) else
     sys (P (Bind (rv s) (SockUn DRM_SERVER_NAME))) (\<lambda>b.
     if rv b < 0 then perror ''could not bind socket'' (err_close (last_ret st0)) else
     sys (P (Listen (rv s) 5)) (\<lambda>_.
     bind (loop (srv_iteration (rv f) (rv s))
       (st0\<lparr>slots := replicate DRM_MAXCLIENTS (-1)\<rparr>)) (\<lambda>st.
     sys (P (Close (rv s))) (\<lambda>_.
     sys (Unlink DRM_SERVER_NAME) (\<lambda>_.
     err_close (last_ret st))))))))))"

section \<open>Library calls\<close>

text \<open>
  A call of a display library on the device. Properties that such calls and prints keep are kept
  by the search for a mode, and by every command.
\<close>

definition lib_call :: "int \<Rightarrow> drm_call \<Rightarrow> bool" where
  "lib_call fd c \<longleftrightarrow> (case c of P q \<Rightarrow> False | _ \<Rightarrow> True) \<and> set (drm_fd_uses c) \<subseteq> {fd}"

abbreviation lib_closed :: "int \<Rightarrow> (drm_call history \<Rightarrow> bool) \<Rightarrow> bool" where
  "lib_closed fd \<equiv> closed_under (lib_call fd)"

lemmas lib_closedD = closed_underD [where A = "lib_call fd" for fd]

lemma lib_looks: "lib_closed fd J \<Longrightarrow> closed_under (look_call fd) J"
proof -
  have "look_call fd c \<Longrightarrow> lib_call fd c" for c by (cases c) (simp_all add: lib_call_def)
  then show "lib_closed fd J \<Longrightarrow> closed_under (look_call fd) J" by (simp add: closed_under_def)
qed

lemmas drm_get_mode_by_name_lib = drm_get_mode_by_name_keeps [OF lib_looks]

lemma seq_keeps: "J l \<Longrightarrow> (\<And>r. Q r l) \<Longrightarrow> seq (\<lambda>a. J) Q r l"
  by (cases r) simp_all

lemma srv_command_lib:
  assumes J: "lib_closed fd J" "J l"
  shows "wp (srv_command fd m c n rx ci tx) (\<lambda>x. J) K N l"
proof -
  note [simp] = lib_closedD [OF J(1)] J(2) lib_call_def
  have auth: "wp (srv_auth fd m ci tx) (\<lambda>x. J) K N l"
    by (simp add: srv_auth_def wp_simps split: option.split)
  have set: "wp (srv_set_crtc fd m t ci tx) (\<lambda>x. J) K N l" if "J l" for t ci l
    using that by (simp add: srv_set_crtc_def dump_crtc_configuration_def Let_def wp_simps
        split: option.split)
  have crtc: "wp (srv_crtc fd m rx ci tx) (\<lambda>x. J) K N l"
    unfolding srv_crtc_def Let_def wp_if wp_say wp_fault
    by (auto intro!: wp_bindI [where P = "\<lambda>x. J"] wp_mono [OF drm_get_mode_by_name_lib [OF J(1)]]
        set intro: seq_keeps simp: wp_say wp_ret seq_def split: option.split res.split)
  have plane: "wp (srv_plane fd m rx ci tx) (\<lambda>x. J) K N l"
    by (simp add: srv_plane_def Let_def wp_simps split: option.split)
  have stop: "wp (srv_crtc_stop fd m n ci tx) (\<lambda>x. J) K N l"
    by (simp add: srv_crtc_stop_def wp_simps split: option.split crtc_ptr.split)
  have pstop: "wp (srv_plane_stop fd m ci tx) (\<lambda>x. J) K N l"
    by (simp add: srv_plane_stop_def wp_simps split: option.split)
  show ?thesis
    unfolding srv_command_def by (simp add: auth crtc plane stop pstop wp_ret)
qed

section \<open>The invariant of the loop\<close>

text \<open>The system calls of a history, without those of the libraries, the newest first.\<close>

primrec socket_calls :: "drm_call history \<Rightarrow> (posix \<times> resp) list" where
  "socket_calls [] = []"
| "socket_calls (e # l) = (case e of
     Ev c r \<Rightarrow> (case c of P q \<Rightarrow> (q, r) # socket_calls l | _ \<Rightarrow> socket_calls l)
   | Out os \<Rightarrow> socket_calls l)"

text \<open>A request has been read and not been answered yet.\<close>

definition pending :: "(posix \<times> resp) list \<Rightarrow> bool" where
  "pending cs \<longleftrightarrow> (case cs of
     [] \<Rightarrow> False
   | x # cs' \<Rightarrow> (case fst x of Read fd n \<Rightarrow> 0 < rv (snd x) | _ \<Rightarrow> False))"

text \<open>
  The bytes \<open>bs\<close> answer the request \<open>req\<close>: they are an answer message, and when the request starts
  with a number, that number is the magic of the answer.
\<close>

definition answer_to :: "byte list \<Rightarrow> byte list \<Rightarrow> bool" where
  "answer_to req bs \<longleftrightarrow> (\<exists>m code. bs = response m code \<and> (code = DRM_OK \<or> code = DRM_ERROR) \<and>
     (\<forall>v vs. fst (scan_fields 2 (cstr req)) = v # vs \<longrightarrow> m = word_of_int v))"

text \<open>
  The conversation: every \<open>write\<close> follows at once a \<open>read\<close> from the same client and answers what
  it has read; every request that was read is followed at once by its answer (the last one may
  still wait for it).
\<close>

primrec converses :: "(posix \<times> resp) list \<Rightarrow> bool" where
  "converses [] = True"
| "converses (x # cs) = (converses cs \<and> (case fst x of
     Write fd bs \<Rightarrow> (case cs of
         [] \<Rightarrow> False
       | y # cs' \<Rightarrow> (case fst y of
           Read fd' n \<Rightarrow> fd' = fd \<and> 0 < rv (snd y) \<and>
             answer_to (fill (zeros DRM_BUF) (bytes (snd y))) bs
         | _ \<Rightarrow> False))
   | _ \<Rightarrow> \<not> pending cs))"

abbreviation srv_tracks :: "int list \<Rightarrow> int \<Rightarrow> int set \<Rightarrow> bool" where
  "srv_tracks \<equiv> tracks {..<DRM_MAXCLIENTS} (\<lambda>t i. t ! i)"

interpretation srv_tab: slot_table "{..<DRM_MAXCLIENTS}" "\<lambda>t i. t ! i" "\<lambda>i v t. t[i := v]"
    "\<lambda>t. length t = DRM_MAXCLIENTS"
  by unfold_locales (auto simp: nth_list_update)

text \<open>The descriptors: the device, the listening socket and the clients in the table.\<close>

definition srv_fds :: "int \<Rightarrow> int \<Rightarrow> int list \<Rightarrow> drm_call history \<Rightarrow> bool" where
  "srv_fds fd sk sl l \<longleftrightarrow> length sl = DRM_MAXCLIENTS \<and> disciplined drm_fds l \<and>
     fd \<in> open_fds drm_fds l \<and> srv_tracks sl sk (open_fds drm_fds l - {fd})"

lemma lib_opens [simp]: "lib_call fd c \<Longrightarrow> drm_fd_opens c r = []"
  "lib_call fd c \<Longrightarrow> drm_fd_closes c = []"
  by (cases c; simp add: lib_call_def)+

lemma lib_socket_calls [simp]: "lib_call fd c \<Longrightarrow> socket_calls (Ev c r # l) = socket_calls l"
  by (cases c) (simp_all add: lib_call_def)

lemma srv_fds_Out [simp]: "srv_fds fd sk sl (Out os # l) = srv_fds fd sk sl l"
  by (simp add: srv_fds_def)

lemma srv_fds_lib: "lib_call fd c \<Longrightarrow> srv_fds fd sk sl l \<Longrightarrow> srv_fds fd sk sl (Ev c r # l)"
  by (auto simp: srv_fds_def) (auto simp: lib_call_def)

definition srv_mid :: "int \<Rightarrow> int \<Rightarrow> int list \<Rightarrow> (posix \<times> resp) list \<Rightarrow> drm_call history \<Rightarrow> bool" where
  "srv_mid fd sk sl q l \<longleftrightarrow> srv_fds fd sk sl l \<and> socket_calls l = q"

lemma srv_mid_closed: "lib_closed fd (srv_mid fd sk sl q)"
proof -
  have "srv_mid fd sk sl q (Out os # l)" if "srv_mid fd sk sl q l" for os l
    using that by (simp add: srv_mid_def)
  moreover have "srv_mid fd sk sl q (Ev c r # l)" if "lib_call fd c" "srv_mid fd sk sl q l" for c r l
    unfolding srv_mid_def lib_socket_calls [OF that(1)]
    using that srv_fds_lib by (simp add: srv_mid_def)
  ultimately show ?thesis by (auto simp: closed_under_def)
qed

text \<open>Between two calls on the sockets: no request is pending.\<close>

definition srv_inv :: "int \<Rightarrow> int \<Rightarrow> int list \<Rightarrow> drm_call history \<Rightarrow> bool" where
  "srv_inv fd sk sl l \<longleftrightarrow> srv_fds fd sk sl l \<and> converses (socket_calls l) \<and>
     \<not> pending (socket_calls l)"

text \<open>What holds of the history in every outcome.\<close>

definition srv_good :: "drm_call history \<Rightarrow> bool" where
  "srv_good l \<longleftrightarrow> disciplined drm_fds l \<and> card (open_fds drm_fds l) \<le> 8 \<and>
     converses (socket_calls l)"

lemma srv_fds_card: "srv_fds fd sk sl l \<Longrightarrow> card (open_fds drm_fds l) \<le> 7"
proof -
  assume i: "srv_fds fd sk sl l"
  then have "card (open_fds drm_fds l - {fd}) \<le> 6"
    using srv_tab.tracks_card [of sl sk "open_fds drm_fds l - {fd}"] by (simp add: srv_fds_def)
  moreover have "card (open_fds drm_fds l) \<le> Suc (card (open_fds drm_fds l - {fd}))"
    by (simp add: card_Diff_singleton_if) arith
  ultimately show ?thesis by simp
qed

lemma srv_inv_good: "srv_inv fd sk sl l \<Longrightarrow> srv_good l"
  using srv_fds_card [of fd sk sl l] by (auto simp: srv_inv_def srv_good_def srv_fds_def)

lemma srv_inv_Out [simp]: "srv_inv fd sk sl (Out os # l) = srv_inv fd sk sl l"
  by (simp add: srv_inv_def)

lemma srv_inv_lib:
  assumes "lib_call fd c" "srv_inv fd sk sl l"
  shows "srv_inv fd sk sl (Ev c r # l)"
  unfolding srv_inv_def lib_socket_calls [OF assms(1)]
  using assms srv_fds_lib by (simp add: srv_inv_def)

lemma srv_good_mid:
  assumes "srv_mid fd sk sl q l" "converses q"
  shows "srv_good l"
  using assms srv_fds_card [of fd sk sl l] by (auto simp: srv_mid_def srv_good_def srv_fds_def)

lemma srv_slot:
  assumes "srv_fds fd sk sl l" "i < 5" "sl ! i \<noteq> -1"
  shows "sl ! i \<in> open_fds drm_fds l"
  using srv_tab.tracks_open [of sl sk "open_fds drm_fds l - {fd}" i] assms
  by (simp add: srv_fds_def)

text \<open>A client is dropped: its slot is freed and its descriptor closed.\<close>

lemma srv_fds_close:
  assumes "srv_fds fd sk sl l" "i < 5" "sl ! i \<noteq> -1"
  shows "srv_fds fd sk (sl[i := -1]) (Ev (P (Close (sl ! i))) r # l)"
proof -
  have "srv_tracks (sl[i := -1]) sk (open_fds drm_fds l - {fd} - {sl ! i})"
    using srv_tab.tracks_free [of sl sk "open_fds drm_fds l - {fd}" i] assms
    by (simp add: srv_fds_def)
  moreover have "sl ! i \<noteq> fd"
    using srv_tab.tracks_open [of sl sk "open_fds drm_fds l - {fd}" i] assms
    by (auto simp: srv_fds_def)
  moreover have "open_fds drm_fds l - {fd} - {sl ! i} = open_fds drm_fds l - {sl ! i} - {fd}"
    by blast
  ultimately show ?thesis
    using assms srv_slot [OF assms] by (simp add: srv_fds_def)
qed

definition srv_served :: "int \<Rightarrow> int \<Rightarrow> ((drm_srv \<times> int) + drm_srv) res \<Rightarrow> drm_call history \<Rightarrow> bool" where
  "srv_served fd sk x l \<longleftrightarrow> (case x of
     Val (Inl y) \<Rightarrow> srv_inv fd sk (slots (fst y)) l
   | Val (Inr s) \<Rightarrow> srv_inv fd sk (slots s) l
   | _ \<Rightarrow> srv_good l)"

definition srv_answered :: "int \<Rightarrow> int \<Rightarrow> int list \<Rightarrow> drm_srv res \<Rightarrow> drm_call history \<Rightarrow> bool" where
  "srv_answered fd sk sl x l \<longleftrightarrow> (case x of
     Val s \<Rightarrow> slots s = sl \<and> srv_inv fd sk sl l
   | _ \<Rightarrow> srv_good l)"

lemma response_answers:
  "code = DRM_OK \<or> code = DRM_ERROR \<Longrightarrow>
   answer_to req (response (scanned (fst (scan_fields 2 (cstr req))) 0 old) code)"
  by (auto simp: answer_to_def scanned_def intro!: exI)

text \<open>Which buffers a command can leave: its own answer when \<open>ret\<close> is not \<open>-1\<close>.\<close>

definition command_post :: "uint32 \<Rightarrow> (drm_client_info \<times> int \<times> byte list) res \<Rightarrow>
    drm_call history \<Rightarrow> bool" where
  "command_post m x l \<longleftrightarrow> (case x of
     Val y \<Rightarrow> fst (snd y) = -1 \<or> snd (snd y) = response m DRM_OK
   | _ \<Rightarrow> True)"

lemma command_post_simps [simp]:
  "command_post m (Val (ci, rt, tx)) l \<longleftrightarrow> rt = -1 \<or> tx = response m DRM_OK"
  "command_post m (Fault e) l" "command_post m Wait l" "command_post m (Exit n) l"
  by (simp_all add: command_post_def)

lemma mode_any: "wp (drm_get_mode_by_name fd i nm) (\<lambda>x l. True) K N l"
  by (simp add: wp_def split_beta)

lemma srv_command_post: "wp (srv_command fd m c n rx ci tx) (command_post m) K N l"
proof -
  have set: "wp (srv_set_crtc fd m t ci tx) (command_post m) K N l" for t ci l
    by (simp add: srv_set_crtc_def dump_crtc_configuration_def Let_def wp_simps ok_response_def
        split: option.split)
  have crtc: "wp (srv_crtc fd m rx ci tx) (command_post m) K N l"
    unfolding srv_crtc_def Let_def wp_if wp_say wp_fault
    by (auto intro!: wp_bindI [where P = "\<lambda>x l. True"] wp_mono [OF mode_any] set
        simp: wp_say wp_ret seq_def split: option.split res.split)
  show ?thesis
    unfolding srv_command_def
    by (simp add: crtc srv_auth_def srv_plane_def srv_crtc_stop_def srv_plane_stop_def Let_def
        ok_response_def wp_simps split: option.split crtc_ptr.split)
qed

lemma srv_reply_step:
  assumes mid: "srv_mid fd sk (slots st) ((Read (slots st ! i) n, r) # q) l"
    and q: "converses ((Read (slots st ! i) n, r) # q)"
    and i: "i < 5" "slots st ! i \<noteq> -1" and r: "0 < rv r"
    and m: "m = scanned (fst (scan_fields 2 (cstr (fill (zeros DRM_BUF) (bytes r))))) 0 old"
    and x: "command_post m (Val x) l"
  shows "wp (srv_reply i m c st x) (srv_answered fd sk (slots st)) K N l"
proof -
  have good: "srv_good (Out os # l)" for os
    using srv_good_mid [OF mid q] by (simp add: srv_good_def)
  have "srv_inv fd sk (slots st) (Ev (P (Write (slots st ! i) (response m code))) w # Out os # l)"
    if "code = DRM_OK \<or> code = DRM_ERROR" for code w os
    using mid q r srv_slot [OF _ i] response_answers [OF that, of "fill (zeros DRM_BUF) (bytes r)" old]
    by (auto simp: srv_mid_def srv_inv_def srv_fds_def pending_def m)
  then show ?thesis
    using x good by (auto simp: srv_reply_def Let_def wp_simps srv_answered_def command_post_def
        split: option.split)
qed

lemma srv_request_step:
  assumes inv: "srv_inv fd sk (slots st) l" and i: "i < 5" "slots st ! i \<noteq> -1"
    and r: "0 < rv r"
  shows "wp (srv_request fd i r st) (srv_answered fd sk (slots st)) K N
    (Ev (P (Read (slots st ! i) n)) r # l)"
proof -
  let ?q = "(Read (slots st ! i) n, r) # socket_calls l"
  let ?rx = "fill (zeros DRM_BUF) (bytes r)"
  define m where "m = scanned (fst (scan_fields 2 (cstr ?rx))) 0 (magic st)"
  define c where "c = scanned (fst (scan_fields 2 (cstr ?rx))) 1 (command st)"
  have cq: "converses ?q" and fds: "srv_fds fd sk (slots st) l"
    using inv by (simp_all add: srv_inv_def)
  have mid: "srv_mid fd sk (slots st) ?q (Ev (P (Read (slots st ! i) n)) r # l)"
    using fds srv_slot [OF fds i] by (simp add: srv_mid_def srv_fds_def)
  have body: "wp (bind (srv_command fd m c (rv r) ?rx (drm_clients st ! i) (tx_buf st))
      (srv_reply i m c st)) (srv_answered fd sk (slots st)) K N l'"
    if "srv_mid fd sk (slots st) ?q l'" for l'
  proof (rule wp_bindI [where P = "\<lambda>x l'. srv_mid fd sk (slots st) ?q l' \<and> command_post m (Val x) l'"])
    have "wp (srv_command fd m c (rv r) ?rx (drm_clients st ! i) (tx_buf st))
        (\<lambda>x l'. srv_mid fd sk (slots st) ?q l' \<and> command_post m x l') K N l'"
      unfolding wp_conj by (intro conjI srv_command_lib [OF srv_mid_closed that] srv_command_post)
    then show "wp (srv_command fd m c (rv r) ?rx (drm_clients st ! i) (tx_buf st))
        (seq (\<lambda>x l'. srv_mid fd sk (slots st) ?q l' \<and> command_post m (Val x) l')
          (srv_answered fd sk (slots st))) K N l'"
      by (rule wp_mono)
        (auto simp: seq_def srv_answered_def srv_good_mid [OF _ cq] split: res.split)
  qed (auto intro!: srv_reply_step [OF _ cq i r m_def])
  show ?thesis
    unfolding srv_request_def Let_def m_def [symmetric] c_def [symmetric]
    using body mid srv_good_mid [OF mid cq]
    by (auto simp: wp_if wp_say wp_fault srv_answered_def srv_mid_def)
qed

lemma srv_serve_step:
  assumes inv: "srv_inv fd sk (slots (fst st)) l" and i: "i < 5"
  shows "wp (srv_serve fd p i st) (srv_served fd sk) K N l"
proof (cases "slots (fst st) ! i = -1 \<or> \<not> readable_or_error (revent p i)")
  case True
  then show ?thesis
    using inv by (auto simp: srv_serve_def Let_def wp_simps srv_served_def)
next
  case False
  let ?s = "slots (fst st)"
  have fds: "srv_fds fd sk ?s l" and ne: "?s ! i \<noteq> -1"
    using inv False by (simp_all add: srv_inv_def)
  have gone: "srv_inv fd sk (?s[i := -1]) (Ev (P (Close (?s ! i))) w
      # Out os # Ev (P (Read (?s ! i) DRM_BUF)) r # l)" if "\<not> 0 < rv r" for w os r
  proof -
    have "srv_fds fd sk ?s (Out os # Ev (P (Read (?s ! i) DRM_BUF)) r # l)"
      using fds srv_slot [OF fds i ne] by (simp add: srv_fds_def)
    from srv_fds_close [OF this i ne] show ?thesis
      using inv that by (simp add: srv_inv_def pending_def)
  qed
  have got: "srv_inv fd sk ?s (Ev (P (Read (?s ! i) DRM_BUF)) r # l)" if "\<not> 0 < rv r" for r
    using inv that srv_slot [OF fds i ne] by (simp add: srv_inv_def srv_fds_def pending_def)
  have good: "srv_good l" by (rule srv_inv_good [OF inv])
  have good': "srv_good (Out os # Ev (P (Read (?s ! i) DRM_BUF)) r # l)" if "\<not> 0 < rv r" for os r
    using srv_inv_good [OF got [OF that]] by (simp add: srv_good_def)
  have req: "wp (bind (srv_request fd i r (fst st)) (\<lambda>s'. if snd st - 1 = 0 then ret (Inr s')
      else ret (Inl (s', snd st - 1)))) (srv_served fd sk) K N (Ev (P (Read (?s ! i) DRM_BUF)) r # l)"
    if "0 < rv r" for r
    by (rule wp_bindI [where P = "\<lambda>s' l'. slots s' = ?s \<and> srv_inv fd sk ?s l'"])
      (auto intro!: wp_mono [OF srv_request_step [OF inv i ne that]]
        simp: srv_answered_def srv_served_def seq_def wp_ret split: res.split)
  show ?thesis
    using False good good' gone req
    by (auto simp: srv_serve_def Let_def wp_sys wp_if wp_say wp_ret srv_served_def
        srv_inv_good split: option.split)
qed

definition srv_next :: "int \<Rightarrow> int \<Rightarrow> (drm_srv + drm_srv) res \<Rightarrow> drm_call history \<Rightarrow> bool" where
  "srv_next fd sk x l \<longleftrightarrow> (case x of
     Val (Inl s) \<Rightarrow> srv_inv fd sk (slots s) l
   | Val (Inr s) \<Rightarrow> srv_inv fd sk (slots s) l
   | _ \<Rightarrow> srv_good l)"

lemma srv_again_step:
  "srv_inv fd sk (slots s) l \<Longrightarrow> wp (srv_again s) (srv_next fd sk) K N l"
  by (auto simp: srv_again_def wp_simps srv_next_def srv_inv_good srv_inv_lib lib_call_def
      split: option.split)

lemma srv_clients_step:
  assumes "srv_inv fd sk (slots s) l"
  shows "wp (srv_clients fd p s rc) (srv_next fd sk) K N l"
proof -
  have "wp (foreach [0..<5] (srv_serve fd p) (s, rc)) (srv_served fd sk) K N l"
  proof (rule wp_for [where I = "\<lambda>i st. srv_inv fd sk (slots (fst st))"])
    show "srv_inv fd sk (slots (fst (s, rc))) l" using assms by simp
    fix i :: nat and st :: "drm_srv \<times> int" and l
    assume "i < 5" "srv_inv fd sk (slots (fst st)) l"
    then show "wp (srv_serve fd p i st) (seq (for_post (\<lambda>st. srv_inv fd sk (slots (fst st)))
        (srv_served fd sk)) (srv_served fd sk)) K N l"
      by (intro wp_mono [OF srv_serve_step])
        (auto simp: srv_served_def seq_def for_post_def split: res.splits sum.splits)
  qed (simp_all add: srv_served_def)
  then show ?thesis
    unfolding srv_clients_def
    by (intro wp_bindI [where P = "\<lambda>x l'. srv_served fd sk (Val x) l'"])
      (auto intro!: srv_again_step elim!: wp_mono
        simp: srv_served_def seq_def srv_next_def split: res.splits sum.splits)
qed

text \<open>An accepted connection: its descriptor is new; it is stored or closed.\<close>

lemma free_index_spec: "free_index sl \<le> length sl"
  "free_index sl < length sl \<Longrightarrow> sl ! free_index sl = -1"
  by (induction sl) auto

lemma srv_fds_accept:
  assumes "srv_fds fd sk sl l" "0 \<le> a" "a \<notin> open_fds drm_fds l" "i < 5" "sl ! i = -1" "rv r = a"
  shows "srv_fds fd sk (sl[i := a]) (Ev (P (Accept sk)) r # l)"
proof -
  have "srv_tracks (sl[i := a]) sk (insert a (open_fds drm_fds l - {fd}))"
    using srv_tab.tracks_put [of sl sk "open_fds drm_fds l - {fd}" i a] assms
    by (simp add: srv_fds_def)
  moreover have "insert a (open_fds drm_fds l - {fd}) = insert a (open_fds drm_fds l) - {fd}"
    using assms(1,3) by (auto simp: srv_fds_def)
  moreover have "sk \<in> open_fds drm_fds l"
    using srv_tab.tracks_listener [of sl sk] assms(1) by (fastforce simp: srv_fds_def)
  ultimately show ?thesis
    using assms by (simp add: srv_fds_def)
qed

lemma srv_inv_socket:
  assumes "srv_inv fd sk sl l" "srv_fds fd sk sl' (Ev (P c) r # l)"
    "\<forall>x bs. c \<noteq> Write x bs" "\<forall>x n. c \<noteq> Read x n"
  shows "srv_inv fd sk sl' (Ev (P c) r # l)"
  using assms by (cases c) (auto simp: srv_inv_def pending_def)

lemma srv_listener: "srv_fds fd sk sl l \<Longrightarrow> sk \<in> open_fds drm_fds l"
  using srv_tab.tracks_listener [of sl sk "open_fds drm_fds l - {fd}"] by (auto simp: srv_fds_def)

text \<open>With a full table the connection is closed again.\<close>

lemma srv_fds_drop:
  assumes "srv_fds fd sk sl l" "a \<notin> open_fds drm_fds l" "0 \<le> a" "rv r = a"
  shows "srv_fds fd sk sl (Ev (P (Close a)) w # Out os # Ev (P (Accept sk)) r # l)"
  using assms srv_listener [OF assms(1)] by (simp add: srv_fds_def)

lemma card_insert_Suc: "card (insert x A) \<le> Suc (card A)"
  by (cases "finite A") (simp_all add: card_insert_if)

lemma srv_accept_step:
  assumes K: "obeys K (fresh_fds drm_fds)" and inv: "srv_inv fd sk (slots s) l"
  shows "wp (srv_accept fd sk p s) (srv_next fd sk) K N l"
proof -
  have fds: "srv_fds fd sk (slots s) l" and len: "length (slots s) = 5"
    using inv by (simp_all add: srv_inv_def srv_fds_def)
  have new: "rv a \<notin> open_fds drm_fds l" if "K l (P (Accept sk)) = Some a" "0 \<le> rv a" for a
    using obeysD [OF K that(1)] that(2) by (simp add: fresh_fds_def)
  let ?i = "free_index (slots s)"
  have put: "srv_inv fd sk ((slots s)[?i := rv a]) (Ev (P (Accept sk)) a # l)"
    if "K l (P (Accept sk)) = Some a" "0 \<le> rv a" "?i \<noteq> 5" for a
    using free_index_spec [of "slots s"] len that new [OF that(1,2)]
    by (intro srv_inv_socket [OF inv] srv_fds_accept [OF fds]) auto
  have drop: "srv_inv fd sk (slots s) (Ev (P (Close (rv a))) w # Out os # Ev (P (Accept sk)) a # l)"
    if "K l (P (Accept sk)) = Some a" "0 \<le> rv a" for a w os
    using inv srv_fds_drop [OF fds new [OF that] that(2) refl] by (simp add: srv_inv_def pending_def)
  have bad: "srv_inv fd sk (slots s) (Ev (P (Accept sk)) a # l)" if "rv a < 0" for a
    using inv that srv_listener [OF fds] by (simp add: srv_inv_def srv_fds_def pending_def)
  have full: "srv_good (Out os # Ev (P (Accept sk)) a # l)"
    if "K l (P (Accept sk)) = Some a" "0 \<le> rv a" for a os
    using inv srv_listener [OF fds] srv_fds_card [OF fds] fds that(2)
      card_insert_Suc [of "rv a" "open_fds drm_fds l"]
    by (simp add: srv_good_def srv_inv_def srv_fds_def)
  show ?thesis
    unfolding srv_accept_def srv_place_def Let_def
    using srv_inv_good [OF inv] put drop bad full
    by (auto simp: wp_sys wp_if wp_say wp_ret wp_bind srv_next_def
        intro!: srv_again_step srv_clients_step split: option.split)
qed

lemma srv_iteration_step:
  assumes K: "obeys K (fresh_fds drm_fds)" and inv: "srv_inv fd sk (slots s) l"
  shows "wp (srv_iteration fd sk s) (srv_next fd sk) K N l"
proof -
  have polled: "srv_inv fd sk (slots s) (Ev (P (Poll fs n t)) p # l)" for fs n t p
    using inv by (simp add: srv_inv_def srv_fds_def pending_def)
  show ?thesis
    unfolding srv_iteration_def
    using srv_inv_good [OF inv] polled
    by (auto simp: wp_sys wp_if wp_say wp_ret srv_next_def
        intro!: srv_again_step srv_clients_step srv_accept_step [OF K] split: option.split)
qed

interpretation srv: service "srv_iteration fd sk" "fresh_fds drm_fds" "\<lambda>s. srv_inv fd sk (slots s)"
    "\<lambda>x l. srv_good l \<and> (case x of Val s \<Rightarrow> srv_inv fd sk (slots s) l | _ \<Rightarrow> True)" for fd sk
proof
  fix K N l and s :: drm_srv
  assume "obeys K (fresh_fds drm_fds)" "srv_inv fd sk (slots s) l"
  then show "wp (srv_iteration fd sk s) (seq (next_or (\<lambda>s. srv_inv fd sk (slots s))
      (\<lambda>x l. srv_good l \<and> (case x of Val s \<Rightarrow> srv_inv fd sk (slots s) l | _ \<Rightarrow> True)))
      (\<lambda>x l. srv_good l \<and> (case x of Val s \<Rightarrow> srv_inv fd sk (slots s) l | _ \<Rightarrow> True))) K N l"
    by (intro wp_mono [OF srv_iteration_step])
      (auto simp: srv_next_def seq_def next_or_def srv_inv_good split: res.splits sum.splits)
qed (simp add: srv_inv_good)

lemma drm_server_good:
  assumes K: "obeys K (fresh_fds drm_fds)"
  shows "wp (drm_server st0) (\<lambda>x. srv_good) K N []"
proof -
  have start: "srv_inv (rv f) (rv s) (replicate 5 (-1)) (Ev (P (Listen (rv s) 5)) r1
      # Ev (P (Bind (rv s) a)) r2 # Ev (P (Socket AF_UNIX SOCK_STREAM)) s
      # [Ev (SetMaster (rv f)) r3, Ev (P (Open d)) f, Ev (P (Sigaction g)) r4])"
    if "\<not> rv f < 0" "\<not> rv s < 0" "K [Ev (SetMaster (rv f)) r3, Ev (P (Open d)) f,
      Ev (P (Sigaction g)) r4] (P (Socket AF_UNIX SOCK_STREAM)) = Some s"
    for f s r1 r2 r3 r4 a d g
  proof -
    have "rv s \<noteq> rv f" using obeysD [OF K that(3)] that(1,2) by (simp add: fresh_fds_def)
    then show ?thesis
      using that by (auto simp: srv_inv_def srv_fds_def pending_def insert_Diff_if
          intro!: srv_tab.tracks_init)
  qed
  have close: "wp (sys (P (Close sk)) (\<lambda>_. sys (Unlink n) (\<lambda>_. sys (P (Close fd)) (\<lambda>_. exit v))))
      (\<lambda>x. srv_good) K N l" if inv: "srv_inv fd sk sl l" for fd sk sl l n v
  proof -
    have fds: "srv_fds fd sk sl l" using inv by (simp add: srv_inv_def)
    have "sk \<noteq> fd" using srv_tab.tracks_listener [of sl sk] fds by (fastforce simp: srv_fds_def)
    moreover have "card (open_fds drm_fds l - S) \<le> 8" for S
      using srv_fds_card [OF fds] card_mono [of "open_fds drm_fds l" "open_fds drm_fds l - S"]
      by simp
    ultimately show ?thesis
      using inv fds srv_listener [OF fds] srv_inv_good [OF inv]
      by (auto simp: wp_simps srv_good_def srv_inv_def srv_fds_def pending_def Diff_insert2 [symmetric]
          split: option.split)
  qed
  have run: "wp (bind (loop (srv_iteration fd sk) st) (\<lambda>st. sys (P (Close sk)) (\<lambda>_.
      sys (Unlink n) (\<lambda>_. sys (P (Close fd)) (\<lambda>_. exit (last_ret st mod 256))))))
      (\<lambda>x. srv_good) K N l" if "srv_inv fd sk (slots st) l" for fd sk st l n
    by (rule wp_bindI [where P = "\<lambda>s l. srv_inv fd sk (slots s) l"])
      (auto intro!: wp_mono [OF srv.serves [OF K that]] close simp: seq_def split: res.splits)
  have two: "card ({a} - {b}) \<le> 8" for a b :: int
    using card_mono [of "{a}" "{a} - {b}"] by auto
  show ?thesis
    unfolding drm_server_def Let_def
    by (intro wp_intro run)
      (simp_all add: srv_good_def pending_def card_insert_if two start)
qed

end
