(* ===== verification/Drm_Requests.thy ===== *)
theory Drm_Requests
  imports Drm_Server
begin

text \<open>
  What \<open>drm_server\<close> does as a whole, from the invariant of its loop, and what it does for each
  request: the refinement of the abstract requests of \<open>Drm_Proto\<close>, the restoring of a crtc, and the
  stop request that comes too early.
\<close>


section \<open>What the server does\<close>

text \<open>
  C12: the descriptors of a run of \<open>drm_server\<close>: every call uses an open descriptor, none is closed
  twice, and never more than eight are open (the device, the listening socket, five clients and
  one being turned away).
\<close>

theorem drm_server_descriptors:
  assumes "obeys K (fresh_fds drm_fds)"
  shows "wp (drm_server st0) (\<lambda>x l. disciplined drm_fds l \<and> card (open_fds drm_fds l) \<le> 8) K N []"
  by (rule wp_mono [OF drm_server_good [OF assms]]) (simp add: srv_good_def)

definition idle_srv :: drm_srv where
  "idle_srv = \<lparr>slots = [], drm_clients = replicate 5 zero_info, tx_buf = [], magic = 0, command = 0,
     last_ret = 0\<rparr>"

definition srv_script :: "resp list" where
  "srv_script = [ok 0, ok 3, ok 0, ok 4, ok 0, ok 0,
     with_nums 1 [0, 0, 0, 0, 0, 1], ok 5, ok 1,
     with_nums 1 [1], got [55, 58, 57], ok 1025, ok 0]"

definition srv_kernel :: "drm_call kernel" where
  "srv_kernel = guarded (fresh_fds drm_fds) (play srv_script)"

theorem drm_server_descriptors_witness:
  "wp (drm_server idle_srv) (\<lambda>x l. disciplined drm_fds l \<and> card (open_fds drm_fds l) \<le> 8)
     srv_kernel 2 [] \<and>
   wp (drm_server idle_srv) (\<lambda>x l. open_fds drm_fds l = {3, 4, 5} \<and> x = Wait) srv_kernel 1 []"
  by (rule conjI [OF drm_server_descriptors [OF obeys_guarded [of "fresh_fds drm_fds" "play srv_script",
    folded srv_kernel_def]]]) code_simp

text \<open>
  C13: the conversation of \<open>drm_server\<close> with its clients, in every run: each \<open>write\<close> answers the
  request read just before it, on the same socket, with the request's magic, and each request that
  is read gets exactly one answer before anything else happens on a socket.
\<close>

theorem drm_server_answers:
  assumes "obeys K (fresh_fds drm_fds)"
  shows "wp (drm_server st0) (\<lambda>x l. converses (socket_calls l)) K N []"
  by (rule wp_mono [OF drm_server_good [OF assms]]) (simp add: srv_good_def)

theorem drm_server_answers_witness:
  "wp (drm_server idle_srv) (\<lambda>x l. converses (socket_calls l)) srv_kernel 2 [] \<and>
   wp (drm_server idle_srv) (\<lambda>x l. fst (hd (socket_calls l)) = Write 5 (response 7 DRM_ERROR))
     srv_kernel 2 []"
  by (rule conjI [OF drm_server_answers [OF obeys_guarded [of "fresh_fds drm_fds" "play srv_script",
    folded srv_kernel_def]]]) code_simp

section \<open>Requests and their effect\<close>

text \<open>
  What a request asks for, without its wire form: the specification that \<open>srv_request\<close> refines.
  The client's record after the request's fields are in it:
\<close>

fun req_info :: "request \<Rightarrow> drm_client_info \<Rightarrow> drm_client_info" where
  "req_info (ReqCrtc cr co fb nm) ci =
     ci\<lparr>ci_crtc_id := cr, ci_conn_id := co, ci_fb := fb, ci_mode_name := nm\<rparr>"
| "req_info (ReqPlane cr pl fb w h x y) ci =
     ci\<lparr>ci_crtc_id := cr, ci_plane_id := pl, ci_fb := fb, ci_w := w, ci_h := h, ci_x := x, ci_y := y\<rparr>"
| "req_info q ci = ci"

fun req_perform :: "int \<Rightarrow> uint32 \<Rightarrow> int \<Rightarrow> request \<Rightarrow> drm_client_info \<Rightarrow> byte list \<Rightarrow>
    (drm_client_info \<times> int \<times> byte list, drm_call) io" where
  "req_perform fd m n ReqAuth ci tx = srv_auth fd m ci tx"
| "req_perform fd m n (ReqCrtc cr co fb nm) ci tx =
     say [S ''got req: '', D (sint m), S '':'', D (sint CMD_CRTC), S '':'', D (sint cr), S '':'',
       D (sint co), S '':'', D (sint fb), S '':'', B nm]
     (bind (drm_get_mode_by_name fd co nm) (\<lambda>tm. case tm of
        None \<Rightarrow> perror ''failed drm_get_mode_by_name'' (ret (req_info (ReqCrtc cr co fb nm) ci, -1, tx))
      | Some t \<Rightarrow> srv_set_crtc fd m t ((req_info (ReqCrtc cr co fb nm) ci)\<lparr>ci_mode := Some t\<rparr>) tx))"
| "req_perform fd m n (ReqPlane cr pl fb w h x y) ci tx =
     say [S ''got req: '', D (sint m), S '':'', D (sint CMD_PLANE), S '':'', D (sint cr), S '':'',
       D (sint pl), S '':'', D (sint fb), S '':'', D (sint w), S '':'', D (sint h), S '':'',
       D (sint x), S '':'', D (sint y)]
     (sys (SetPlane fd pl cr fb x y w h (push_bit 16 w) (push_bit 16 h)) (\<lambda>r.
      if rv r \<noteq> 0 then perror ''cannot set plane''
        (ret (req_info (ReqPlane cr pl fb w h x y) ci, -1, tx))
      else ret (req_info (ReqPlane cr pl fb w h x y) ci, rv r, ok_response m)))"
| "req_perform fd m n ReqCrtcStop ci tx = srv_crtc_stop fd m n ci tx"
| "req_perform fd m n ReqPlaneStop ci tx = srv_plane_stop fd m ci tx"

lemma scan_print_n:
  assumes "length vs = n" "0 < n" "rest = [] \<or> \<not> is_digit (hd rest)"
  shows "scan_fields n (print_fields vs @ rest) = (map sint vs, rest)"
  using scan_print_fields [of vs rest] assms by auto

lemma scan_crtc_fields:
  assumes "req_ok (ReqCrtc cr co fb nm)"
  shows "scan_fields 5 (req_text m (ReqCrtc cr co fb nm)) =
      (map sint [m, CMD_CRTC, cr, co, fb], [58] @ nm)"
    "scan_string ([58] @ nm) = Some nm"
proof -
  show "scan_fields 5 (req_text m (ReqCrtc cr co fb nm)) =
      (map sint [m, CMD_CRTC, cr, co, fb], [58] @ nm)"
    using scan_print_n [of "[m, CMD_CRTC, cr, co, fb]" 5 "[58] @ nm"]
    by (simp add: req_text_def del: print_fields.simps scan_fields.simps)
  have "dropWhile is_space nm = nm" "takeWhile (\<lambda>c. \<not> is_space c) nm = nm" "nm \<noteq> []"
    using assms by (cases nm; simp add: takeWhile_eq_all_conv)+
  note eqs = this
  show "scan_string ([58] @ nm) = Some nm"
    by (simp add: scan_string_def Let_def eqs)
qed

lemma scan_plane_fields:
  "fst (scan_fields 9 (req_text m (ReqPlane cr pl fb w h x y))) =
     map sint [m, CMD_PLANE, cr, pl, fb, w, h, x, y]"
  using scan_print_n [of "[m, CMD_PLANE, cr, pl, fb, w, h, x, y]" 9 "[]"]
  by (simp add: req_text_def del: print_fields.simps scan_fields.simps)

lemma crtc_request:
  assumes "req_ok (ReqCrtc cr co fb nm)" "cstr rx = req_text m (ReqCrtc cr co fb nm)"
  shows "crtc_fields rx ci = req_info (ReqCrtc cr co fb nm) ci" "name_fits rx"
  using scan_crtc_fields [OF assms(1)] assms
  by (simp_all add: crtc_fields_def name_fits_def scanned_def Let_def)

lemma plane_request:
  assumes "cstr rx = req_text m (ReqPlane cr pl fb w h x y)"
  shows "plane_fields rx ci = req_info (ReqPlane cr pl fb w h x y) ci"
  using scan_plane_fields assms by (simp add: plane_fields_def scanned_def Let_def)

lemma srv_command_performs:
  assumes q: "req_ok q" and rx: "cstr rx = req_text m q"
  shows "srv_command fd m (req_code q) n rx ci tx = req_perform fd m n q ci tx"
proof (cases q)
  case (ReqCrtc cr co fb nm)
  then show ?thesis
    using crtc_request [of cr co fb nm rx m] scan_crtc_fields(1) [of cr co fb nm m] q rx
    by (simp add: srv_command_def srv_crtc_def Let_def shown_def cmd_defs)
next
  case (ReqPlane cr pl fb w h x y)
  then show ?thesis
    using plane_request [of rx m cr pl fb w h x y ci] scan_plane_fields [of m cr pl fb w h x y] rx
    by (simp add: srv_command_def srv_plane_def Let_def shown_def cmd_defs cong: if_cong)
qed (simp_all add: srv_command_def cmd_defs)

text \<open>
  C14: the server refines the abstract protocol. When the bytes read are a request in its wire form,
  with a mode name of at most 19 bytes if it has one, handling them is: carry out what the abstract
  request asks for, with the request's own fields whatever the variables of earlier requests hold,
  and answer with the request's magic.
\<close>

theorem drm_request_refines:
  assumes "req_ok q" and "bytes r = req_wire m q"
  shows "srv_request fd i r st =
    say [S ''accepted request ['', B (req_text m q), S ''] -> ('', D (sint m), S '', '',
        D (sint (req_code q)), S '')'']
      (bind (req_perform fd m (rv r) q (drm_clients st ! i) (tx_buf st)) (srv_reply i m (req_code q) st))"
proof -
  have rx: "fill (zeros DRM_BUF) (bytes r) = req_wire m q"
    using req_wire_props(3) [OF assms(1), of m] assms(2) by (simp add: fill_def zeros_def)
  show ?thesis
    using srv_command_performs [OF assms(1) req_wire_props(1) [OF assms(1)], of fd m]
      scan_req [OF assms(1), of m]
    by (simp add: srv_request_def Let_def rx req_wire_props [OF assms(1)] scanned_def)
qed

theorem drm_request_refines_witness:
  "srv_request 3 0 (got (req_wire 7 (ReqPlane 1 2 3 640 480 0 0))) idle_srv =
    say [S ''accepted request ['', B (req_text 7 (ReqPlane 1 2 3 640 480 0 0)), S ''] -> ('',
        D (sint (7 :: uint32)), S '', '', D (sint (req_code (ReqPlane 1 2 3 640 480 0 0))), S '')'']
      (bind (req_perform 3 7 (rv (got (req_wire 7 (ReqPlane 1 2 3 640 480 0 0))))
          (ReqPlane 1 2 3 640 480 0 0) (drm_clients idle_srv ! 0) (tx_buf idle_srv))
        (srv_reply 0 7 (req_code (ReqPlane 1 2 3 640 480 0 0)) idle_srv))"
  by (rule drm_request_refines) simp_all

text \<open>The crtc calls of a history, the oldest first.\<close>

definition crtc_calls :: "drm_call history \<Rightarrow> (drm_call \<times> resp) list" where
  "crtc_calls l = concat (map (\<lambda>e. case e of
     Ev c r \<Rightarrow> (case c of GetCrtc fd i \<Rightarrow> [(c, r)] | SetCrtc fd i f x y co m \<Rightarrow> [(c, r)] | _ \<Rightarrow> [])
   | Out os \<Rightarrow> []) (rev l))"

lemma crtc_calls_simps [simp]:
  "crtc_calls [] = []" "crtc_calls (Out os # l) = crtc_calls l"
  "crtc_calls (Ev (GetCrtc fd i) r # l) = crtc_calls l @ [(GetCrtc fd i, r)]"
  "crtc_calls (Ev (SetCrtc fd i f x y co m) r # l) = crtc_calls l @ [(SetCrtc fd i f x y co m, r)]"
  "look_call d c \<Longrightarrow> crtc_calls (Ev c r # l) = crtc_calls l"
  by (simp_all add: crtc_calls_def) (cases c; simp)

text \<open>
  The calls of a crtc request that succeeds, \<open>ci\<close> being the record with the fields of the
  request, \<open>s\<close> the crtc as it was; and the call that puts the crtc back.
\<close>

definition set_calls :: "int \<Rightarrow> drm_client_info \<Rightarrow> resp \<Rightarrow> resp \<Rightarrow> resp \<Rightarrow>
    (drm_call \<times> resp) list" where
  "set_calls fd ci s c k =
     [(GetCrtc fd (ci_crtc_id ci), s),
      (SetCrtc fd (ci_crtc_id ci) (ci_fb ci) 0 0 (ci_conn_id ci) (ci_mode_name ci), c),
      (GetCrtc fd (ci_crtc_id ci), k)]"

definition put_back :: "int \<Rightarrow> drm_client_info \<Rightarrow> resp \<Rightarrow> drm_call" where
  "put_back fd ci s =
     SetCrtc fd (unum s 0) (unum s 1) (unum s 2) (unum s 3) (ci_conn_id ci) (crtc_mode_name s)"

fun crtc_set :: "int \<Rightarrow> uint32 \<Rightarrow> drm_client_info \<Rightarrow> (drm_client_info \<times> int \<times> byte list) res \<Rightarrow>
    drm_call history \<Rightarrow> bool" where
  "crtc_set fd m ci (Val (ci', rt, tx)) l \<longleftrightarrow> rt = -1 \<or>
     (rt = 0 \<and> (\<exists>s c k. saved_crtc ci' = CrtcAt s \<and> ci_conn_id ci' = ci_conn_id ci \<and>
        rv s \<noteq> 0 \<and> rv c = 0 \<and> rv k \<noteq> 0 \<and> tx = ok_response m \<and>
        crtc_calls l = set_calls fd ci s c k))"
| "crtc_set fd m ci x l \<longleftrightarrow> True"

lemma mode_index_named: "mode_index ms nm = Some i \<Longrightarrow> ms ! i = nm"
  by (induction ms arbitrary: i) (auto split: if_split_asm)

text \<open>The mode that \<open>drm_get_mode_by_name\<close> finds has the name that was asked for.\<close>

definition mode_named :: "byte list \<Rightarrow> mode_info option res \<Rightarrow> drm_call history \<Rightarrow> bool" where
  "mode_named nm x l \<longleftrightarrow> (\<forall>t. x = Val (Some t) \<longrightarrow> mode_name t = nm)"

lemma mode_named_simps [simp]:
  "mode_named nm Wait l" "mode_named nm (Val None) l"
  "mode_named nm (Val (Some t)) l \<longleftrightarrow> mode_name t = nm"
  by (simp_all add: mode_named_def)

lemma drm_get_mode_by_name_named: "wp (drm_get_mode_by_name fd i nm) (mode_named nm) K N l"
proof -
  have find: "wp (bind (foreach ids (conn_loop fd p) ()) f) (mode_named nm) K N l"
    if "\<And>x l. wp (f x) (mode_named nm) K N l" for ids p l
    and f :: "unit + resp \<Rightarrow> (mode_info option, drm_call) io"
    by (rule wp_bind_steady [OF conn_loop_looks [where J = "\<lambda>l. True"]])
      (simp_all add: that closed_under_def)
  show ?thesis
    unfolding drm_get_mode_by_name_def
    by (auto simp: wp_sys wp_if wp_say wp_ret mode_at_def mode_index_named
        intro!: find split: option.split sum.split)
qed

lemma srv_crtc_sets: "wp (srv_crtc fd m rx ci tx) (crtc_set fd m (crtc_fields rx ci)) K N []"
proof -
  let ?ci = "crtc_fields rx ci"
  have set: "wp (srv_set_crtc fd m t (?ci\<lparr>ci_mode := Some t\<rparr>) tx) (crtc_set fd m ?ci) K N l"
    if "crtc_calls l = []" "mode_name t = ci_mode_name ?ci" for t l
    using that by (simp add: srv_set_crtc_def dump_crtc_configuration_def Let_def wp_simps
        set_calls_def split: option.split)
  have closed: "closed_under (look_call fd) (\<lambda>l. crtc_calls l = [])"
    by (simp add: closed_under_def)
  have mode: "wp (drm_get_mode_by_name fd i nm) (\<lambda>x l. mode_named nm x l \<and> crtc_calls l = []) K N l"
    if "crtc_calls l = []" for i nm l
    by (simp only: wp_conj drm_get_mode_by_name_named drm_get_mode_by_name_keeps [OF closed that]
        simp_thms)
  show ?thesis
    unfolding srv_crtc_def Let_def wp_if wp_say wp_fault
    by (auto intro!: wp_bindI [where P = "\<lambda>x l. mode_named (ci_mode_name ?ci) (Val x) l \<and> crtc_calls l = []"]
        set wp_mono [OF mode]
        simp: wp_say wp_ret seq_def split: option.split res.split)
qed

text \<open>
  C15: a crtc request and its stop. When a crtc request has ended well (\<open>ret\<close> is 0), the answer is
  \<open>DRM_OK\<close> and the crtc calls of the server have been exactly these: read the crtc of the request,
  set it to the buffer and the connector of the request and to the mode of the requested name,
  read it again, all with success; and what was read first is kept in the client's record. A
  later stop request with this record makes, when the crtc had a mode before, exactly one call,
  which sets the crtc back to the buffer, position and mode it had, on the connector of the
  request, and the answer is \<open>DRM_OK\<close> if that call succeeds, -1 and no answer if it does not; when
  the crtc had no mode, it makes no call, and the answer is \<open>DRM_OK\<close>.
\<close>

theorem drm_crtc_restored:
  assumes "srv_crtc fd m rx ci tx K N [] = (Val (ci', 0, tx''), l)"
  shows "\<exists>s c k. rv s \<noteq> 0 \<and> rv c = 0 \<and> rv k \<noteq> 0 \<and> tx'' = ok_response m \<and>
    crtc_calls l = set_calls fd (crtc_fields rx ci) s c k \<and>
    srv_crtc_stop fd m' n ci' tx' K' N' l' =
      (if crtc_valid s then
         (let call = put_back fd (crtc_fields rx ci) s in
          case K' l' call of
            None \<Rightarrow> (Wait, l')
          | Some q \<Rightarrow>
              if rv q = 0 then (Val (ci', 0, ok_response m'), Ev call q # l')
              else (Val (ci', -1, tx'),
                Out [S ''failed drmModeSetCrtc(restore original)''] # Ev call q # l'))
       else (Val (ci', n, ok_response m'), l'))"
proof -
  obtain s c k where "saved_crtc ci' = CrtcAt s" "ci_conn_id ci' = ci_conn_id (crtc_fields rx ci)"
    "rv s \<noteq> 0" "rv c = 0" "rv k \<noteq> 0" "tx'' = ok_response m"
    "crtc_calls l = set_calls fd (crtc_fields rx ci) s c k"
    using wpD [OF srv_crtc_sets assms] by auto
  then show ?thesis
    by (intro exI [of _ s] exI [of _ c] exI [of _ k])
      (simp add: srv_crtc_stop_def put_back_def Let_def io_simps split: option.split)
qed

text \<open>
  A request for crtc 20 on connector 31 with buffer 7 and the mode \<open>A\<close>, the second of the
  connector's modes; the crtc showed buffer 9 at (2, 3) with the mode \<open>B\<close>.
\<close>

definition crtc_request :: "byte list" where
  "crtc_request = req_text 5 (ReqCrtc 20 31 7 [65])"

definition old_crtc :: resp where
  "old_crtc = (with_nums 103 [20, 9, 2, 3, 640, 480, 1])\<lparr>texts := [[66]]\<rparr>"

definition crtc_script :: "resp list" where
  "crtc_script = [(ok 101)\<lparr>tables := [[31], [], []]\<rparr>,
     (with_nums 102 [31, 1, 1])\<lparr>texts := [[66], [65]]\<rparr>,
     ok 0, old_crtc, ok 0, with_nums 104 [20, 7, 0, 0, 640, 480, 1]]"

definition crtc_run :: "(drm_client_info \<times> int \<times> byte list) res \<times> drm_call history" where
  "crtc_run = srv_crtc 3 5 crtc_request zero_info [] (play crtc_script) 9 []"

definition crtc_record :: "drm_client_info" where
  "crtc_record = (case fst crtc_run of Val x \<Rightarrow> fst x | _ \<Rightarrow> zero_info)"

theorem drm_crtc_restored_witness:
  "\<exists>s c k. rv s \<noteq> 0 \<and> rv c = 0 \<and> rv k \<noteq> 0 \<and>
    crtc_calls (snd crtc_run) = set_calls 3 (crtc_fields crtc_request zero_info) s c k \<and>
    srv_crtc_stop 3 5 12 crtc_record [] (\<lambda>l c. Some (ok 0)) 9 [] =
      (if crtc_valid s then
         (let call = put_back 3 (crtc_fields crtc_request zero_info) s in
          case Some (ok 0) of
            None \<Rightarrow> (Wait, [])
          | Some q \<Rightarrow>
              if rv q = 0 then (Val (crtc_record, 0, ok_response 5), [Ev call q])
              else (Val (crtc_record, -1, []),
                [Out [S ''failed drmModeSetCrtc(restore original)''], Ev call q]))
       else (Val (crtc_record, 12, ok_response 5), []))"
proof -
  have "crtc_run = (Val (crtc_record, 0, ok_response 5), snd crtc_run)"
    by code_simp
  from drm_crtc_restored [OF this [unfolded crtc_run_def], of 5 12 "[]" "\<lambda>l c. Some (ok 0)" 9 "[]"]
  show ?thesis by (simp only: crtc_run_def simp_thms)
qed

text \<open>What this stop does: buffer 9 at (2, 3) with the mode \<open>B\<close> again.\<close>

lemma crtc_run_restores:
  "srv_crtc_stop 3 5 12 crtc_record [] (\<lambda>l c. Some (ok 0)) 9 [] =
     (Val (crtc_record, 0, ok_response 5), [Ev (SetCrtc 3 20 9 2 3 31 [66]) (ok 0)])"
  by code_simp

text \<open>
  Stopping what was never started. A client that has authenticated, and whose next request is a
  crtc stop, makes the server read through a null pointer.
\<close>

theorem drm_stop_before_crtc:
  assumes "K l (AuthMagic fd m) = Some a" and "rv a = 0"
  shows "wp (bind (srv_command fd m CMD_AUTH k rx ci tx)
      (\<lambda>x. srv_command fd m CMD_CRTC_STOP k' rx' (fst x) (snd (snd x))))
    (\<lambda>x l. x = Fault ''CMD_CRTC_STOP: saved_crtc is NULL'') K N l"
  using assms
  by (simp add: srv_command_def cmd_defs srv_auth_def zero_info_def srv_crtc_stop_def wp_simps)

theorem drm_stop_before_crtc_witness:
  "wp (bind (srv_command 3 7 CMD_AUTH 10 [] zero_info [])
      (\<lambda>x. srv_command 3 7 CMD_CRTC_STOP 10 [] (fst x) (snd (snd x))))
    (\<lambda>x l. x = Fault ''CMD_CRTC_STOP: saved_crtc is NULL'') (play [ok 0]) 1 []"
  by (rule drm_stop_before_crtc [of _ _ _ _ "ok 0"]) (simp_all add: play_def)

end
