(* ===== verification/Bitmap.thy ===== *)
theory Bitmap
  imports Drm_Sys
begin

text \<open>
  \<open>drm-tests/bitmap_utils.c\<close>: the test images that the display programs draw into mapped buffers.
  The mapping is a list of pixels; a store outside it, and an overflow of a signed \<open>int\<close>, is
  \<open>None\<close>. Each drawing function has a theorem that says what it draws, and that it stays inside
  \<open>w * h\<close> pixels.
\<close>

unbundle bit_operations_syntax

section \<open>Stores, loops and checked integers\<close>

definition poke :: "uint32 list \<Rightarrow> nat \<Rightarrow> uint32 \<Rightarrow> uint32 list option" where
  "poke m k v = (if k < length m then Some (m[k := v]) else None)"

primrec for_opt :: "(nat \<Rightarrow> 's \<Rightarrow> 's option) \<Rightarrow> nat list \<Rightarrow> 's \<Rightarrow> 's option" where
  "for_opt f [] s = Some s"
| "for_opt f (x # xs) s = Option.bind (f x s) (for_opt f xs)"

text \<open>The result of an operation on \<open>int\<close>, when it can be represented.\<close>

definition cint :: "int \<Rightarrow> int option" where
  "cint i = (if - (2 ^ 31) \<le> i \<and> i < 2 ^ 31 then Some i else None)"

section \<open>The images\<close>

text \<open>\<open>memset\<close> over \<open>width * height * 4\<close> bytes, as the product comes out in 32 bits.\<close>

definition clear_image :: "uint32 list \<Rightarrow> uint32 \<Rightarrow> uint32 \<Rightarrow> uint32 list option" where
  "clear_image dst width height =
     (let n = unat (width * height * 4) div 4 in
      if n \<le> length dst then Some (replicate n 0 @ drop n dst) else None)"

definition color32 :: "uint32 list" where
  "color32 = [0x000000FF, 0x0000FF00, 0x00FF0000, 0x00FF00FF, 0x00FFFF00, 0x0000FFFF]"

definition draw_test_row :: "uint32 \<Rightarrow> uint32 \<Rightarrow> nat \<Rightarrow> uint32 list \<Rightarrow> uint32 list option" where
  "draw_test_row w h i dst =
     Option.bind (cint (6 * int i)) (\<lambda>s.
     let k = unat ((word_of_int s :: uint32) div h) in
     if k < 6 then
       for_opt (\<lambda>j m. Option.bind (cint (int j)) (\<lambda>_.
         poke m (unat (word_of_nat i * w) + j) (color32 ! k))) [0..<unat w] dst
     else None)"

definition draw_test_image :: "uint32 list \<Rightarrow> uint32 \<Rightarrow> uint32 \<Rightarrow> uint32 list option" where
  "draw_test_image dst w h = for_opt (draw_test_row w h) [0..<unat h] dst"

text \<open>One pixel of the other image; \<open>t\<close> is the time, \<open>ro\<close> and \<open>ri\<close> the squared radii.\<close>

definition fancy_pixel :: "uint32 \<Rightarrow> uint32 \<Rightarrow> int \<Rightarrow> int \<Rightarrow> int \<Rightarrow> int \<Rightarrow> int \<Rightarrow> uint32 option" where
  "fancy_pixel t height ro ri y x r2 =
     (let v = (if r2 < ri then (word_of_int (r2 div 32) + t div 64) * 0x0080401
               else if r2 < ro then (word_of_int y + t div 32) * 0x0080401
               else (word_of_int x + t div 16) * 0x0080401) AND 0x00ffffff in
      Option.bind (cint (x + y)) (\<lambda>s.
      Option.bind (cint \<bar>sint (word_of_int s - height)\<bar>) (\<lambda>d.
      Some (if \<bar>x - y\<bar> > 6 \<and> d > 6 then v OR 0xff000000 else v))))"

definition fancy_row :: "uint32 \<Rightarrow> uint32 \<Rightarrow> uint32 \<Rightarrow> int \<Rightarrow> int \<Rightarrow> nat \<Rightarrow>
    uint32 list \<times> nat \<Rightarrow> (uint32 list \<times> nat) option" where
  "fancy_row t width height ro ri y =
     (\<lambda>st. let halfh = int (unat height div 2); halfw = int (unat width div 2) in
      Option.bind (cint ((int y - halfh) * (int y - halfh))) (\<lambda>y2.
      for_opt (\<lambda>x st.
        Option.bind (cint ((int x - halfw) * (int x - halfw))) (\<lambda>x2.
        Option.bind (cint (x2 + y2)) (\<lambda>r2.
        Option.bind (fancy_pixel t height ro ri (int y) (int x) r2) (\<lambda>v.
        map_option (\<lambda>m. (m, snd st + 1)) (poke (fst st) (snd st) v)))))
      [0..<unat width] st))"

definition draw_fancy_image :: "uint32 \<Rightarrow> uint32 list \<Rightarrow> uint32 \<Rightarrow> uint32 \<Rightarrow> uint32 list option" where
  "draw_fancy_image t pixels width height =
     (let halfh = int (unat height div 2); halfw = int (unat width div 2);
          r = (if halfw < halfh then halfw else halfh) - 8; q = r - 32 in
      Option.bind (cint (r * r)) (\<lambda>ro.
      Option.bind (cint (q * q)) (\<lambda>ri.
      map_option fst (for_opt (fancy_row t width height ro ri) [0..<unat height] (pixels, 0)))))"

section \<open>Filling an image row by row\<close>

lemma cint_Some: "- 2147483648 \<le> i \<Longrightarrow> i < 2147483648 \<Longrightarrow> cint i = Some i"
  by (simp add: cint_def)

lemma for_opt_append:
  "for_opt f (xs @ ys) s = Option.bind (for_opt f xs s) (for_opt f ys)"
  by (induction xs arbitrary: s) (simp_all, metis bind_assoc)

text \<open>A loop whose body succeeds with \<open>g\<close> computes the states \<open>s n\<close> one after the other.\<close>

lemma for_opt_states:
  assumes "\<And>i. i < n \<Longrightarrow> f i (s i) = Some (s (Suc i))"
  shows "for_opt f [0..<n] (s 0) = Some (s n)"
  using assms
proof (induction n)
  case (Suc n)
  then show ?case by (simp add: for_opt_append)
qed simp

lemma poke_snoc:
  assumes "length pre = k" "k < length m"
  shows "poke (pre @ drop k m) k v = Some ((pre @ [v]) @ drop (Suc k) m)"
  using assms by (simp add: poke_def list_update_append Cons_nth_drop_Suc [symmetric])

definition row_of :: "(nat \<Rightarrow> nat \<Rightarrow> uint32) \<Rightarrow> nat \<Rightarrow> nat \<Rightarrow> uint32 list" where
  "row_of f w i = map (f i) [0..<w]"

definition rows_of :: "(nat \<Rightarrow> nat \<Rightarrow> uint32) \<Rightarrow> nat \<Rightarrow> nat \<Rightarrow> uint32 list" where
  "rows_of f w n = concat (map (row_of f w) [0..<n])"

lemma length_rows_of [simp]: "length (rows_of f w n) = n * w"
  by (induction n) (simp_all add: rows_of_def row_of_def)

lemma rows_of_Suc: "rows_of f w (Suc n) = rows_of f w n @ row_of f w n"
  by (simp add: rows_of_def)

text \<open>The buffer after \<open>n\<close> rows and \<open>j\<close> further pixels.\<close>

definition drawn :: "(nat \<Rightarrow> nat \<Rightarrow> uint32) \<Rightarrow> nat \<Rightarrow> uint32 list \<Rightarrow> nat \<Rightarrow> nat \<Rightarrow> uint32 list" where
  "drawn f w m n j = (rows_of f w n @ row_of f j n) @ drop (n * w + j) m"

lemma drawn_poke:
  assumes "n < h" "j < w" "h * w \<le> length m"
  shows "poke (drawn f w m n j) (n * w + j) (f n j) = Some (drawn f w m n (Suc j))"
proof -
  have "n * w + j < Suc n * w" using assms(2) by simp
  also have "\<dots> \<le> h * w" using assms(1) by (intro mult_le_mono1) simp
  finally have "n * w + j < length m" using assms(3) by simp
  then show ?thesis
    using poke_snoc [of "rows_of f w n @ row_of f j n" "n * w + j" m "f n j"]
    by (simp add: drawn_def row_of_def)
qed

lemma drawn_next: "drawn f w m n w = drawn f w m (Suc n) 0"
  by (simp add: drawn_def rows_of_Suc row_of_def add.commute)

lemma drawn_start: "drawn f w m 0 0 = m"
  by (simp add: drawn_def rows_of_def row_of_def)

lemma drawn_end: "drawn f w m n 0 = rows_of f w n @ drop (n * w) m"
  by (simp add: drawn_def row_of_def)

section \<open>The test image\<close>

lemma unat_row:
  fixes w h :: uint32
  assumes "i < unat h" "unat w * unat h \<le> 2 ^ 32"
  shows "unat (word_of_nat i * w :: uint32) = i * unat w"
proof (cases "unat w = 0")
  case True
  then have "w = 0" using unsigned_eq_0_iff by blast
  then show ?thesis by simp
next
  case False
  have "unat h < 2 ^ 32" by (rule order_less_le_trans [OF unsigned_less]) simp
  then have i: "i < 2 ^ 32" using assms(1) by simp
  have "i * unat w < unat h * unat w" using assms(1) False by simp
  also have "\<dots> = unat w * unat h" by (rule mult.commute)
  also note assms(2)
  finally have "i * unat w < 2 ^ 32" .
  then show ?thesis using i by (simp add: unat_word_ariths unat_of_nat)
qed

lemma unat_color:
  fixes h :: uint32
  assumes "6 * unat h \<le> 2 ^ 31" "i < unat h"
  shows "unat ((word_of_int (6 * int i) :: uint32) div h) = 6 * i div unat h"
    "6 * i div unat h < 6"
proof -
  have "6 * i < 2 ^ 32" using assms by simp
  then have "unat (word_of_nat (6 * i) :: uint32) = 6 * i"
    by (simp add: unat_of_nat del: of_nat_mult)
  then have "unat (word_of_int (6 * int i) :: uint32) = 6 * i" by simp
  then show "unat ((word_of_int (6 * int i) :: uint32) div h) = 6 * i div unat h"
    by (simp add: unat_div_distrib)
  show "6 * i div unat h < 6"
    using assms(2) by (simp add: div_less_iff_less_mult)
qed

definition test_pixel :: "nat \<Rightarrow> nat \<Rightarrow> nat \<Rightarrow> uint32" where
  "test_pixel h i = (\<lambda>j. color32 ! (6 * i div h))"

lemma test_row:
  assumes size: "unat w * unat h \<le> length dst" "unat w * unat h \<le> 2 ^ 32"
    and range: "unat w < 2 ^ 31" "6 * unat h \<le> 2 ^ 31" and i: "i < unat h"
  shows "draw_test_row w h i (drawn (test_pixel (unat h)) (unat w) dst i 0) =
    Some (drawn (test_pixel (unat h)) (unat w) dst (Suc i) 0)"
proof -
  let ?d = "drawn (test_pixel (unat h)) (unat w) dst i"
  have "for_opt (\<lambda>j m. Option.bind (cint (int j)) (\<lambda>_. poke m (i * unat w + j)
      (color32 ! (6 * i div unat h)))) [0..<unat w] (?d 0) = Some (?d (unat w))"
  proof (rule for_opt_states)
    fix j assume "j < unat w"
    then show "Option.bind (cint (int j)) (\<lambda>_. poke (?d j) (i * unat w + j)
        (color32 ! (6 * i div unat h))) = Some (?d (Suc j))"
      using drawn_poke [of i "unat h" j "unat w" dst "test_pixel (unat h)"] i size(1) range(1)
      by (simp add: cint_def test_pixel_def mult.commute)
  qed
  moreover have "cint (6 * int i) = Some (6 * int i)"
    using i range(2) by (simp add: cint_def)
  ultimately show ?thesis
    using unat_color [OF range(2) i] unat_row [OF i size(2)]
    by (simp add: draw_test_row_def Let_def drawn_next del: of_int_mult)
qed

text \<open>
  C16: \<open>draw_test_image\<close> fills exactly the first \<open>w * h\<close> pixels of the mapping with six
  horizontal bands of equal height and leaves the rest alone, for every size that fits into the
  mapping. It never reads its colour table out of bounds and never overflows; \<open>6 * h\<close> must fit into
  an \<open>int\<close>.
\<close>

theorem draw_test_image_fills:
  assumes "unat w * unat h \<le> length dst" and "unat w * unat h \<le> 2 ^ 32"
    and "unat w < 2 ^ 31" and "6 * unat h \<le> 2 ^ 31"
  shows "draw_test_image dst w h = Some
    (concat (map (\<lambda>i. replicate (unat w) (color32 ! (6 * i div unat h))) [0..<unat h])
      @ drop (unat w * unat h) dst)"
proof -
  have row: "row_of (test_pixel (unat h)) (unat w) = (\<lambda>i. replicate (unat w) (color32 ! (6 * i div unat h)))"
    by (rule ext) (simp add: row_of_def test_pixel_def map_replicate_const)
  have "for_opt (draw_test_row w h) [0..<unat h] (drawn (test_pixel (unat h)) (unat w) dst 0 0) =
      Some (drawn (test_pixel (unat h)) (unat w) dst (unat h) 0)"
    by (rule for_opt_states [where s = "\<lambda>n. drawn (test_pixel (unat h)) (unat w) dst n 0"])
      (rule test_row [OF assms])
  then show ?thesis
    by (simp add: draw_test_image_def drawn_start drawn_end rows_of_def row mult.commute)
qed

theorem draw_test_image_fills_witness:
  "draw_test_image (replicate 8 7) 3 2 = Some
    (concat (map (\<lambda>i. replicate (unat (3 :: uint32)) (color32 ! (6 * i div unat (2 :: uint32))))
        [0..<unat (2 :: uint32)])
      @ drop (unat (3 :: uint32) * unat (2 :: uint32)) (replicate 8 7))"
  by (rule draw_test_image_fills) simp_all

section \<open>The fancy image\<close>

text \<open>The image over the integers: two rings around the middle on a ground, and a cross.\<close>

definition fancy_spec :: "uint32 \<Rightarrow> int \<Rightarrow> int \<Rightarrow> int \<Rightarrow> int \<Rightarrow> uint32" where
  "fancy_spec t w h y x =
     (let r = min (w div 2) (h div 2) - 8; r2 = (x - w div 2)\<^sup>2 + (y - h div 2)\<^sup>2;
          v = (if r2 < (r - 32)\<^sup>2 then (word_of_int (r2 div 32) + t div 64) * 0x0080401
               else if r2 < r\<^sup>2 then (word_of_int y + t div 32) * 0x0080401
               else (word_of_int x + t div 16) * 0x0080401) AND 0x00ffffff in
      if \<bar>x - y\<bar> > 6 \<and> \<bar>x + y - h\<bar> > 6 then v OR 0xff000000 else v)"

definition fancy_point :: "uint32 \<Rightarrow> uint32 \<Rightarrow> uint32 \<Rightarrow> nat \<Rightarrow> nat \<Rightarrow> uint32" where
  "fancy_point t w h y x = fancy_spec t (int (unat w)) (int (unat h)) (int y) (int x)"

lemma cint_square:
  assumes "\<bar>a\<bar> \<le> 32767"
  shows "cint (a * a) = Some (a\<^sup>2)" "a\<^sup>2 \<le> 1073676289"
proof -
  have "a\<^sup>2 \<le> 32767\<^sup>2"
    using power_mono [OF assms, of 2] by simp
  then show "a\<^sup>2 \<le> 1073676289" by simp
  moreover have "0 \<le> a\<^sup>2" by simp
  ultimately show "cint (a * a) = Some (a\<^sup>2)"
    unfolding power2_eq_square [symmetric] by (intro cint_Some) linarith+
qed

lemma half_range:
  fixes i n :: nat
  assumes "n \<le> 65535" "i < n"
  shows "\<bar>int i - int (n div 2)\<bar> \<le> 32767"
  using assms by linarith

lemma sint_diff:
  assumes "- 2147483648 \<le> s - uint h" "s - uint h < 2147483648"
  shows "sint (word_of_int s - h :: uint32) = s - uint h"
proof -
  have eq: "word_of_int s - h = word_of_int (s - uint h)" by simp
  show ?thesis
    unfolding eq sint_sbintrunc' using assms by (simp add: signed_take_bit_int_eq_self)
qed

lemma fancy_pixel_ok:
  assumes "unat h \<le> 65535" "x < 65535" "y < 65535"
  shows "fancy_pixel t h ro ri (int y) (int x) r2 = Some
    (let v = (if r2 < ri then (word_of_int (r2 div 32) + t div 64) * 0x0080401
              else if r2 < ro then (word_of_int (int y) + t div 32) * 0x0080401
              else (word_of_int (int x) + t div 16) * 0x0080401) AND 0x00ffffff in
     if \<bar>int x - int y\<bar> > 6 \<and> \<bar>int x + int y - int (unat h)\<bar> > 6 then v OR 0xff000000 else v)"
proof -
  have h: "uint h = int (unat h)" by simp
  have range: "- 2147483648 \<le> int x + int y - uint h" "int x + int y - uint h < 2147483648"
    unfolding h using assms by linarith+
  have "sint (word_of_int (int x + int y) - h) = int x + int y - int (unat h)"
    unfolding h [symmetric] by (rule sint_diff [OF range])
  moreover have "cint (int x + int y) = Some (int x + int y)"
    using assms by (simp add: cint_def)
  moreover have "cint \<bar>int x + int y - int (unat h)\<bar> = Some \<bar>int x + int y - int (unat h)\<bar>"
    using assms by (intro cint_Some) linarith+
  ultimately show ?thesis
    unfolding fancy_pixel_def Let_def by simp
qed


lemma fancy_row_draws:
  fixes w h t :: uint32
  assumes size: "unat w * unat h \<le> length dst" and range: "unat w \<le> 65535" "unat h \<le> 65535"
    and y: "y < unat h"
    and r: "r = min (int (unat w) div 2) (int (unat h) div 2) - 8"
  shows "fancy_row t w h (r\<^sup>2) ((r - 32)\<^sup>2) y (drawn (fancy_point t w h) (unat w) dst y 0, y * unat w) =
    Some (drawn (fancy_point t w h) (unat w) dst (Suc y) 0, Suc y * unat w)"
proof -
  let ?d = "drawn (fancy_point t w h) (unat w) dst y"
  define f where "f = (\<lambda>(x :: nat) (st :: uint32 list \<times> nat).
    Option.bind (cint ((int x - int (unat w div 2)) * (int x - int (unat w div 2)))) (\<lambda>x2.
    Option.bind (cint (x2 + (int y - int (unat h div 2))\<^sup>2)) (\<lambda>r2.
    Option.bind (fancy_pixel t h (r\<^sup>2) ((r - 32)\<^sup>2) (int y) (int x) r2) (\<lambda>v.
    map_option (\<lambda>m. (m, snd st + 1)) (poke (fst st) (snd st) v)))))"
  have "for_opt f [0..<unat w] ((\<lambda>j. (?d j, y * unat w + j)) 0) =
      Some ((\<lambda>j. (?d j, y * unat w + j)) (unat w))"
  proof (rule for_opt_states [where s = "\<lambda>j. (?d j, y * unat w + j)"])
    fix x assume x: "x < unat w"
    let ?x2 = "(int x - int (unat w div 2))\<^sup>2" and ?y2 = "(int y - int (unat h div 2))\<^sup>2"
    note sx = cint_square [OF half_range [OF range(1) x]]
      and sy = cint_square [OF half_range [OF range(2) y]]
    have "0 \<le> ?x2" "0 \<le> ?y2" by simp_all
    then have sum: "cint (?x2 + ?y2) = Some (?x2 + ?y2)"
      using sx(2) sy(2) by (intro cint_Some) linarith+
    have "fancy_pixel t h (r\<^sup>2) ((r - 32)\<^sup>2) (int y) (int x) (?x2 + ?y2) = Some (fancy_point t w h y x)"
      using fancy_pixel_ok [OF range(2), of x y t "r\<^sup>2" "(r - 32)\<^sup>2" "?x2 + ?y2"] x y range
      by (simp add: fancy_point_def fancy_spec_def r Let_def zdiv_int)
    then show "f x (?d x, y * unat w + x) = Some (?d (Suc x), y * unat w + Suc x)"
      using drawn_poke [of y "unat h" x "unat w" dst "fancy_point t w h"] y x size
      by (simp add: f_def sx(1) sum mult.commute)
  qed
  then show ?thesis
    using cint_square(1) [OF half_range [OF range(2) y]]
    by (simp add: fancy_row_def Let_def f_def drawn_next add.commute)
qed

text \<open>
  C17: \<open>draw_fancy_image\<close> fills exactly the first \<open>width * height\<close> pixels of the mapping, row by
  row, with the rings and the cross of \<open>fancy_spec\<close>, which is stated over the integers: for sizes up
  to 65535 no intermediate \<open>int\<close> overflows and no store leaves the mapping.
\<close>

theorem draw_fancy_image_fills:
  assumes "unat w * unat h \<le> length dst" and "unat w \<le> 65535" and "unat h \<le> 65535"
  shows "draw_fancy_image t dst w h = Some
    (concat (map (\<lambda>y. map (fancy_point t w h y) [0..<unat w]) [0..<unat h])
      @ drop (unat w * unat h) dst)"
proof -
  let ?d = "drawn (fancy_point t w h) (unat w) dst"
  let ?hw = "int (unat w div 2)" and ?hh = "int (unat h div 2)"
  define r where "r = (if ?hw < ?hh then ?hw else ?hh) - 8"
  have r: "r = min (int (unat w) div 2) (int (unat h) div 2) - 8"
    by (simp add: r_def zdiv_int min_def)
  have "\<bar>r\<bar> \<le> 32767" "\<bar>r - 32\<bar> \<le> 32767"
    unfolding r_def using assms(2,3) by auto
  note radii = cint_square(1) [OF this(1)] cint_square(1) [OF this(2)]
  have row: "row_of (fancy_point t w h) (unat w) = (\<lambda>y. map (fancy_point t w h y) [0..<unat w])"
    by (rule ext) (simp add: row_of_def)
  have "for_opt (fancy_row t w h (r\<^sup>2) ((r - 32)\<^sup>2)) [0..<unat h] ((\<lambda>n. (?d n 0, n * unat w)) 0) =
      Some ((\<lambda>n. (?d n 0, n * unat w)) (unat h))"
    by (rule for_opt_states [where s = "\<lambda>n. (?d n 0, n * unat w)"])
      (rule fancy_row_draws [OF assms _ r])
  then show ?thesis
    unfolding draw_fancy_image_def Let_def r_def [symmetric]
    by (simp add: radii drawn_start drawn_end rows_of_def row mult.commute)
qed

theorem draw_fancy_image_fills_witness:
  "draw_fancy_image 640 (replicate 9 7) 2 3 = Some
    (concat (map (\<lambda>y. map (fancy_point 640 2 3 y) [0..<unat (2 :: uint32)]) [0..<unat (3 :: uint32)])
      @ drop (unat (2 :: uint32) * unat (3 :: uint32)) (replicate 9 7))"
  by (rule draw_fancy_image_fills) simp_all

end
