(* ===== verification/Drm_Kms.thy ===== *)
theory Drm_Kms
  imports Drm_Requests Bitmap
begin

text \<open>
  What the display programs own: descriptors, libkms drivers, buffer objects and their mappings,
  frame buffers, dumb buffers and memory regions, and the objects of gbm and EGL. The structures
  that libdrm allocates for its answers (resource lists, connectors, encoders, crtcs, planes) and
  memory from \<open>malloc\<close> are not in this ledger; for the former \<open>Drm_Utils\<close> has one of its own
  (\<open>drm_objs\<close>), which is used where a program is careful about them. The ledger of a history; the
  steps that the programs share (the set-up of a buffer object, the chain of clean-up labels, the search for a
  plane), each with the lemma that says what it does to the ledger.
\<close>

section \<open>The ledger\<close>

datatype kms_res =
    RFd int | RDrv int | RBo int | RMap int | RFb uint32 | RDumb uint32 | RRegion int
  | RGbm int | RSurf int | RGbo int | RLock int | RCtx int | RWin int | RImg int

text \<open>The objects of gbm and EGL; \<open>RLock\<close> is a buffer of a gbm surface that has been locked and not yet released.\<close>

definition some_res :: "(int \<Rightarrow> kms_res) \<Rightarrow> int \<Rightarrow> kms_res set" where
  "some_res R p = (if p = 0 then {} else {R p})"

fun gl_gives :: "gl_call \<Rightarrow> resp \<Rightarrow> kms_res set" where
  "gl_gives (GbmCreateDevice fd) r = some_res RGbm (rv r)"
| "gl_gives (GbmSurfaceCreate g w h) r = some_res RSurf (rv r)"
| "gl_gives (GbmBoCreate g w h) r = some_res RGbo (rv r)"
| "gl_gives (LockFront s) r = some_res RLock (rv r)"
| "gl_gives (EglCreateContext d c at') r = some_res RCtx (rv r)"
| "gl_gives (EglCreateWindowSurface d s) r = some_res RWin (rv r)"
| "gl_gives (EglCreateImage d b) r = some_res RImg (rv r)"
| "gl_gives c r = {}"

fun gl_takes :: "gl_call \<Rightarrow> kms_res set" where
  "gl_takes (GbmDeviceDestroy g) = {RGbm g}"
| "gl_takes (GbmSurfaceDestroy s) = {RSurf s}"
| "gl_takes (GbmBoDestroy b) = {RGbo b}"
| "gl_takes (ReleaseBuffer s b) = {RLock b}"
| "gl_takes (EglDestroyContext d c) = {RCtx c}"
| "gl_takes (EglDestroySurface d s) = {RWin s}"
| "gl_takes (EglDestroyImage d i) = some_res RImg i"
| "gl_takes c = {}"

fun gl_needs :: "gl_call \<Rightarrow> kms_res set" where
  "gl_needs (GbmSurfaceCreate g w h) = {RGbm g}"
| "gl_needs (GbmBoCreate g w h) = {RGbm g}"
| "gl_needs (LockFront s) = {RSurf s}"
| "gl_needs (ReleaseBuffer s b) = {RSurf s}"
| "gl_needs (EglGetDisplay g) = {RGbm g}"
| "gl_needs (EglMakeCurrent d s c) = some_res RWin s \<union> some_res RCtx c"
| "gl_needs (EglCreateWindowSurface d s) = {RSurf s}"
| "gl_needs (EglSwapBuffers d s) = {RWin s}"
| "gl_needs (EglCreateImage d b) = {RGbo b}"
| "gl_needs c = {}"

fun gives :: "drm_call \<Rightarrow> resp \<Rightarrow> kms_res set" where
  "gives (P c) r = RFd ` set (posix_opens c r)"
| "gives (KmsCreate fd) r = (if rv r = 0 then {RDrv (num r 0)} else {})"
| "gives (BoCreate drv w h) r = (if rv r = 0 then {RBo (num r 0)} else {})"
| "gives (BoMap bo) r = (if rv r = 0 then {RMap bo} else {})"
| "gives (AddFB fd w h s d) r = (if rv r = 0 then {RFb (unum r 0)} else {})"
| "gives (CreateDumb fd w h) r = (if rv r = 0 then {RDumb (unum r 0)} else {})"
| "gives (MmapDev fd n off) r = (if rv r = -1 then {} else {RRegion (rv r)})"
| "gives (G c) r = gl_gives c r"
| "gives c r = {}"

fun takes :: "drm_call \<Rightarrow> kms_res set" where
  "takes (P c) = RFd ` set (posix_closes c)"
| "takes (KmsDestroy drv) = {RDrv drv}"
| "takes (BoDestroy bo) = {RBo bo}"
| "takes (BoUnmap bo) = {RMap bo}"
| "takes (RmFB fd f) = {RFb f}"
| "takes (DestroyDumb fd h) = {RDumb h}"
| "takes (Munmap p n) = {RRegion p}"
| "takes (G c) = gl_takes c"
| "takes c = {}"

text \<open>What must be owned: the descriptor of the call, what it frees, and what it works on.\<close>

definition needs :: "drm_call \<Rightarrow> kms_res set" where
  "needs c = RFd ` set (drm_fd_uses c) \<union> takes c \<union> (case c of
     BoCreate drv w h \<Rightarrow> {RDrv drv} | BoProp bo p \<Rightarrow> {RBo bo} | BoMap bo \<Rightarrow> {RBo bo}
   | BoUnmap bo \<Rightarrow> {RBo bo} | PutPixels bo px \<Rightarrow> {RMap bo}
   | PutBytes bo bs \<Rightarrow> {RMap bo} | PutMem p px \<Rightarrow> {RRegion p} | MapDumb fd h \<Rightarrow> {RDumb h} | G c \<Rightarrow> gl_needs c | _ \<Rightarrow> {})"

primrec held :: "drm_call history \<Rightarrow> kms_res set" where
  "held [] = {}"
| "held (e # l) = (case e of Ev c r \<Rightarrow> (held l - takes c) \<union> gives c r | Out os \<Rightarrow> held l)"

primrec proper :: "drm_call history \<Rightarrow> bool" where
  "proper [] = True"
| "proper (e # l) = (case e of Ev c r \<Rightarrow> needs c \<subseteq> held l \<and> proper l | Out os \<Rightarrow> proper l)"

definition own :: "kms_res set \<Rightarrow> drm_call history \<Rightarrow> bool" where
  "own H l \<longleftrightarrow> held l = H \<and> proper l"

text \<open>
  The documented behaviour: what a call gives out is not in use, and no mapping is at address 0.
\<close>

definition new_res :: "drm_call contract" where
  "new_res l c r \<longleftrightarrow> gives c r \<inter> held l = {} \<and> RRegion 0 \<notin> gives c r"

lemma own_Nil [simp]: "own H [] = (H = {})"
  by (auto simp: own_def)

lemma own_Out [simp]: "own H (Out os # l) = own H l"
  by (simp add: own_def)

lemma own_step:
  assumes K: "obeys K new_res" and "own H l" "needs c \<subseteq> H" "Q Wait l"
    and go: "\<And>r. gives c r \<inter> H = {} \<Longrightarrow> own ((H - takes c) \<union> gives c r) (Ev c r # l) \<Longrightarrow>
      RRegion 0 \<notin> gives c r \<Longrightarrow> wp (k r) Q K N (Ev c r # l)"
  shows "wp (sys c k) Q K N l"
proof (rule wp_sysI [OF K])
  show "Q Wait l" by (rule assms(4))
  fix r assume "new_res l c r"
  then show "wp (k r) Q K N (Ev c r # l)"
    using assms(2,3) by (intro go) (auto simp: new_res_def own_def)
qed

section \<open>The messages of a history\<close>

text \<open>The writes and reads, the newest first.\<close>

fun is_msg :: "drm_call \<Rightarrow> bool" where
  "is_msg (P (Write fd bs)) = True"
| "is_msg (P (Read fd n)) = True"
| "is_msg c = False"

primrec msgs :: "drm_call history \<Rightarrow> (drm_call \<times> resp) list" where
  "msgs [] = []"
| "msgs (e # l) = (case e of Ev c r \<Rightarrow> if is_msg c then (c, r) # msgs l else msgs l | Out os \<Rightarrow> msgs l)"

text \<open>A state of affairs: what is owned, and what has been said.\<close>

definition stands :: "kms_res set \<Rightarrow> (drm_call \<times> resp) list \<Rightarrow> drm_call history \<Rightarrow> bool" where
  "stands H ms l \<longleftrightarrow> own H l \<and> msgs l = ms"

lemma stands_Out [simp]: "stands H ms (Out os # l) = stands H ms l"
  by (simp add: stands_def)

lemma stands_step:
  assumes K: "obeys K new_res" and st: "stands H ms l" and "needs c \<subseteq> H" "\<not> is_msg c" "Q Wait l"
    and go: "\<And>r. gives c r \<inter> H = {} \<Longrightarrow> stands ((H - takes c) \<union> gives c r) ms (Ev c r # l) \<Longrightarrow>
      RRegion 0 \<notin> gives c r \<Longrightarrow> wp (k r) Q K N (Ev c r # l)"
  shows "wp (sys c k) Q K N l"
  by (rule own_step [OF K]) (use assms in \<open>auto simp: stands_def\<close>)


section \<open>The steps that the programs share\<close>

text \<open>The labels of the clean-up, each one going on to the next; \<open>out\<close> is the label after them.\<close>

definition drv_destroy :: "int \<Rightarrow> (int \<Rightarrow> ('a, drm_call) io) \<Rightarrow> ('a, drm_call) io" where
  "drv_destroy drv out =
     sys (KmsDestroy drv) (\<lambda>r.
     if rv r \<noteq> 0 then perror ''failed kms_destroy(new)'' (out (rv r)) else out (rv r))"

definition bo_destroy :: "int \<Rightarrow> (int \<Rightarrow> ('a, drm_call) io) \<Rightarrow> ('a, drm_call) io" where
  "bo_destroy bo out =
     sys (BoDestroy bo) (\<lambda>r.
     if rv r \<noteq> 0 then perror ''failed kms_bo_destroy(new)'' (out (rv r)) else out (rv r))"

definition bo_unmap :: "int \<Rightarrow> (int \<Rightarrow> ('a, drm_call) io) \<Rightarrow> ('a, drm_call) io" where
  "bo_unmap bo out =
     sys (BoUnmap bo) (\<lambda>r.
     if rv r \<noteq> 0 then perror ''failed kms_bo_unmap(new)'' (bo_destroy bo out)
     else bo_destroy bo out)"

text \<open>
  A buffer object, its properties, its mapping and its frame buffer; on an error the labels above.
\<close>

definition bo_setup :: "int \<Rightarrow> int \<Rightarrow> uint32 \<Rightarrow> uint32 \<Rightarrow> (int \<Rightarrow> ('a, drm_call) io) \<Rightarrow>
    (int \<Rightarrow> uint32 list \<Rightarrow> uint32 \<Rightarrow> ('a, drm_call) io) \<Rightarrow> ('a, drm_call) io" where
  "bo_setup fd drv w h out k =
     sys (BoCreate drv w h) (\<lambda>b.
     if rv b \<noteq> 0 then perror ''failed kms_bo_create()'' (out (rv b)) else
     sys (BoProp (num b 0) ''KMS_PITCH'') (\<lambda>p.
     if rv p \<noteq> 0 then perror ''failed kms_bo_get_prop(KMS_PITCH)'' (bo_destroy (num b 0) out) else
     sys (BoProp (num b 0) ''KMS_HANDLE'') (\<lambda>d.
     if rv d \<noteq> 0 then perror ''failed kms_bo_get_prop(KMS_HANDLE)'' (bo_destroy (num b 0) out) else
     sys (BoMap (num b 0)) (\<lambda>m.
     if rv m \<noteq> 0 then perror ''failed kms_bo_map()'' (bo_destroy (num b 0) out) else
     sys (AddFB fd w h (unum p 0) (unum d 0)) (\<lambda>f.
     if rv f \<noteq> 0 then perror ''failed drmModeAddFB()'' (bo_unmap (num b 0) out)
     else k (num b 0) (utable m 0) (unum f 0))))))"

text \<open>An image is drawn into a mapping; \<open>put\<close> stands for the stores into it.\<close>

definition show_pixels :: "(uint32 list \<Rightarrow> drm_call) \<Rightarrow> uint32 list option \<Rightarrow>
    (uint32 list \<Rightarrow> ('a, drm_call) io) \<Rightarrow> ('a, drm_call) io" where
  "show_pixels put px k = (case px of
     None \<Rightarrow> fault ''drawing outside of the mapping''
   | Some dst \<Rightarrow> sys (put dst) (\<lambda>_. k dst))"

definition draw_clear :: "(uint32 list \<Rightarrow> drm_call) \<Rightarrow> uint32 list \<Rightarrow> uint32 \<Rightarrow> uint32 \<Rightarrow>
    (uint32 list \<Rightarrow> ('a, drm_call) io) \<Rightarrow> ('a, drm_call) io" where
  "draw_clear put dst w h k = show_pixels put (clear_image dst w h) k"

definition draw_test :: "(uint32 list \<Rightarrow> drm_call) \<Rightarrow> uint32 list \<Rightarrow> uint32 \<Rightarrow> uint32 \<Rightarrow>
    (uint32 list \<Rightarrow> ('a, drm_call) io) \<Rightarrow> ('a, drm_call) io" where
  "draw_test put dst w h k = show_pixels put (draw_test_image dst w h) k"

definition draw_fancy :: "(uint32 list \<Rightarrow> drm_call) \<Rightarrow> uint32 list \<Rightarrow> uint32 \<Rightarrow> uint32 \<Rightarrow>
    (uint32 list \<Rightarrow> ('a, drm_call) io) \<Rightarrow> ('a, drm_call) io" where
  "draw_fancy put dst w h k =
     sys (P Time) (\<lambda>t. show_pixels put (draw_fancy_image (word_of_int (rv t)) dst w h) k)"

text \<open>
  The search for a plane: the planes that are not the right one are not freed
  (\<open>drmModeFreePlane (plane)\<close> frees the null pointer).
\<close>

definition plane_loop :: "int \<Rightarrow> uint32 \<Rightarrow> uint32 \<Rightarrow> unit \<Rightarrow> (unit + resp, drm_call) io" where
  "plane_loop fd plane_id i u =
     sys (GetPlane fd i) (\<lambda>p.
     if rv p = 0 then ret (Inl ())
     else if unum p 0 = plane_id then ret (Inr p)
     else sys (FreePlane 0) (\<lambda>_. ret (Inl ())))"

definition find_plane :: "int \<Rightarrow> uint32 \<Rightarrow> (int \<Rightarrow> ('a, drm_call) io) \<Rightarrow> ('a, drm_call) io \<Rightarrow>
    ('a, drm_call) io" where
  "find_plane fd plane_id out k =
     sys (GetPlaneResources fd) (\<lambda>res.
     if rv res = 0 \<or> utable res 0 = [] then
       say [S ''drmModeGetPlaneResources failed''] (out (-19))
     else
       bind (foreach (utable res 0) (plane_loop fd plane_id) ()) (\<lambda>x. case x of
         Inl u \<Rightarrow> say [S ''couldn't find specified plane''] (out (-19))
       | Inr p \<Rightarrow> k))"

section \<open>What the steps own\<close>

text \<open>
  Under the contract, from a state of affairs: each step leads to the state of affairs of its
  continuation, with what it has set up or freed, and says nothing.
\<close>

lemma drv_destroy_stands:
  assumes K: "obeys K new_res" and "stands H ms l" "RDrv drv \<in> H"
    and wait: "\<And>H l. stands H ms l \<Longrightarrow> Q Wait l"
    and out: "\<And>r l. stands (H - {RDrv drv}) ms l \<Longrightarrow> wp (out r) Q K N l"
  shows "wp (drv_destroy drv out) Q K N l"
  unfolding drv_destroy_def
  by (rule stands_step [OF K assms(2)])
    (use assms(3) in \<open>auto simp: needs_def wp_if wp_say intro: wait [OF assms(2)] out\<close>)

lemma bo_destroy_stands:
  assumes K: "obeys K new_res" and "stands H ms l" "RBo bo \<in> H"
    and wait: "\<And>H l. stands H ms l \<Longrightarrow> Q Wait l"
    and out: "\<And>r l. stands (H - {RBo bo}) ms l \<Longrightarrow> wp (out r) Q K N l"
  shows "wp (bo_destroy bo out) Q K N l"
  unfolding bo_destroy_def
  by (rule stands_step [OF K assms(2)])
    (use assms(3) in \<open>auto simp: needs_def wp_if wp_say intro: wait [OF assms(2)] out\<close>)

lemma bo_unmap_stands:
  assumes K: "obeys K new_res" and "stands H ms l" "RBo bo \<in> H" "RMap bo \<in> H"
    and wait: "\<And>H l. stands H ms l \<Longrightarrow> Q Wait l"
    and out: "\<And>r l. stands (H - {RMap bo} - {RBo bo}) ms l \<Longrightarrow> wp (out r) Q K N l"
  shows "wp (bo_unmap bo out) Q K N l"
  unfolding bo_unmap_def
  by (rule stands_step [OF K assms(2)])
    (use assms(3,4) in \<open>auto simp: needs_def wp_if wp_say
      intro: wait wait [OF assms(2)] intro!: bo_destroy_stands [OF K] out\<close>)

text \<open>Calls that neither give nor take.\<close>

lemma stands_keep:
  "needs c \<subseteq> H \<Longrightarrow> takes c = {} \<Longrightarrow> gives c r = {} \<Longrightarrow> \<not> is_msg c \<Longrightarrow>
     stands H ms (Ev c r # l) = stands H ms l"
  by (auto simp: stands_def own_def)

lemmas keeps = stands_keep needs_def

lemma bo_setup_stands:
  assumes K: "obeys K new_res" and st: "stands H ms l" "RDrv drv \<in> H" "RFd fd \<in> H"
    and wait: "\<And>H l. stands H ms l \<Longrightarrow> Q Wait l"
    and out: "\<And>r l. stands H ms l \<Longrightarrow> wp (out r) Q K N l"
    and k: "\<And>bo dst f l. RBo bo \<notin> H \<Longrightarrow> RMap bo \<notin> H \<Longrightarrow> RFb f \<notin> H \<Longrightarrow>
      stands (H \<union> {RBo bo, RMap bo, RFb f}) ms l \<Longrightarrow> wp (k bo dst f) Q K N l"
  shows "wp (bo_setup fd drv w h out k) Q K N l"
proof -
  have out': "stands H' ms l \<Longrightarrow> H' = H \<Longrightarrow> wp (out r) Q K N l" for H' l r
    using out by blast
  have k': "RBo bo \<notin> H \<Longrightarrow> RMap bo \<notin> H \<Longrightarrow> RFb f \<notin> H \<Longrightarrow> stands H' ms l \<Longrightarrow>
      H' = H \<union> {RBo bo, RMap bo, RFb f} \<Longrightarrow> wp (k bo dst f) Q K N l" for bo dst f l H'
    using k by blast
  have destroy: "wp (bo_destroy bo out) Q K N l"
    if "stands (insert (RBo bo) H) ms l" "RBo bo \<notin> H" for bo l
    by (rule bo_destroy_stands [OF K that(1)]) (use that in \<open>auto intro: wait out'\<close>)
  have fb: "wp (sys (AddFB fd w h a b) (\<lambda>f. if rv f \<noteq> 0 then perror msg (bo_unmap bo out)
      else k bo dst (unum f 0))) Q K N l"
    if "stands (insert (RBo bo) (insert (RMap bo) H)) ms l" "RBo bo \<notin> H" "RMap bo \<notin> H"
    for bo a b dst msg l
    by (rule stands_step [OF K that(1)])
      (use st(3) that in \<open>auto simp: needs_def wp_if wp_say
        intro: wait wait [OF that(1)] intro!: bo_unmap_stands [OF K] out' k'\<close>)
  have map: "wp (sys (BoMap bo) (\<lambda>m. if rv m \<noteq> 0 then perror msg (bo_destroy bo out)
      else sys (AddFB fd w h a b) (\<lambda>f. if rv f \<noteq> 0 then perror msg' (bo_unmap bo out)
      else k bo (utable m 0) (unum f 0)))) Q K N l"
    if "stands (insert (RBo bo) H) ms l" "RBo bo \<notin> H" for bo a b msg msg' l
    by (rule stands_step [OF K that(1)])
      (use st(3) that in \<open>auto simp: needs_def wp_if wp_say
        intro: wait [OF that(1)] intro!: destroy fb\<close>)
  show ?thesis
    unfolding bo_setup_def
  proof (rule stands_step [OF K st(1)], goal_cases)
    case (4 b)
    have none: "rv b \<noteq> 0 \<Longrightarrow> stands H ms (Out os # Ev (BoCreate drv w h) b # l)" for os
      using 4(2) by simp
    have some: "rv b = 0 \<Longrightarrow> stands (insert (RBo (num b 0)) H) ms (Ev (BoCreate drv w h) b # l)"
      "rv b = 0 \<Longrightarrow> RBo (num b 0) \<notin> H"
      using 4 by simp_all
    show ?case
      by (intro map wp_ifI wp_say [THEN iffD2] wp_stepI)
        (use none some in \<open>auto simp: keeps intro!: out' destroy wait [of "insert (RBo (num b 0)) H"]\<close>)
  qed (use st(2,3) in \<open>auto simp: needs_def intro: wait [OF st(1)]\<close>)
qed

text \<open>Stores into a mapping that is owned.\<close>

definition puts :: "(uint32 list \<Rightarrow> drm_call) \<Rightarrow> kms_res set \<Rightarrow> bool" where
  "puts put H \<longleftrightarrow> (\<forall>px. needs (put px) \<subseteq> H \<and> takes (put px) = {} \<and> (\<forall>r. gives (put px) r = {}) \<and>
     \<not> is_msg (put px))"

lemma puts_simps [simp]: "puts (PutPixels bo) H = (RMap bo \<in> H)" "puts (PutMem p) H = (RRegion p \<in> H)"
  by (simp_all add: puts_def needs_def)

lemma show_pixels_stands:
  assumes st: "stands H ms l" "puts put H"
    and wait: "\<And>l. stands H ms l \<Longrightarrow> Q Wait l"
    and fault: "\<And>e. Q (Fault e) l"
    and k: "\<And>dst l. stands H ms l \<Longrightarrow> wp (k dst) Q K N l"
  shows "wp (show_pixels put px k) Q K N l"
  using st
  by (auto simp: show_pixels_def wp_fault wp_sys puts_def stands_keep intro!: k fault wait [OF st(1)]
      split: option.split)

lemma draw_clear_stands:
  assumes st: "stands H ms l" "puts put H"
    and wait: "\<And>l. stands H ms l \<Longrightarrow> Q Wait l"
    and fault: "\<And>e l. stands H ms l \<Longrightarrow> Q (Fault e) l"
    and k: "\<And>dst l. stands H ms l \<Longrightarrow> wp (k dst) Q K N l"
  shows "wp (draw_clear put dst w h k) Q K N l"
  unfolding draw_clear_def
  by (rule show_pixels_stands [OF st]) (auto intro: wait fault [OF st(1)] k)

lemma draw_test_stands:
  assumes st: "stands H ms l" "puts put H"
    and wait: "\<And>l. stands H ms l \<Longrightarrow> Q Wait l"
    and fault: "\<And>e l. stands H ms l \<Longrightarrow> Q (Fault e) l"
    and k: "\<And>dst l. stands H ms l \<Longrightarrow> wp (k dst) Q K N l"
  shows "wp (draw_test put dst w h k) Q K N l"
  unfolding draw_test_def
  by (rule show_pixels_stands [OF st]) (auto intro: wait fault [OF st(1)] k)

lemma draw_fancy_stands:
  assumes st: "stands H ms l" "puts put H"
    and wait: "\<And>l. stands H ms l \<Longrightarrow> Q Wait l"
    and fault: "\<And>e l. stands H ms l \<Longrightarrow> Q (Fault e) l"
    and k: "\<And>dst l. stands H ms l \<Longrightarrow> wp (k dst) Q K N l"
  shows "wp (draw_fancy put dst w h k) Q K N l"
  unfolding draw_fancy_def
proof (rule wp_stepI)
  show "Q Wait l" by (rule wait [OF st(1)])
  fix t
  have "stands H ms (Ev (P Time) t # l)" using st by (simp add: keeps)
  then show "wp (show_pixels put (draw_fancy_image (word_of_int (rv t)) dst w h) k) Q K N
      (Ev (P Time) t # l)"
    using st by (intro show_pixels_stands) (auto intro: wait fault k)
qed

lemma looks_stands: "RFd fd \<in> H \<Longrightarrow> closed_under (look_call fd) (stands H ms)"
proof -
  assume fd: "RFd fd \<in> H"
  have "stands H ms (Ev c r # l)" if "look_call fd c" "stands H ms l" for c r l
    using that fd by (cases c) (simp_all add: keeps)
  then show ?thesis by (simp add: closed_under_def)
qed

lemma find_plane_stands:
  assumes st: "stands H ms l" "RFd fd \<in> H"
    and wait: "\<And>l. stands H ms l \<Longrightarrow> Q Wait l"
    and out: "\<And>r l. stands H ms l \<Longrightarrow> wp (out r) Q K N l"
    and k: "\<And>l. stands H ms l \<Longrightarrow> wp k Q K N l"
  shows "wp (find_plane fd plane_id out k) Q K N l"
proof -
  have loop: "wp (foreach ids (plane_loop fd plane_id) ()) (steady (stands H ms)) K N l"
    if "stands H ms l" for ids l
  proof (rule wp_foreach [where I = "\<lambda>u. stands H ms"])
    fix i u and l :: "drm_call history" assume "stands H ms l"
    then show "wp (plane_loop fd plane_id i u)
        (seq (for_post (\<lambda>u. stands H ms) (steady (stands H ms))) (steady (stands H ms))) K N l"
      using st(2) by (simp add: plane_loop_def wp_simps keeps split: option.split)
  qed (use that in simp_all)
  have rest: "wp (bind (foreach ids (plane_loop fd plane_id) ()) (\<lambda>x. case x of
      Inl u \<Rightarrow> say os (out n) | Inr p \<Rightarrow> k)) Q K N l" if "stands H ms l" for ids os n l
    by (rule wp_bind_steady [OF loop [OF that]])
      (auto intro!: out k wait simp: wp_say split: sum.split)
  show ?thesis
    unfolding find_plane_def
    by (intro wp_ifI wp_say [THEN iffD2] wp_stepI)
      (use st in \<open>auto simp: keeps intro!: out rest wait [OF st(1)]\<close>)
qed

end
