(* ===== verification/Drm_Client.thy ===== *)
theory Drm_Client
  imports Drm_Kms
begin

text \<open>
  What the two clients of the display server, \<open>drm-tests/drm_client_crtc.c\<close> and
  \<open>drm-tests/drm_client_plane.c\<close>, share: the wait for an answer, the last labels of the clean-up,
  and the contract of a conversation, which says in which order a client sends its requests and
  after which answers.
\<close>

section \<open>Waiting for an answer\<close>

text \<open>
  The head of the communication loop: \<open>k\<close> is the rest of the body, reached after an answer with the
  right magic and the value \<open>DRM_OK\<close>. \<open>Inl\<close> is \<open>continue\<close>, with the command sent last; \<open>Inr\<close> is
  \<open>break\<close>.
\<close>

definition await_reply :: "int \<Rightarrow> uint32 \<Rightarrow> uint32 \<Rightarrow> (uint32 + unit, drm_call) io \<Rightarrow>
    (uint32 + unit, drm_call) io" where
  "await_reply s m cmd k =
     sys (P (Select (s + 1) [s] (Some 5))) (\<lambda>q.
     if rv q = 0 then
       say [S ''timeout expired: no response from server''] (ret (Inr ()))
     else if rv q = -1 then
       (if err q = EINTR then perror '''select' was interrupted'' (ret (Inr ()))
        else perror '''select' problem'' (ret (Inr ())))
     else if s \<in> set (ready q) then
       sys (P (Read s DRM_BUF)) (\<lambda>r.
       if rv r \<le> 0 then perror ''could not receive answer from server'' (ret (Inr ()))
       else
         let rx = fill (zeros DRM_BUF) (bytes r); vs = fst (scan_fields 2 (cstr rx)) in
         if \<not> terminated rx then fault ''rx_buf is not terminated''
         else
           say [S ''got server response: ['', B (cstr rx), S '']'']
           (if length vs < 2 then perror ''incomplete response from server'' (ret (Inr ()))
            else if word_of_int (vs ! 0) \<noteq> m then
              say [S ''invalid magic response: '', D (vs ! 0)] (ret (Inl cmd))
            else if vs ! 1 \<noteq> DRM_OK then
              say [S ''got error from server, can't continue''] (ret (Inr ()))
            else k))
     else
       say [S ''hmm... should not happen... lets try one more cycle''] (ret (Inl cmd)))"

text \<open>The labels \<open>err_close_net\<close> and \<open>err_close_drm\<close>, and the return from \<open>main\<close>.\<close>

definition err_close_net :: "int \<Rightarrow> int \<Rightarrow> (unit, drm_call) io" where
  "err_close_net s rt = sys (P (Close s)) (\<lambda>_. exit (rt mod 256))"

definition err_close_drm :: "int \<Rightarrow> int \<Rightarrow> int \<Rightarrow> (unit, drm_call) io" where
  "err_close_drm s fd rt = sys (P (Close fd)) (\<lambda>_. err_close_net s rt)"

section \<open>The session\<close>

text \<open>
  From the driver to the end: a buffer is set up, the magic is sent, and the communication loop
  runs; \<open>respond\<close> is what the client does after an answer. The labels \<open>err_fb\<close>,
  \<open>err_buffer_unmap\<close>, \<open>err_buffer_destroy\<close> and \<open>err_driver_destroy\<close> follow.
\<close>

definition client_session :: "int \<Rightarrow> int \<Rightarrow> uint32 \<Rightarrow> uint32 \<Rightarrow> uint32 \<Rightarrow>
    (int \<Rightarrow> uint32 list \<Rightarrow> uint32 \<Rightarrow> uint32 \<Rightarrow> (uint32 + unit, drm_call) io) \<Rightarrow>
    (unit, drm_call) io" where
  "client_session s fd m w h respond =
     sys (KmsCreate fd) (\<lambda>c.
     if rv c \<noteq> 0 then perror ''failed kms_create()'' (err_close_drm s fd (rv c)) else
     let out = (\<lambda>_. drv_destroy (num c 0) (err_close_drm s fd)) in
     bo_setup fd (num c 0) w h out (\<lambda>bo dst fb.
     let tx = msg_buf (print_fields [m, CMD_AUTH]) in
     say [S ''send message ['', B (cstr tx), S ''] to server'']
     (sys (P (Write s tx)) (\<lambda>r.
     if rv r < 0 then perror ''could not send magic to server'' (bo_unmap bo out)
     else
       bind (loop (\<lambda>cmd. await_reply s m cmd (respond bo dst fb cmd)) CMD_AUTH)
         (\<lambda>_. sys (RmFB fd fb) (\<lambda>_. bo_unmap bo out))))))"

section \<open>What is said\<close>

text \<open>The messages written, the oldest first, and the number of answers that are \<open>DRM_OK\<close>.\<close>

primrec sent :: "(drm_call \<times> resp) list \<Rightarrow> (int \<times> byte list) list" where
  "sent [] = []"
| "sent (x # ms) = sent ms @ (case fst x of
     P q \<Rightarrow> (case q of Write fd bs \<Rightarrow> [(fd, bs)] | _ \<Rightarrow> [])
   | _ \<Rightarrow> [])"

definition ok_answer :: "uint32 \<Rightarrow> resp \<Rightarrow> bool" where
  "ok_answer m r \<longleftrightarrow> (let rx = fill (zeros DRM_BUF) (bytes r); vs = fst (scan_fields 2 (cstr rx)) in
     0 < rv r \<and> terminated rx \<and> 2 \<le> length vs \<and> word_of_int (vs ! 0) = m \<and> vs ! 1 = DRM_OK)"

primrec oks :: "int \<Rightarrow> uint32 \<Rightarrow> (drm_call \<times> resp) list \<Rightarrow> nat" where
  "oks s m [] = 0"
| "oks s m (x # ms) = (case fst x of
     P q \<Rightarrow> (case q of Read fd n \<Rightarrow> if fd = s \<and> ok_answer m (snd x) then Suc (oks s m ms) else oks s m ms
            | _ \<Rightarrow> oks s m ms)
   | _ \<Rightarrow> oks s m ms)"

text \<open>
  The first \<open>j\<close> of the requests have been sent, each one but the first after one more answer that
  was \<open>DRM_OK\<close>.
\<close>

definition talk :: "int \<Rightarrow> uint32 \<Rightarrow> request list \<Rightarrow> nat \<Rightarrow> (drm_call \<times> resp) list \<Rightarrow> bool" where
  "talk s m reqs j ms \<longleftrightarrow> j \<le> length reqs \<and> j \<le> Suc (oks s m ms) \<and>
     sent ms = map (\<lambda>q. (s, req_wire m q)) (take j reqs)"

lemma talk_read: "talk s m reqs j ms \<Longrightarrow> talk s m reqs j ((P (Read fd n), r) # ms)"
  by (simp add: talk_def)

lemma talk_write:
  assumes "talk s m reqs j ms" "j < length reqs" "j \<le> oks s m ms" "bs = req_wire m (reqs ! j)"
  shows "talk s m reqs (Suc j) ((P (Write s bs), r) # ms)"
  using assms by (simp add: talk_def take_Suc_conv_app_nth)

text \<open>How a round of the loop ends.\<close>

definition round_post :: "int \<Rightarrow> uint32 \<Rightarrow> request list \<Rightarrow> kms_res set \<Rightarrow> (uint32 + unit) res \<Rightarrow>
    drm_call history \<Rightarrow> bool" where
  "round_post s m reqs H x l \<longleftrightarrow> (\<exists>j. talk s m reqs j (msgs l) \<and> own H l \<and> (case x of
     Val y \<Rightarrow> (case y of
       Inl c \<Rightarrow> \<exists>i < length reqs. j = Suc i \<and> c = req_code (reqs ! i)
     | Inr u \<Rightarrow> True)
   | Exit n \<Rightarrow> False
   | _ \<Rightarrow> True))"

lemma round_postI:
  assumes "stands H ms l" "talk s m reqs j ms"
  shows "round_post s m reqs H Wait l" "round_post s m reqs H (Fault e) l"
    "round_post s m reqs H (Val (Inr u)) l"
    "j = Suc i \<Longrightarrow> i < length reqs \<Longrightarrow> c = req_code (reqs ! i) \<Longrightarrow>
      round_post s m reqs H (Val (Inl c)) l"
  using assms by (auto simp: round_post_def stands_def)

lemma round_post_Out [simp]: "round_post s m reqs H x (Out os # l) = round_post s m reqs H x l"
  by (simp add: round_post_def)

section \<open>The contract of a conversation\<close>

text \<open>
  A client is a function from the command sent last to what it does after the answer \<open>DRM_OK\<close>. The
  law: after the answer to request \<open>i\<close> it sends request \<open>i + 1\<close> and nothing else, or leaves the loop,
  and it keeps what it owns. Then the whole loop keeps to the order of the requests.
\<close>

locale conversation =
  fixes s :: int and m :: uint32 and reqs :: "request list" and H :: "kms_res set"
    and respond :: "uint32 \<Rightarrow> (uint32 + unit, drm_call) io"
  assumes socket: "RFd s \<in> H"
    and responds: "obeys K new_res \<Longrightarrow> i < length reqs \<Longrightarrow> stands H ms l \<Longrightarrow>
      talk s m reqs (Suc i) ms \<Longrightarrow> Suc i \<le> oks s m ms \<Longrightarrow>
      wp (respond (req_code (reqs ! i))) (round_post s m reqs H) K N l"
begin

lemma round:
  assumes K: "obeys K new_res" and i: "i < length reqs" and st: "stands H ms l"
    and t: "talk s m reqs (Suc i) ms"
  shows "wp (await_reply s m (req_code (reqs ! i)) (respond (req_code (reqs ! i))))
    (round_post s m reqs H) K N l"
proof -
  let ?sel = "\<lambda>q. Ev (P (Select (s + 1) [s] (Some 5))) q"
  let ?read = "\<lambda>r. Ev (P (Read s DRM_BUF)) r"
  have sel: "stands H ms (?sel q # l)" for q
    using st by (simp add: keeps)
  have read: "stands H ((P (Read s DRM_BUF), r) # ms) (?read r # ?sel q # l)" for r q
    using sel [of q] socket by (auto simp: stands_def own_def needs_def)
  note start = round_postI [OF st t] round_postI [OF sel t]
    and got = round_postI [OF read talk_read [OF t]]
  have answered: "Suc i \<le> oks s m ((P (Read s DRM_BUF), r) # ms)" if "ok_answer m r" for r
    using t that by (simp add: talk_def)
  have go: "wp (respond (req_code (reqs ! i))) (round_post s m reqs H) K N (Out os # ?read r # ?sel q # l)"
    if "ok_answer m r" for os r q
    by (rule responds [OF K i _ talk_read [OF t] answered [OF that]]) (simp add: read)
  show ?thesis
    unfolding await_reply_def Let_def
    by (intro wp_intro wp_ret [THEN iffD2])
      (use i in \<open>simp_all add: start got go ok_answer_def Let_def\<close>)
qed

lemma round_next:
  assumes "round_post s m reqs H x l"
  shows "seq (next_or (\<lambda>c. round_post s m reqs H (Val (Inl c)))
    (\<lambda>x l. (\<exists>j. talk s m reqs j (msgs l)) \<and> own H l \<and> (\<forall>n. x \<noteq> Exit n)))
    (\<lambda>x l. (\<exists>j. talk s m reqs j (msgs l)) \<and> own H l \<and> (\<forall>n. x \<noteq> Exit n)) x l"
proof (cases x)
  case (Val y)
  then show ?thesis using assms by (cases y) (auto simp: round_post_def)
qed (use assms in \<open>auto simp: round_post_def\<close>)

lemma converses:
  assumes K: "obeys K new_res" and i: "i < length reqs" and st: "stands H ms l"
    and t: "talk s m reqs (Suc i) ms"
  shows "wp (loop (\<lambda>c. await_reply s m c (respond c)) (req_code (reqs ! i)))
    (\<lambda>x l. (\<exists>j. talk s m reqs j (msgs l)) \<and> own H l \<and> (\<forall>n. x \<noteq> Exit n)) K N l"
proof (rule wp_loop [where I = "\<lambda>c l. round_post s m reqs H (Val (Inl c)) l"])
  show "round_post s m reqs H (Val (Inl (req_code (reqs ! i)))) l"
    using st t i by (intro round_postI) auto
  fix c and l :: "drm_call history"
  assume c: "round_post s m reqs H (Val (Inl c)) l"
  then show "(\<exists>j. talk s m reqs j (msgs l)) \<and> own H l \<and> (\<forall>n. (Wait :: unit res) \<noteq> Exit n)"
    by (auto simp: round_post_def)
  obtain i' where i': "i' < length reqs" "c = req_code (reqs ! i')" "stands H (msgs l) l"
      "talk s m reqs (Suc i') (msgs l)"
    using c by (auto simp: round_post_def stands_def)
  show "wp (await_reply s m c (respond c)) (seq (next_or (\<lambda>c. round_post s m reqs H (Val (Inl c)))
      (\<lambda>x l. (\<exists>j. talk s m reqs j (msgs l)) \<and> own H l \<and> (\<forall>n. x \<noteq> Exit n)))
      (\<lambda>x l. (\<exists>j. talk s m reqs j (msgs l)) \<and> own H l \<and> (\<forall>n. x \<noteq> Exit n))) K N l"
    unfolding i'(2) by (rule wp_mono [OF round [OF K i'(1,3,4)]]) (rule round_next)
qed

end

text \<open>A message goes out: what is owned stays, and the request is the next one.\<close>

lemma stands_write:
  "stands H ms l \<Longrightarrow> RFd s \<in> H \<Longrightarrow> stands H ((P (Write s bs), w) # ms) (Ev (P (Write s bs)) w # l)"
  by (auto simp: stands_def own_def needs_def)



section \<open>The run of a client\<close>

text \<open>
  What a run leaves: nothing, except the frame buffer when the first message could not be sent. And
  what it has said: the first of the requests in order, for one of the request lists in \<open>R\<close>.
\<close>

definition client_leaves :: "kms_res set \<Rightarrow> (drm_call \<times> resp) list \<Rightarrow> bool" where
  "client_leaves H ms \<longleftrightarrow> H = {} \<or>
     (\<exists>f s bs w. H = {RFb f} \<and> ms = [(P (Write s bs), w)] \<and> rv w < 0)"

definition client_said :: "(request list \<Rightarrow> bool) \<Rightarrow> (drm_call \<times> resp) list \<Rightarrow> bool" where
  "client_said R ms \<longleftrightarrow> (\<exists>s m reqs j. R reqs \<and> talk s m reqs j ms)"

definition client_good :: "(request list \<Rightarrow> bool) \<Rightarrow> unit res \<Rightarrow> drm_call history \<Rightarrow> bool" where
  "client_good R x l \<longleftrightarrow> proper l \<and> client_said R (msgs l) \<and>
     (\<forall>n. x = Exit n \<longrightarrow> client_leaves (held l) (msgs l))"

lemma client_goodI:
  assumes "stands H ms l" "client_said R ms"
  shows "client_good R Wait l" "client_good R (Fault e) l"
    "client_leaves H ms \<Longrightarrow> client_good R (Exit n) l"
  using assms by (auto simp: client_good_def stands_def own_def)

lemma client_said_Nil: "R reqs \<Longrightarrow> client_said R []"
  unfolding client_said_def by (rule exI, rule exI, rule exI [of _ reqs], rule exI [of _ 0])
    (simp add: talk_def)

lemma err_close_net_good:
  assumes K: "obeys K new_res" and st: "stands (insert (RFd s) E) ms l" and E: "RFd s \<notin> E"
    and R: "client_said R ms" "client_leaves E ms"
  shows "wp (err_close_net s rt) (client_good R) K N l"
  unfolding err_close_net_def
  by (rule stands_step [OF K st])
    (use E R client_goodI [OF st R(1)] in \<open>auto simp: needs_def wp_exit intro: client_goodI\<close>)

lemma err_close_drm_good:
  assumes K: "obeys K new_res" and st: "stands (insert (RFd fd) (insert (RFd s) E)) ms l"
    and E: "RFd s \<notin> E" "RFd fd \<notin> E" "fd \<noteq> s" and R: "client_said R ms" "client_leaves E ms"
  shows "wp (err_close_drm s fd rt) (client_good R) K N l"
  unfolding err_close_drm_def
  by (rule stands_step [OF K st])
    (use E R client_goodI [OF st R(1)] in
      \<open>auto simp: needs_def insert_Diff_if intro!: err_close_net_good [OF K] intro: client_goodI\<close>)

text \<open>The clean-up, with \<open>E\<close> what is left of the frame buffer.\<close>

lemma driver_good:
  assumes K: "obeys K new_res" and st: "stands H ms l" "H = {RDrv drv, RFd fd, RFd s} \<union> E"
    and E: "E \<subseteq> range RFb" "fd \<noteq> s" and R: "client_said R ms" "client_leaves E ms"
  shows "wp (drv_destroy drv (err_close_drm s fd)) (client_good R) K N l"
proof (rule drv_destroy_stands [OF K st(1)])
  have left: "H - {RDrv drv} = insert (RFd fd) (insert (RFd s) E)"
    using st(2) E by auto
  show "wp (err_close_drm s fd r) (client_good R) K N l" if "stands (H - {RDrv drv}) ms l" for r l
    using err_close_drm_good [OF K that [unfolded left] _ _ E(2) R] E(1) by blast
qed (use st R in \<open>auto intro: client_goodI\<close>)

lemma unmap_good:
  assumes K: "obeys K new_res" and st: "stands H ms l"
    "H = {RBo bo, RMap bo, RDrv drv, RFd fd, RFd s} \<union> E"
    and E: "E \<subseteq> range RFb" "fd \<noteq> s" and R: "client_said R ms" "client_leaves E ms"
  shows "wp (bo_unmap bo (\<lambda>_. drv_destroy drv (err_close_drm s fd))) (client_good R) K N l"
proof (rule bo_unmap_stands [OF K st(1)])
  have left: "H - {RMap bo} - {RBo bo} = {RDrv drv, RFd fd, RFd s} \<union> E"
    using st(2) E by auto
  show "wp (drv_destroy drv (err_close_drm s fd)) (client_good R) K N l"
    if "stands (H - {RMap bo} - {RBo bo}) ms l" for l
    by (rule driver_good [OF K that left E R])
qed (use st R in \<open>auto intro: client_goodI\<close>)

lemma client_session_good:
  assumes K: "obeys K new_res" and st: "stands {RFd fd, RFd s} [] l" and fd: "fd \<noteq> s"
    and R: "\<And>fb. R (reqs fb)" and reqs: "\<And>fb. 0 < length (reqs fb)" "\<And>fb. reqs fb ! 0 = ReqAuth"
    and conv: "\<And>bo dst fb H. conversation s m (reqs fb) ({RFd s, RFd fd, RMap bo} \<union> H) (respond bo dst fb)"
  shows "wp (client_session s fd m w h respond) (client_good R) K N l"
proof -
  have said: "client_said R []" by (rule client_said_Nil) (rule R)
  have leaves: "client_leaves {} ms" for ms by (simp add: client_leaves_def)
  have wire: "msg_buf (print_fields [m, CMD_AUTH]) = req_wire m ReqAuth"
    by (simp add: req_wire_def req_text_def)
  have end_ok: "wp (sys (RmFB fd fb) (\<lambda>_. bo_unmap bo (\<lambda>_. drv_destroy drv (err_close_drm s fd))))
      (client_good R) K N l"
    if "own ({RFd s, RFd fd, RMap bo} \<union> {RFb fb, RBo bo, RDrv drv}) l" "talk s m (reqs fb) j (msgs l)"
    for fb bo drv l j
  proof -
    have st': "stands ({RFd s, RFd fd, RMap bo} \<union> {RFb fb, RBo bo, RDrv drv}) (msgs l) l"
      using that(1) by (simp add: stands_def)
    have s: "client_said R (msgs l)" using that(2) R by (auto simp: client_said_def)
    show ?thesis
      by (rule stands_step [OF K st'])
        (use fd client_goodI [OF st' s] in \<open>auto simp: needs_def s leaves intro!: unmap_good [OF K, where E = "{}"]\<close>)
  qed
  have talking: "wp (bind (loop (\<lambda>cmd. await_reply s m cmd (respond bo dst fb cmd)) CMD_AUTH)
      (\<lambda>_. sys (RmFB fd fb) (\<lambda>_. bo_unmap bo (\<lambda>_. drv_destroy drv (err_close_drm s fd)))))
      (client_good R) K N l"
    if st': "stands ({RFd s, RFd fd, RMap bo} \<union> {RFb fb, RBo bo, RDrv drv}) ms l"
      and t: "talk s m (reqs fb) 1 ms" for fb bo drv dst l ms
  proof (rule wp_bindI [where P = "\<lambda>u l. (\<exists>j. talk s m (reqs fb) j (msgs l)) \<and>
      own ({RFd s, RFd fd, RMap bo} \<union> {RFb fb, RBo bo, RDrv drv}) l"])
    show "wp (loop (\<lambda>cmd. await_reply s m cmd (respond bo dst fb cmd)) CMD_AUTH)
      (seq (\<lambda>u l. (\<exists>j. talk s m (reqs fb) j (msgs l)) \<and>
        own ({RFd s, RFd fd, RMap bo} \<union> {RFb fb, RBo bo, RDrv drv}) l) (client_good R)) K N l"
      by (rule wp_mono [OF conversation.converses [OF conv K reqs(1) st', unfolded reqs(2) req_code.simps]])
        (use t R in \<open>auto simp: One_nat_def seq_def client_good_def own_def client_said_def split: res.splits\<close>)
  qed (use end_ok in blast)
  have start: "wp (sys (P (Write s (req_wire m ReqAuth))) (\<lambda>r.
      if rv r < 0 then perror msg (bo_unmap bo (\<lambda>_. drv_destroy drv (err_close_drm s fd)))
      else bind (loop (\<lambda>cmd. await_reply s m cmd (respond bo dst fb cmd)) CMD_AUTH)
        (\<lambda>_. sys (RmFB fd fb) (\<lambda>_. bo_unmap bo (\<lambda>_. drv_destroy drv (err_close_drm s fd))))))
      (client_good R) K N l"
    if st': "stands ({RDrv drv, RFd fd, RFd s} \<union> {RBo bo, RMap bo, RFb fb}) [] l" for fb bo drv dst l msg
  proof -
    let ?H = "{RFd s, RFd fd, RMap bo} \<union> {RFb fb, RBo bo, RDrv drv}"
    have H: "{RDrv drv, RFd fd, RFd s} \<union> {RBo bo, RMap bo, RFb fb} = ?H" by auto
    have w: "stands ?H [(P (Write s bs), r)] (Ev (P (Write s bs)) r # l)" for bs r
      using stands_write [OF st', unfolded H] by simp
    have t: "talk s m (reqs fb) 1 [(P (Write s (req_wire m ReqAuth)), r)]" for r
      using reqs(1) [of fb] Suc_leI [OF reqs(1), of fb]
      by (auto simp: talk_def One_nat_def take_Suc_conv_app_nth reqs(2))
    have s: "client_said R [(P (Write s (req_wire m ReqAuth)), r)]" for r
      unfolding client_said_def using t R by blast
    have leak: "rv r < 0 \<Longrightarrow> client_leaves {RFb fb} [(P (Write s bs), r)]" for r bs
      by (auto simp: client_leaves_def)
    have undo: "wp (bo_unmap bo (\<lambda>_. drv_destroy drv (err_close_drm s fd))) (client_good R) K N
        (Out os # Ev (P (Write s (req_wire m ReqAuth))) r # l)" if "rv r < 0" for r os
      by (rule unmap_good [OF K, where H = ?H and E = "{RFb fb}"])
        (use w s leak [OF that] fd in \<open>auto\<close>)
    show ?thesis
      by (intro wp_intro)
        (use client_goodI [OF st' said] in \<open>simp_all add: undo talking [OF w t]\<close>)
  qed
  have out: "wp (drv_destroy drv (err_close_drm s fd)) (client_good R) K N l"
    if "stands {RDrv drv, RFd fd, RFd s} [] l" for drv l
    by (rule driver_good [OF K that, where E = "{}"]) (simp_all add: fd said leaves)
  have buffer: "wp (bo_setup fd drv w h (\<lambda>_. drv_destroy drv (err_close_drm s fd)) (\<lambda>bo dst fb.
      say os (sys (P (Write s (req_wire m ReqAuth))) (\<lambda>r.
      if rv r < 0 then perror msg (bo_unmap bo (\<lambda>_. drv_destroy drv (err_close_drm s fd)))
      else bind (loop (\<lambda>cmd. await_reply s m cmd (respond bo dst fb cmd)) CMD_AUTH)
        (\<lambda>_. sys (RmFB fd fb) (\<lambda>_. bo_unmap bo (\<lambda>_. drv_destroy drv (err_close_drm s fd))))))))
      (client_good R) K N l"
    if st': "stands {RDrv drv, RFd fd, RFd s} [] l" for drv l os msg
    by (rule bo_setup_stands [OF K st'])
      (auto simp: wp_say intro!: out start intro: client_goodI [OF _ said])
  show ?thesis
    unfolding client_session_def Let_def wire
    by (rule stands_step [OF K st])
      (use fd client_goodI [OF st said] in \<open>auto simp: needs_def wp_if wp_say said leaves insert_commute
        intro!: buffer err_close_drm_good [OF K, where E = "{}"]\<close>)
qed

end
