(* ===== verification/Drm_Client_Crtc.thy ===== *)
theory Drm_Client_Crtc
  imports Drm_Client
begin

text \<open>
  \<open>drm-tests/drm_client_crtc.c\<close>: a client of the display server that shows an image on a crtc. It
  sets up a buffer of its own, authenticates, asks for the crtc, draws, waits for a key and asks
  for the stop. The options come as the pairs that \<open>getopt\<close> yields. \<open>rt0\<close> is what the
  uninitialised \<open>ret\<close> holds.
\<close>

section \<open>The program\<close>

record crtc_args =
  ca_mode :: "byte list option"
  ca_conn :: uint32
  ca_crtc :: uint32
  ca_imt :: int

definition crtc_default :: crtc_args where
  "crtc_default = \<lparr>ca_mode = None, ca_conn = 0, ca_crtc = 0, ca_imt = 0\<rparr>"

primrec crtc_parse :: "(char \<times> byte list) list \<Rightarrow> crtc_args \<Rightarrow> crtc_args option" where
  "crtc_parse [] a = Some a"
| "crtc_parse (x # xs) a =
     (if fst x = CHR ''m'' then crtc_parse xs (a\<lparr>ca_mode := Some (snd x)\<rparr>)
      else if fst x = CHR ''n'' then crtc_parse xs (a\<lparr>ca_conn := word_of_int (atoi (snd x))\<rparr>)
      else if fst x = CHR ''c'' then crtc_parse xs (a\<lparr>ca_crtc := word_of_int (atoi (snd x))\<rparr>)
      else if fst x = CHR ''t'' then crtc_parse xs (a\<lparr>ca_imt := atoi (snd x)\<rparr>)
      else None)"

definition crtc_usage :: "('a, drm_call) io \<Rightarrow> ('a, drm_call) io" where
  "crtc_usage k =
     say [S ''usage: -h] -c <connector> -e <encoder> -m <mode> -t <image type>'']
     (say [S ''-h: this help message'']
     (say [S ''-n <connector> connector id, default is 0'']
     (say [S ''-c <crtc> crtc id, default is 0'']
     (say [S ''-m <mode> mode name, default is preferred'']
     (say [S ''-t <image> image type, default is 0''] k)))))"

text \<open>What the client does after the answer \<open>DRM_OK\<close> to the command sent last.\<close>

definition crtc_show :: "crtc_args \<Rightarrow> int \<Rightarrow> int \<Rightarrow> uint32 \<Rightarrow> int \<Rightarrow> uint32 list \<Rightarrow> uint32 \<Rightarrow>
    mode_info \<Rightarrow> (uint32 + unit, drm_call) io" where
  "crtc_show a s fd m bo dst fb md =
     (if ca_imt a \<noteq> 0 then draw_fancy (PutPixels bo) dst (hdisplay md) (vdisplay md)
      else draw_test (PutPixels bo) dst (hdisplay md) (vdisplay md)) (\<lambda>_.
     sys (DirtyFB fd fb) (\<lambda>_.
     sys (P Getchar) (\<lambda>_.
     sys (P (Write s (msg_buf (print_fields [m, CMD_CRTC_STOP])))) (\<lambda>w.
     if rv w < 0 then perror ''could not send quit message to server'' (ret (Inr ()))
     else ret (Inl CMD_CRTC_STOP)))))"

definition crtc_respond :: "crtc_args \<Rightarrow> int \<Rightarrow> int \<Rightarrow> uint32 \<Rightarrow> int \<Rightarrow> uint32 list \<Rightarrow> uint32 \<Rightarrow>
    mode_info \<Rightarrow> uint32 \<Rightarrow> (uint32 + unit, drm_call) io" where
  "crtc_respond a s fd m bo dst fb md cmd =
     (if cmd = CMD_AUTH then
        sys (P (Write s (msg_buf (print_fields [m, CMD_CRTC, ca_crtc a, ca_conn a, fb]
          @ [58] @ mode_name md)))) (\<lambda>w.
        if rv w < 0 then perror ''could not send crtc message to server'' (ret (Inr ()))
        else ret (Inl CMD_CRTC))
      else if cmd = CMD_CRTC then crtc_show a s fd m bo dst fb md
      else if cmd = CMD_CRTC_STOP then say [S ''server ok, quit...''] (ret (Inr ()))
      else say [S ''skip unexpected command = '', D (sint cmd)] (ret (Inl cmd)))"

definition drm_client_crtc :: "int \<Rightarrow> (char \<times> byte list) list \<Rightarrow> (unit, drm_call) io" where
  "drm_client_crtc rt0 opts = (case crtc_parse opts crtc_default of
     None \<Rightarrow> crtc_usage (exit 0)
   | Some a \<Rightarrow>
     sys (P (Socket AF_UNIX SOCK_STREAM)) (\<lambda>k.
     if rv k < 0 then perror ''could not create socket'' (exit 255) else
     sys (P (Connect (rv k) (SockUn DRM_SERVER_NAME))) (\<lambda>c.
     if rv c < 0 then perror ''could not connect to server'' (err_close_net (rv k) (-1)) else
     sys (P (Open device_name)) (\<lambda>f.
     if rv f < 0 then perror ''cannot open drm device'' (err_close_net (rv k) rt0) else
     sys (DropMaster (rv f)) (\<lambda>_.
     sys (GetMagic (rv f)) (\<lambda>g.
     if rv g \<noteq> 0 then perror ''failed drmGetMagic'' (err_close_drm (rv k) (rv f) (rv g)) else
     case ca_mode a of
       None \<Rightarrow> fault ''mode_name is uninitialised''
     | Some nm \<Rightarrow>
         bind (drm_get_mode_by_name (rv f) (ca_conn a) nm) (\<lambda>md. case md of
           None \<Rightarrow> perror ''failed drm_get_mode_by_name'' (err_close_drm (rv k) (rv f) (rv g))
         | Some t \<Rightarrow> client_session (rv k) (rv f) (unum g 0) (hdisplay t) (vdisplay t)
             (\<lambda>bo dst fb. crtc_respond a (rv k) (rv f) (unum g 0) bo dst fb t))))))))"

section \<open>The conversation\<close>

definition crtc_reqs :: "crtc_args \<Rightarrow> uint32 \<Rightarrow> mode_info \<Rightarrow> request list" where
  "crtc_reqs a fb md = [ReqAuth, ReqCrtc (ca_crtc a) (ca_conn a) fb (mode_name md), ReqCrtcStop]"

lemma crtc_reqs_simps [simp]:
  "length (crtc_reqs a fb md) = 3" "crtc_reqs a fb md ! 0 = ReqAuth"
  "crtc_reqs a fb md ! 1 = ReqCrtc (ca_crtc a) (ca_conn a) fb (mode_name md)"
  "crtc_reqs a fb md ! 2 = ReqCrtcStop"
  "crtc_reqs a fb md ! Suc 0 = ReqCrtc (ca_crtc a) (ca_conn a) fb (mode_name md)"
  "crtc_reqs a fb md ! Suc 1 = ReqCrtcStop"
  by (simp_all add: crtc_reqs_def One_nat_def numeral_2_eq_2)

lemma crtc_wire:
  "msg_buf (print_fields [m, CMD_CRTC, cr, co, fb] @ [58] @ nm) = req_wire m (ReqCrtc cr co fb nm)"
  "msg_buf (print_fields [m, CMD_CRTC_STOP]) = req_wire m ReqCrtcStop"
  by (simp_all add: req_wire_def req_text_def)

lemma crtc_responds:
  assumes K: "obeys K new_res" and H: "RFd s \<in> H" "RFd fd \<in> H" "RMap bo \<in> H" and i: "i < 3"
    and st: "stands H ms l" and t: "talk s m (crtc_reqs a fb md) (Suc i) ms"
    and ok: "Suc i \<le> oks s m ms"
  shows "wp (crtc_respond a s fd m bo dst fb md (req_code (crtc_reqs a fb md ! i)))
    (round_post s m (crtc_reqs a fb md) H) K N l"
proof -
  let ?reqs = "crtc_reqs a fb md"
  have said: "stands H ((P (Write s bs), w) # ms) (Ev (P (Write s bs)) w # l')"
    "Suc i < 3 \<Longrightarrow> bs = req_wire m (?reqs ! Suc i) \<Longrightarrow> talk s m ?reqs (Suc (Suc i)) ((P (Write s bs), w) # ms)"
    if "stands H ms l'" for w bs l'
    using stands_write [OF that H(1)] talk_write [OF t _ ok] by simp_all
  note post = round_postI [OF _ t]
  have sent_post: "round_post s m ?reqs H (Val (Inr ())) (Ev (P (Write s bs)) w # l')"
    "round_post s m ?reqs H (Val (Inl c)) (Ev (P (Write s bs)) w # l')"
    if "stands H ms l'" "Suc i < 3" "bs = req_wire m (?reqs ! Suc i)" "c = req_code (?reqs ! Suc i)"
    for w bs c l'
    using round_postI(3,4) [OF said(1) [OF that(1)] said(2) [OF that(1,2,3)]] that(2,4) by auto
  have draws: "wp (crtc_show a s fd m bo dst fb md) (round_post s m ?reqs H) K N l'"
    if "stands H ms l'" "i = 1" for l'
  proof -
    have tail: "wp (sys (DirtyFB fd fb) (\<lambda>_. sys (P Getchar) (\<lambda>_.
        sys (P (Write s (req_wire m ReqCrtcStop))) (\<lambda>w.
        if rv w < 0 then perror msg (ret (Inr ())) else ret (Inl CMD_CRTC_STOP)))))
        (round_post s m ?reqs H) K N l''" if "stands H ms l''" for l'' msg
    proof -
      have s1: "stands H ms (Ev (DirtyFB fd fb) x # l'')" for x
        using that H by (simp add: keeps)
      have s2: "stands H ms (Ev (P Getchar) y # Ev (DirtyFB fd fb) x # l'')" for x y
        using s1 by (simp add: keeps)
      show ?thesis
        by (intro wp_intro wp_ret [THEN iffD2])
          (use that s1 s2 \<open>i = 1\<close> in \<open>simp_all add: post sent_post numeral_2_eq_2 [symmetric]\<close>)
    qed
    show ?thesis
      unfolding crtc_show_def crtc_wire
      by (cases "ca_imt a = 0")
        (auto intro!: draw_fancy_stands [OF that(1)] draw_test_stands [OF that(1)] tail
          intro: post simp: H)
  qed
  consider "i = 0" | "i = 1" | "i = 2" using i by linarith
  then show ?thesis
  proof cases
    case 1
    then show ?thesis
      unfolding crtc_respond_def crtc_wire
      using st by (simp add: wp_simps post sent_post split: option.split)
  next
    case 2
    then show ?thesis
      using draws [OF st] by (simp add: crtc_respond_def cmd_defs)
  next
    case 3
    then show ?thesis
      using st by (simp add: crtc_respond_def cmd_defs wp_simps post)
  qed
qed


interpretation crtc: conversation s m "crtc_reqs a fb md" "{RFd s, RFd fd, RMap bo} \<union> H"
    "crtc_respond a s fd m bo dst fb md" for s m a fb md fd bo dst H
  by unfold_locales (auto intro!: crtc_responds)

section \<open>The run\<close>

definition crtc_plan :: "crtc_args \<Rightarrow> request list \<Rightarrow> bool" where
  "crtc_plan a reqs \<longleftrightarrow> (\<exists>fb md. reqs = crtc_reqs a fb md)"

lemma drm_client_crtc_good:
  assumes K: "obeys K new_res" and a: "crtc_parse opts crtc_default = Some a"
  shows "wp (drm_client_crtc rt0 opts) (client_good (crtc_plan a)) K N []"
proof -
  have said: "client_said (crtc_plan a) []"
    by (rule client_said_Nil [where reqs = "crtc_reqs a fb md" for fb md]) (auto simp: crtc_plan_def)
  have leaves: "client_leaves {} ms" for ms by (simp add: client_leaves_def)
  have session: "wp (client_session s fd m (hdisplay md) (vdisplay md)
      (\<lambda>bo dst fb. crtc_respond a s fd m bo dst fb md)) (client_good (crtc_plan a)) K N l"
    if "stands {RFd fd, RFd s} [] l" "fd \<noteq> s" for s fd m md l
    by (rule client_session_good [OF K that, where reqs = "\<lambda>fb. crtc_reqs a fb md",
        OF _ _ _ crtc.conversation_axioms]) (auto simp: crtc_plan_def)
  have drm: "wp (bind (drm_get_mode_by_name fd i nm) (\<lambda>md. case md of
        None \<Rightarrow> perror msg (err_close_drm s fd rt)
      | Some t \<Rightarrow> client_session s fd m (hdisplay t) (vdisplay t)
          (\<lambda>bo dst fb. crtc_respond a s fd m bo dst fb t))) (client_good (crtc_plan a)) K N l"
    if st: "stands {RFd fd, RFd s} [] l" and fd: "fd \<noteq> s" for fd s i nm msg rt m l
    by (rule wp_bind_steady [OF drm_get_mode_by_name_looks [OF looks_stands st]])
      (auto simp: wp_say fd said leaves intro!: session client_goodI(1) [OF _ said]
        err_close_drm_good [OF K, where E = "{}" and ms = "[]"] split: option.split)
  have device: "wp (sys (DropMaster fd) (\<lambda>_. sys (GetMagic fd) (\<lambda>g. if rv g \<noteq> 0 then
      perror msg (err_close_drm s fd (rv g)) else case ca_mode a of
        None \<Rightarrow> fault e
      | Some nm \<Rightarrow> bind (drm_get_mode_by_name fd (ca_conn a) nm) (\<lambda>md. case md of
          None \<Rightarrow> perror msg' (err_close_drm s fd (rv g))
        | Some t \<Rightarrow> client_session s fd (unum g 0) (hdisplay t) (vdisplay t)
            (\<lambda>bo dst fb. crtc_respond a s fd (unum g 0) bo dst fb t)))))
      (client_good (crtc_plan a)) K N l"
    if st: "stands {RFd fd, RFd s} [] l" and fd: "fd \<noteq> s" for fd s msg e msg' l
  proof -
    have st1: "stands {RFd fd, RFd s} [] (Ev (DropMaster fd) r # l)" for r
      using st by (simp add: keeps)
    have st2: "stands {RFd fd, RFd s} [] (Ev (GetMagic fd) g # Ev (DropMaster fd) r # l)" for g r
      using st1 by (simp add: keeps)
    show ?thesis
      by (intro wp_intro)
        (use st st1 st2 in \<open>auto simp: wp_fault fd said leaves
          intro!: drm err_close_drm_good [OF K, where E = "{}" and ms = "[]"] intro: client_goodI [OF _ said]
          split: option.split\<close>)
  qed
  show ?thesis
    unfolding drm_client_crtc_def a option.case
  proof (rule stands_step [OF K, of "{}" "[]"], goal_cases)
    case (5 k)
    then have k: "rv k < 0 \<Longrightarrow> stands {} [] (Ev (P (Socket AF_UNIX SOCK_STREAM)) k # [])"
      "\<not> rv k < 0 \<Longrightarrow> stands {RFd (rv k)} [] (Ev (P (Socket AF_UNIX SOCK_STREAM)) k # [])"
      by simp_all
    have c: "\<not> rv k < 0 \<Longrightarrow> stands {RFd (rv k)} [] (Ev (P (Connect (rv k) x)) c
        # Ev (P (Socket AF_UNIX SOCK_STREAM)) k # [])" for x c
      using k(2) by (simp add: keeps)
    have net: "\<not> rv k < 0 \<Longrightarrow> stands {RFd (rv k)} [] l \<Longrightarrow>
        wp (err_close_net (rv k) rt) (client_good (crtc_plan a)) K N l" for rt l
      by (rule err_close_net_good [OF K, where E = "{}" and ms = "[]"]) (simp_all add: said leaves)
    have dev: "wp (sys (P (Open device_name)) (\<lambda>f.
       if rv f < 0 then perror msg0 (err_close_net (rv k) rt0) else
       sys (DropMaster (rv f)) (\<lambda>_. sys (GetMagic (rv f)) (\<lambda>g. if rv g \<noteq> 0 then
       perror msg (err_close_drm (rv k) (rv f) (rv g)) else case ca_mode a of
        None \<Rightarrow> fault e
      | Some nm \<Rightarrow> bind (drm_get_mode_by_name (rv f) (ca_conn a) nm) (\<lambda>md. case md of
          None \<Rightarrow> perror msg' (err_close_drm (rv k) (rv f) (rv g))
        | Some t \<Rightarrow> client_session (rv k) (rv f) (unum g 0) (hdisplay t) (vdisplay t)
            (\<lambda>bo dst fb. crtc_respond a (rv k) (rv f) (unum g 0) bo dst fb t))))))
      (client_good (crtc_plan a)) K N l" if k: "\<not> rv k < 0" and st: "stands {RFd (rv k)} [] l"
      for msg0 msg e msg' l
      by (rule stands_step [OF K st])
        (use k in \<open>auto simp: needs_def wp_if wp_say insert_commute intro!: net device client_goodI(1) [OF st said]\<close>)
    show ?case
      by (intro dev wp_intro)
        (use k c in \<open>auto simp: leaves intro!: net dev intro: client_goodI [OF _ said]\<close>)
  qed (simp_all add: needs_def stands_def client_goodI said)
qed

lemma crtc_said:
  assumes "client_said (crtc_plan a) ms"
  shows "\<exists>s m fb nm j. j \<le> 3 \<and> sent ms = map (\<lambda>q. (s, req_wire m q)) (take j
      [ReqAuth, ReqCrtc (ca_crtc a) (ca_conn a) fb nm, ReqCrtcStop]) \<and> j \<le> oks s m ms + 1"
proof -
  obtain s m fb md j where "talk s m (crtc_reqs a fb md) j ms"
    using assms by (auto simp: client_said_def crtc_plan_def)
  then have said: "j \<le> 3 \<and> sent ms = map (\<lambda>q. (s, req_wire m q)) (take j
      [ReqAuth, ReqCrtc (ca_crtc a) (ca_conn a) fb (mode_name md), ReqCrtcStop]) \<and> j \<le> oks s m ms + 1"
    by (simp add: talk_def crtc_reqs_def)
  show ?thesis
    by (rule exI [of _ s], rule exI [of _ m], rule exI [of _ fb], rule exI [of _ "mode_name md"],
        rule exI [of _ j], rule said)
qed

text \<open>A run in which the server accepts the magic and answers the crtc request with an error.\<close>

definition crtc_opts :: "(char \<times> byte list) list" where
  "crtc_opts = [(CHR ''n'', [55]), (CHR ''c'', [57]), (CHR ''m'', [65])]"

definition one_conn :: resp where
  "one_conn = (with_nums 11 [7, 1, 0])\<lparr>tables := [[], [4], [3]], texts := [[65]]\<rparr>"

definition crtc_script :: "resp list" where
  "crtc_script = [ok 4, ok 0, ok 5, ok 0, with_nums 0 [77],
     (ok 10)\<lparr>tables := [[7]]\<rparr>, one_conn, ok 0,
     with_nums 0 [20], with_nums 0 [21], with_nums 0 [16], with_nums 0 [8],
     (ok 0)\<lparr>tables := [replicate 12 0]\<rparr>, with_nums 0 [31], ok 1025,
     ready_fds [4], got [55, 55, 58, 48], ok 1025,
     ready_fds [4], got [55, 55, 58, 49], ok 0, ok 0, ok 0, ok 0, ok 0, ok 0]"

definition crtc_kernel :: "drm_call kernel" where
  "crtc_kernel = guarded new_res (play crtc_script)"

lemmas crtc_obeys = obeys_guarded [of new_res "play crtc_script", folded crtc_kernel_def]

definition crtc_demo :: crtc_args where
  "crtc_demo = \<lparr>ca_mode = Some [65], ca_conn = 7, ca_crtc = 9, ca_imt = 0\<rparr>"

lemma crtc_demo_opts: "crtc_parse crtc_opts crtc_default = Some crtc_demo"
  by code_simp

text \<open>
  C18: the conversation of \<open>drm_client_crtc\<close>, in every run: what it writes to the server is
  the magic, then the crtc request with the ids of the command line, then the stop, in this order and
  nothing else; and each of the later requests comes only after one more answer \<open>DRM_OK\<close> with the
  client's own magic.
\<close>

theorem drm_client_crtc_converses:
  assumes "obeys K new_res" and "crtc_parse opts crtc_default = Some a"
  shows "wp (drm_client_crtc rt0 opts) (\<lambda>x l. \<exists>s m fb nm j.
    j \<le> 3 \<and> sent (msgs l) = map (\<lambda>q. (s, req_wire m q)) (take j
      [ReqAuth, ReqCrtc (ca_crtc a) (ca_conn a) fb nm, ReqCrtcStop]) \<and>
    j \<le> oks s m (msgs l) + 1) K N []"
  by (rule wp_mono [OF drm_client_crtc_good [OF assms]])
    (simp add: client_good_def crtc_said)

theorem drm_client_crtc_converses_witness:
  "wp (drm_client_crtc 0 crtc_opts) (\<lambda>x l. \<exists>s m fb nm j.
    j \<le> 3 \<and> sent (msgs l) = map (\<lambda>q. (s, req_wire m q)) (take j
      [ReqAuth, ReqCrtc (ca_crtc crtc_demo) (ca_conn crtc_demo) fb nm, ReqCrtcStop]) \<and>
    j \<le> oks s m (msgs l) + 1) crtc_kernel 3 [] \<and>
   wp (drm_client_crtc 0 crtc_opts) (\<lambda>x l. x = Exit 0 \<and> length (sent (msgs l)) = 2)
     crtc_kernel 3 []"
  by (rule conjI [OF drm_client_crtc_converses [OF crtc_obeys crtc_demo_opts]]) code_simp

text \<open>
  C19: what \<open>drm_client_crtc\<close> owns, counted being descriptors, the libkms driver, buffer objects,
  their mappings and frame buffers. Every call of a run uses only such things as the client owns
  at that point, none of them is freed twice, and when the program exits, on any of its paths, all
  of them have been given back; except that the frame buffer is lost when the very first message
  cannot be sent. The structures that libdrm allocates for answers are not counted here: the
  connector that \<open>drm_get_mode_by_name\<close> finds is never freed (\<open>mode_by_name_objects\<close> of \<open>Drm_Utils\<close>).
\<close>

theorem drm_client_crtc_releases:
  assumes "obeys K new_res" and "crtc_parse opts crtc_default = Some a"
  shows "wp (drm_client_crtc rt0 opts) (\<lambda>x l. proper l \<and> (\<forall>n. x = Exit n \<longrightarrow>
    held l = {} \<or> (\<exists>f s bs w. held l = {RFb f} \<and> msgs l = [(P (Write s bs), w)] \<and> rv w < 0))) K N []"
  by (rule wp_mono [OF drm_client_crtc_good [OF assms]])
    (simp add: client_good_def client_leaves_def)

theorem drm_client_crtc_releases_witness:
  "wp (drm_client_crtc 0 crtc_opts) (\<lambda>x l. proper l \<and> (\<forall>n. x = Exit n \<longrightarrow>
    held l = {} \<or> (\<exists>f s bs w. held l = {RFb f} \<and> msgs l = [(P (Write s bs), w)] \<and> rv w < 0)))
     crtc_kernel 3 [] \<and>
   wp (drm_client_crtc 0 crtc_opts) (\<lambda>x l. x = Exit 0 \<and> held l = {}) crtc_kernel 3 []"
  by (rule conjI [OF drm_client_crtc_releases [OF crtc_obeys crtc_demo_opts]]) code_simp

end
