(* ===== verification/Drm_Client_Plane.thy ===== *)
theory Drm_Client_Plane
  imports Drm_Client
begin

text \<open>
  \<open>drm-tests/drm_client_plane.c\<close>: the client of the display server that shows an image on a plane.
  It looks for the plane, sets up a buffer of the size given on the command line, authenticates,
  asks for the plane, draws, waits for a key and asks for the stop. \<open>rt0\<close> is what the
  uninitialised \<open>ret\<close> holds.
\<close>

section \<open>The program\<close>

record plane_args =
  pa_imt :: int
  pa_x :: uint32
  pa_y :: uint32
  pa_w :: uint32
  pa_h :: uint32
  pa_plane :: uint32
  pa_crtc :: uint32

definition plane_default :: plane_args where
  "plane_default = \<lparr>pa_imt = 0, pa_x = 0, pa_y = 0, pa_w = 0, pa_h = 0, pa_plane = 0, pa_crtc = 0\<rparr>"

primrec plane_parse :: "(char \<times> byte list) list \<Rightarrow> plane_args \<Rightarrow> plane_args option" where
  "plane_parse [] a = Some a"
| "plane_parse (x # xs) a =
     (let v = word_of_int (atoi (snd x)) in
      if fst x = CHR ''t'' then plane_parse xs (a\<lparr>pa_imt := atoi (snd x)\<rparr>)
      else if fst x = CHR ''x'' then plane_parse xs (a\<lparr>pa_x := v\<rparr>)
      else if fst x = CHR ''y'' then plane_parse xs (a\<lparr>pa_y := v\<rparr>)
      else if fst x = CHR ''w'' then plane_parse xs (a\<lparr>pa_w := v\<rparr>)
      else if fst x = CHR ''v'' then plane_parse xs (a\<lparr>pa_h := v\<rparr>)
      else if fst x = CHR ''p'' then plane_parse xs (a\<lparr>pa_plane := v\<rparr>)
      else if fst x = CHR ''c'' then plane_parse xs (a\<lparr>pa_crtc := v\<rparr>)
      else None)"

definition plane_usage :: "('a, drm_call) io \<Rightarrow> ('a, drm_call) io" where
  "plane_usage k =
     say [S ''usage: -h] -c <connector> -e <encoder> -m <mode>'']
     (say [S ''-h: this help message'']
     (say [S ''-c <crtc> crtc id, default is 0'']
     (say [S ''-p <plane> plane id, default is 0'']
     (say [S ''-x <posx> plane top left corner xpos, default is 0'']
     (say [S ''-y <posy> plane top left corner ypos, default is 0'']
     (say [S ''-w <width> plane width, default is 0'']
     (say [S ''-v <height> plane height, default is 0'']
     (say [S ''-t <image> image type, default is 0''] k))))))))"

text \<open>What the client does after the answer \<open>DRM_OK\<close> to the command sent last.\<close>

definition plane_show :: "plane_args \<Rightarrow> int \<Rightarrow> int \<Rightarrow> uint32 \<Rightarrow> int \<Rightarrow> uint32 list \<Rightarrow> uint32 \<Rightarrow>
    (uint32 + unit, drm_call) io" where
  "plane_show a s fd m bo dst fb =
     (if pa_imt a \<noteq> 0 then draw_fancy (PutPixels bo) dst (pa_w a) (pa_h a)
      else draw_test (PutPixels bo) dst (pa_w a) (pa_h a)) (\<lambda>_.
     sys (DirtyFB fd fb) (\<lambda>_.
     sys (P Getchar) (\<lambda>_.
     sys (P (Write s (msg_buf (print_fields [m, CMD_PLANE_STOP])))) (\<lambda>w.
     if rv w < 0 then perror ''could not send quit message to server'' (ret (Inr ()))
     else ret (Inl CMD_PLANE_STOP)))))"

definition plane_respond :: "plane_args \<Rightarrow> int \<Rightarrow> int \<Rightarrow> uint32 \<Rightarrow> int \<Rightarrow> uint32 list \<Rightarrow> uint32 \<Rightarrow>
    uint32 \<Rightarrow> (uint32 + unit, drm_call) io" where
  "plane_respond a s fd m bo dst fb cmd =
     (if cmd = CMD_AUTH then
        sys (P (Write s (msg_buf (print_fields [m, CMD_PLANE, pa_crtc a, pa_plane a, fb, pa_w a, pa_h a,
          pa_x a, pa_y a])))) (\<lambda>w.
        if rv w < 0 then perror ''could not send plane message to server'' (ret (Inr ()))
        else ret (Inl CMD_PLANE))
      else if cmd = CMD_PLANE then plane_show a s fd m bo dst fb
      else if cmd = CMD_PLANE_STOP then say [S ''server ok, quit...''] (ret (Inr ()))
      else say [S ''skip unexpected command = '', D (sint cmd)] (ret (Inl cmd)))"

definition drm_client_plane :: "int \<Rightarrow> (char \<times> byte list) list \<Rightarrow> (unit, drm_call) io" where
  "drm_client_plane rt0 opts = (case plane_parse opts plane_default of
     None \<Rightarrow> plane_usage (exit 0)
   | Some a \<Rightarrow>
     sys (P (Socket AF_UNIX SOCK_STREAM)) (\<lambda>k.
     if rv k < 0 then perror ''could not create socket'' (exit 255) else
     sys (P (Connect (rv k) (SockUn DRM_SERVER_NAME))) (\<lambda>c.
     if rv c < 0 then perror ''could not connect to server'' (err_close_net (rv k) (-1)) else
     sys (P (Open device_name)) (\<lambda>f.
     if rv f < 0 then perror ''cannot open drm device'' (err_close_net (rv k) rt0) else
     sys (DropMaster (rv f)) (\<lambda>_.
     sys (GetMagic (rv f)) (\<lambda>g.
     if rv g \<noteq> 0 then perror ''failed drmGetMagic'' (err_close_drm (rv k) (rv f) (rv g)) else
     find_plane (rv f) (pa_plane a) (err_close_drm (rv k) (rv f))
       (client_session (rv k) (rv f) (unum g 0) (pa_w a) (pa_h a)
         (\<lambda>bo dst fb. plane_respond a (rv k) (rv f) (unum g 0) bo dst fb))))))))"

section \<open>The conversation\<close>

definition plane_reqs :: "plane_args \<Rightarrow> uint32 \<Rightarrow> request list" where
  "plane_reqs a fb = [ReqAuth,
     ReqPlane (pa_crtc a) (pa_plane a) fb (pa_w a) (pa_h a) (pa_x a) (pa_y a), ReqPlaneStop]"

lemma plane_reqs_simps [simp]:
  "length (plane_reqs a fb) = 3" "plane_reqs a fb ! 0 = ReqAuth"
  "plane_reqs a fb ! 1 = ReqPlane (pa_crtc a) (pa_plane a) fb (pa_w a) (pa_h a) (pa_x a) (pa_y a)"
  "plane_reqs a fb ! 2 = ReqPlaneStop"
  "plane_reqs a fb ! Suc 0 = ReqPlane (pa_crtc a) (pa_plane a) fb (pa_w a) (pa_h a) (pa_x a) (pa_y a)"
  "plane_reqs a fb ! Suc 1 = ReqPlaneStop"
  by (simp_all add: plane_reqs_def One_nat_def numeral_2_eq_2)

lemma plane_wire:
  "msg_buf (print_fields [m, CMD_PLANE, cr, pl, fb, w, h, x, y]) = req_wire m (ReqPlane cr pl fb w h x y)"
  "msg_buf (print_fields [m, CMD_PLANE_STOP]) = req_wire m ReqPlaneStop"
  by (simp_all add: req_wire_def req_text_def)

lemma plane_responds:
  assumes K: "obeys K new_res" and H: "RFd s \<in> H" "RFd fd \<in> H" "RMap bo \<in> H" and i: "i < 3"
    and st: "stands H ms l" and t: "talk s m (plane_reqs a fb) (Suc i) ms"
    and ok: "Suc i \<le> oks s m ms"
  shows "wp (plane_respond a s fd m bo dst fb (req_code (plane_reqs a fb ! i)))
    (round_post s m (plane_reqs a fb) H) K N l"
proof -
  let ?reqs = "plane_reqs a fb"
  have said: "stands H ((P (Write s bs), w) # ms) (Ev (P (Write s bs)) w # l')"
    "Suc i < 3 \<Longrightarrow> bs = req_wire m (?reqs ! Suc i) \<Longrightarrow> talk s m ?reqs (Suc (Suc i)) ((P (Write s bs), w) # ms)"
    if "stands H ms l'" for w bs l'
    using stands_write [OF that H(1)] talk_write [OF t _ ok] by simp_all
  note post = round_postI [OF _ t]
  have sent_post: "round_post s m ?reqs H (Val (Inr ())) (Ev (P (Write s bs)) w # l')"
    "round_post s m ?reqs H (Val (Inl c)) (Ev (P (Write s bs)) w # l')"
    if "stands H ms l'" "Suc i < 3" "bs = req_wire m (?reqs ! Suc i)" "c = req_code (?reqs ! Suc i)"
    for w bs c l'
    using round_postI(3,4) [OF said(1) [OF that(1)] said(2) [OF that(1,2,3)]] that(2,4) by auto
  have draws: "wp (plane_show a s fd m bo dst fb) (round_post s m ?reqs H) K N l'"
    if "stands H ms l'" "i = 1" for l'
  proof -
    have tail: "wp (sys (DirtyFB fd fb) (\<lambda>_. sys (P Getchar) (\<lambda>_.
        sys (P (Write s (req_wire m ReqPlaneStop))) (\<lambda>w.
        if rv w < 0 then perror msg (ret (Inr ())) else ret (Inl CMD_PLANE_STOP)))))
        (round_post s m ?reqs H) K N l''" if "stands H ms l''" for l'' msg
    proof -
      have s1: "stands H ms (Ev (DirtyFB fd fb) x # l'')" for x
        using that H by (simp add: keeps)
      have s2: "stands H ms (Ev (P Getchar) y # Ev (DirtyFB fd fb) x # l'')" for x y
        using s1 by (simp add: keeps)
      show ?thesis
        by (intro wp_intro wp_ret [THEN iffD2])
          (use that s1 s2 \<open>i = 1\<close> in \<open>simp_all add: post sent_post numeral_2_eq_2 [symmetric]\<close>)
    qed
    show ?thesis
      unfolding plane_show_def plane_wire
      by (cases "pa_imt a = 0")
        (auto intro!: draw_fancy_stands [OF that(1)] draw_test_stands [OF that(1)] tail
          intro: post simp: H)
  qed
  consider "i = 0" | "i = 1" | "i = 2" using i by linarith
  then show ?thesis
  proof cases
    case 1
    then show ?thesis
      unfolding plane_respond_def plane_wire
      using st by (simp add: wp_simps post sent_post split: option.split)
  next
    case 2
    then show ?thesis
      using draws [OF st] by (simp add: plane_respond_def cmd_defs)
  next
    case 3
    then show ?thesis
      using st by (simp add: plane_respond_def cmd_defs wp_simps post)
  qed
qed


interpretation plane: conversation s m "plane_reqs a fb" "{RFd s, RFd fd, RMap bo} \<union> H"
    "plane_respond a s fd m bo dst fb" for s m a fb fd bo dst H
  by unfold_locales (auto intro!: plane_responds)

section \<open>The run\<close>

definition plane_plan :: "plane_args \<Rightarrow> request list \<Rightarrow> bool" where
  "plane_plan a reqs \<longleftrightarrow> (\<exists>fb. reqs = plane_reqs a fb)"

lemma drm_client_plane_good:
  assumes K: "obeys K new_res" and a: "plane_parse opts plane_default = Some a"
  shows "wp (drm_client_plane rt0 opts) (client_good (plane_plan a)) K N []"
proof -
  have said: "client_said (plane_plan a) []"
    by (rule client_said_Nil [where reqs = "plane_reqs a fb" for fb]) (auto simp: plane_plan_def)
  have leaves: "client_leaves {} ms" for ms by (simp add: client_leaves_def)
  have session: "wp (client_session s fd m (pa_w a) (pa_h a)
      (\<lambda>bo dst fb. plane_respond a s fd m bo dst fb)) (client_good (plane_plan a)) K N l"
    if "stands {RFd fd, RFd s} [] l" "fd \<noteq> s" for s fd m l
    by (rule client_session_good [OF K that, where reqs = "\<lambda>fb. plane_reqs a fb",
        OF _ _ _ plane.conversation_axioms]) (auto simp: plane_plan_def)
  have drm: "wp (find_plane fd i (err_close_drm s fd) (client_session s fd m (pa_w a) (pa_h a)
      (\<lambda>bo dst fb. plane_respond a s fd m bo dst fb))) (client_good (plane_plan a)) K N l"
    if st: "stands {RFd fd, RFd s} [] l" and fd: "fd \<noteq> s" for fd s i m l
    by (rule find_plane_stands [OF st])
      (auto simp: fd said leaves intro!: session client_goodI(1) [OF _ said]
        err_close_drm_good [OF K, where E = "{}" and ms = "[]"])
  have device: "wp (sys (DropMaster fd) (\<lambda>_. sys (GetMagic fd) (\<lambda>g. if rv g \<noteq> 0 then
      perror msg (err_close_drm s fd (rv g)) else find_plane fd i (err_close_drm s fd)
        (client_session s fd (unum g 0) (pa_w a) (pa_h a)
          (\<lambda>bo dst fb. plane_respond a s fd (unum g 0) bo dst fb)))))
      (client_good (plane_plan a)) K N l"
    if st: "stands {RFd fd, RFd s} [] l" and fd: "fd \<noteq> s" for fd s msg i l
  proof -
    have st1: "stands {RFd fd, RFd s} [] (Ev (DropMaster fd) r # l)" for r
      using st by (simp add: keeps)
    have st2: "stands {RFd fd, RFd s} [] (Ev (GetMagic fd) g # Ev (DropMaster fd) r # l)" for g r
      using st1 by (simp add: keeps)
    show ?thesis
      by (intro wp_intro)
        (use st st1 st2 in \<open>auto simp: fd said leaves
          intro!: drm err_close_drm_good [OF K, where E = "{}" and ms = "[]"]
          intro: client_goodI [OF _ said]\<close>)
  qed
  show ?thesis
    unfolding drm_client_plane_def a option.case
  proof (rule stands_step [OF K, of "{}" "[]"], goal_cases)
    case (5 k)
    then have k: "rv k < 0 \<Longrightarrow> stands {} [] (Ev (P (Socket AF_UNIX SOCK_STREAM)) k # [])"
      "\<not> rv k < 0 \<Longrightarrow> stands {RFd (rv k)} [] (Ev (P (Socket AF_UNIX SOCK_STREAM)) k # [])"
      by simp_all
    have c: "\<not> rv k < 0 \<Longrightarrow> stands {RFd (rv k)} [] (Ev (P (Connect (rv k) x)) c
        # Ev (P (Socket AF_UNIX SOCK_STREAM)) k # [])" for x c
      using k(2) by (simp add: keeps)
    have net: "\<not> rv k < 0 \<Longrightarrow> stands {RFd (rv k)} [] l \<Longrightarrow>
        wp (err_close_net (rv k) rt) (client_good (plane_plan a)) K N l" for rt l
      by (rule err_close_net_good [OF K, where E = "{}" and ms = "[]"]) (simp_all add: said leaves)
    have dev: "wp (sys (P (Open device_name)) (\<lambda>f.
       if rv f < 0 then perror msg0 (err_close_net (rv k) rt0) else
       sys (DropMaster (rv f)) (\<lambda>_. sys (GetMagic (rv f)) (\<lambda>g. if rv g \<noteq> 0 then
       perror msg (err_close_drm (rv k) (rv f) (rv g)) else
       find_plane (rv f) (pa_plane a) (err_close_drm (rv k) (rv f))
        (client_session (rv k) (rv f) (unum g 0) (pa_w a) (pa_h a)
          (\<lambda>bo dst fb. plane_respond a (rv k) (rv f) (unum g 0) bo dst fb))))))
      (client_good (plane_plan a)) K N l" if k: "\<not> rv k < 0" and st: "stands {RFd (rv k)} [] l"
      for msg0 msg l
      by (rule stands_step [OF K st])
        (use k in \<open>auto simp: needs_def wp_if wp_say insert_commute
          intro!: net device client_goodI(1) [OF st said]\<close>)
    show ?case
      by (intro dev wp_intro)
        (use k c in \<open>auto simp: leaves intro!: net dev intro: client_goodI [OF _ said]\<close>)
  qed (simp_all add: needs_def stands_def client_goodI said)
qed

lemma plane_said:
  assumes "client_said (plane_plan a) ms"
  shows "\<exists>s m fb j. j \<le> 3 \<and> sent ms = map (\<lambda>q. (s, req_wire m q)) (take j
      [ReqAuth, ReqPlane (pa_crtc a) (pa_plane a) fb (pa_w a) (pa_h a) (pa_x a) (pa_y a), ReqPlaneStop])
      \<and> j \<le> oks s m ms + 1"
proof -
  obtain s m fb j where "talk s m (plane_reqs a fb) j ms"
    using assms by (auto simp: client_said_def plane_plan_def)
  then have said: "j \<le> 3 \<and> sent ms = map (\<lambda>q. (s, req_wire m q)) (take j
      [ReqAuth, ReqPlane (pa_crtc a) (pa_plane a) fb (pa_w a) (pa_h a) (pa_x a) (pa_y a), ReqPlaneStop])
      \<and> j \<le> oks s m ms + 1"
    by (simp add: talk_def plane_reqs_def)
  show ?thesis
    by (rule exI [of _ s], rule exI [of _ m], rule exI [of _ fb], rule exI [of _ j], rule said)
qed

text \<open>A run in which the server accepts the magic and answers the plane request with an error.\<close>

definition plane_opts :: "(char \<times> byte list) list" where
  "plane_opts = [(CHR ''p'', [55]), (CHR ''w'', [52]), (CHR ''v'', [51])]"

definition plane_script :: "resp list" where
  "plane_script = [ok 4, ok 0, ok 5, ok 0, with_nums 0 [77],
     (ok 10)\<lparr>tables := [[6, 7]]\<rparr>, with_nums 11 [6], ok 0, with_nums 12 [7],
     with_nums 0 [20], with_nums 0 [21], with_nums 0 [16], with_nums 0 [8],
     (ok 0)\<lparr>tables := [replicate 12 0]\<rparr>, with_nums 0 [31], ok 1025,
     ready_fds [4], got [55, 55, 58, 48], ok 1025,
     ready_fds [4], got [55, 55, 58, 49], ok 0, ok 0, ok 0, ok 0, ok 0, ok 0]"

definition plane_kernel :: "drm_call kernel" where
  "plane_kernel = guarded new_res (play plane_script)"

lemmas plane_obeys = obeys_guarded [of new_res "play plane_script", folded plane_kernel_def]

definition plane_demo :: plane_args where
  "plane_demo = plane_default\<lparr>pa_plane := 7, pa_w := 4, pa_h := 3\<rparr>"

lemma plane_demo_opts: "plane_parse plane_opts plane_default = Some plane_demo"
  by code_simp

text \<open>
  C20: a run of \<open>drm_client_plane\<close>. It writes to the server the magic, the plane request with the
  ids, size and position of the command line, and the stop, in this order and each after one more
  answer \<open>DRM_OK\<close>. Counted being descriptors, the libkms driver, buffer objects, their mappings and
  frame buffers, every call uses only what the client owns; and on every exit all of it has been
  given back, except the frame buffer when the first message cannot be sent. The plane structures
  of libdrm are not counted, and they are never freed.
\<close>

theorem drm_client_plane_run:
  assumes "obeys K new_res" and "plane_parse opts plane_default = Some a"
  shows "wp (drm_client_plane rt0 opts) (\<lambda>x l. proper l \<and> (\<exists>s m fb j.
      j \<le> 3 \<and> sent (msgs l) = map (\<lambda>q. (s, req_wire m q)) (take j
        [ReqAuth, ReqPlane (pa_crtc a) (pa_plane a) fb (pa_w a) (pa_h a) (pa_x a) (pa_y a), ReqPlaneStop])
      \<and> j \<le> oks s m (msgs l) + 1) \<and>
    (\<forall>n. x = Exit n \<longrightarrow> client_leaves (held l) (msgs l))) K N []"
  by (rule wp_mono [OF drm_client_plane_good [OF assms]])
    (simp add: client_good_def plane_said)

theorem drm_client_plane_run_witness:
  "wp (drm_client_plane 0 plane_opts) (\<lambda>x l. proper l \<and> (\<exists>s m fb j.
      j \<le> 3 \<and> sent (msgs l) = map (\<lambda>q. (s, req_wire m q)) (take j
        [ReqAuth, ReqPlane (pa_crtc plane_demo) (pa_plane plane_demo) fb (pa_w plane_demo)
          (pa_h plane_demo) (pa_x plane_demo) (pa_y plane_demo), ReqPlaneStop])
      \<and> j \<le> oks s m (msgs l) + 1) \<and>
    (\<forall>n. x = Exit n \<longrightarrow> client_leaves (held l) (msgs l))) plane_kernel 3 [] \<and>
   wp (drm_client_plane 0 plane_opts) (\<lambda>x l. x = Exit 0 \<and> held l = {} \<and> length (sent (msgs l)) = 2)
     plane_kernel 3 []"
  by (rule conjI [OF drm_client_plane_run [OF plane_obeys plane_demo_opts]]) code_simp

end
