(* ===== verification/Drm_Dumb.thy ===== *)
theory Drm_Dumb
  imports Drm_Kms
begin

text \<open>
  The four test programs for dumb buffers: \<open>drm-tests/drm_dumb_bo.c\<close> (system calls on the device),
  \<open>drm_dumb_bo_libkms.c\<close>, \<open>drm_dumb_bo_plane.c\<close> and \<open>drm_dumb_bo_mult.c\<close> (a crtc and a plane). Each
  configures the display, sets up a buffer, draws, waits for keys, and gives back what it has taken
  through a chain of labels. \<open>rt0\<close> is what an uninitialised \<open>ret\<close> holds.
\<close>

section \<open>Steps\<close>

text \<open>The label \<open>err_close\<close> and the return from \<open>main\<close>.\<close>

definition dumb_close :: "int \<Rightarrow> int \<Rightarrow> (unit, drm_call) io" where
  "dumb_close fd rt = sys (P (Close fd)) (\<lambda>_. exit (rt mod 256))"

text \<open>
  Storing the current crtc and setting the new one; \<open>fail\<close> is the label for errors. The crtc read
  back is only printed.
\<close>

definition take_crtc :: "int \<Rightarrow> uint32 \<Rightarrow> uint32 \<Rightarrow> uint32 \<Rightarrow> byte list \<Rightarrow> (unit, drm_call) io \<Rightarrow>
    (resp \<Rightarrow> (unit, drm_call) io) \<Rightarrow> (unit, drm_call) io" where
  "take_crtc fd i fb con nm fail k =
     sys (GetCrtc fd i) (\<lambda>s.
     if rv s = 0 then perror ''failed drmModeGetCrtc(current)'' fail
     else
       dump_crtc_configuration ''saved_crtc'' s
       (sys (SetCrtc fd i fb 0 0 con nm) (\<lambda>r.
        if rv r \<noteq> 0 then perror ''failed drmModeSetCrtc(new)'' fail
        else
          sys (GetCrtc fd i) (\<lambda>c.
          if rv c \<noteq> 0 then dump_crtc_configuration ''current_crtc'' c (k s)
          else perror ''failed drmModeGetCrtc(new)'' (k s)))))"

definition restore_crtc :: "int \<Rightarrow> resp \<Rightarrow> uint32 \<Rightarrow> (unit, drm_call) io \<Rightarrow> (unit, drm_call) io" where
  "restore_crtc fd s con k =
     (if crtc_valid s then
        sys (SetCrtc fd (unum s 0) (unum s 1) (unum s 2) (unum s 3) con (crtc_mode_name s)) (\<lambda>r.
        if rv r \<noteq> 0 then perror ''failed drmModeSetCrtc(restore original)'' k else k)
      else k)"

text \<open>
  The configuration: automatic without arguments, otherwise from what \<open>getopt\<close> makes of them.
\<close>

definition dumb_config :: "int \<Rightarrow> byte list \<Rightarrow> (char \<times> byte list) list option \<Rightarrow> string \<Rightarrow>
    (kms_display \<Rightarrow> uint32 \<Rightarrow> (unit, drm_call) io) \<Rightarrow> (unit, drm_call) io" where
  "dumb_config fd name args msg k =
     bind (case args of
         None \<Rightarrow> drm_autoconf fd
       | Some opts \<Rightarrow> drm_get_conf_cmdline fd name opts) (\<lambda>c. case c of
       None \<Rightarrow> (case args of
           None \<Rightarrow> say [S msg] (dumb_close fd (-14))
         | Some opts \<Rightarrow> say [S ''failed to get KMS settings from command line''] (dumb_close fd (-22)))
     | Some kms \<Rightarrow> dump_drm_configuration kms (case crtc kms of
           None \<Rightarrow> fault ''crtc is NULL''
         | Some c \<Rightarrow> k kms (crtc_id_of c)))"

section \<open>With libkms\<close>

definition libkms_show :: "int \<Rightarrow> kms_display \<Rightarrow> uint32 \<Rightarrow> (unit, drm_call) io" where
  "libkms_show fd kms i =
     sys (KmsCreate fd) (\<lambda>c.
     if rv c \<noteq> 0 then perror ''failed kms_create()'' (dumb_close fd (rv c)) else
     let out = (\<lambda>_. drv_destroy (num c 0) (dumb_close fd));
         w = hdisplay (mode kms); h = vdisplay (mode kms); con = conn_id_of (connector kms) in
     bo_setup fd (num c 0) w h out (\<lambda>bo dst fb.
     take_crtc fd i fb con (mode_name (mode kms)) (bo_unmap bo out) (\<lambda>s.
     draw_test (PutPixels bo) dst w h (\<lambda>_.
     sys (DirtyFB fd fb) (\<lambda>_.
     sys (P Getchar) (\<lambda>_.
     restore_crtc fd s con
       (sys (RmFB fd fb) (\<lambda>_. bo_unmap bo out))))))))"

definition drm_dumb_bo_libkms :: "byte list \<Rightarrow> (char \<times> byte list) list option \<Rightarrow> (unit, drm_call) io" where
  "drm_dumb_bo_libkms name args =
     sys (P (Open device_name)) (\<lambda>f.
     if rv f < 0 then perror ''cannot open drm device'' (exit 255) else
     sys (SetMaster (rv f)) (\<lambda>_.
     dumb_config (rv f) name args ''failed to setup KMS'' (libkms_show (rv f))))"

section \<open>With system calls\<close>

text \<open>The labels of \<open>drm_dumb_bo\<close>; \<open>p\<close> and \<open>n\<close> are the address and the size of the mapping.\<close>

definition bo_err_destroy :: "int \<Rightarrow> uint32 \<Rightarrow> (unit, drm_call) io" where
  "bo_err_destroy fd hdl =
     sys (DestroyDumb fd hdl) (\<lambda>r.
     if rv r \<noteq> 0 then say [S ''cannot destroy dumb buffer''] (dumb_close fd (rv r))
     else dumb_close fd (rv r))"

definition bo_err_fb :: "int \<Rightarrow> uint32 \<Rightarrow> uint32 \<Rightarrow> (unit, drm_call) io" where
  "bo_err_fb fd hdl fb = sys (RmFB fd fb) (\<lambda>_. bo_err_destroy fd hdl)"

definition bo_err_unmap :: "int \<Rightarrow> uint32 \<Rightarrow> uint32 \<Rightarrow> int \<Rightarrow> int \<Rightarrow> (unit, drm_call) io" where
  "bo_err_unmap fd hdl fb p n = sys (Munmap p n) (\<lambda>_. bo_err_fb fd hdl fb)"

text \<open>From the check for dumb buffers on; \<open>dbo.fb\<close> is 0 until \<open>drmModeAddFB\<close> has set it.\<close>

definition dumb_show :: "int \<Rightarrow> kms_display \<Rightarrow> uint32 \<Rightarrow> (unit, drm_call) io" where
  "dumb_show fd kms i =
     sys (GetCap fd) (\<lambda>q.
     if rv q < 0 then perror ''failed drmGetCap(DRM_CAP_DUMB_BUFFER)'' (dumb_close fd (-14)) else
     if num q 0 = 0 then say [S ''driver does not support dumb buffers''] (dumb_close fd (-14)) else
     let w = hdisplay (mode kms); h = vdisplay (mode kms); con = conn_id_of (connector kms) in
     sys (CreateDumb fd w h) (\<lambda>d.
     if rv d \<noteq> 0 then perror ''failed drmIoctl(DRM_IOCTL_MODE_CREATE_DUMB)'' (dumb_close fd (rv d)) else
     sys (MapDumb fd (unum d 0)) (\<lambda>m.
     if rv m \<noteq> 0 then perror ''failed drmIoctl(DRM_IOCTL_MODE_MAP_DUMB)'' (bo_err_fb fd (unum d 0) 0) else
     sys (MmapDev fd (num d 2) (num m 0)) (\<lambda>p.
     if rv p = -1 then perror ''failed mmap()'' (bo_err_fb fd (unum d 0) 0) else
     sys (AddFB fd w h (unum d 1) (unum d 0)) (\<lambda>f.
     if rv f \<noteq> 0 then perror ''failed drmModeAddFB()'' (bo_err_destroy fd (unum d 0)) else
     let unmap = bo_err_unmap fd (unum d 0) (unum f 0) (rv p) (num d 2) in
     take_crtc fd i (unum f 0) con (mode_name (mode kms)) unmap (\<lambda>s.
     draw_test (PutMem (rv p)) (utable p 0) w h (\<lambda>_.
     sys (DirtyFB fd (unum f 0)) (\<lambda>_.
     sys (P Getchar) (\<lambda>_.
     restore_crtc fd s con unmap)))))))))"

definition drm_dumb_bo :: "byte list \<Rightarrow> (char \<times> byte list) list option \<Rightarrow> (unit, drm_call) io" where
  "drm_dumb_bo name args =
     sys (P (Open device_name)) (\<lambda>f.
     if rv f < 0 then perror ''cannot open drm device'' (exit 255) else
     sys (SetMaster (rv f)) (\<lambda>_.
     dumb_config (rv f) name args ''failed to autoconfigure KMS'' (dumb_show (rv f))))"

section \<open>On a plane\<close>

record dumb_args =
  da_x :: uint32
  da_y :: uint32
  da_w :: uint32
  da_h :: uint32
  da_plane :: uint32
  da_crtc :: uint32
  da_conn :: uint32
  da_mode :: "byte list option"

primrec dumb_plane_parse :: "(char \<times> byte list) list \<Rightarrow> dumb_args \<Rightarrow> dumb_args option" where
  "dumb_plane_parse [] a = Some a"
| "dumb_plane_parse (x # xs) a =
     (let v = word_of_int (atoi (snd x)) in
      if fst x = CHR ''x'' then dumb_plane_parse xs (a\<lparr>da_x := v\<rparr>)
      else if fst x = CHR ''y'' then dumb_plane_parse xs (a\<lparr>da_y := v\<rparr>)
      else if fst x = CHR ''w'' then dumb_plane_parse xs (a\<lparr>da_w := v\<rparr>)
      else if fst x = CHR ''v'' then dumb_plane_parse xs (a\<lparr>da_h := v\<rparr>)
      else if fst x = CHR ''p'' then dumb_plane_parse xs (a\<lparr>da_plane := v\<rparr>)
      else if fst x = CHR ''c'' then dumb_plane_parse xs (a\<lparr>da_crtc := v\<rparr>)
      else None)"

definition dumb_plane_usage :: "('a, drm_call) io \<Rightarrow> ('a, drm_call) io" where
  "dumb_plane_usage k =
     say [S ''usage: -h] -c <connector> -e <encoder> -m <mode>'']
     (say [S ''-h: this help message'']
     (say [S ''-c <crtc> crtc id, default is 0'']
     (say [S ''-p <plane> plane id, default is 0'']
     (say [S ''-x <posx> plane top left corner xpos, default is 0'']
     (say [S ''-y <posy> plane top left corner ypos, default is 0'']
     (say [S ''-w <width> plane width, default is 0'']
     (say [S ''-v <height> plane height, default is 0''] k)))))))"

definition dp_destroy_dumb :: "int \<Rightarrow> uint32 \<Rightarrow> (unit, drm_call) io" where
  "dp_destroy_dumb fd hdl =
     sys (DestroyDumb fd hdl) (\<lambda>r.
     if rv r \<noteq> 0 then say [S ''cannot destroy dumb buffer''] (dumb_close fd (rv r))
     else dumb_close fd (rv r))"

definition dp_destroy_fb :: "int \<Rightarrow> uint32 \<Rightarrow> uint32 \<Rightarrow> (unit, drm_call) io" where
  "dp_destroy_fb fd hdl fb = sys (RmFB fd fb) (\<lambda>_. dp_destroy_dumb fd hdl)"

definition dp_unmap :: "int \<Rightarrow> uint32 \<Rightarrow> uint32 \<Rightarrow> int \<Rightarrow> int \<Rightarrow> (unit, drm_call) io" where
  "dp_unmap fd hdl fb p n =
     (if p \<noteq> 0 then sys (Munmap p n) (\<lambda>_. dp_destroy_fb fd hdl fb) else dp_destroy_fb fd hdl fb)"

text \<open>The plane is shown, with two images, and switched off.\<close>

definition dp_draw :: "int \<Rightarrow> dumb_args \<Rightarrow> uint32 \<Rightarrow> int \<Rightarrow> uint32 list \<Rightarrow> (unit, drm_call) io \<Rightarrow>
    (unit, drm_call) io" where
  "dp_draw fd a fb p dst unmap =
     sys (SetPlane fd (da_plane a) (da_crtc a) fb (da_x a) (da_y a) (da_w a) (da_h a)
        (push_bit 16 (da_w a)) (push_bit 16 (da_h a))) (\<lambda>r.
     if rv r \<noteq> 0 then say [S ''cannot set plane''] unmap else
     draw_test (PutMem p) dst (da_w a) (da_h a) (\<lambda>dst.
     sys (P Getchar) (\<lambda>_.
     draw_fancy (PutMem p) dst (da_w a) (da_h a) (\<lambda>_.
     sys (P Getchar) (\<lambda>_.
     sys (SetPlane fd (da_plane a) 0 0 0 0 0 0 0 0) (\<lambda>_. unmap))))))"

text \<open>The size of the buffer goes through a \<open>uint32_t\<close>.\<close>

definition dp_buffer :: "int \<Rightarrow> dumb_args \<Rightarrow> (unit, drm_call) io" where
  "dp_buffer fd a =
     sys (CreateDumb fd (da_w a) (da_h a)) (\<lambda>d.
     if rv d \<noteq> 0 then say [S ''failed drmIoctl(DRM_IOCTL_MODE_CREATE_DUMB)''] (dumb_close fd (rv d)) else
     sys (AddFB fd (da_w a) (da_h a) (unum d 1) (unum d 0)) (\<lambda>f.
     if rv f \<noteq> 0 then
       say [S ''cannot add drm framebuffer for dumb buffer object''] (dp_destroy_dumb fd (unum d 0)) else
     sys (MapDumb fd (unum d 0)) (\<lambda>m.
     if rv m \<noteq> 0 then
       say [S ''failed drmIoctl(DRM_IOCTL_MODE_MAP_DUMB)''] (dp_destroy_fb fd (unum d 0) (unum f 0)) else
     sys (MmapDev fd (uint (unum d 2)) (num m 0)) (\<lambda>p.
     if rv p = -1 then say [S ''cannot mmap dumb buffer''] (dp_destroy_fb fd (unum d 0) (unum f 0)) else
     dp_draw fd a (unum f 0) (rv p) (utable p 0)
       (dp_unmap fd (unum d 0) (unum f 0) (rv p) (uint (unum d 2)))))))"

text \<open>\<open>a0\<close> is what the uninitialised variables of the options hold.\<close>

definition drm_dumb_bo_plane :: "dumb_args \<Rightarrow> (char \<times> byte list) list \<Rightarrow> (unit, drm_call) io" where
  "drm_dumb_bo_plane a0 opts = (case dumb_plane_parse opts a0 of
     None \<Rightarrow> dumb_plane_usage (exit 0)
   | Some a \<Rightarrow>
     sys (P (Open device_name)) (\<lambda>f.
     if rv f < 0 then perror ''cannot open drm device'' (exit 255) else
     sys (SetMaster (rv f)) (\<lambda>_.
     sys (GetCap (rv f)) (\<lambda>q.
     if rv q < 0 then perror ''DRM_CAP_DUMB_BUFFER ioctl'' (dumb_close (rv f) (-14)) else
     if num q 0 = 0 then
       say [S ''driver does not support dumb buffers''] (dumb_close (rv f) (-14)) else
     find_plane (rv f) (da_plane a) (dumb_close (rv f)) (dp_buffer (rv f) a)))))"

section \<open>On a crtc and a plane\<close>

definition dumb_mult_default :: dumb_args where
  "dumb_mult_default = \<lparr>da_x = 0, da_y = 0, da_w = 0, da_h = 0, da_plane = 0, da_crtc = 0,
     da_conn = 0, da_mode = None\<rparr>"

primrec dumb_mult_parse :: "(char \<times> byte list) list \<Rightarrow> dumb_args \<Rightarrow> dumb_args option" where
  "dumb_mult_parse [] a = Some a"
| "dumb_mult_parse (x # xs) a =
     (let v = word_of_int (atoi (snd x)) in
      if fst x = CHR ''m'' then dumb_mult_parse xs (a\<lparr>da_mode := Some (snd x)\<rparr>)
      else if fst x = CHR ''n'' then dumb_mult_parse xs (a\<lparr>da_conn := v\<rparr>)
      else if fst x = CHR ''x'' then dumb_mult_parse xs (a\<lparr>da_x := v\<rparr>)
      else if fst x = CHR ''y'' then dumb_mult_parse xs (a\<lparr>da_y := v\<rparr>)
      else if fst x = CHR ''w'' then dumb_mult_parse xs (a\<lparr>da_w := v\<rparr>)
      else if fst x = CHR ''v'' then dumb_mult_parse xs (a\<lparr>da_h := v\<rparr>)
      else if fst x = CHR ''p'' then dumb_mult_parse xs (a\<lparr>da_plane := v\<rparr>)
      else if fst x = CHR ''c'' then dumb_mult_parse xs (a\<lparr>da_crtc := v\<rparr>)
      else None)"

definition dumb_mult_usage :: "('a, drm_call) io \<Rightarrow> ('a, drm_call) io" where
  "dumb_mult_usage k =
     say [S ''usage: -h] -c <connector> -e <encoder> -m <mode>'']
     (say [S ''-h: this help message'']
     (say [S ''-n <connector> connector id, default is 0'']
     (say [S ''-m <mode> mode name, default is preferred'']
     (say [S ''-c <crtc> crtc id, default is 0'']
     (say [S ''-p <plane> plane id, default is 0'']
     (say [S ''-x <posx> plane top left corner xpos, default is 0'']
     (say [S ''-y <posy> plane top left corner ypos, default is 0'']
     (say [S ''-w <width> plane width, default is 0'']
     (say [S ''-v <height> plane height, default is 0''] k)))))))))"

text \<open>The plane, up to the label \<open>err_plane_rm_fb\<close>: \<open>rm_fb\<close>.\<close>

definition mult_draw :: "int \<Rightarrow> dumb_args \<Rightarrow> int \<Rightarrow> uint32 list \<Rightarrow> uint32 \<Rightarrow> (unit, drm_call) io \<Rightarrow>
    (unit, drm_call) io" where
  "mult_draw fd a bo dst fb rm_fb =
     sys (SetPlane fd (da_plane a) (da_crtc a) fb (da_x a) (da_y a) (da_w a) (da_h a)
        (push_bit 16 (da_w a)) (push_bit 16 (da_h a))) (\<lambda>r.
     if rv r \<noteq> 0 then say [S ''cannot set plane''] rm_fb else
     draw_clear (PutPixels bo) dst (da_w a) (da_h a) (\<lambda>dst.
     sys (P Getchar) (\<lambda>_.
     draw_fancy (PutPixels bo) dst (da_w a) (da_h a) (\<lambda>dst.
     sys (P Getchar) (\<lambda>_.
     draw_clear (PutPixels bo) dst (da_w a) (da_h a) (\<lambda>_.
     sys (P Getchar) (\<lambda>_.
     sys (SetPlane fd (da_plane a) 0 0 0 0 0 0 0 0) (\<lambda>_.
     sys (P Getchar) (\<lambda>_. rm_fb)))))))))"

definition mult_plane :: "int \<Rightarrow> int \<Rightarrow> dumb_args \<Rightarrow> (unit, drm_call) io \<Rightarrow> (unit, drm_call) io" where
  "mult_plane fd drv a crtc_exit =
     find_plane fd (da_plane a) (\<lambda>_. crtc_exit)
     (bo_setup fd drv (da_w a) (da_h a) (\<lambda>_. crtc_exit) (\<lambda>bo dst fb.
      mult_draw fd a bo dst fb
        (sys (RmFB fd fb) (\<lambda>_. bo_unmap bo (\<lambda>_. crtc_exit)))))"

text \<open>The crtc: its buffer, the background image, then the plane.\<close>

definition mult_crtc :: "int \<Rightarrow> int \<Rightarrow> dumb_args \<Rightarrow> mode_info \<Rightarrow> (unit, drm_call) io" where
  "mult_crtc fd drv a md =
     (let out = (\<lambda>_. drv_destroy drv (dumb_close fd)) in
      bo_setup fd drv (hdisplay md) (vdisplay md) out (\<lambda>bo dst fb.
      let rm_fb = sys (RmFB fd fb) (\<lambda>_. bo_unmap bo out) in
      take_crtc fd (da_crtc a) fb (da_conn a) (mode_name md) rm_fb (\<lambda>s.
      draw_test (PutPixels bo) dst (hdisplay md) (vdisplay md) (\<lambda>_.
      sys (DirtyFB fd fb) (\<lambda>_.
      sys (P Getchar) (\<lambda>_.
      mult_plane fd drv a (restore_crtc fd s (da_conn a) rm_fb)))))))"

definition drm_dumb_bo_mult :: "int \<Rightarrow> (char \<times> byte list) list \<Rightarrow> (unit, drm_call) io" where
  "drm_dumb_bo_mult rt0 opts = (case dumb_mult_parse opts dumb_mult_default of
     None \<Rightarrow> dumb_mult_usage (exit 0)
   | Some a \<Rightarrow>
     sys (P (Open device_name)) (\<lambda>f.
     if rv f < 0 then perror ''cannot open drm device'' (exit (rt0 mod 256)) else
     sys (SetMaster (rv f)) (\<lambda>_.
     sys (KmsCreate (rv f)) (\<lambda>c.
     if rv c \<noteq> 0 then perror ''failed kms_create()'' (dumb_close (rv f) (rv c)) else
     case da_mode a of
       None \<Rightarrow> fault ''mode_name is uninitialised''
     | Some nm \<Rightarrow>
         bind (drm_get_mode_by_name (rv f) (da_conn a) nm) (\<lambda>md. case md of
           None \<Rightarrow> perror ''failed drm_get_mode_by_name''
             (drv_destroy (num c 0) (dumb_close (rv f)))
         | Some t \<Rightarrow> mult_crtc (rv f) (num c 0) a t)))))"

section \<open>Everything is given back\<close>

definition all_back :: "unit res \<Rightarrow> drm_call history \<Rightarrow> bool" where
  "all_back x l \<longleftrightarrow> proper l \<and> (\<forall>n. x = Exit n \<longrightarrow> held l = {})"

lemma all_backI:
  assumes "stands H ms l"
  shows "all_back Wait l" "all_back (Fault e) l" "H = {} \<Longrightarrow> all_back (Exit n) l"
  using assms by (auto simp: all_back_def stands_def own_def)

lemma dumb_close_back:
  assumes "obeys K new_res" and st: "stands {RFd fd} ms l"
  shows "wp (dumb_close fd rt) all_back K N l"
  unfolding dumb_close_def
  by (rule stands_step [OF assms])
    (auto simp: needs_def wp_exit intro: all_backI all_backI [OF st])

text \<open>The clean-up of the driver, of a mapped buffer object, of its frame buffer.\<close>

lemma driver_back:
  assumes K: "obeys K new_res" and st: "stands H ms l" "H = {RFd fd, RDrv drv}"
  shows "wp (drv_destroy drv (dumb_close fd)) all_back K N l"
  by (rule drv_destroy_stands [OF K st(1)])
    (use st(2) in \<open>auto simp: insert_Diff_if intro: all_backI intro!: dumb_close_back [OF K]\<close>)

lemma take_crtc_stands:
  assumes st: "stands H ms l" "RFd fd \<in> H"
    and wait: "\<And>l. stands H ms l \<Longrightarrow> Q Wait l"
    and fail: "\<And>l. stands H ms l \<Longrightarrow> wp fail Q K N l"
    and k: "\<And>s l. stands H ms l \<Longrightarrow> wp (k s) Q K N l"
  shows "wp (take_crtc fd i fb con nm fail k) Q K N l"
  unfolding take_crtc_def dump_crtc_configuration_def
  by (intro wp_intro) (use st in \<open>auto simp: keeps intro!: wait fail k\<close>)

lemma restore_crtc_stands:
  assumes st: "stands H ms l" "RFd fd \<in> H"
    and wait: "\<And>l. stands H ms l \<Longrightarrow> Q Wait l"
    and k: "\<And>l. stands H ms l \<Longrightarrow> wp k Q K N l"
  shows "wp (restore_crtc fd s con k) Q K N l"
  unfolding restore_crtc_def
  by (intro wp_intro) (use st in \<open>auto simp: keeps intro!: wait k\<close>)

text \<open>A call that keeps the ledger, as a step.\<close>

lemma keep_step:
  assumes "stands H ms l" "needs c \<subseteq> H" "takes c = {}" "\<And>r. gives c r = {}" "\<not> is_msg c"
    and "Q Wait l" "\<And>r l. stands H ms l \<Longrightarrow> wp (k r) Q K N l"
  shows "wp (sys c k) Q K N l"
  using assms by (intro wp_stepI) (auto simp: stands_keep)

section \<open>The plane program\<close>

lemma dp_destroy_dumb_back:
  assumes K: "obeys K new_res" and st: "stands H ms l" "H = {RFd fd, RDumb hdl}"
  shows "wp (dp_destroy_dumb fd hdl) all_back K N l"
  unfolding dp_destroy_dumb_def
  by (rule stands_step [OF K st(1)])
    (use st(2) in \<open>auto simp: needs_def wp_if wp_say insert_Diff_if
      intro: all_backI [OF st(1)] intro!: dumb_close_back [OF K]\<close>)

lemma dp_destroy_fb_back:
  assumes K: "obeys K new_res" and st: "stands H ms l" "H = {RFd fd, RDumb hdl, RFb fb}"
  shows "wp (dp_destroy_fb fd hdl fb) all_back K N l"
  unfolding dp_destroy_fb_def
  by (rule stands_step [OF K st(1)])
    (use st(2) in \<open>auto simp: needs_def insert_Diff_if
      intro: all_backI [OF st(1)] intro!: dp_destroy_dumb_back [OF K]\<close>)

lemma dp_unmap_back:
  assumes K: "obeys K new_res" and st: "stands H ms l" "H = {RFd fd, RDumb hdl, RFb fb, RRegion p}"
    and p: "p \<noteq> 0"
  shows "wp (dp_unmap fd hdl fb p n) all_back K N l"
  unfolding dp_unmap_def if_P [OF p]
  by (rule stands_step [OF K st(1)])
    (use st(2) in \<open>auto simp: needs_def insert_Diff_if
      intro: all_backI [OF st(1)] intro!: dp_destroy_fb_back [OF K]\<close>)

lemma dp_draw_back:
  assumes st: "stands H ms l" "RFd fd \<in> H" "RRegion p \<in> H"
    and unmap: "\<And>l. stands H ms l \<Longrightarrow> wp unmap all_back K N l"
  shows "wp (dp_draw fd a fb p dst unmap) all_back K N l"
proof -
  note wait = all_backI(1) all_backI(2)
  have off: "wp (sys (SetPlane fd i 0 0 0 0 0 0 0 0) (\<lambda>_. unmap)) all_back K N l"
    if "stands H ms l" for i l
    by (rule keep_step [OF that]) (use st(2) in \<open>auto simp: needs_def intro: wait [OF that] unmap\<close>)
  have key: "wp (sys (P Getchar) (\<lambda>_. k)) all_back K N l"
    if "stands H ms l" "\<And>l. stands H ms l \<Longrightarrow> wp k all_back K N l" for k l
    by (rule keep_step [OF that(1)]) (auto simp: needs_def intro: wait [OF that(1)] that(2))
  have draw: "wp (draw_test (PutMem p) dst w h (\<lambda>dst. sys (P Getchar) (\<lambda>_.
      draw_fancy (PutMem p) dst w h (\<lambda>_. sys (P Getchar) (\<lambda>_.
      sys (SetPlane fd i 0 0 0 0 0 0 0 0) (\<lambda>_. unmap)))))) all_back K N l"
    if "stands H ms l" for l w h i
    by (intro draw_test_stands [OF that] draw_fancy_stands key off) (auto simp: st(3) intro: wait)
  show ?thesis
    unfolding dp_draw_def
    by (rule keep_step [OF st(1)])
      (use st(2) in \<open>auto simp: needs_def wp_if wp_say intro: wait [OF st(1)] intro!: unmap draw\<close>)
qed

lemma dp_buffer_back:
  assumes K: "obeys K new_res" and st: "stands {RFd fd} ms l"
  shows "wp (dp_buffer fd a) all_back K N l"
proof -
  note wait = all_backI(1)
  let ?H = "\<lambda>d. {RFd fd, RDumb d}" and ?F = "\<lambda>d f. {RFd fd, RDumb d, RFb f}"
  have mem: "wp (sys (MmapDev fd n off) (\<lambda>p. if rv p = -1 then say os (dp_destroy_fb fd d f)
      else dp_draw fd a f (rv p) (utable p 0) (dp_unmap fd d f (rv p) n))) all_back K N l"
    if st: "stands (?F d f) ms l" for d f n off os l
    by (rule stands_step [OF K st])
      (auto simp: needs_def wp_if wp_say intro: wait [OF st]
        intro!: dp_destroy_fb_back [OF K] dp_draw_back dp_unmap_back [OF K])
  have map: "wp (sys (MapDumb fd d) (\<lambda>m. if rv m \<noteq> 0 then say os (dp_destroy_fb fd d f)
      else sys (MmapDev fd n (num m 0)) (\<lambda>p. if rv p = -1 then say os' (dp_destroy_fb fd d f)
      else dp_draw fd a f (rv p) (utable p 0) (dp_unmap fd d f (rv p) n)))) all_back K N l"
    if st: "stands (?F d f) ms l" for d f n os os' l
    by (rule keep_step [OF st])
      (auto simp: needs_def wp_if wp_say intro: wait [OF st] intro!: dp_destroy_fb_back [OF K] mem)
  have fb: "wp (sys (AddFB fd w h s d) (\<lambda>f. if rv f \<noteq> 0 then say os (dp_destroy_dumb fd d)
      else sys (MapDumb fd d) (\<lambda>m. if rv m \<noteq> 0 then say os' (dp_destroy_fb fd d (unum f 0))
      else sys (MmapDev fd n (num m 0)) (\<lambda>p. if rv p = -1 then say os'' (dp_destroy_fb fd d (unum f 0))
      else dp_draw fd a (unum f 0) (rv p) (utable p 0) (dp_unmap fd d (unum f 0) (rv p) n)))))
      all_back K N l"
    if st: "stands (?H d) ms l" for d w h s n os os' os'' l
    by (rule stands_step [OF K st])
      (auto simp: needs_def wp_if wp_say intro: wait [OF st] intro!: dp_destroy_dumb_back [OF K] map)
  show ?thesis
    unfolding dp_buffer_def
    by (rule stands_step [OF K st])
      (auto simp: needs_def wp_if wp_say intro: wait [OF st] intro!: dumb_close_back [OF K] fb)
qed

lemma drm_dumb_bo_plane_back:
  assumes K: "obeys K new_res"
  shows "wp (drm_dumb_bo_plane a0 opts) all_back K N []"
proof (cases "dumb_plane_parse opts a0")
  case None
  then show ?thesis
    by (simp add: drm_dumb_bo_plane_def dumb_plane_usage_def wp_say wp_exit all_back_def)
next
  case (Some a)
  note wait = all_backI(1)
  have run: "wp (sys (SetMaster fd) (\<lambda>_. sys (GetCap fd) (\<lambda>q.
     if rv q < 0 then say os (dumb_close fd (-14)) else
     if num q 0 = 0 then say os' (dumb_close fd (-14)) else
     find_plane fd i (dumb_close fd) (dp_buffer fd a)))) all_back K N l"
    if st: "stands {RFd fd} [] l" for fd os os' i l
    by (intro wp_intro find_plane_stands)
      (use st in \<open>auto simp: keeps intro!: dumb_close_back [OF K] dp_buffer_back [OF K]
        wait [where H = "{RFd fd}"]\<close>)
  show ?thesis
    unfolding drm_dumb_bo_plane_def Some option.case
    by (rule stands_step [OF K, of "{}" "[]"])
      (auto simp: needs_def stands_def wp_if wp_say wp_exit all_back_def own_def intro!: run)
qed

section \<open>The program for crtc and plane\<close>

lemma unmap_back:
  assumes K: "obeys K new_res" and st: "stands H ms l"
    "H = {RBo bo, RMap bo, RFd fd, RDrv drv}"
  shows "wp (bo_unmap bo (\<lambda>_. drv_destroy drv (dumb_close fd))) all_back K N l"
proof (rule bo_unmap_stands [OF K st(1)])
  show "wp (drv_destroy drv (dumb_close fd)) all_back K N l"
    if "stands (H - {RMap bo} - {RBo bo}) ms l" for l
    by (rule driver_back [OF K that]) (use st(2) in auto)
qed (use st in \<open>auto intro: all_backI\<close>)

lemma rm_fb_back:
  assumes K: "obeys K new_res" and st: "stands H ms l"
    "H = {RBo bo, RMap bo, RFb fb, RFd fd, RDrv drv}"
  shows "wp (sys (RmFB fd fb) (\<lambda>_. bo_unmap bo (\<lambda>_. drv_destroy drv (dumb_close fd)))) all_back K N l"
  by (rule stands_step [OF K st(1)])
    (use st in \<open>auto simp: needs_def insert_Diff_if intro: all_backI [OF st(1)] intro!: unmap_back [OF K]\<close>)

lemma mult_draw_back:
  assumes st: "stands H ms l" "RFd fd \<in> H" "RMap bo \<in> H"
    and rm: "\<And>l. stands H ms l \<Longrightarrow> wp rm_fb all_back K N l"
  shows "wp (mult_draw fd a bo dst fb rm_fb) all_back K N l"
proof -
  note wait = all_backI(1) all_backI(2)
  have key: "wp (sys (P Getchar) (\<lambda>_. k)) all_back K N l"
    if "stands H ms l" "\<And>l. stands H ms l \<Longrightarrow> wp k all_back K N l" for k l
    by (rule keep_step [OF that(1)]) (auto simp: needs_def intro: wait [OF that(1)] that(2))
  have off: "wp (sys (SetPlane fd i 0 0 0 0 0 0 0 0) (\<lambda>_. k)) all_back K N l"
    if "stands H ms l" "\<And>l. stands H ms l \<Longrightarrow> wp k all_back K N l" for i l k
    by (rule keep_step [OF that(1)])
      (use st(2) in \<open>auto simp: needs_def intro: wait [OF that(1)] that(2)\<close>)
  have draw: "wp (draw_clear (PutPixels bo) dst w h (\<lambda>dst. sys (P Getchar) (\<lambda>_.
      draw_fancy (PutPixels bo) dst w h (\<lambda>dst. sys (P Getchar) (\<lambda>_.
      draw_clear (PutPixels bo) dst w h (\<lambda>_. sys (P Getchar) (\<lambda>_.
      sys (SetPlane fd i 0 0 0 0 0 0 0 0) (\<lambda>_. sys (P Getchar) (\<lambda>_. rm_fb)))))))))
      all_back K N l" if "stands H ms l" for l w h i
    by (intro draw_clear_stands [OF that] draw_clear_stands draw_fancy_stands key off)
      (auto simp: st(3) intro: wait rm)
  show ?thesis
    unfolding mult_draw_def
    by (rule keep_step [OF st(1)])
      (use st(2) in \<open>auto simp: needs_def wp_if wp_say intro: wait [OF st(1)] intro!: rm draw\<close>)
qed

lemma mult_plane_back:
  assumes K: "obeys K new_res" and st: "stands H ms l" "RFd fd \<in> H" "RDrv drv \<in> H"
    and out: "\<And>l. stands H ms l \<Longrightarrow> wp crtc_exit all_back K N l"
  shows "wp (mult_plane fd drv a crtc_exit) all_back K N l"
proof -
  note wait = all_backI(1)
  have undo: "wp (sys (RmFB fd fb) (\<lambda>_. bo_unmap bo (\<lambda>_. crtc_exit))) all_back K N l"
    if "stands (H \<union> {RBo bo, RMap bo, RFb fb}) ms l" "RBo bo \<notin> H" "RMap bo \<notin> H" "RFb fb \<notin> H"
    for fb bo l
  proof (rule stands_step [OF K that(1)])
    fix r
    let ?l = "Ev (RmFB fd fb) r # l"
    assume "stands (H \<union> {RBo bo, RMap bo, RFb fb} - takes (RmFB fd fb) \<union> gives (RmFB fd fb) r) ms ?l"
    moreover have "H \<union> {RBo bo, RMap bo, RFb fb} - takes (RmFB fd fb) \<union> gives (RmFB fd fb) r =
        H \<union> {RBo bo, RMap bo}" using that by auto
    ultimately have st': "stands (H \<union> {RBo bo, RMap bo}) ms ?l" by simp
    have left: "H \<union> {RBo bo, RMap bo} - {RMap bo} - {RBo bo} = H" using that by auto
    show "wp (bo_unmap bo (\<lambda>_. crtc_exit)) all_back K N ?l"
    proof (rule bo_unmap_stands [OF K st'])
      show "wp crtc_exit all_back K N l"
        if "stands (H \<union> {RBo bo, RMap bo} - {RMap bo} - {RBo bo}) ms l" for l
        using that unfolding left by (rule out)
    qed (auto intro: wait)
  qed (use st that in \<open>auto simp: needs_def intro: wait [OF that(1)]\<close>)
  have draw: "wp (mult_draw fd a bo dst fb (sys (RmFB fd fb) (\<lambda>_. bo_unmap bo (\<lambda>_. crtc_exit))))
      all_back K N l"
    if "stands (H \<union> {RBo bo, RMap bo, RFb fb}) ms l" "RBo bo \<notin> H" "RMap bo \<notin> H" "RFb fb \<notin> H"
    for fb bo dst l
    by (rule mult_draw_back [OF that(1)]) (use st(2) that undo in auto)
  have buffer: "wp (bo_setup fd drv w h (\<lambda>_. crtc_exit) (\<lambda>bo dst fb. mult_draw fd a bo dst fb
      (sys (RmFB fd fb) (\<lambda>_. bo_unmap bo (\<lambda>_. crtc_exit))))) all_back K N l"
    if "stands H ms l" for w h l
    by (rule bo_setup_stands [OF K that st(3,2)]) (auto intro: wait out draw)
  show ?thesis
    unfolding mult_plane_def
    by (rule find_plane_stands [OF st(1,2)]) (auto intro: wait out buffer)
qed

lemma mult_crtc_back:
  assumes K: "obeys K new_res" and st: "stands {RFd fd, RDrv drv} ms l"
  shows "wp (mult_crtc fd drv a md) all_back K N l"
proof -
  note wait = all_backI(1) all_backI(2)
  let ?H = "\<lambda>bo fb. {RFd fd, RDrv drv} \<union> {RBo bo, RMap bo, RFb fb}"
  let ?rm = "\<lambda>bo fb. sys (RmFB fd fb) (\<lambda>_. bo_unmap bo (\<lambda>_. drv_destroy drv (dumb_close fd)))"
  have rm: "wp (?rm bo fb) all_back K N l" if "stands (?H bo fb) ms l" for bo fb l
    by (rule rm_fb_back [OF K that]) auto
  have exit: "wp (restore_crtc fd s co (?rm bo fb)) all_back K N l"
    if "stands (?H bo fb) ms l" for s co bo fb l
    by (rule restore_crtc_stands [OF that]) (auto intro: wait rm)
  have plane: "wp (mult_plane fd drv a (restore_crtc fd s co (?rm bo fb))) all_back K N l"
    if "stands (?H bo fb) ms l" for s co bo fb l
    by (rule mult_plane_back [OF K that]) (auto intro: exit)
  have key: "wp (sys (P Getchar) (\<lambda>_. mult_plane fd drv a (restore_crtc fd s co (?rm bo fb))))
      all_back K N l" if "stands (?H bo fb) ms l" for s co bo fb l
    by (rule keep_step [OF that]) (auto simp: needs_def intro: wait [OF that] plane)
  have shown: "wp (sys (DirtyFB fd fb) (\<lambda>_. sys (P Getchar) (\<lambda>_.
      mult_plane fd drv a (restore_crtc fd s co (?rm bo fb))))) all_back K N l"
    if "stands (?H bo fb) ms l" for s co bo fb l
    by (rule keep_step [OF that]) (auto simp: needs_def intro: wait [OF that] key)
  have draw: "wp (draw_test (PutPixels bo) dst w h (\<lambda>_. sys (DirtyFB fd fb) (\<lambda>_. sys (P Getchar) (\<lambda>_.
      mult_plane fd drv a (restore_crtc fd s co (?rm bo fb)))))) all_back K N l"
    if "stands (?H bo fb) ms l" for s co bo fb dst w h l
    by (rule draw_test_stands [OF that]) (auto intro: wait shown)
  have crtc: "wp (take_crtc fd i fb co nm (?rm bo fb) (\<lambda>s. draw_test (PutPixels bo) dst w h (\<lambda>_.
      sys (DirtyFB fd fb) (\<lambda>_. sys (P Getchar) (\<lambda>_.
      mult_plane fd drv a (restore_crtc fd s co (?rm bo fb))))))) all_back K N l"
    if "stands (?H bo fb) ms l" for i nm co bo fb dst w h l
    by (rule take_crtc_stands [OF that]) (auto intro: wait rm draw)
  show ?thesis
    unfolding mult_crtc_def Let_def
    by (rule bo_setup_stands [OF K st]) (auto intro: wait crtc driver_back [OF K])
qed

lemma drm_dumb_bo_mult_back:
  assumes K: "obeys K new_res"
  shows "wp (drm_dumb_bo_mult rt0 opts) all_back K N []"
proof (cases "dumb_mult_parse opts dumb_mult_default")
  case None
  then show ?thesis
    by (simp add: drm_dumb_bo_mult_def dumb_mult_usage_def wp_say wp_exit all_back_def)
next
  case (Some a)
  note wait = all_backI(1) all_backI(2)
  have mode: "wp (bind (drm_get_mode_by_name fd co nm) (\<lambda>md. case md of
      None \<Rightarrow> say os (drv_destroy drv (dumb_close fd)) | Some t \<Rightarrow> mult_crtc fd drv a t)) all_back K N l"
    if "stands {RFd fd, RDrv drv} [] l" for fd drv os nm co l
    by (rule wp_bind_steady [OF drm_get_mode_by_name_looks [OF looks_stands that]])
      (auto simp: wp_say intro: wait driver_back [OF K] mult_crtc_back [OF K] split: option.split)
  have kms: "wp (sys (KmsCreate fd) (\<lambda>c. if rv c \<noteq> 0 then say os (dumb_close fd (rv c)) else
      case da_mode a of None \<Rightarrow> fault e
      | Some nm \<Rightarrow> bind (drm_get_mode_by_name fd (da_conn a) nm) (\<lambda>md. case md of
          None \<Rightarrow> say os' (drv_destroy (num c 0) (dumb_close fd))
        | Some t \<Rightarrow> mult_crtc fd (num c 0) a t))) all_back K N l"
    if st: "stands {RFd fd} [] l" for fd os e os' l
    by (rule stands_step [OF K st])
      (auto simp: needs_def wp_if wp_say wp_fault intro: wait [OF st] intro!: dumb_close_back [OF K]
        mode intro: wait split: option.split)
  have run: "wp (sys (SetMaster fd) (\<lambda>_. sys (KmsCreate fd) (\<lambda>c. if rv c \<noteq> 0
      then say os (dumb_close fd (rv c)) else case da_mode a of None \<Rightarrow> fault e
      | Some nm \<Rightarrow> bind (drm_get_mode_by_name fd (da_conn a) nm) (\<lambda>md. case md of
          None \<Rightarrow> say os' (drv_destroy (num c 0) (dumb_close fd))
        | Some t \<Rightarrow> mult_crtc fd (num c 0) a t)))) all_back K N l"
    if st: "stands {RFd fd} [] l" for fd os e os' l
    by (rule keep_step [OF st]) (auto simp: needs_def intro: wait [OF st] kms)
  show ?thesis
    unfolding drm_dumb_bo_mult_def Some option.case
    by (rule stands_step [OF K, of "{}" "[]"])
      (auto simp: needs_def stands_def wp_if wp_say wp_exit all_back_def own_def intro!: run)
qed

section \<open>The libkms program\<close>

text \<open>As \<open>all_back\<close>, but for a frame buffer.\<close>

definition but_fb :: "unit res \<Rightarrow> drm_call history \<Rightarrow> bool" where
  "but_fb x l \<longleftrightarrow> proper l \<and> (\<forall>n. x = Exit n \<longrightarrow> held l \<subseteq> range RFb)"

lemma but_fbI:
  assumes "stands H ms l"
  shows "but_fb Wait l" "but_fb (Fault e) l" "H \<subseteq> range RFb \<Longrightarrow> but_fb (Exit n) l"
  using assms by (auto simp: but_fb_def stands_def own_def)

lemma dumb_close_but_fb:
  assumes K: "obeys K new_res" and st: "stands (insert (RFd fd) E) ms l" and E: "E \<subseteq> range RFb"
  shows "wp (dumb_close fd rt) but_fb K N l"
  unfolding dumb_close_def
  by (rule stands_step [OF K st])
    (use E in \<open>auto simp: needs_def wp_exit intro: but_fbI(1) [OF st] intro!: but_fbI(3)\<close>)

lemma driver_but_fb:
  assumes K: "obeys K new_res" and st: "stands H ms l" "H = {RFd fd, RDrv drv} \<union> E"
    and E: "E \<subseteq> range RFb"
  shows "wp (drv_destroy drv (dumb_close fd)) but_fb K N l"
proof (rule drv_destroy_stands [OF K st(1)])
  have left: "H - {RDrv drv} = insert (RFd fd) E" using st(2) E by auto
  show "wp (dumb_close fd r) but_fb K N l" if "stands (H - {RDrv drv}) ms l" for r l
    using that unfolding left by (rule dumb_close_but_fb [OF K _ E])
qed (use st in \<open>auto intro: but_fbI\<close>)

lemma unmap_but_fb:
  assumes K: "obeys K new_res" and st: "stands H ms l"
    "H = {RBo bo, RMap bo, RFd fd, RDrv drv} \<union> E" and E: "E \<subseteq> range RFb"
  shows "wp (bo_unmap bo (\<lambda>_. drv_destroy drv (dumb_close fd))) but_fb K N l"
proof (rule bo_unmap_stands [OF K st(1)])
  have left: "H - {RMap bo} - {RBo bo} = {RFd fd, RDrv drv} \<union> E" using st(2) E by auto
  show "wp (drv_destroy drv (dumb_close fd)) but_fb K N l"
    if "stands (H - {RMap bo} - {RBo bo}) ms l" for l
    by (rule driver_but_fb [OF K that left E])
qed (use st in \<open>auto intro: but_fbI\<close>)

text \<open>
  The libkms program, from its configuration on: every call uses only what the program owns, and
  on exit all has been given back except possibly the frame buffer, which two error paths (the crtc
  cannot be read, or not be set) leave behind.
\<close>

theorem libkms_show_leaves:
  assumes K: "obeys K new_res" and fd: "own {RFd fd} l"
  shows "wp (libkms_show fd kms i)
    (\<lambda>x l. proper l \<and> (\<forall>n. x = Exit n \<longrightarrow> held l \<subseteq> range RFb)) K N l"
proof -
  note wait = but_fbI(1) but_fbI(2)
  let ?H = "\<lambda>drv bo fb. {RFd fd, RDrv drv} \<union> {RBo bo, RMap bo, RFb fb}"
  let ?un = "\<lambda>drv bo. bo_unmap bo (\<lambda>_. drv_destroy drv (dumb_close fd))"
  have st: "stands {RFd fd} (msgs l) l" using fd by (simp add: stands_def)
  have unmap: "wp (?un drv bo) but_fb K N l'" if "stands (?H drv bo fb) (msgs l) l'" for drv bo fb l'
    by (rule unmap_but_fb [OF K that, where E = "{RFb fb}"]) auto
  have rm: "wp (sys (RmFB fd fb) (\<lambda>_. ?un drv bo)) but_fb K N l'"
    if "stands (?H drv bo fb) (msgs l) l'" for drv bo fb l'
    by (rule stands_step [OF K that])
      (auto simp: needs_def insert_Diff_if intro: wait(1) [OF that] intro!: unmap_but_fb [OF K, where E = "{}"])
  have restore: "wp (restore_crtc fd s co (sys (RmFB fd fb) (\<lambda>_. ?un drv bo))) but_fb K N l'"
    if "stands (?H drv bo fb) (msgs l) l'" for s co drv bo fb l'
    by (rule restore_crtc_stands [OF that]) (auto intro: wait rm)
  have key: "wp (sys (P Getchar) (\<lambda>_. restore_crtc fd s co (sys (RmFB fd fb) (\<lambda>_. ?un drv bo))))
      but_fb K N l'" if "stands (?H drv bo fb) (msgs l) l'" for s co drv bo fb l'
    by (rule keep_step [OF that]) (auto simp: needs_def intro: wait(1) [OF that] restore)
  have dirty: "wp (sys (DirtyFB fd fb) (\<lambda>_. sys (P Getchar) (\<lambda>_.
      restore_crtc fd s co (sys (RmFB fd fb) (\<lambda>_. ?un drv bo))))) but_fb K N l'"
    if "stands (?H drv bo fb) (msgs l) l'" for s co drv bo fb l'
    by (rule keep_step [OF that]) (auto simp: needs_def intro: wait(1) [OF that] key)
  have draw: "wp (draw_test (PutPixels bo) dst w h (\<lambda>_. sys (DirtyFB fd fb) (\<lambda>_. sys (P Getchar) (\<lambda>_.
      restore_crtc fd s co (sys (RmFB fd fb) (\<lambda>_. ?un drv bo)))))) but_fb K N l'"
    if "stands (?H drv bo fb) (msgs l) l'" for s co drv bo fb dst w h l'
    by (rule draw_test_stands [OF that]) (auto intro: wait dirty)
  have crtc: "wp (take_crtc fd i fb co nm (?un drv bo) (\<lambda>s. draw_test (PutPixels bo) dst w h (\<lambda>_.
      sys (DirtyFB fd fb) (\<lambda>_. sys (P Getchar) (\<lambda>_.
      restore_crtc fd s co (sys (RmFB fd fb) (\<lambda>_. ?un drv bo))))))) but_fb K N l'"
    if "stands (?H drv bo fb) (msgs l) l'" for nm co drv bo fb dst w h l'
    by (rule take_crtc_stands [OF that]) (auto intro: wait unmap draw)
  have buffer: "wp (bo_setup fd drv w h (\<lambda>_. drv_destroy drv (dumb_close fd)) (\<lambda>bo dst fb.
      take_crtc fd i fb co nm (?un drv bo) (\<lambda>s. draw_test (PutPixels bo) dst w h (\<lambda>_.
      sys (DirtyFB fd fb) (\<lambda>_. sys (P Getchar) (\<lambda>_.
      restore_crtc fd s co (sys (RmFB fd fb) (\<lambda>_. ?un drv bo)))))))) but_fb K N l'"
    if "stands {RFd fd, RDrv drv} (msgs l) l'" for drv w h co nm l'
    by (rule bo_setup_stands [OF K that]) (auto intro: wait crtc driver_but_fb [OF K, where E = "{}"])
  have "wp (libkms_show fd kms i) but_fb K N l"
    unfolding libkms_show_def Let_def
    by (rule stands_step [OF K st])
      (auto simp: needs_def wp_if wp_say intro: wait(1) [OF st]
        intro!: buffer dumb_close_but_fb [OF K, where E = "{}"])
  then show ?thesis by (rule wp_mono) (simp add: but_fb_def)
qed

section \<open>The properties\<close>

definition dumb_script :: "resp list" where
  "dumb_script = [ok 3, ok 0, with_nums 0 [1], (ok 10)\<lparr>tables := [[7]]\<rparr>, with_nums 12 [7],
     with_nums 0 [8, 16, 48], with_nums 0 [31], with_nums 0 [0],
     (ok 64)\<lparr>tables := [replicate 12 0]\<rparr>, ok 1, ok 0, ok 0, ok 0, ok 0]"

definition dumb_opts :: "(char \<times> byte list) list" where
  "dumb_opts = [(CHR ''p'', [55]), (CHR ''w'', [52]), (CHR ''v'', [51])]"

text \<open>
  C21: what \<open>drm_dumb_bo_mult\<close> and \<open>drm_dumb_bo_plane\<close> own, counted being descriptors, libkms
  drivers, buffer objects, their mappings, dumb buffers, memory regions and frame buffers. In every
  run, for all options and all errors of the libraries, each call uses only what the program owns at
  that point, and when the program exits it owns none of these any more. Not counted are the
  structures that libdrm allocates for its answers (resource lists, connectors, planes, crtcs); some
  of them the programs never free.
\<close>

theorem drm_dumb_programs_give_back:
  assumes "obeys K new_res"
  shows "wp (drm_dumb_bo_mult rt0 opts) (\<lambda>x l. proper l \<and> (\<forall>n. x = Exit n \<longrightarrow> held l = {})) K N [] \<and>
    wp (drm_dumb_bo_plane a0 opts') (\<lambda>x l. proper l \<and> (\<forall>n. x = Exit n \<longrightarrow> held l = {})) K N []"
  using drm_dumb_bo_mult_back [OF assms] drm_dumb_bo_plane_back [OF assms]
  unfolding all_back_def by blast

theorem drm_dumb_programs_give_back_witness:
  "(wp (drm_dumb_bo_mult 0 dumb_opts) (\<lambda>x l. proper l \<and> (\<forall>n. x = Exit n \<longrightarrow> held l = {}))
       (guarded new_res (play dumb_script)) 1 [] \<and>
    wp (drm_dumb_bo_plane dumb_mult_default dumb_opts)
      (\<lambda>x l. proper l \<and> (\<forall>n. x = Exit n \<longrightarrow> held l = {})) (guarded new_res (play dumb_script)) 1 []) \<and>
   wp (drm_dumb_bo_plane dumb_mult_default dumb_opts) (\<lambda>x l. x = Exit 0 \<and> calls l = 14)
     (guarded new_res (play dumb_script)) 1 []"
  by (rule conjI [OF drm_dumb_programs_give_back [OF obeys_guarded]]) code_simp

text \<open>
  The error paths of \<open>drm_dumb_bo\<close>, on a device that answers each call always in the same way.
  When the buffer cannot be prepared for mapping, the program removes a frame buffer that it has
  never created; when the frame buffer cannot be created, it keeps the mapping.
\<close>

theorem drm_dumb_bo_error_paths:
  assumes "own {RFd fd} l"
    and "\<forall>b. 0 \<le> rv (dev b (GetCap fd)) \<and> num (dev b (GetCap fd)) 0 \<noteq> 0"
    and "\<forall>b w h. rv (dev b (CreateDumb fd w h)) = 0"
    and "\<forall>h. rv (dev False (MapDumb fd h)) \<noteq> 0"
    and "\<forall>h. rv (dev True (MapDumb fd h)) = 0" and "\<forall>n off. rv (dev True (MmapDev fd n off)) = p"
    and "p \<noteq> -1" and "\<forall>w h s d. rv (dev True (AddFB fd w h s d)) \<noteq> 0"
  shows "wp (dumb_show fd kms i) (\<lambda>x l'. \<not> proper l') (\<lambda>_ c. Some (dev False c)) N l \<and>
    wp (dumb_show fd kms i) (\<lambda>x l'. \<exists>n. x = Exit n \<and> RRegion p \<in> held l')
      (\<lambda>_ c. Some (dev True c)) N l"
proof -
  have cap: "\<not> rv (dev b (GetCap fd)) < 0" "num (dev b (GetCap fd)) 0 \<noteq> 0" for b
    using spec [OF assms(2), of b] by simp_all
  show ?thesis
    using assms(1,3-)
    by (auto simp: dumb_show_def Let_def wp_simps bo_err_fb_def bo_err_destroy_def dumb_close_def
        own_def needs_def cap)
qed

fun broken_device :: "bool \<Rightarrow> drm_call \<Rightarrow> resp" where
  "broken_device b (GetCap fd) = with_nums 0 [1]"
| "broken_device b (CreateDumb fd w h) = with_nums 0 [8, 16, 48]"
| "broken_device b (MapDumb fd d) = ok (if b then 0 else -1)"
| "broken_device b (MmapDev fd n off) = ok 64"
| "broken_device b (AddFB fd w h s d) = ok (-22)"
| "broken_device b c = ok 0"

definition some_display :: kms_display where
  "some_display = \<lparr>connector = with_nums 1 [7], encoder = ok 1,
     mode = \<lparr>mode_name = [65], hdisplay = 4, vdisplay = 3\<rparr>, crtc = Some (ok 2)\<rparr>"

theorem drm_dumb_bo_error_paths_witness:
  "wp (dumb_show 3 some_display 7) (\<lambda>x l'. \<not> proper l') (\<lambda>_ c. Some (broken_device False c)) 1
      [Ev (P (Open [])) (ok 3)] \<and>
    wp (dumb_show 3 some_display 7) (\<lambda>x l'. \<exists>n. x = Exit n \<and> RRegion 64 \<in> held l')
      (\<lambda>_ c. Some (broken_device True c)) 1 [Ev (P (Open [])) (ok 3)]"
  by (rule drm_dumb_bo_error_paths) (auto simp: own_def needs_def num_def)

text \<open>A run in which the crtc cannot be read.\<close>

definition libkms_kernel :: "drm_call kernel" where
  "libkms_kernel = guarded new_res (play [ok 3, with_nums 0 [20], with_nums 0 [21], with_nums 0 [16],
     with_nums 0 [8], (ok 0)\<lparr>tables := [replicate 12 0]\<rparr>, with_nums 0 [31], ok 0, ok 0, ok 0, ok 0, ok 0])"

theorem libkms_show_leaves_witness:
  "wp (libkms_show 3 some_display 7)
     (\<lambda>x l. proper l \<and> (\<forall>n. x = Exit n \<longrightarrow> held l \<subseteq> range RFb)) libkms_kernel 1
     [Ev (P (Open [])) (ok 3)] \<and>
   wp (libkms_show 3 some_display 7) (\<lambda>x l. x = Exit 0 \<and> held l = {RFb 31}) libkms_kernel 1
     [Ev (P (Open [])) (ok 3)]"
proof (rule conjI [OF libkms_show_leaves])
  show "obeys libkms_kernel new_res" by (simp add: libkms_kernel_def obeys_guarded)
  show "own {RFd 3} [Ev (P (Open [])) (ok 3)]" by (simp add: own_def needs_def)
qed code_simp

end
