(* ===== verification/Input_Sys.thy ===== *)
theory Input_Sys
  imports Posix C_Lib
begin

text \<open>
  The calls of the programs that make or read input devices (\<open>uinput\<close>, \<open>wiid-tests\<close>): those of the
  system (\<open>U\<close>), the requests of the uinput driver, the directory of devices, clocks, and the calls of
  the library \<open>cwiid\<close>, which is not part of the repository. The codes of \<open>linux/input.h\<close>.
\<close>

record input_event =
  ev_sec :: int
  ev_usec :: int
  ev_type :: "16 word"
  ev_code :: "16 word"
  ev_value :: "32 word"

text \<open>\<open>sizeof(struct input_event)\<close> on a 64-bit system.\<close>

abbreviation (input) EVENT_SIZE :: int where "EVENT_SIZE \<equiv> 24"

record uinput_user_dev =
  dev_name :: "byte list"
  dev_bustype :: "16 word"
  dev_vendor :: "16 word"
  dev_product :: "16 word"
  dev_version :: "16 word"

datatype (plugins only: code size) input_call =
    U posix
  | UiSetEvbit int int
  | UiSetRelbit int int
  | UiSetKeybit int int
  | WriteDev int uinput_user_dev
  | UiDevCreate int
  | UiDevDestroy int
  | WriteEvent int input_event
  | ReadEvent int
  | Gettimeofday
  | ClockGettime
  | Opendir string
  | Readdir int
  | Closedir int
  | OpenPath "byte list"
  | EviocGName int nat
  | CwSetErr
  | CwStr2ba "byte list"
  | CwOpen "byte list option"
  | CwSetCallback int
  | CwEnable int int
  | CwSetRptMode int byte
  | CwSetLed int byte
  | CwClose int

section \<open>Codes\<close>

abbreviation (input) UINPUT_DEV :: string where "UINPUT_DEV \<equiv> ''/dev/uinput''"
abbreviation (input) UINPUT_MAX_NAME_SIZE :: nat where "UINPUT_MAX_NAME_SIZE \<equiv> 80"
abbreviation (input) EINVAL_ret :: int where "EINVAL_ret \<equiv> -22"
abbreviation (input) EV_SYN :: int where "EV_SYN \<equiv> 0"
abbreviation (input) EV_KEY :: int where "EV_KEY \<equiv> 1"
abbreviation (input) EV_REL :: int where "EV_REL \<equiv> 2"
abbreviation (input) EV_ABS :: int where "EV_ABS \<equiv> 3"
abbreviation (input) REL_X :: int where "REL_X \<equiv> 0"
abbreviation (input) REL_Y :: int where "REL_Y \<equiv> 1"
abbreviation (input) REL_Z :: int where "REL_Z \<equiv> 2"
abbreviation (input) ABS_X :: int where "ABS_X \<equiv> 0"
abbreviation (input) SYN_REPORT :: int where "SYN_REPORT \<equiv> 0"
abbreviation (input) KEY_MAX :: int where "KEY_MAX \<equiv> 0x2ff"

section \<open>Descriptors\<close>

fun input_opens :: "input_call \<Rightarrow> resp \<Rightarrow> int list" where
  "input_opens (U c) r = posix_opens c r"
| "input_opens (OpenPath p) r = (if 0 \<le> rv r then [rv r] else [])"
| "input_opens c r = []"

fun input_closes :: "input_call \<Rightarrow> int list" where
  "input_closes (U c) = posix_closes c"
| "input_closes c = []"

fun input_uses :: "input_call \<Rightarrow> int list" where
  "input_uses (U c) = posix_uses c"
| "input_uses (UiSetEvbit fd t) = [fd]"
| "input_uses (UiSetRelbit fd c) = [fd]"
| "input_uses (UiSetKeybit fd c) = [fd]"
| "input_uses (WriteDev fd d) = [fd]"
| "input_uses (UiDevCreate fd) = [fd]"
| "input_uses (UiDevDestroy fd) = [fd]"
| "input_uses (WriteEvent fd e) = [fd]"
| "input_uses (ReadEvent fd) = [fd]"
| "input_uses (EviocGName fd n) = [fd]"
| "input_uses c = []"

definition input_fds :: "input_call fd_ops" where
  "input_fds = \<lparr>opens = input_opens, closes = input_closes, uses = input_uses\<rparr>"

lemma input_fds_simps [simp]:
  "opens input_fds = input_opens" "closes input_fds = input_closes" "uses input_fds = input_uses"
  by (simp_all add: input_fds_def)

section \<open>Events of a history\<close>

text \<open>
  An event is registered when its device has been created and, unless it is a synchronisation
  event, the registering calls for its type and its code have succeeded for that device. It is
  refused when it is a key event whose two registering calls have been made, and one of them has
  failed.
\<close>

definition registered :: "input_call history \<Rightarrow> int \<Rightarrow> input_event \<Rightarrow> bool" where
  "registered l fd e \<longleftrightarrow>
     (\<exists>r. Ev (UiDevCreate fd) r \<in> set l \<and> rv r = 0) \<and>
     (uint (ev_type e) = EV_SYN \<or>
      uint (ev_type e) = EV_KEY \<and> (\<exists>r. Ev (UiSetEvbit fd EV_KEY) r \<in> set l \<and> 0 \<le> rv r) \<and>
        (\<exists>r. Ev (UiSetKeybit fd (uint (ev_code e))) r \<in> set l \<and> 0 \<le> rv r) \<or>
      uint (ev_type e) = EV_REL \<and> (\<exists>r. Ev (UiSetEvbit fd EV_REL) r \<in> set l \<and> 0 \<le> rv r) \<and>
        (\<exists>r. Ev (UiSetRelbit fd (uint (ev_code e))) r \<in> set l \<and> 0 \<le> rv r))"

definition refused :: "input_call history \<Rightarrow> int \<Rightarrow> input_event \<Rightarrow> bool" where
  "refused l fd e \<longleftrightarrow>
     (\<exists>r. Ev (UiDevCreate fd) r \<in> set l \<and> rv r = 0) \<and> uint (ev_type e) = EV_KEY \<and>
     (\<exists>a b. Ev (UiSetEvbit fd EV_KEY) a \<in> set l \<and>
        Ev (UiSetKeybit fd (uint (ev_code e))) b \<in> set l \<and> (rv a < 0 \<or> rv b < 0))"

text \<open>Every event was written when it was registered, or a key event refused before.\<close>

primrec registered_or_refused :: "input_call history \<Rightarrow> bool" where
  "registered_or_refused [] = True"
| "registered_or_refused (x # l) = (registered_or_refused l \<and> (case x of
     Ev c r \<Rightarrow> (case c of WriteEvent fd e \<Rightarrow> registered l fd e \<or> refused l fd e | _ \<Rightarrow> True)
   | Out os \<Rightarrow> True))"

text \<open>Type, code and value of an event; the events a history has injected, oldest first.\<close>

definition ev_data :: "input_event \<Rightarrow> int \<times> int \<times> int" where
  "ev_data e = (uint (ev_type e), uint (ev_code e), sint (ev_value e))"

primrec injected :: "input_call history \<Rightarrow> (int \<times> int \<times> int) list" where
  "injected [] = []"
| "injected (x # l) = (case x of
     Ev c r \<Rightarrow> (case c of WriteEvent fd e \<Rightarrow> injected l @ [ev_data e] | _ \<Rightarrow> injected l)
   | Out os \<Rightarrow> injected l)"

lemma sint_byte: "sint (ucast (x :: byte) :: 32 word) = uint x"
proof -
  have "uint x < 256" by (rule order_less_le_trans [OF unsigned_less]) simp
  moreover have "0 \<le> uint x" by simp
  ultimately have r: "- 2147483648 \<le> uint x" "uint x < 2147483648" "uint x < 4294967296" by linarith+
  have "take_bit 32 (uint x) = uint x" using r by (intro take_bit_int_eq_self) simp_all
  moreover have "signed_take_bit 31 (uint x) = uint x"
    using r by (intro signed_take_bit_int_eq_self) simp_all
  ultimately show ?thesis by (simp add: sint_uint unsigned_ucast_eq)
qed

end
