(* ===== verification/Wii_Devices.thy ===== *)
theory Wii_Devices
  imports Input_Sys "HOL-Library.Signed_Division"
begin

text \<open>
  \<open>wiid-tests/wii_input.c\<close> and \<open>wii_acc.c\<close>: the two input devices of the Wii remote daemon, a keypad
  for its buttons and a sensor for its accelerometer, as they are built without \<open>ANDROID\<close>. The
  static variables \<open>uinput_fd\<close> of the two files are what the init functions yield as second
  value, \<open>acc_time_msec\<close> is passed on.
\<close>

section \<open>The keypad\<close>

definition keypad_dev :: uinput_user_dev where
  "keypad_dev = \<lparr>dev_name = strncpy UINPUT_MAX_NAME_SIZE (chars ''Wii_Keypad''), dev_bustype = 0x19,
     dev_vendor = 0, dev_product = 0, dev_version = 1\<rparr>"

definition uinput_keypad_init :: "int \<Rightarrow> (int, input_call) io" where
  "uinput_keypad_init fd =
     sys (UiSetEvbit fd EV_KEY) (\<lambda>_.
     sys (UiSetEvbit fd EV_SYN) (\<lambda>_.
     bind (foreach [0..<767] (\<lambda>i u. sys (UiSetKeybit fd (int i)) (\<lambda>_. ret (Inl u))) ())
     (\<lambda>_ :: unit + unit.
     sys (WriteDev fd keypad_dev) (\<lambda>_.
     sys (UiDevCreate fd) (\<lambda>c.
     if rv c \<noteq> 0 then say [S ''E: Unable to create uinput wii device''] (ret (-1)) else ret 0)))))"

definition uinput_write :: "int \<Rightarrow> 16 word \<Rightarrow> 16 word \<Rightarrow> 32 word \<Rightarrow> (int, input_call) io" where
  "uinput_write fd ty co v =
     sys Gettimeofday (\<lambda>t.
     sys (WriteEvent fd \<lparr>ev_sec = num t 0, ev_usec = num t 1, ev_type = ty, ev_code = co,
       ev_value = v\<rparr>) (\<lambda>w.
     if rv w \<noteq> EVENT_SIZE then ret (-1) else ret 0))"

definition uinput_write_syn :: "int \<Rightarrow> 16 word \<Rightarrow> 16 word \<Rightarrow> 32 word \<Rightarrow> (int, input_call) io" where
  "uinput_write_syn fd ty co v =
     bind (uinput_write fd ty co v) (\<lambda>x.
     if x \<noteq> 0 then ret (-1)
     else uinput_write fd (word_of_int EV_SYN) (word_of_int SYN_REPORT) 0)"

definition uinput_press :: "int \<Rightarrow> 16 word \<Rightarrow> (int, input_call) io" where
  "uinput_press fd co = uinput_write_syn fd (word_of_int EV_KEY) co 1"

definition uinput_release :: "int \<Rightarrow> 16 word \<Rightarrow> (int, input_call) io" where
  "uinput_release fd co = uinput_write_syn fd (word_of_int EV_KEY) co 0"

definition uinput_click :: "int \<Rightarrow> 16 word \<Rightarrow> (int, input_call) io" where
  "uinput_click fd co =
     bind (uinput_press fd co) (\<lambda>x. if x \<noteq> 0 then ret (-1) else uinput_release fd co)"

text \<open>The value is \<open>ret\<close> and the static \<open>uinput_fd\<close>.\<close>

definition wii_input_init :: "(int \<times> int, input_call) io" where
  "wii_input_init =
     sys (U (Open UINPUT_DEV)) (\<lambda>f.
     if rv f < 0 then say [S ''E: Error opening /dev/uinput''] (ret (EINVAL_ret, rv f)) else
     bind (uinput_keypad_init (rv f)) (\<lambda>k.
     if k < 0 then
       say [S ''E: Error keypad init/dev/uinput'']
       (sys (UiDevDestroy (rv f)) (\<lambda>_. sys (U (Close (rv f))) (\<lambda>_. ret (EINVAL_ret, rv f))))
     else ret (0, rv f)))"

definition wii_input_close :: "int \<Rightarrow> (unit, input_call) io" where
  "wii_input_close fd = sys (UiDevDestroy fd) (\<lambda>_. sys (U (Close fd)) (\<lambda>_. ret ()))"

text \<open>The \<open>switch\<close> over the buttons: 1, 0, home, backspace, enter and the cursor keys.\<close>

definition wii_key :: "16 word \<Rightarrow> int" where
  "wii_key btn =
     (if btn = 0x0010 then 10 else if btn = 0x1000 then 11 else if btn = 0x0080 then 102
      else if btn = 0x0008 then 14 else if btn = 0x0004 then 28 else if btn = 0x0200 then 106
      else if btn = 0x0100 then 105 else if btn = 0x0400 then 108 else if btn = 0x0800 then 103
      else 0)"

text \<open>The table of the build with \<open>ANDROID\<close>, scan codes for a layout file; it knows the same buttons.\<close>

definition wii_key_android :: "16 word \<Rightarrow> int" where
  "wii_key_android btn =
     (if btn = 0x0010 then 10 else if btn = 0x1000 then 11 else if btn = 0x0080 then 12
      else if btn = 0x0008 then 13 else if btn = 0x0004 then 14 else if btn = 0x0200 then 15
      else if btn = 0x0100 then 16 else if btn = 0x0400 then 17 else if btn = 0x0800 then 18
      else 0)"

lemma wii_keys_agree: "wii_key btn = 0 \<longleftrightarrow> wii_key_android btn = 0"
  by (simp add: wii_key_def wii_key_android_def)

definition wii_handle_buttons :: "int \<Rightarrow> 16 word \<Rightarrow> (unit, input_call) io" where
  "wii_handle_buttons fd btn =
     say [S ''D: press key '', D (wii_key btn)]
     (bind (uinput_click fd (word_of_int (wii_key btn))) (\<lambda>_. ret ()))"

section \<open>The accelerometer\<close>

definition acc_dev :: uinput_user_dev where
  "acc_dev = \<lparr>dev_name = strncpy UINPUT_MAX_NAME_SIZE (chars ''Wii_Sensors''), dev_bustype = 1,
     dev_vendor = 1, dev_product = 1, dev_version = 1\<rparr>"

text \<open>The labels \<open>ioctl_err\<close> and \<open>write_err\<close>.\<close>

definition acc_err :: "int \<Rightarrow> (int \<times> int, input_call) io" where
  "acc_err fd = sys (UiDevDestroy fd) (\<lambda>_. sys (U (Close fd)) (\<lambda>_. ret (EINVAL_ret, fd)))"

definition wii_acc_init :: "(int \<times> int, input_call) io" where
  "wii_acc_init =
     sys (U (Open UINPUT_DEV)) (\<lambda>f.
     let fd = rv f in
     if fd < 0 then say [S ''E: Error opening /dev/uinput''] (ret (EINVAL_ret, fd)) else
     sys (UiSetEvbit fd EV_REL) (\<lambda>a.
     if 0 > rv a then say [S ''E: ioctl(fd, UI_SET_EVBIT, EV_REL)''] (acc_err fd) else
     sys (UiSetRelbit fd REL_X) (\<lambda>x.
     if 0 > rv x then say [S ''E: ioctl(fd, UI_SET_RELBIT, REL_X)''] (acc_err fd) else
     sys (UiSetRelbit fd REL_Y) (\<lambda>y.
     if 0 > rv y then say [S ''E: ioctl(fd, UI_SET_RELBIT, REL_Y)''] (acc_err fd) else
     sys (UiSetRelbit fd REL_Z) (\<lambda>z.
     if 0 > rv z then say [S ''E: ioctl(fd, UI_SET_RELBIT, REL_Z)''] (acc_err fd) else
     sys (WriteDev fd acc_dev) (\<lambda>w.
     if 0 > rv w then say [S ''E: Unable to write to uinput wii_acc device''] (acc_err fd) else
     sys (UiDevCreate fd) (\<lambda>c.
     if rv c \<noteq> 0 then say [S ''E: Unable to ioctl wii_acc device''] (acc_err fd)
     else ret (0, fd))))))))"

definition wii_acc_close :: "int \<Rightarrow> (unit, input_call) io" where
  "wii_acc_close fd = sys (UiDevDestroy fd) (\<lambda>_. sys (U (Close fd)) (\<lambda>_. ret ()))"

text \<open>An event without a time; \<open>write\<close>'s result is the value.\<close>

definition send_event :: "int \<Rightarrow> 16 word \<Rightarrow> 16 word \<Rightarrow> 32 word \<Rightarrow> (int, input_call) io" where
  "send_event fd ty co v =
     sys (WriteEvent fd \<lparr>ev_sec = 0, ev_usec = 0, ev_type = ty, ev_code = co, ev_value = v\<rparr>)
     (\<lambda>w. ret (rv w))"

text \<open>The clock in milliseconds, computed in \<open>long\<close>: \<open>None\<close> when that overflows.\<close>

definition clock_msec :: "resp \<Rightarrow> int option" where
  "clock_msec r = (let s = num r 0 * 1000; t = s + num r 1 sdiv 1000000 in
     if - (2 ^ 63) \<le> s \<and> s < 2 ^ 63 \<and> - (2 ^ 63) \<le> t \<and> t < 2 ^ 63 then Some t else None)"

definition acc_rate_msec :: int where "acc_rate_msec = 100"

definition wii_handle_accelerometer :: "int \<Rightarrow> byte \<Rightarrow> byte \<Rightarrow> byte \<Rightarrow> 64 word \<Rightarrow>
    (64 word, input_call) io" where
  "wii_handle_accelerometer fd x y z acc_time =
     sys ClockGettime (\<lambda>r.
     if rv r < 0 then fault ''tick is uninitialised'' else
     case clock_msec r of
       None \<Rightarrow> fault ''overflow of the time in milliseconds''
     | Some t \<Rightarrow>
         let new_time = word_of_int t in
         if new_time \<ge> acc_time + word_of_int acc_rate_msec then
           bind (send_event fd (word_of_int EV_REL) (word_of_int REL_X) (ucast x)) (\<lambda>_.
           bind (send_event fd (word_of_int EV_REL) (word_of_int REL_Y) (ucast y)) (\<lambda>_.
           bind (send_event fd (word_of_int EV_REL) (word_of_int REL_Z) (ucast z)) (\<lambda>_.
           bind (send_event fd (word_of_int EV_SYN) 0 0) (\<lambda>_.
           ret new_time))))
         else ret acc_time)"

end
