(* ===== verification/Wiid.thy ===== *)
theory Wiid
  imports Wii_Devices
begin

unbundle bit_operations_syntax

text \<open>
  \<open>wiid-tests/wiid.c\<close>: the Wii remote daemon, built without \<open>ANDROID\<close>. The main thread sets up the
  two devices, waits for a remote and then lets its four LEDs chase for ever; the messages of the
  remote arrive in a callback, which a thread of the library \<open>cwiid\<close> runs. The two threads share
  only the descriptors, set before the callback is installed, and \<open>acc_time_msec\<close> belongs to the
  callback; so each thread has a history of its own.
\<close>

section \<open>Messages and state of a remote\<close>

record ir_src =
  ir_valid :: bool
  ir_x :: int
  ir_y :: int

record nunchuk =
  nc_buttons :: byte
  nc_stick :: "int \<times> int"
  nc_acc :: "int \<times> int \<times> int"

record classic =
  cl_buttons :: "16 word"
  cl_l_stick :: "int \<times> int"
  cl_r_stick :: "int \<times> int"
  cl_l :: int
  cl_r :: int

record balance =
  right_top :: int
  right_bottom :: int
  left_top :: int
  left_bottom :: int

record motionplus =
  angle_rate :: "int \<times> int \<times> int"
  low_speed :: "int \<times> int \<times> int"

datatype cw_ext_type = EXT_NONE | EXT_NUNCHUK | EXT_CLASSIC | EXT_BALANCE | EXT_MOTIONPLUS | EXT_UNKNOWN

datatype cw_mesg =
    MESG_STATUS int cw_ext_type
  | MESG_BTN "16 word"
  | MESG_ACC byte byte byte
  | MESG_IR "ir_src list"
  | MESG_NUNCHUK nunchuk
  | MESG_CLASSIC classic
  | MESG_BALANCE balance
  | MESG_MOTIONPLUS motionplus
  | MESG_ERROR
  | MESG_OTHER

datatype cw_ext =
    NoExt | UnknownExt | NunchukExt nunchuk | ClassicExt classic | BalanceExt balance
  | MotionplusExt motionplus

record cwiid_state =
  cs_rpt_mode :: byte
  cs_led :: byte
  cs_rumble :: byte
  cs_battery :: byte
  cs_buttons :: "16 word"
  cs_acc :: "byte \<times> byte \<times> byte"
  cs_ir :: "ir_src list"
  cs_ext :: cw_ext

section \<open>Printing\<close>

text \<open>\<open>%X\<close> with at least \<open>p\<close> digits.\<close>

definition hexX :: "nat \<Rightarrow> nat \<Rightarrow> byte list" where
  "hexX p n = (let s = map (\<lambda>b. if 97 \<le> b then b - 32 else b) (uhex n) in
     replicate (p - length s) 48 @ s)"

fun show2 :: "int \<times> int \<Rightarrow> out list" where
  "show2 (x, y) = [S ''('', D x, S '','', D y, S '')'']"

fun show3 :: "int \<times> int \<times> int \<Rightarrow> out list" where
  "show3 (x, y, z) = [S ''('', D x, S '','', D y, S '','', D z, S '')'']"

definition LOGV :: "out list \<Rightarrow> (unit, input_call) io" where
  "LOGV os = say (S ''V: '' # os) (ret ())"

definition LOGE :: "string \<Rightarrow> (unit, input_call) io" where
  "LOGE s = say [S ''E: '', S s] (ret ())"

primrec logs :: "out list list \<Rightarrow> (unit, input_call) io" where
  "logs [] = ret ()"
| "logs (os # oss) = bind (LOGV os) (\<lambda>_. logs oss)"

definition ir_lines :: "ir_src list \<Rightarrow> out list list" where
  "ir_lines srcs = map (\<lambda>s. show2 (ir_x s, ir_y s) @ [S '' '']) (filter ir_valid srcs) @
     (if filter ir_valid srcs = [] then [[S ''no sources detected'']] else []) @ [[]]"

definition nunchuk_line :: "string \<Rightarrow> nunchuk \<Rightarrow> out list" where
  "nunchuk_line p n = (case nc_acc n of (ax, ay, az) \<Rightarrow>
     [S p, S ''btns='', B (hexX 2 (unat (nc_buttons n))), S '' stick=''] @ show2 (nc_stick n) @
     [S '' acc.x='', D ax, S '' acc.y='', D ay, S '' acc.z='', D az])"

definition classic_line :: "string \<Rightarrow> classic \<Rightarrow> out list" where
  "classic_line p c =
     [S p, S ''btns='', B (hexX 4 (unat (cl_buttons c))), S '' l_stick=''] @ show2 (cl_l_stick c) @
     [S '' r_stick=''] @ show2 (cl_r_stick c) @ [S '' l='', D (cl_l c), S '' r='', D (cl_r c)]"

definition balance_line :: "string \<Rightarrow> balance \<Rightarrow> out list" where
  "balance_line p b =
     [S p, S ''right_top='', D (right_top b), S '' right_bottom='', D (right_bottom b),
      S '' left_top='', D (left_top b), S '' left_bottom='', D (left_bottom b)]"

definition motionplus_line :: "string \<Rightarrow> motionplus \<Rightarrow> out list" where
  "motionplus_line p m =
     [S p, S ''angle_rate=''] @ show3 (angle_rate m) @ [S '' low_speed=''] @ show3 (low_speed m)"

fun ext_name :: "cw_ext_type \<Rightarrow> string" where
  "ext_name EXT_NONE = ''none''"
| "ext_name EXT_NUNCHUK = ''Nunchuk''"
| "ext_name EXT_CLASSIC = ''Classic Controller''"
| "ext_name EXT_BALANCE = ''Balance Board''"
| "ext_name EXT_MOTIONPLUS = ''MotionPlus''"
| "ext_name EXT_UNKNOWN = ''Unknown Extension''"

definition flag_lines :: "byte \<Rightarrow> (byte \<times> string) list \<Rightarrow> out list list" where
  "flag_lines b fs = map (\<lambda>f. [S (snd f)]) (filter (\<lambda>f. b AND fst f \<noteq> 0) fs)"

text \<open>
  \<open>print_state\<close>, which nothing calls. The battery is \<open>(int)(100.0 * battery / 208)\<close>: the product is
  exact and a quotient that is no integer is at least 1/208 below the next one, so the rounding
  of the division never reaches it and the conversion gives the integer quotient.
\<close>

fun ext_line :: "cw_ext \<Rightarrow> out list" where
  "ext_line NoExt = [S ''No extension'']"
| "ext_line UnknownExt = [S ''Unknown extension attached'']"
| "ext_line (NunchukExt n) = nunchuk_line ''Nunchuk: '' n"
| "ext_line (ClassicExt c) = classic_line ''Classic: '' c"
| "ext_line (BalanceExt b) = balance_line ''Balance: '' b"
| "ext_line (MotionplusExt m) = motionplus_line ''MotionPlus: '' m"

definition wii_print_state :: "cwiid_state \<Rightarrow> (unit, input_call) io" where
  "wii_print_state s = (case cs_acc s of (ax, ay, az) \<Rightarrow> logs (
     [[S ''Report Mode:'']] @
     flag_lines (cs_rpt_mode s) [(0x01, '' STATUS''), (0x02, '' BTN''), (0x04, '' ACC''),
       (0x08, '' IR''), (0x10, '' NUNCHUK''), (0x20, '' CLASSIC''), (0x40, '' BALANCE''),
       (0x80, '' MOTIONPLUS'')] @
     [[], [S ''Active LEDs:'']] @
     flag_lines (cs_led s) [(1, '' 1''), (2, '' 2''), (4, '' 3''), (8, '' 4'')] @
     [[], [S ''Rumble: '', S (if cs_rumble s \<noteq> 0 then ''On'' else ''Off'')],
      [S ''Battery: '', D (100 * uint (cs_battery s) div 208), S ''%''],
      [S ''Buttons: '', B (hexX 1 (unat (cs_buttons s)))],
      [S ''Acc: x='', D (uint ax), S '' y='', D (uint ay), S '' z='', D (uint az)],
      [S ''IR: '']] @ ir_lines (cs_ir s) @ [ext_line (cs_ext s)]))"

section \<open>The callback\<close>

text \<open>One message; the state is \<open>acc_time_msec\<close>.\<close>

definition wii_message :: "int \<Rightarrow> int \<Rightarrow> cw_mesg \<Rightarrow> 64 word \<Rightarrow> (64 word, input_call) io" where
  "wii_message key_fd acc_fd m t = (case m of
     MESG_BTN b \<Rightarrow> bind (wii_handle_buttons key_fd b) (\<lambda>_. ret t)
   | MESG_ACC x y z \<Rightarrow> wii_handle_accelerometer acc_fd x y z t
   | MESG_STATUS battery ext \<Rightarrow>
       bind (logs [[S ''Status Report: battery='', D battery, S '' extension=''], [S (ext_name ext)], []])
       (\<lambda>_. ret t)
   | MESG_IR srcs \<Rightarrow> bind (logs ([S ''IR Report: ''] # ir_lines srcs)) (\<lambda>_. ret t)
   | MESG_NUNCHUK n \<Rightarrow> bind (LOGV (nunchuk_line ''Nunchuk Report: '' n)) (\<lambda>_. ret t)
   | MESG_CLASSIC c \<Rightarrow> bind (LOGV (classic_line ''Classic Report: '' c)) (\<lambda>_. ret t)
   | MESG_BALANCE b \<Rightarrow> bind (LOGV (balance_line ''Balance Report: '' b)) (\<lambda>_. ret t)
   | MESG_MOTIONPLUS p \<Rightarrow> bind (LOGV (motionplus_line ''MotionPlus Report: '' p)) (\<lambda>_. ret t)
   | MESG_ERROR \<Rightarrow> bind (LOGE ''Error on wiimote disconnect'') (\<lambda>_. ret t)
   | MESG_OTHER \<Rightarrow> bind (LOGE ''Unknown Report'') (\<lambda>_. ret t))"

definition cwiid_callback :: "int \<Rightarrow> int \<Rightarrow> cw_mesg list \<Rightarrow> 64 word \<Rightarrow> (64 word, input_call) io" where
  "cwiid_callback key_fd acc_fd ms t =
     bind (foreach ms (\<lambda>m u. bind (wii_message key_fd acc_fd m u) (\<lambda>u'. ret (Inl u'))) t)
       (\<lambda>x. ret (either x))"

section \<open>The main thread\<close>

abbreviation (input) CWIID_RPT_BTN :: byte where "CWIID_RPT_BTN \<equiv> 2"
abbreviation (input) CWIID_RPT_ACC :: byte where "CWIID_RPT_ACC \<equiv> 4"
abbreviation (input) CONNECT_TIMEOUT :: nat where "CONNECT_TIMEOUT \<equiv> 2"

definition toggle_bit :: "byte \<Rightarrow> byte \<Rightarrow> byte" where
  "toggle_bit bf b = (if bf AND b \<noteq> 0 then bf AND NOT b else bf OR b)"

definition set_led_state :: "int \<Rightarrow> byte \<Rightarrow> (int, input_call) io" where
  "set_led_state w led = sys (CwSetLed w led) (\<lambda>r.
     if rv r \<noteq> 0 then bind (LOGE ''Error setting LEDs '') (\<lambda>_. ret (-1)) else ret 0)"

definition set_rpt_mode :: "int \<Rightarrow> byte \<Rightarrow> (unit, input_call) io" where
  "set_rpt_mode w m = sys (CwSetRptMode w m) (\<lambda>r.
     if rv r \<noteq> 0 then LOGE ''Error setting report mode'' else ret ())"

text \<open>The two devices; the value is the pair of descriptors.\<close>

definition wiid_init :: "(int \<times> int, input_call) io" where
  "wiid_init =
     sys CwSetErr (\<lambda>_.
     bind wii_input_init (\<lambda>k.
     if 0 > fst k then bind (LOGE ''Couldn't setup wii_input'') (\<lambda>_. exit 255) else
     bind wii_acc_init (\<lambda>a.
     if 0 > fst a then bind (LOGE ''Couldn't setup wii_acc'') (\<lambda>_. exit 255)
     else ret (snd k, snd a))))"

text \<open>The wait for a remote; the value is its handle.\<close>

definition wiid_connect :: "byte list option \<Rightarrow> (int, input_call) io" where
  "wiid_connect ba = loop (\<lambda>_ :: unit.
     bind (LOGV [S ''Put wiimote in discoverable mode now (press 1+2)...'']) (\<lambda>_.
     sys (CwOpen ba) (\<lambda>w.
     if rv w \<noteq> 0 then ret (Inr (rv w)) else
     bind (LOGV [S ''Unable to connect to wiimote, wait '', D (int CONNECT_TIMEOUT), S '' sec...'']) (\<lambda>_.
     sys (U (SleepSec CONNECT_TIMEOUT)) (\<lambda>_. ret (Inl ())))))) ()"

definition led_toggle :: "int \<Rightarrow> byte \<Rightarrow> byte \<Rightarrow> (byte + unit, input_call) io" where
  "led_toggle w b led =
     (let led' = toggle_bit led b in
      bind (set_led_state w led') (\<lambda>x.
      if x \<noteq> 0 then ret (Inr ()) else sys (U (SleepSec 1)) (\<lambda>_. ret (Inl led'))))"

definition led_round :: "int \<Rightarrow> byte \<Rightarrow> (byte + unit, input_call) io" where
  "led_round w led = foreach [1, 2, 4, 8] (led_toggle w) led"

text \<open>\<open>main\<close>; the argument is \<open>argv[1]\<close>.\<close>

definition wiid_main :: "byte list option \<Rightarrow> (unit, input_call) io" where
  "wiid_main arg =
     bind wiid_init (\<lambda>_.
     bind (case arg of None \<Rightarrow> ret None | Some a \<Rightarrow> sys (CwStr2ba a) (\<lambda>b. ret (Some (bytes b)))) (\<lambda>ba.
     bind (wiid_connect ba) (\<lambda>w.
     sys (CwSetCallback w) (\<lambda>c.
     bind (if rv c \<noteq> 0 then LOGE ''Unable to set message callback'' else ret ()) (\<lambda>_.
     sys (CwEnable w 1) (\<lambda>e.
     bind (if rv e \<noteq> 0 then LOGE ''Error enabling messages'' else ret ()) (\<lambda>_.
     bind (set_rpt_mode w (0 OR CWIID_RPT_BTN)) (\<lambda>_.
     bind (set_rpt_mode w (0 OR CWIID_RPT_BTN OR CWIID_RPT_ACC)) (\<lambda>_.
     bind (loop (led_round w) 0) (\<lambda>_.
     sys (CwClose w) (\<lambda>x.
     bind (if rv x \<noteq> 0 then LOGE ''Error on wiimote disconnect'' else ret ()) (\<lambda>_.
     exit 0))))))))))))"

text \<open>
  The calls that concern the devices: \<open>main\<close> up to the wait, then the callback's thread with the
  messages of all its invocations.
\<close>

definition wiid_events :: "cw_mesg list list \<Rightarrow> (64 word, input_call) io" where
  "wiid_events batches =
     bind wiid_init (\<lambda>fds.
     bind (foreach batches (\<lambda>ms u. bind (cwiid_callback (fst fds) (snd fds) ms u) (\<lambda>u'. ret (Inl u'))) 0)
       (\<lambda>x. ret (either x)))"

end
