(* ===== verification/Wiid_Setup.thy ===== *)
theory Wiid_Setup
  imports Wiid
begin

text \<open>
  The set-up of the two devices by the Wii remote daemon, and that its callback writes only events
  that the set-up has registered. \<open>did_post\<close> is the form of the postconditions: no failure, an exit only
  with status 255, a wait only when a call does not return.
\<close>

section \<open>Postconditions\<close>

text \<open>The readings of the clock in a history, oldest first.\<close>

definition msec :: "resp \<Rightarrow> int" where
  "msec r = num r 0 * 1000 + num r 1 sdiv 1000000"

primrec clock_times :: "input_call history \<Rightarrow> int list" where
  "clock_times [] = []"
| "clock_times (x # l) = (case x of
     Ev c r \<Rightarrow> (case c of ClockGettime \<Rightarrow> clock_times l @ [msec r] | _ \<Rightarrow> clock_times l)
   | Out os \<Rightarrow> clock_times l)"

definition did_post :: "'c kernel \<Rightarrow> (input_call history \<Rightarrow> bool) \<Rightarrow> ('a \<Rightarrow> input_call history \<Rightarrow> bool) \<Rightarrow>
    'a res \<Rightarrow> input_call history \<Rightarrow> bool" where
  "did_post K G P r l \<longleftrightarrow> (case r of Val a \<Rightarrow> P a l | Fault e \<Rightarrow> False | Exit n \<Rightarrow> n = 255 \<and> G l
     | Wait \<Rightarrow> \<not> answers K \<and> G l)"

lemma did_post_simps [simp]:
  "did_post K G P (Val a) l = P a l" "\<not> did_post K G P (Fault e) l"
  "did_post K G P (Exit n) l = (n = 255 \<and> G l)" "did_post K G P Wait l = (\<not> answers K \<and> G l)"
  by (simp_all add: did_post_def)

abbreviation any :: "input_call history \<Rightarrow> bool" where
  "any \<equiv> \<lambda>_. True"

lemma did_bind:
  assumes "wp m (did_post K G P) K N l"
    and "\<And>a l'. P a l' \<Longrightarrow> wp (f a) (did_post K G Q) K N l'"
  shows "wp (bind m f) (did_post K G Q) K N l"
  unfolding wp_bind by (rule wp_mono [OF assms(1)]) (auto simp: seq_def did_post_def assms(2) split: res.splits)

lemma did_sys:
  assumes "obeys K R" and "G l" and "\<And>r. R l c r \<Longrightarrow> wp (k r) (did_post K G Q) K N (Ev c r # l)"
  shows "wp (sys c k) (did_post K G Q) K N l"
  using assms by (auto simp: wp_sys answers_def dest: obeysD split: option.split)

lemma key_range: "0 \<le> wii_key b" "wii_key b < 767"
  by (simp_all add: wii_key_def)

section \<open>The set-up of the devices\<close>

text \<open>What a device has registered.\<close>

definition created :: "int \<Rightarrow> input_call history \<Rightarrow> bool" where
  "created fd l \<longleftrightarrow> (\<exists>r. Ev (UiDevCreate fd) r \<in> set l \<and> rv r = 0)"

definition keys_asked :: "nat \<Rightarrow> int \<Rightarrow> input_call history \<Rightarrow> bool" where
  "keys_asked n fd l \<longleftrightarrow> (\<forall>k. 0 \<le> k \<and> k < int n \<longrightarrow> (\<exists>r. Ev (UiSetKeybit fd k) r \<in> set l))"

lemma keys_asked_simps [simp]: "keys_asked 0 fd l"
  by (auto simp: keys_asked_def)

lemma keys_asked_Suc: "keys_asked n fd l \<Longrightarrow> keys_asked (Suc n) fd (Ev (UiSetKeybit fd (int n)) r # l)"
  unfolding keys_asked_def
proof (intro allI impI, elim conjE)
  fix k assume all: "\<forall>k. 0 \<le> k \<and> k < int n \<longrightarrow> (\<exists>r. Ev (UiSetKeybit fd k) r \<in> set l)"
    and k: "0 \<le> k" "k < int (Suc n)"
  show "\<exists>ra. Ev (UiSetKeybit fd k) ra \<in> set (Ev (UiSetKeybit fd (int n)) r # l)"
  proof (cases "k = int n")
    case False
    then have "k < int n" using k(2) by simp
    then show ?thesis using all k(1) by auto
  qed auto
qed

definition key_ready :: "int \<Rightarrow> input_call history \<Rightarrow> bool" where
  "key_ready fd l \<longleftrightarrow> created fd l \<and> (\<exists>r. Ev (UiSetEvbit fd EV_KEY) r \<in> set l) \<and> keys_asked 767 fd l"

definition acc_ready :: "int \<Rightarrow> input_call history \<Rightarrow> bool" where
  "acc_ready fd l \<longleftrightarrow> created fd l \<and> (\<exists>r. Ev (UiSetEvbit fd EV_REL) r \<in> set l \<and> 0 \<le> rv r) \<and>
     (\<forall>k \<in> {REL_X, REL_Y, REL_Z}. \<exists>r. Ev (UiSetRelbit fd k) r \<in> set l \<and> 0 \<le> rv r)"

lemma ready_mono:
  "set l \<subseteq> set l' \<Longrightarrow> key_ready fd l \<Longrightarrow> key_ready fd l'"
  "set l \<subseteq> set l' \<Longrightarrow> acc_ready fd l \<Longrightarrow> acc_ready fd l'"
  unfolding key_ready_def keys_asked_def acc_ready_def created_def by blast+

lemma ready_registered:
  "key_ready fd l \<Longrightarrow> uint (ev_type e) = EV_KEY \<Longrightarrow> uint (ev_code e) < 767 \<Longrightarrow>
     registered l fd e \<or> refused l fd e"
  "key_ready fd l \<Longrightarrow> uint (ev_type e) = EV_SYN \<Longrightarrow> registered l fd e"
  "acc_ready fd l \<Longrightarrow> uint (ev_type e) = EV_REL \<Longrightarrow> uint (ev_code e) \<in> {REL_X, REL_Y, REL_Z} \<Longrightarrow>
     registered l fd e"
  "acc_ready fd l \<Longrightarrow> uint (ev_type e) = EV_SYN \<Longrightarrow> registered l fd e"
  unfolding key_ready_def keys_asked_def acc_ready_def registered_def refused_def created_def
  by (force simp: not_less)+

text \<open>What holds of every history of the daemon.\<close>

definition sound :: "input_call history \<Rightarrow> bool" where
  "sound l \<longleftrightarrow> registered_or_refused l \<and> disciplined input_fds l \<and> card (open_fds input_fds l) \<le> 2"

text \<open>Nothing is injected, no clock is read, no descriptor opened or closed.\<close>

definition still :: "input_call history \<Rightarrow> input_call history \<Rightarrow> bool" where
  "still l l' \<longleftrightarrow> set l \<subseteq> set l' \<and> injected l' = injected l \<and> clock_times l' = clock_times l \<and>
     open_fds input_fds l' = open_fds input_fds l \<and> sound l'"

lemma keybits_step:
  assumes "fd \<in> open_fds input_fds l" "sound l"
  shows "wp (foreach [0..<767] (\<lambda>i u. sys (UiSetKeybit fd (int i)) (\<lambda>_. ret (Inl u))) ())
     (did_post K sound (\<lambda>_ :: unit + unit. \<lambda>l'. still l l' \<and> keys_asked 767 fd l')) K N l"
  by (rule wp_for [where I = "\<lambda>n u l'. still l l' \<and> keys_asked n fd l'"])
    (use assms in \<open>auto simp: still_def sound_def wp_simps answers_def keys_asked_Suc split: option.split\<close>)

lemma keypad_init_step:
  assumes "fd \<in> open_fds input_fds l" "sound l"
  shows "wp (uinput_keypad_init fd)
     (did_post K sound (\<lambda>x l'. still l l' \<and> (x = 0 \<and> key_ready fd l' \<or> x < 0))) K N l"
proof -
  let ?l = "\<lambda>a b. Ev (UiSetEvbit fd EV_SYN) b # Ev (UiSetEvbit fd EV_KEY) a # l"
  have bits: "wp (foreach [0..<767] (\<lambda>i u. sys (UiSetKeybit fd (int i)) (\<lambda>_. ret (Inl u))) ())
     (did_post K sound (\<lambda>_ :: unit + unit. \<lambda>l'. still (?l a b) l' \<and> keys_asked 767 fd l')) K N (?l a b)" for a b
    by (rule keybits_step) (use assms in \<open>simp_all add: sound_def\<close>)
  show ?thesis
    unfolding uinput_keypad_init_def
    by (intro did_sys [where R = "\<lambda>_ _ _. True"] did_bind [OF bits])
      (use assms in \<open>auto simp: obeys_def still_def sound_def wp_simps key_ready_def keys_asked_def created_def\<close>)
qed

text \<open>
  After an init: the descriptor is the only new one, or nothing is left open. An init starts with at
  most one open descriptor.
\<close>

definition may_init :: "input_call history \<Rightarrow> bool" where
  "may_init l \<longleftrightarrow> sound l \<and> card (open_fds input_fds l) \<le> 1"

definition made :: "(int \<Rightarrow> input_call history \<Rightarrow> bool) \<Rightarrow> input_call history \<Rightarrow> int \<times> int \<Rightarrow>
    input_call history \<Rightarrow> bool" where
  "made rdy l x l' \<longleftrightarrow> set l \<subseteq> set l' \<and> injected l' = injected l \<and> clock_times l' = clock_times l \<and>
     sound l' \<and>
     (fst x < 0 \<and> open_fds input_fds l' = open_fds input_fds l \<or>
      fst x = 0 \<and> snd x \<notin> open_fds input_fds l \<and> rdy (snd x) l' \<and>
        open_fds input_fds l' = insert (snd x) (open_fds input_fds l))"

text \<open>The state of an init between its \<open>open\<close> and its end.\<close>

definition opened :: "int \<Rightarrow> input_call history \<Rightarrow> input_call history \<Rightarrow> bool" where
  "opened fd l l' \<longleftrightarrow> may_init l \<and> fd \<notin> open_fds input_fds l \<and> set l \<subseteq> set l' \<and>
     injected l' = injected l \<and> clock_times l' = clock_times l \<and> sound l' \<and>
     open_fds input_fds l' = insert fd (open_fds input_fds l)"

lemma opened_start:
  assumes "may_init l" "fresh_fds input_fds l (U (Open p)) f" "0 \<le> rv f"
  shows "opened (rv f) l (Ev (U (Open p)) f # l)"
  using assms by (auto simp: opened_def may_init_def sound_def fresh_fds_def card_insert_if)

lemma opened_still: "opened fd l l1 \<Longrightarrow> still l1 l2 \<Longrightarrow> opened fd l l2"
  by (auto simp: opened_def still_def)

lemma opened_setup [simp]:
  assumes "opened fd l l'"
  shows "opened fd l (Out os # l')" "opened fd l (Ev (UiSetEvbit fd x) r # l')"
    "opened fd l (Ev (UiSetRelbit fd x) r # l')" "opened fd l (Ev (WriteDev fd d) r # l')"
    "opened fd l (Ev (UiDevCreate fd) r # l')" "opened fd l (Ev (UiDevDestroy fd) r # l')"
  using assms by (auto simp: opened_def sound_def)

lemma opened_closed:
  assumes "opened fd l l'" "e < 0"
  shows "made rdy l (e, fd) (Ev (U (Close fd)) r # l')"
  using assms by (auto simp: opened_def made_def sound_def may_init_def)

lemma opened_sound: "opened fd l l' \<Longrightarrow> sound l'"
  by (simp add: opened_def)

lemma made_failed:
  assumes "may_init l" "rv f < 0" "e < 0"
  shows "made rdy l (e, x) (Out os # Ev (U (Open p)) f # l)"
  using assms by (auto simp: made_def may_init_def sound_def)

lemma opened_made: "opened fd l l' \<Longrightarrow> rdy fd l' \<Longrightarrow> made rdy l (0, fd) l'"
  by (simp add: opened_def made_def)

lemma wii_input_init_step:
  assumes "obeys K (fresh_fds input_fds)" "may_init l"
  shows "wp wii_input_init (did_post K sound (made key_ready l)) K N l"
  unfolding wii_input_init_def
proof (rule did_sys [OF assms(1)])
  show "sound l" using assms(2) by (simp add: may_init_def)
  fix f assume f: "fresh_fds input_fds l (U (Open UINPUT_DEV)) f"
  let ?l = "Ev (U (Open UINPUT_DEV)) f # l"
  show "wp (if rv f < 0 then say [S ''E: Error opening /dev/uinput''] (ret (EINVAL_ret, rv f)) else
     bind (uinput_keypad_init (rv f)) (\<lambda>k.
     if k < 0 then
       say [S ''E: Error keypad init/dev/uinput'']
       (sys (UiDevDestroy (rv f)) (\<lambda>_. sys (U (Close (rv f))) (\<lambda>_. ret (EINVAL_ret, rv f))))
     else ret (0, rv f))) (did_post K sound (made key_ready l)) K N ?l"
  proof (cases "rv f < 0")
    case False
    then have o1: "opened (rv f) l ?l" using opened_start [OF assms(2) f] by simp
    then have keys: "wp (uinput_keypad_init (rv f)) (did_post K sound (\<lambda>x l'. still ?l l' \<and>
       (x = 0 \<and> key_ready (rv f) l' \<or> x < 0))) K N ?l"
      by (intro keypad_init_step) (simp_all add: opened_def)
    show ?thesis
      unfolding if_not_P [OF False]
      by (rule did_bind [OF keys])
        (auto simp: wp_simps answers_def opened_made opened_closed
          dest!: opened_still [OF o1] intro: opened_sound [where l = l and fd = "rv f"] split: option.split)
  qed (use assms(2) in \<open>simp add: wp_simps made_failed\<close>)
qed

lemma acc_err_step:
  "opened fd l l1 \<Longrightarrow> wp (acc_err fd) (did_post K sound (made acc_ready l)) K N l1"
  by (auto simp: acc_err_def wp_simps answers_def opened_closed intro: opened_sound [where l = l and fd = fd]
      split: option.split)

lemma acc_done_step:
  "opened fd l l1 \<Longrightarrow> acc_ready fd l1 \<Longrightarrow> wp (ret (0, fd)) (did_post K sound (made acc_ready l)) K N l1"
  by (simp add: wp_ret opened_made)

lemma wii_acc_init_step:
  assumes "obeys K (fresh_fds input_fds)" "may_init l"
  shows "wp wii_acc_init (did_post K sound (made acc_ready l)) K N l"
  unfolding wii_acc_init_def
proof (rule did_sys [OF assms(1)])
  show "sound l" using assms(2) by (simp add: may_init_def)
  fix f assume f: "fresh_fds input_fds l (U (Open UINPUT_DEV)) f"
  let ?l = "Ev (U (Open UINPUT_DEV)) f # l"
  have o1: "opened (rv f) l ?l" if "\<not> rv f < 0" using opened_start [OF assms(2) f] that by simp
  show "wp (let fd = rv f in
     if fd < 0 then say [S ''E: Error opening /dev/uinput''] (ret (EINVAL_ret, fd)) else
     sys (UiSetEvbit fd EV_REL) (\<lambda>a.
     if 0 > rv a then say [S ''E: ioctl(fd, UI_SET_EVBIT, EV_REL)''] (acc_err fd) else
     sys (UiSetRelbit fd REL_X) (\<lambda>x.
     if 0 > rv x then say [S ''E: ioctl(fd, UI_SET_RELBIT, REL_X)''] (acc_err fd) else
     sys (UiSetRelbit fd REL_Y) (\<lambda>y.
     if 0 > rv y then say [S ''E: ioctl(fd, UI_SET_RELBIT, REL_Y)''] (acc_err fd) else
     sys (UiSetRelbit fd REL_Z) (\<lambda>z.
     if 0 > rv z then say [S ''E: ioctl(fd, UI_SET_RELBIT, REL_Z)''] (acc_err fd) else
     sys (WriteDev fd acc_dev) (\<lambda>w.
     if 0 > rv w then say [S ''E: Unable to write to uinput wii_acc device''] (acc_err fd) else
     sys (UiDevCreate fd) (\<lambda>c.
     if rv c \<noteq> 0 then say [S ''E: Unable to ioctl wii_acc device''] (acc_err fd)
     else ret (0, fd)))))))) (did_post K sound (made acc_ready l)) K N ?l"
    unfolding Let_def
    by (intro wp_ifI did_sys [OF assms(1)] acc_err_step acc_done_step wp_say [THEN iffD2])
      (use o1 assms(2) in \<open>auto simp: wp_simps made_failed acc_ready_def created_def
        intro: opened_sound [where l = l and fd = "rv f"]\<close>)
qed


definition set_up :: "int \<times> int \<Rightarrow> input_call history \<Rightarrow> bool" where
  "set_up x l \<longleftrightarrow> injected l = [] \<and> clock_times l = [] \<and> sound l \<and>
     open_fds input_fds l = {fst x, snd x} \<and> key_ready (fst x) l \<and> acc_ready (snd x) l"

lemma wiid_init_step:
  assumes K: "obeys K (fresh_fds input_fds)"
  shows "wp wiid_init (did_post K sound set_up) K N []"
  unfolding wiid_init_def
proof (rule did_sys [OF K])
  fix r
  have start: "may_init [Ev CwSetErr r]" by (simp add: may_init_def sound_def)
  show "wp (bind wii_input_init (\<lambda>k.
     if 0 > fst k then bind (LOGE ''Couldn't setup wii_input'') (\<lambda>_. exit 255) else
     bind wii_acc_init (\<lambda>a.
     if 0 > fst a then bind (LOGE ''Couldn't setup wii_acc'') (\<lambda>_. exit 255)
     else ret (snd k, snd a)))) (did_post K sound set_up) K N [Ev CwSetErr r]"
  proof (rule did_bind [OF wii_input_init_step [OF K start]])
    fix k l assume k: "made key_ready [Ev CwSetErr r] k l"
    then have may: "may_init l" by (auto simp: made_def may_init_def)
    show "wp (if 0 > fst k then bind (LOGE ''Couldn't setup wii_input'') (\<lambda>_. exit 255) else
       bind wii_acc_init (\<lambda>a.
       if 0 > fst a then bind (LOGE ''Couldn't setup wii_acc'') (\<lambda>_. exit 255)
       else ret (snd k, snd a))) (did_post K sound set_up) K N l"
    proof (intro wp_ifI did_bind [OF wii_acc_init_step [OF K may]])
      fix a l1 assume a: "\<not> 0 > fst k" "made acc_ready l a l1" "\<not> 0 > fst a"
      then have "key_ready (snd k) l1"
        using k by (intro ready_mono(1) [of l l1]) (auto simp: made_def)
      then show "wp (ret (snd k, snd a)) (did_post K sound set_up) K N l1"
        using k a by (auto simp: wp_simps made_def set_up_def)
    qed (use k in \<open>auto simp: LOGE_def wp_simps made_def sound_def\<close>)
  qed
qed (simp add: sound_def)

lemma did_post_any: "wp m (did_post K G P) K N l \<Longrightarrow> wp m (did_post K any P) K N l"
  by (erule wp_mono) (auto simp: did_post_def split: res.splits)

section \<open>Registered events only\<close>

text \<open>The state while the messages are handled.\<close>

definition running :: "int \<Rightarrow> int \<Rightarrow> input_call history \<Rightarrow> bool" where
  "running kf af l \<longleftrightarrow> sound l \<and> open_fds input_fds l = {kf, af} \<and> key_ready kf l \<and> acc_ready af l"

lemma running_sound [simp]: "running kf af l \<Longrightarrow> sound l"
  by (simp add: running_def)

lemma running_out [simp]: "running kf af (Out os # l) = running kf af l"
  by (auto simp: running_def sound_def key_ready_def acc_ready_def created_def keys_asked_def)

lemma running_clock [simp]:
  "running kf af (Ev Gettimeofday r # l) = running kf af l"
  "running kf af (Ev ClockGettime r # l) = running kf af l"
  by (auto simp: running_def sound_def key_ready_def acc_ready_def created_def keys_asked_def)

lemma running_event:
  assumes "running kf af l" "fd \<in> {kf, af}" "registered l fd e \<or> refused l fd e"
  shows "running kf af (Ev (WriteEvent fd e) r # l)"
proof -
  have "set l \<subseteq> set (Ev (WriteEvent fd e) r # l)" by auto
  then show ?thesis
    using assms ready_mono [of l "Ev (WriteEvent fd e) r # l"]
    by (auto simp: running_def sound_def)
qed

lemma running_key:
  assumes "running kf af l" and "uint (ev_type e) = EV_SYN \<or>
    uint (ev_type e) = EV_KEY \<and> uint (ev_code e) < 767"
  shows "running kf af (Ev (WriteEvent kf e) r # l)"
  using assms ready_registered(1,2) [of kf l e] by (intro running_event) (auto simp: running_def)

lemma running_acc:
  assumes "running kf af l" and "uint (ev_type e) = EV_SYN \<or>
    uint (ev_type e) = EV_REL \<and> uint (ev_code e) \<in> {REL_X, REL_Y, REL_Z}"
  shows "running kf af (Ev (WriteEvent af e) r # l)"
  using assms ready_registered(3,4) [of af l e] by (intro running_event) (auto simp: running_def)

lemma running_bind:
  assumes "wp m (\<lambda>r. running kf af) K N l"
    and "\<And>a l. running kf af l \<Longrightarrow> wp (f a) (\<lambda>r. running kf af) K N l"
  shows "wp (bind m f) (\<lambda>r. running kf af) K N l"
  unfolding wp_bind by (rule wp_mono [OF assms(1)]) (auto simp: seq_def assms(2) split: res.splits)

lemma running_ret: "running kf af l \<Longrightarrow> wp (ret a) (\<lambda>r. running kf af) K N l"
  by (simp add: wp_ret)

lemma logs_running: "running kf af l \<Longrightarrow> wp (logs oss) (\<lambda>r. running kf af) K N l"
  by (induction oss arbitrary: l) (auto intro!: running_bind running_ret simp: LOGV_def wp_simps)

lemma write_running:
  assumes "running kf af l" "uint ty = EV_SYN \<or> uint ty = EV_KEY \<and> uint co < 767"
  shows "wp (uinput_write kf ty co v) (\<lambda>r. running kf af) K N l"
  using assms by (auto simp: uinput_write_def wp_simps intro!: running_key split: option.split)

lemma buttons_running:
  assumes "running kf af l"
  shows "wp (wii_handle_buttons kf b) (\<lambda>r. running kf af) K N l"
proof -
  have key: "uint (word_of_int (wii_key b) :: 16 word) < 767"
    using key_range [of b] by (simp add: uint_word_of_int)
  show ?thesis
    unfolding wii_handle_buttons_def uinput_click_def uinput_press_def uinput_release_def
      uinput_write_syn_def
    by (intro wp_say [THEN iffD2] running_bind wp_ifI write_running running_ret)
      (use assms key in simp_all)
qed

lemma send_running:
  assumes "running kf af l" and "uint ty = EV_SYN \<or> uint ty = EV_REL \<and> uint co \<in> {REL_X, REL_Y, REL_Z}"
  shows "wp (send_event af ty co v) (\<lambda>r. running kf af) K N l"
  using assms by (auto simp: send_event_def wp_simps intro!: running_acc split: option.split)

lemma acc_running:
  assumes "running kf af l"
  shows "wp (wii_handle_accelerometer af x y z t) (\<lambda>r. running kf af) K N l"
proof -
  have clk: "running kf af (Ev ClockGettime r # l)" for r using assms by simp
  show ?thesis
    unfolding wii_handle_accelerometer_def
  proof (intro wp_intro)
    fix r
    show "wp (case clock_msec r of
       None \<Rightarrow> fault ''overflow of the time in milliseconds''
     | Some t' \<Rightarrow>
         let new_time = word_of_int t' in
         if new_time \<ge> t + word_of_int acc_rate_msec then
           bind (send_event af (word_of_int EV_REL) (word_of_int REL_X) (ucast x)) (\<lambda>_.
           bind (send_event af (word_of_int EV_REL) (word_of_int REL_Y) (ucast y)) (\<lambda>_.
           bind (send_event af (word_of_int EV_REL) (word_of_int REL_Z) (ucast z)) (\<lambda>_.
           bind (send_event af (word_of_int EV_SYN) 0 0) (\<lambda>_.
           ret new_time))))
         else ret t) (\<lambda>r. running kf af) K N (Ev ClockGettime r # l)"
      unfolding Let_def
      by (cases "clock_msec r") (auto simp: assms wp_fault intro!: running_bind send_running running_ret wp_ifI)
  qed (simp_all add: assms)
qed

lemma message_running:
  assumes "running kf af l"
  shows "wp (wii_message kf af m t) (\<lambda>r. running kf af) K N l"
proof (cases m)
  case (MESG_BTN b)
  show ?thesis
    unfolding MESG_BTN wii_message_def cw_mesg.case
    by (rule running_bind [OF buttons_running [OF assms] running_ret])
next
  case (MESG_IR srcs)
  show ?thesis
    unfolding MESG_IR wii_message_def cw_mesg.case
    by (rule running_bind [OF logs_running [OF assms] running_ret])
qed (use assms in \<open>auto simp: wii_message_def LOGV_def LOGE_def wp_simps acc_running\<close>)

lemma batches_running:
  assumes "running kf af l"
  shows "wp (foreach batches (\<lambda>ms u. bind (cwiid_callback kf af ms u) (\<lambda>u'. ret (Inl u'))) t)
    (\<lambda>r. running kf af) K N l"
proof -
  have msgs: "wp (foreach ms (\<lambda>m u. bind (wii_message kf af m u) (\<lambda>u'. ret (Inl u'))) u)
      (\<lambda>r :: (64 word + 64 word) res. running kf af) K N l" if "running kf af l" for ms u l
    by (rule wp_foreach [where I = "\<lambda>_. running kf af"])
      (auto simp: that seq_def wp_bind wp_ret split: res.splits intro!: wp_mono [OF message_running])
  have call: "wp (cwiid_callback kf af ms u) (\<lambda>r. running kf af) K N l" if "running kf af l" for ms u l
    unfolding cwiid_callback_def by (intro running_bind msgs running_ret that)
  show ?thesis
    by (rule wp_foreach [where I = "\<lambda>_. running kf af"])
      (auto simp: assms seq_def wp_bind wp_ret split: res.splits intro!: wp_mono [OF call])
qed

text \<open>
  C24: on every run, whatever fails, the daemon writes an event only to a device that has been
  created; a movement only after the calls that register its type and its axis have succeeded,
  a key only after the calls that register key events and that key have been made. (Whether
  those succeed the code does not look at: a key is written though its registration was refused.)
  Every call is on an open descriptor, and at most two are open.
\<close>

theorem wiid_registered_only:
  assumes "obeys K (fresh_fds input_fds)"
  shows "case wiid_events batches K N [] of (r, l) \<Rightarrow>
    registered_or_refused l \<and> disciplined input_fds l \<and> card (open_fds input_fds l) \<le> 2"
proof -
  have "wp (wiid_events batches) (\<lambda>r. sound) K N []"
    unfolding wiid_events_def wp_bind
  proof (rule wp_mono [OF wiid_init_step [OF assms]])
    fix r l assume r: "did_post K sound set_up r l"
    show "seq (\<lambda>x. wp (foreach batches
        (\<lambda>ms u. bind (cwiid_callback (fst x) (snd x) ms u) (\<lambda>u'. ret (Inl u'))) 0)
        (seq (\<lambda>x. wp (ret (either x)) (\<lambda>r. sound) K N) (\<lambda>r. sound)) K N) (\<lambda>r. sound) r l"
      using r by (auto simp: seq_def did_post_def set_up_def running_def wp_ret split: res.splits
          intro!: wp_mono [OF batches_running])
  qed
  then show ?thesis by (simp add: wp_def sound_def)
qed

end
