(* ===== verification/Wiid_Events.thy ===== *)
theory Wiid_Events
  imports Wiid_Setup
begin

text \<open>
  What the callback of the Wii remote daemon injects into the two devices: the reference \<open>handled\<close>, which
  its events follow, and the limit on the rate of the accelerometer; and a run.
\<close>

section \<open>What the callback injects\<close>

text \<open>
  The reference: the messages in order, with the readings of the clock in milliseconds that the
  accelerometer messages find. A button is pressed and released; a reading of the accelerometer is
  passed on when at least 100 ms have gone by since the last one that was. The value is the list of
  events and the time of the last reading passed on.
\<close>

definition click_events :: "int \<Rightarrow> (int \<times> int \<times> int) list" where
  "click_events k = [(EV_KEY, k, 1), (EV_SYN, SYN_REPORT, 0), (EV_KEY, k, 0), (EV_SYN, SYN_REPORT, 0)]"

definition acc_events :: "byte \<Rightarrow> byte \<Rightarrow> byte \<Rightarrow> (int \<times> int \<times> int) list" where
  "acc_events x y z =
     [(EV_REL, REL_X, uint x), (EV_REL, REL_Y, uint y), (EV_REL, REL_Z, uint z), (EV_SYN, 0, 0)]"

fun handled :: "int \<Rightarrow> cw_mesg list \<Rightarrow> int list \<Rightarrow> ((int \<times> int \<times> int) list \<times> int) option" where
  "handled t [] ts = (if ts = [] then Some ([], t) else None)"
| "handled t (MESG_ACC x y z # ms) ts = (case ts of
     [] \<Rightarrow> None
   | now # ts' \<Rightarrow>
       if t + acc_rate_msec \<le> now
       then map_option (apfst ((@) (acc_events x y z))) (handled now ms ts')
       else handled t ms ts')"
| "handled t (MESG_BTN b # ms) ts =
     map_option (apfst ((@) (click_events (wii_key b)))) (handled t ms ts)"
| "handled t (m # ms) ts = handled t ms ts"

lemma handled_append:
  "handled t ms ts = Some (es, u) \<Longrightarrow> handled u ms' ts' = Some (es', v) \<Longrightarrow>
     handled t (ms @ ms') (ts @ ts') = Some (es @ es', v)"
  by (induction t ms ts arbitrary: es rule: handled.induct)
    (auto simp: apfst_def map_prod_def split: if_splits list.splits)

text \<open>
  What the clock is relied on: \<open>clock_gettime (CLOCK_MONOTONIC)\<close> succeeds and counts from the
  start of the system (here: for less than 35 million years).
\<close>

definition sane_clock :: "input_call contract" where
  "sane_clock l c r \<longleftrightarrow> (case c of
     ClockGettime \<Rightarrow> rv r = 0 \<and> 0 \<le> num r 0 \<and> num r 0 < 2 ^ 50 \<and> 0 \<le> num r 1 \<and> num r 1 < 10 ^ 9
   | _ \<Rightarrow> True)"

text \<open>The driver takes whole events.\<close>

definition takes_events :: "input_call contract" where
  "takes_events l c r \<longleftrightarrow> (case c of WriteEvent fd e \<Rightarrow> rv r = EVENT_SIZE | _ \<Rightarrow> True)"

definition input_contract :: "input_call contract" where
  "input_contract l c r \<longleftrightarrow> sane_clock l c r \<and> takes_events l c r"

lemma sane_clock_msec:
  assumes "sane_clock l ClockGettime r"
  shows "rv r = 0" "clock_msec r = Some (msec r)" "0 \<le> msec r" "msec r < 2 ^ 61"
proof -
  have b: "0 \<le> num r 0" "num r 0 < 2 ^ 50" "0 \<le> num r 1" "num r 1 < 10 ^ 9" and "rv r = 0"
    using assms by (simp_all add: sane_clock_def)
  then show "rv r = 0" by simp
  have d: "0 \<le> num r 1 sdiv 1000000" "num r 1 sdiv 1000000 < 1000"
    using b(3,4) by (auto simp: signed_divide_int_def sgn_if)
  show "clock_msec r = Some (msec r)" "0 \<le> msec r" "msec r < 2 ^ 61"
    using b d by (auto simp: clock_msec_def msec_def Let_def)
qed

definition acc_inv :: "64 word \<Rightarrow> bool" where
  "acc_inv t \<longleftrightarrow> uint t < 2 ^ 61"

lemma acc_due:
  assumes "acc_inv t" "0 \<le> ms" "ms < 2 ^ 61"
  shows "t + word_of_int acc_rate_msec \<le> word_of_int ms \<longleftrightarrow> uint t + acc_rate_msec \<le> ms"
    and "uint (word_of_int ms :: 64 word) = ms"
proof -
  show ms: "uint (word_of_int ms :: 64 word) = ms"
    using assms by (simp add: uint_word_of_int)
  have "uint (t + word_of_int acc_rate_msec) = uint t + acc_rate_msec"
    using assms(1) by (simp add: acc_inv_def acc_rate_msec_def uint_add_lem [THEN iffD1])
  then show "t + word_of_int acc_rate_msec \<le> word_of_int ms \<longleftrightarrow> uint t + acc_rate_msec \<le> ms"
    by (simp add: word_le_def ms)
qed

definition did :: "cw_mesg list \<Rightarrow> 64 word \<Rightarrow> input_call history \<Rightarrow> 64 word \<Rightarrow> input_call history \<Rightarrow> bool" where
  "did ms t l u l' \<longleftrightarrow> acc_inv u \<and> (\<exists>es ts. injected l' = injected l @ es \<and>
     clock_times l' = clock_times l @ ts \<and> handled (uint t) ms ts = Some (es, uint u))"

lemma did_nil: "acc_inv t \<Longrightarrow> did [] t l t l"
  by (simp add: did_def)

lemma did_trans: "did ms t l u l' \<Longrightarrow> did ms' u l' v l'' \<Longrightarrow> did (ms @ ms') t l v l''"
  unfolding did_def using handled_append by (smt (verit, best) append_assoc)

lemma logs_step:
  "wp (logs oss) (did_post K any (\<lambda>_ l'. injected l' = injected l \<and> clock_times l' = clock_times l)) K N l"
proof (induction oss arbitrary: l)
  case (Cons os oss)
  show ?case using Cons [of "Out (S ''V: '' # os) # l"] by (simp add: wp_simps LOGV_def)
qed (simp add: wp_simps)

lemma message_step:
  assumes K: "obeys K input_contract" and t: "acc_inv t"
  shows "wp (wii_message kf af m t) (did_post K any (did [m] t l)) K N l"
proof (cases m)
  case (MESG_BTN b)
  have c: "rv r = EVENT_SIZE" if "K h (WriteEvent fd e) = Some r" for h fd e r
    using obeysD [OF K that] by (simp add: input_contract_def takes_events_def)
  show ?thesis using key_range [of b] t c
    by (auto simp: MESG_BTN wii_message_def wii_handle_buttons_def uinput_click_def uinput_press_def
      uinput_release_def uinput_write_syn_def uinput_write_def wp_simps did_def click_events_def
      ev_data_def uint_word_of_int split: option.split)
next
  case (MESG_ACC x y z)
  show ?thesis
    unfolding MESG_ACC wii_message_def cw_mesg.case wii_handle_accelerometer_def
  proof (rule did_sys [OF K TrueI])
    fix r assume "input_contract l ClockGettime r"
    then have "sane_clock l ClockGettime r" by (simp add: input_contract_def)
    note s = sane_clock_msec [OF this] and d = acc_due [OF t sane_clock_msec(3,4) [OF this]]
    show "wp (if rv r < 0 then fault ''tick is uninitialised''
      else case clock_msec r of None \<Rightarrow> fault ''overflow of the time in milliseconds''
        | Some ms \<Rightarrow> let new_time = word_of_int ms in
          if new_time \<ge> t + word_of_int acc_rate_msec then
           bind (send_event af (word_of_int EV_REL) (word_of_int REL_X) (ucast x)) (\<lambda>_.
           bind (send_event af (word_of_int EV_REL) (word_of_int REL_Y) (ucast y)) (\<lambda>_.
           bind (send_event af (word_of_int EV_REL) (word_of_int REL_Z) (ucast z)) (\<lambda>_.
           bind (send_event af (word_of_int EV_SYN) 0 0) (\<lambda>_.
           ret new_time))))
          else ret t)
      (did_post K any (did [MESG_ACC x y z] t l)) K N (Ev ClockGettime r # l)"
      using s d t
      by (auto simp: Let_def wp_simps send_event_def did_def ev_data_def acc_events_def acc_inv_def sint_byte 
          split: option.split intro!: exI [of _ "[msec r]"])
  qed
next
  case (MESG_IR srcs)
  show ?thesis
    unfolding MESG_IR wii_message_def cw_mesg.case
    by (rule did_bind [OF logs_step]) (simp add: wp_simps did_def t)
qed (auto simp: wii_message_def LOGV_def LOGE_def wp_simps did_def t)


lemma callback_step:
  assumes K: "obeys K input_contract" and t: "acc_inv t"
  shows "wp (cwiid_callback kf af ms t) (did_post K any (did ms t l)) K N l"
proof -
  have "wp (foreach ms (\<lambda>m u. bind (wii_message kf af m u) (\<lambda>u'. ret (Inl u'))) t)
      (did_post K any (\<lambda>x. did ms t l (either x))) K N l"
    using t
  proof (induction ms arbitrary: t l)
    case (Cons m ms)
    have "wp (bind (wii_message kf af m t) (\<lambda>u'. ret (Inl u')))
        (did_post K any (\<lambda>x l'. \<exists>u. x = (Inl u :: 64 word + 64 word) \<and> did [m] t l u l')) K N l"
      by (rule did_bind [OF message_step [OF K Cons.prems]]) (simp add: wp_simps)
    then show ?case
      unfolding foreach.simps
    proof (rule did_bind)
      fix x l1 assume "\<exists>u. x = (Inl u :: 64 word + 64 word) \<and> did [m] t l u l1"
      then obtain u where x: "x = Inl u" and d: "did [m] t l u l1" by auto
      then have "acc_inv u" by (simp add: did_def)
      from Cons.IH [OF this, of l1] show "wp (case x of Inl s' \<Rightarrow> foreach ms (\<lambda>m u. bind (wii_message kf af m u)
          (\<lambda>u'. ret (Inl u'))) s' | Inr a \<Rightarrow> ret (Inr a)) (did_post K any (\<lambda>x. did (m # ms) t l (either x))) K N l1"
        unfolding x sum.case
        by (rule wp_mono) (use did_trans [OF d] in \<open>auto simp: did_post_def split: res.splits\<close>)
    qed
  qed (simp add: wp_simps did_nil)
  then show ?thesis
    unfolding cwiid_callback_def by (rule did_bind) (simp add: wp_simps)
qed


lemma batches_step:
  assumes K: "obeys K input_contract" and t: "acc_inv t"
  shows "wp (foreach batches (\<lambda>ms u. bind (cwiid_callback kf af ms u) (\<lambda>u'. ret (Inl u'))) t)
      (did_post K any (\<lambda>x. did (concat batches) t l (either x))) K N l"
  using t
proof (induction batches arbitrary: t l)
  case (Cons ms batches)
  have "wp (bind (cwiid_callback kf af ms t) (\<lambda>u'. ret (Inl u')))
      (did_post K any (\<lambda>x l'. \<exists>u. x = (Inl u :: 64 word + 64 word) \<and> did ms t l u l')) K N l"
    by (rule did_bind [OF callback_step [OF K Cons.prems]]) (simp add: wp_simps)
  then show ?case
    unfolding foreach.simps
  proof (rule did_bind)
    fix x l1 assume "\<exists>u. x = (Inl u :: 64 word + 64 word) \<and> did ms t l u l1"
    then obtain u where x: "x = Inl u" and d: "did ms t l u l1" by auto
    then have "acc_inv u" by (simp add: did_def)
    from Cons.IH [OF this, of l1] show "wp (case x of Inl s' \<Rightarrow> foreach batches
        (\<lambda>ms u. bind (cwiid_callback kf af ms u) (\<lambda>u'. ret (Inl u'))) s' | Inr a \<Rightarrow> ret (Inr a))
        (did_post K any (\<lambda>x. did (concat (ms # batches)) t l (either x))) K N l1"
      unfolding x sum.case
      by (rule wp_mono) (use did_trans [OF d] in \<open>auto simp: did_post_def split: res.splits\<close>)
  qed
qed (simp add: wp_simps did_nil)

text \<open>
  C22: what the daemon injects. With a clock that works and a driver that takes whole events, the
  events of any run are those of the reference \<open>handled\<close>: for each button a press and a release, for each
  due reading of the accelerometer its three values, each group closed by a synchronisation
  event, in the order of the messages; nothing else. The callback never fails and returns when
  its calls do.
\<close>

theorem wiid_injects:
  assumes "obeys K input_contract" and "obeys K (fresh_fds input_fds)"
  shows "case wiid_events batches K N [] of (r, l) \<Rightarrow>
    (case r of Val u \<Rightarrow> handled 0 (concat batches) (clock_times l) = Some (injected l, uint u)
     | Exit n \<Rightarrow> n = 255 | Fault e \<Rightarrow> False | Wait \<Rightarrow> \<not> answers K)"
proof -
  have "wp (wiid_events batches) (did_post K any (\<lambda>u l.
      handled 0 (concat batches) (clock_times l) = Some (injected l, uint u))) K N []"
    unfolding wiid_events_def
    by (rule did_bind [OF did_post_any [OF wiid_init_step [OF assms(2)]]],
        rule did_bind [OF batches_step [OF assms(1)]])
      (auto simp: acc_inv_def did_def set_up_def wp_simps)
  then show ?thesis by (auto simp: wp_def did_post_def split: res.splits)
qed

section \<open>The rate of the accelerometer\<close>

text \<open>The clock at the readings that were passed on, newest first.\<close>

primrec last_clock :: "input_call history \<Rightarrow> int" where
  "last_clock [] = 0"
| "last_clock (x # l) = (case x of
     Ev c r \<Rightarrow> (case c of ClockGettime \<Rightarrow> msec r | _ \<Rightarrow> last_clock l) | Out os \<Rightarrow> last_clock l)"

primrec rel_times :: "input_call history \<Rightarrow> int list" where
  "rel_times [] = []"
| "rel_times (x # l) = (case x of
     Ev c r \<Rightarrow> (case c of
       WriteEvent fd e \<Rightarrow> if uint (ev_type e) = EV_REL \<and> uint (ev_code e) = REL_X
         then last_clock l # rel_times l else rel_times l
     | _ \<Rightarrow> rel_times l)
   | Out os \<Rightarrow> rel_times l)"

definition spaced :: "int list \<Rightarrow> bool" where
  "spaced = sorted_wrt (\<lambda>new old. old + acc_rate_msec \<le> new)"

definition paced :: "64 word \<Rightarrow> input_call history \<Rightarrow> bool" where
  "paced u l \<longleftrightarrow> acc_inv u \<and> spaced (rel_times l @ [0]) \<and> (\<forall>x \<in> set (rel_times l). x \<le> uint u)"

definition pace_post :: "64 word res \<Rightarrow> input_call history \<Rightarrow> bool" where
  "pace_post r l \<longleftrightarrow> (case r of Val u \<Rightarrow> paced u l | Fault e \<Rightarrow> False | _ \<Rightarrow> spaced (rel_times l @ [0]))"

lemma pace_simps [simp]:
  "pace_post (Val u) l = paced u l" "\<not> pace_post (Fault e) l"
  "pace_post (Exit n) l = spaced (rel_times l @ [0])" "pace_post Wait l = spaced (rel_times l @ [0])"
  by (simp_all add: pace_post_def)

lemma paced_spaced [simp]: "paced t l \<Longrightarrow> spaced (rel_times l @ [0])"
  by (simp add: paced_def)

text \<open>A part of the program that never fails and passes no reading on.\<close>

definition idle :: "int list \<Rightarrow> 'a res \<Rightarrow> input_call history \<Rightarrow> bool" where
  "idle ts r l \<longleftrightarrow> (\<forall>e. r \<noteq> Fault e) \<and> rel_times l = ts"

lemma idle_bind:
  fixes m :: "('a, input_call) io"
  assumes "wp m (idle ts) K N l" and "\<And>a l'. rel_times l' = ts \<Longrightarrow> wp (f a) (idle ts) K N l'"
  shows "wp (bind m f) (idle ts) K N l"
  unfolding wp_bind
proof (rule wp_mono [OF assms(1)])
  fix r :: "'a res" and l' assume r: "idle ts r l'"
  then show "seq (\<lambda>a. wp (f a) (idle ts) K N) (idle ts) r l'"
    using assms(2) [of l'] by (cases r) (auto simp: idle_def)
qed

lemma idle_ret: "rel_times l = ts \<Longrightarrow> wp (ret a) (idle ts) K N l"
  by (simp add: wp_simps idle_def)

lemma logs_idle: "rel_times l = ts \<Longrightarrow> wp (logs oss) (idle ts) K N l"
  by (induction oss arbitrary: l) (auto intro!: idle_bind idle_ret simp: LOGV_def wp_simps idle_def)

lemma write_idle: "uint ty \<noteq> EV_REL \<Longrightarrow> rel_times l = ts \<Longrightarrow> wp (uinput_write fd ty co v) (idle ts) K N l"
  by (simp add: uinput_write_def wp_simps idle_def split: option.split)

lemma write_syn_idle:
  "uint ty \<noteq> EV_REL \<Longrightarrow> rel_times l = ts \<Longrightarrow> wp (uinput_write_syn fd ty co v) (idle ts) K N l"
  unfolding uinput_write_syn_def by (intro idle_bind wp_ifI write_idle idle_ret) simp_all

lemma buttons_idle: "rel_times l = ts \<Longrightarrow> wp (wii_handle_buttons fd b) (idle ts) K N l"
  unfolding wii_handle_buttons_def uinput_click_def uinput_press_def uinput_release_def
  by (intro wp_say [THEN iffD2] idle_bind wp_ifI write_syn_idle idle_ret) simp_all

lemma idle_paced:
  assumes "paced t l" and "wp m (idle (rel_times l)) K N l"
  shows "wp (bind m (\<lambda>_. ret t)) pace_post K N l"
  unfolding wp_bind
  by (rule wp_mono [OF assms(2)])
    (use assms(1) in \<open>auto simp: seq_def idle_def wp_ret paced_def split: res.splits\<close>)

lemma message_paced:
  assumes K: "obeys K sane_clock" and t: "paced t l"
  shows "wp (wii_message kf af m t) pace_post K N l"
proof (cases m)
  case (MESG_BTN b)
  show ?thesis
    unfolding MESG_BTN wii_message_def cw_mesg.case by (rule idle_paced [OF t buttons_idle [OF refl]])
next
  case (MESG_ACC x y z)
  have inv: "acc_inv t" using t by (simp add: paced_def)
  show ?thesis
    unfolding MESG_ACC wii_message_def cw_mesg.case wii_handle_accelerometer_def
  proof (rule wp_sysI [OF K])
    fix r assume "sane_clock l ClockGettime r"
    note s = sane_clock_msec [OF this] and d = acc_due [OF inv sane_clock_msec(3,4) [OF this]]
    have "spaced (msec r # rel_times l @ [0]) \<and> (\<forall>x \<in> set (rel_times l). x \<le> msec r)"
      if "uint t + acc_rate_msec \<le> msec r"
    proof -
      have "x + acc_rate_msec \<le> msec r" if "x \<in> set (rel_times l)" for x
        using t that \<open>uint t + acc_rate_msec \<le> msec r\<close> by (force simp: paced_def)
      moreover have "acc_rate_msec \<le> msec r" using that uint_ge_0 [of t] by linarith
      ultimately show ?thesis using t by (force simp: paced_def spaced_def acc_rate_msec_def)
    qed
    then show "wp (if rv r < 0 then fault ''tick is uninitialised''
      else case clock_msec r of None \<Rightarrow> fault ''overflow of the time in milliseconds''
        | Some ms \<Rightarrow> let new_time = word_of_int ms in
          if new_time \<ge> t + word_of_int acc_rate_msec then
           bind (send_event af (word_of_int EV_REL) (word_of_int REL_X) (ucast x)) (\<lambda>_.
           bind (send_event af (word_of_int EV_REL) (word_of_int REL_Y) (ucast y)) (\<lambda>_.
           bind (send_event af (word_of_int EV_REL) (word_of_int REL_Z) (ucast z)) (\<lambda>_.
           bind (send_event af (word_of_int EV_SYN) 0 0) (\<lambda>_.
           ret new_time))))
          else ret t) pace_post K N (Ev ClockGettime r # l)"
      using s d t
      by (auto simp: Let_def wp_simps send_event_def paced_def acc_inv_def split: option.split)
  qed (use t in simp)
next
  case (MESG_IR srcs)
  show ?thesis
    unfolding MESG_IR wii_message_def cw_mesg.case by (rule idle_paced [OF t logs_idle [OF refl]])
qed (use t in \<open>auto simp: wii_message_def LOGV_def LOGE_def wp_simps paced_def\<close>)

lemma callback_paced:
  assumes K: "obeys K sane_clock" and t: "paced t l"
  shows "wp (cwiid_callback kf af ms t) pace_post K N l"
  unfolding cwiid_callback_def wp_bind
  by (rule wp_foreach [where I = paced], rule t)
    (auto simp: wp_bind wp_ret seq_def pace_post_def split: res.splits intro!: wp_mono [OF message_paced [OF K]])

lemma keypad_idle: "rel_times l = ts \<Longrightarrow> wp (uinput_keypad_init fd) (idle ts) K N l"
proof -
  have "wp (foreach [0..<767] (\<lambda>i u. sys (UiSetKeybit fd (int i)) (\<lambda>_. ret (Inl u))) ())
     (idle ts :: (unit + unit) res \<Rightarrow> _) K N l" if "rel_times l = ts" for l
    by (rule wp_foreach [where I = "\<lambda>_ l. rel_times l = ts"])
      (auto simp: that idle_def wp_simps split: option.split)
  then show "rel_times l = ts \<Longrightarrow> wp (uinput_keypad_init fd) (idle ts) K N l"
    unfolding uinput_keypad_init_def by (intro wp_intro idle_bind idle_ret) (simp_all add: idle_def)
qed

lemma wiid_init_idle: "wp wiid_init (idle []) K N []"
  unfolding wiid_init_def wii_input_init_def wii_acc_init_def acc_err_def LOGE_def Let_def
  by (intro wp_intro idle_bind idle_ret keypad_idle) (simp_all add: idle_def)

text \<open>
  C23: the accelerometer is limited to ten readings a second. Whatever the remote sends and however the
  writes end, two readings that are passed on are at least 100 ms apart by the clock, and the first
  comes no earlier than 100 ms.
\<close>

theorem wiid_acc_rate:
  assumes "obeys K sane_clock"
  shows "case wiid_events batches K N [] of (r, l) \<Rightarrow>
    (\<forall>e. r \<noteq> Fault e) \<and> sorted_wrt (\<lambda>new old. old + 100 \<le> new) (rel_times l @ [0])"
proof -
  let ?Q = "\<lambda>(r :: 64 word res) l. (\<forall>e. r \<noteq> Fault e) \<and> spaced (rel_times l @ [0])"
  have run: "wp (foreach batches (\<lambda>ms u. bind (cwiid_callback kf af ms u) (\<lambda>u'. ret (Inl u'))) 0)
      (seq (\<lambda>x. wp (ret (either x)) ?Q K N) ?Q) K N l" if "rel_times l = []" for kf af l
    by (rule wp_foreach [where I = paced])
      (auto simp: that paced_def acc_inv_def spaced_def wp_bind wp_ret seq_def pace_post_def split: res.splits
        intro!: wp_mono [OF callback_paced [OF assms]])
  have "wp (wiid_events batches) ?Q K N []"
    unfolding wiid_events_def wp_bind
    by (rule wp_mono [OF wiid_init_idle])
      (use run in \<open>auto simp: idle_def seq_def spaced_def wp_bind split: res.splits\<close>)
  then show ?thesis by (simp add: wp_def spaced_def acc_rate_msec_def split: prod.splits)
qed

section \<open>A run\<close>

text \<open>
  A kernel with a device driver that accepts everything and a clock that is 40 ms later at each
  reading: a button, then four readings of the accelerometer.
\<close>

definition is_open :: "input_call event \<Rightarrow> bool" where
  "is_open x = (case x of Ev c r \<Rightarrow> (case c of U d \<Rightarrow> (case d of Open p \<Rightarrow> True | _ \<Rightarrow> False) | _ \<Rightarrow> False)
     | Out os \<Rightarrow> False)"

definition wii_kernel :: "input_call kernel" where
  "wii_kernel l c = (case c of
     U d \<Rightarrow> Some (ok (3 + int (length (filter is_open l))))
   | WriteEvent fd e \<Rightarrow> Some (ok EVENT_SIZE)
   | ClockGettime \<Rightarrow> Some (with_nums 0 [7, 40000000 * (1 + int (length (clock_times l)))])
   | _ \<Rightarrow> Some (ok 0))"

definition wii_guarded :: "input_call kernel" where
  "wii_guarded = guarded (\<lambda>l c r. input_contract l c r \<and> fresh_fds input_fds l c r) wii_kernel"

lemma wii_guarded_obeys:
  "obeys wii_guarded input_contract" "obeys wii_guarded (fresh_fds input_fds)" "obeys wii_guarded sane_clock"
  by (auto simp: wii_guarded_def obeys_def guarded_def input_contract_def split: option.splits if_splits)

text \<open>The answers to the 767 registrations of keys, and what they leave as it is.\<close>

definition keybits :: "int \<Rightarrow> nat \<Rightarrow> input_call history" where
  "keybits fd n = map (\<lambda>i. Ev (UiSetKeybit fd (int i)) (ok 0)) (rev [0..<n])"

lemma keybits_Suc: "keybits fd (Suc n) = Ev (UiSetKeybit fd (int n)) (ok 0) # keybits fd n"
  by (simp add: keybits_def)

lemma keybits_simps [simp]:
  "keybits fd 0 = []"
  "clock_times (keybits fd n @ l) = clock_times l"
  "injected (keybits fd n @ l) = injected l"
  "rel_times (keybits fd n @ l) = rel_times l"
  "last_clock (keybits fd n @ l) = last_clock l"
  "open_fds input_fds (keybits fd n @ l) = open_fds input_fds l"
  "filter is_open (keybits fd n @ l) = filter is_open l"
  by (induction n) (simp_all add: keybits_Suc is_open_def keybits_def)

lemma wii_guarded_simps [simp]:
  "wii_guarded l CwSetErr = Some (ok 0)" "wii_guarded l Gettimeofday = Some (ok 0)"
  "wii_guarded l (UiSetEvbit fd k) = Some (ok 0)" "wii_guarded l (UiSetRelbit fd k) = Some (ok 0)"
  "wii_guarded l (UiSetKeybit fd k) = Some (ok 0)" "wii_guarded l (WriteDev fd d) = Some (ok 0)"
  "wii_guarded l (UiDevCreate fd) = Some (ok 0)" "wii_guarded l (WriteEvent fd e) = Some (ok EVENT_SIZE)"
  "3 + int (length (filter is_open l)) \<notin> open_fds input_fds l \<Longrightarrow>
     wii_guarded l (U (Open p)) = Some (ok (3 + int (length (filter is_open l))))"
  "length (clock_times l) < 20 \<Longrightarrow> wii_guarded l ClockGettime =
     Some (with_nums 0 [7, 40000000 * (1 + int (length (clock_times l)))])"
  by (simp_all add: wii_guarded_def guarded_def wii_kernel_def input_contract_def sane_clock_def
      takes_events_def fresh_fds_def num_def)

lemma keybits_run:
  "foreach [a..<a + n] (\<lambda>i u. sys (UiSetKeybit fd (int i)) (\<lambda>_. ret (Inl u))) () wii_guarded N (keybits fd a @ l) =
     (Val (Inl () :: unit + unit), keybits fd (a + n) @ l)"
proof (induction n arbitrary: a)
  case (Suc n)
  have "[a..<a + Suc n] = a # [Suc a..<Suc a + n]" by (simp add: upt_conv_Cons)
  then show ?case using Suc [of "Suc a"] by (simp add: io_simps keybits_Suc)
qed (simp add: io_simps)

lemma keypad_run:
  "uinput_keypad_init fd wii_guarded N l = (Val 0, Ev (UiDevCreate fd) (ok 0) # Ev (WriteDev fd keypad_dev) (ok 0) #
     keybits fd 767 @ Ev (UiSetEvbit fd EV_SYN) (ok 0) # Ev (UiSetEvbit fd EV_KEY) (ok 0) # l)"
  using keybits_run [of 0 767 fd N] by (simp add: uinput_keypad_init_def io_simps)

definition wii_batches :: "cw_mesg list list" where
  "wii_batches = [[MESG_BTN 0x0008, MESG_ACC 1 2 3], [MESG_ACC 4 5 6], [], [MESG_ACC 7 8 9, MESG_ACC 200 0 255]]"

lemma wii_batches_run:
  "case wiid_events wii_batches wii_guarded 1 [] of (r, l) \<Rightarrow> r = Val 7160 \<and> rel_times l = [7160, 7040] \<and>
     injected l = [(1, 14, 1), (0, 0, 0), (1, 14, 0), (0, 0, 0),
       (2, 0, 1), (2, 1, 2), (2, 2, 3), (0, 0, 0), (2, 0, 200), (2, 1, 0), (2, 2, 255), (0, 0, 0)]"
  by (simp add: wiid_events_def wiid_init_def wii_input_init_def wii_acc_init_def keypad_run io_simps
        is_open_def Let_def)
      (simp add: wii_batches_def cwiid_callback_def wii_message_def wii_handle_buttons_def
        uinput_click_def uinput_press_def uinput_release_def uinput_write_syn_def uinput_write_def
        wii_handle_accelerometer_def send_event_def clock_msec_def acc_rate_msec_def wii_key_def io_simps
        is_open_def Let_def num_def ev_data_def msec_def signed_divide_int_def sint_byte)

theorem wiid_injects_witness:
  "(case wiid_events wii_batches wii_guarded 1 [] of (r, l) \<Rightarrow>
    (case r of Val u \<Rightarrow> handled 0 (concat wii_batches) (clock_times l) = Some (injected l, uint u)
     | Exit n \<Rightarrow> n = 255 | Fault e \<Rightarrow> False | Wait \<Rightarrow> \<not> answers wii_guarded)) \<and>
   (case wiid_events wii_batches wii_guarded 1 [] of (r, l) \<Rightarrow> r = Val 7160 \<and>
     injected l = [(1, 14, 1), (0, 0, 0), (1, 14, 0), (0, 0, 0),
       (2, 0, 1), (2, 1, 2), (2, 2, 3), (0, 0, 0), (2, 0, 200), (2, 1, 0), (2, 2, 255), (0, 0, 0)])"
  using wii_batches_run by (intro conjI wiid_injects wii_guarded_obeys) auto

theorem wiid_acc_rate_witness:
  "(case wiid_events wii_batches wii_guarded 1 [] of (r, l) \<Rightarrow>
    (\<forall>e. r \<noteq> Fault e) \<and> sorted_wrt (\<lambda>new old. old + 100 \<le> new) (rel_times l @ [0])) \<and>
   (case wiid_events wii_batches wii_guarded 1 [] of (r, l) \<Rightarrow> rel_times l = [7160, 7040])"
  using wii_batches_run by (intro conjI wiid_acc_rate wii_guarded_obeys) auto

theorem wiid_registered_only_witness:
  "(case wiid_events wii_batches wii_guarded 1 [] of (r, l) \<Rightarrow>
    registered_or_refused l \<and> disciplined input_fds l \<and> card (open_fds input_fds l) \<le> 2) \<and>
   (case wiid_events wii_batches wii_guarded 1 [] of (r, l) \<Rightarrow> length (injected l) = 12)"
  using wii_batches_run by (intro conjI wiid_registered_only wii_guarded_obeys) auto

end

