(* ===== verification/Wiid_Leds.thy ===== *)
theory Wiid_Leds
  imports Wiid
begin

unbundle bit_operations_syntax

text \<open>
  The main thread of the Wii remote daemon: what it tells the remote, and how it ends.
\<close>

section \<open>The LEDs\<close>

text \<open>What the remote is told, oldest first: report modes and LEDs.\<close>

primrec cw_modes :: "input_call history \<Rightarrow> byte list" where
  "cw_modes [] = []"
| "cw_modes (x # l) = (case x of
     Ev c r \<Rightarrow> (case c of CwSetRptMode w m \<Rightarrow> cw_modes l @ [m] | _ \<Rightarrow> cw_modes l)
   | Out os \<Rightarrow> cw_modes l)"

primrec cw_leds :: "input_call history \<Rightarrow> byte list" where
  "cw_leds [] = []"
| "cw_leds (x # l) = (case x of
     Ev c r \<Rightarrow> (case c of CwSetLed w b \<Rightarrow> cw_leds l @ [b] | _ \<Rightarrow> cw_leds l)
   | Out os \<Rightarrow> cw_leds l)"

text \<open>The chase: the LEDs come on one after the other, then go off in the same order.\<close>

definition led_at :: "nat \<Rightarrow> byte" where
  "led_at n = (let k = n mod 8 in if k < 4 then 2 ^ (k + 1) - 1 else 16 - 2 ^ (k - 3))"

text \<open>The answer of some \<open>cwiid_set_led\<close> was an error.\<close>

definition led_failed :: "input_call history \<Rightarrow> bool" where
  "led_failed l \<longleftrightarrow> (\<exists>w b r. Ev (CwSetLed w b) r \<in> set l \<and> rv r \<noteq> 0)"

lemma toggles:
  "toggle_bit 0 1 = 1" "toggle_bit 1 2 = 3" "toggle_bit 3 4 = 7" "toggle_bit 7 8 = 15"
  "toggle_bit 15 1 = 14" "toggle_bit 14 2 = 12" "toggle_bit 12 4 = 8" "toggle_bit 8 8 = 0"
  by code_simp+

text \<open>The LEDs after \<open>n\<close> settings.\<close>

definition lit :: "nat \<Rightarrow> byte" where
  "lit n = (if n = 0 then 0 else led_at (n - 1))"

lemma led_at_period: "led_at (n + 8) = led_at n"
  by (simp add: led_at_def)

lemma lit_period: "lit (n + 8) = lit n"
proof (cases n)
  case 0
  have "led_at 7 = 0" by code_simp
  then show ?thesis by (simp add: 0 lit_def)
next
  case (Suc m)
  then show ?thesis using led_at_period [of m] by (simp add: lit_def add.commute)
qed

lemma led_vals: "led_at 0 = 1" "led_at (Suc 0) = 3" "led_at 2 = 7" "led_at 3 = 15" "led_at 4 = 14"
  "led_at 5 = 12" "led_at 6 = 8" "led_at 7 = 0"
  by (simp_all add: led_at_def)

lemma lit_vals: "lit 0 = 0" "lit (Suc 0) = 1" "lit 2 = 3" "lit 3 = 7" "lit 4 = 15" "lit 5 = 14"
  "lit 6 = 12" "lit 7 = 8"
  by (simp_all add: lit_def led_vals)

lemma toggle_lit: "toggle_bit (lit n) (2 ^ (n mod 4)) = led_at n"
proof (induction n rule: less_induct)
  case (less n)
  show ?case
  proof (cases "n < 8")
    case True
    then consider "n = 0" | "n = 1" | "n = 2" | "n = 3" | "n = 4" | "n = 5" | "n = 6" | "n = 7"
      by linarith
    then show ?thesis by cases (simp_all add: lit_vals led_vals toggles)
  next
    case False
    then obtain m where n: "n = m + 8" by (metis add.commute le_Suc_ex not_less)
    have "(m + 8) mod 4 = m mod 4" by presburger
    then show ?thesis using less [of m] by (simp add: n lit_period led_at_period)
  qed
qed

definition lights :: "nat \<Rightarrow> input_call history \<Rightarrow> bool" where
  "lights n l \<longleftrightarrow> cw_modes l = [2, 6] \<and> cw_leds l = map led_at [0..<n]"

text \<open>Between two settings, and when the loop is left.\<close>

definition chase_post :: "nat \<Rightarrow> (byte + unit) res \<Rightarrow> input_call history \<Rightarrow> bool" where
  "chase_post n r l \<longleftrightarrow> (case r of
     Val (Inl led) \<Rightarrow> lights n l \<and> led = lit n
   | Val (Inr u) \<Rightarrow> led_failed l \<and> (\<exists>k. lights k l)
   | Wait \<Rightarrow> \<exists>k. lights k l | _ \<Rightarrow> False)"

lemma lights_simps [simp]:
  "lights n (Out os # l) = lights n l" "lights n (Ev (U c) r # l) = lights n l"
  "lights n (Ev (CwClose w) r # l) = lights n l"
  by (simp_all add: lights_def)

lemma led_toggle_step:
  assumes "lights n l" "led = lit n" "b = 2 ^ (n mod 4)"
  shows "wp (led_toggle w b led) (chase_post (Suc n)) K N l"
proof -
  have "lights (Suc n) (Ev (CwSetLed w (toggle_bit led b)) r # l)" for r
    using assms toggle_lit [of n] by (simp add: lights_def)
  moreover from this have "\<exists>k. lights k (Ev (CwSetLed w (toggle_bit led b)) r # l)" for r by blast
  moreover have "toggle_bit led b = lit (Suc n)" using assms toggle_lit [of n] by (simp add: lit_def)
  ultimately show ?thesis
    using assms(1)
    by (auto simp: led_toggle_def Let_def set_led_state_def LOGE_def wp_simps chase_post_def led_failed_def
        split: option.split)
qed

lemma led_round_step:
  assumes "lights (4 * k) l" "led = lit (4 * k)"
  shows "wp (led_round w led) (chase_post (4 * k + 4)) K N l"
proof -
  have next_led: "wp (bind (led_toggle w b led) (\<lambda>y. case y of Inl s \<Rightarrow> f s | Inr a \<Rightarrow> ret (Inr a)))
      (chase_post m) K N l"
    if "lights n l" "led = lit n" "b = 2 ^ (n mod 4)"
      "\<And>led l. lights (Suc n) l \<Longrightarrow> led = lit (Suc n) \<Longrightarrow> wp (f led) (chase_post m) K N l"
    for n m l led b and f :: "byte \<Rightarrow> (byte + unit, input_call) io"
    unfolding wp_bind
    by (rule wp_mono [OF led_toggle_step [OF that(1-3)]])
      (auto simp: chase_post_def seq_def wp_ret that(4) split: res.splits sum.splits)
  have m: "(4 * k) mod 4 = 0" "Suc (4 * k) mod 4 = 1" "Suc (Suc (4 * k)) mod 4 = 2"
    "Suc (Suc (Suc (4 * k))) mod 4 = 3" by presburger+
  show ?thesis
    unfolding led_round_def foreach.simps
    by (rule next_led [OF assms], simp add: m, rule next_led, assumption, assumption, simp add: m,
        rule next_led, assumption, assumption, simp add: m, rule next_led, assumption, assumption,
        simp add: m) (simp add: wp_ret chase_post_def numeral_eq_Suc)
qed

lemma leds_loop:
  assumes "lights 0 l"
  shows "wp (loop (led_round w) 0) (\<lambda>r l. (\<exists>k. lights k l) \<and> (r = Wait \<or> r = Val () \<and> led_failed l)) K N l"
proof (rule wp_loop [where I = "\<lambda>led l. \<exists>k. lights (4 * k) l \<and> led = lit (4 * k)"])
  show "\<exists>k. lights (4 * k) l \<and> 0 = lit (4 * k)" using assms by (intro exI [of _ 0]) (simp add: lit_def)
  fix led l assume "\<exists>k. lights (4 * k) l \<and> led = lit (4 * k)"
  then obtain k where k: "lights (4 * k) l" "led = lit (4 * k)" by blast
  have "4 * k + 4 = 4 * Suc k" by simp
  from led_round_step [OF k, unfolded this] show "wp (led_round w led) (seq (next_or
      (\<lambda>led l. \<exists>k. lights (4 * k) l \<and> led = lit (4 * k))
      (\<lambda>r l. (\<exists>k. lights k l) \<and> (r = Wait \<or> r = Val () \<and> led_failed l)))
      (\<lambda>r l. (\<exists>k. lights k l) \<and> (r = Wait \<or> r = Val () \<and> led_failed l))) K N l"
    by (rule wp_mono)
      (auto simp: chase_post_def seq_def split: res.splits sum.splits intro: exI [of _ "Suc k"])
qed blast


text \<open>Up to the remote, nothing is set.\<close>

definition unlit :: "input_call history \<Rightarrow> bool" where
  "unlit l \<longleftrightarrow> cw_leds l = [] \<and> cw_modes l = []"

lemma unlit_simps [simp]:
  "unlit []" "unlit (Out os # l) = unlit l"
  "(\<And>w m. c \<noteq> CwSetRptMode w m) \<Longrightarrow> (\<And>w b. c \<noteq> CwSetLed w b) \<Longrightarrow> unlit (Ev c r # l) = unlit l"
  by (auto simp: unlit_def split: input_call.split)

definition wiid_post :: "unit res \<Rightarrow> input_call history \<Rightarrow> bool" where
  "wiid_post r l \<longleftrightarrow> (case r of
     Wait \<Rightarrow> cw_leds l = [] \<and> cw_modes l \<in> {[], [2], [2, 6]} \<or> (\<exists>n. lights n l)
   | Exit n \<Rightarrow> n = 255 \<and> unlit l \<or> n = 0 \<and> led_failed l \<and> (\<exists>n. lights n l)
   | _ \<Rightarrow> False)"

lemma wiid_post_simps [simp]:
  "unlit l \<Longrightarrow> wiid_post Wait l" "unlit l \<Longrightarrow> wiid_post (Exit 255) l"
  by (auto simp: wiid_post_def unlit_def)

lemma keypad_unlit:
  "unlit l \<Longrightarrow> wp (uinput_keypad_init fd) (seq (\<lambda>_. unlit) wiid_post) K N l"
  unfolding uinput_keypad_init_def
  by (intro wp_intro wp_bindI [where P = "\<lambda>_. unlit"] wp_foreach [where I = "\<lambda>_. unlit"])
    (auto simp: wp_simps split: option.split)

lemma init_unlit: "wp wiid_init (seq (\<lambda>_. unlit) wiid_post) K N []"
  unfolding wiid_init_def wii_input_init_def wii_acc_init_def acc_err_def LOGE_def Let_def
  by (intro wp_intro wp_bindI [where P = "\<lambda>_. unlit"] wp_ret [THEN iffD2] wp_mono [OF keypad_unlit])
    (auto simp: seq_def split: res.splits)

lemma connect_unlit: "unlit l \<Longrightarrow> wp (wiid_connect ba) (seq (\<lambda>_. unlit) wiid_post) K N l"
  unfolding wiid_connect_def LOGV_def
  by (rule wp_loop [where I = "\<lambda>_. unlit"]) (auto simp: wp_simps split: option.split)

lemma main_chases:
  assumes "unlit l"
  shows "wp (bind (set_rpt_mode w (0 OR CWIID_RPT_BTN)) (\<lambda>_.
     bind (set_rpt_mode w (0 OR CWIID_RPT_BTN OR CWIID_RPT_ACC)) (\<lambda>_.
     bind (loop (led_round w) 0) (\<lambda>_.
     sys (CwClose w) (\<lambda>x.
     bind (if rv x \<noteq> 0 then LOGE ''Error on wiimote disconnect'' else ret ()) (\<lambda>_.
     exit 0)))))) wiid_post K N l"
proof -
  have mode: "wp (set_rpt_mode w m) (seq (\<lambda>_ l'. cw_leds l' = cw_leds l \<and> cw_modes l' = cw_modes l @ [m])
      wiid_post) K N l" if "wiid_post Wait l" for l m
    using that by (simp add: set_rpt_mode_def LOGE_def wp_simps split: option.split)
  show ?thesis
  proof (rule wp_bindI [OF mode], use assms in simp, rule wp_bindI [OF mode])
    fix l1 assume l1: "cw_leds l1 = cw_leds l \<and> cw_modes l1 = cw_modes l @ [0 OR CWIID_RPT_BTN]"
    then show "wiid_post Wait l1" using assms by (simp add: wiid_post_def unlit_def)
    fix l2
    assume "cw_leds l2 = cw_leds l1 \<and> cw_modes l2 = cw_modes l1 @ [0 OR CWIID_RPT_BTN OR CWIID_RPT_ACC]"
    then have "lights 0 l2" using l1 assms by (simp add: unlit_def lights_def)
    from leds_loop [OF this] show "wp (bind (loop (led_round w) 0) (\<lambda>_.
       sys (CwClose w) (\<lambda>x.
       bind (if rv x \<noteq> 0 then LOGE ''Error on wiimote disconnect'' else ret ()) (\<lambda>_.
       exit 0)))) wiid_post K N l2"
      unfolding wp_bind
      by (rule wp_mono)
        (auto simp: seq_def LOGE_def wp_simps wiid_post_def led_failed_def split: res.splits option.split)
  qed
qed

text \<open>
  C25: what the main thread of the daemon has told the remote, at every moment of every run. The report
  modes are none yet, buttons (2), or buttons and then buttons with accelerometer (2, 6); no LED is
  set before both; and the LEDs set are the first ones of the endless chase \<open>led_at 0\<close>, \<open>led_at 1\<close>
  and so on. The thread ends with status 255, before it has told the remote anything, when a
  device cannot be set up, and with status 0 when setting a LED has failed; it does not end
  otherwise, and there is no other status.
\<close>

theorem wiid_leds_chase:
  "case wiid_main arg K N [] of (r, l) \<Rightarrow>
    (\<exists>n. cw_leds l = map led_at [0..<n]) \<and>
    (cw_modes l = [2, 6] \<or> cw_leds l = [] \<and> cw_modes l \<in> {[], [2]}) \<and>
    (r = Wait \<or> r = Exit 255 \<and> cw_modes l = [] \<or> r = Exit 0 \<and> led_failed l)"
proof -
  have arg: "wp (case arg of None \<Rightarrow> ret None | Some a \<Rightarrow> sys (CwStr2ba a) (\<lambda>b. ret (Some (bytes b))))
      (seq (\<lambda>_. unlit) wiid_post) K N l" if "unlit l" for l
    using that by (auto simp: wp_simps split: option.split)
  have log: "wp (if b then LOGE s else ret ()) (seq (\<lambda>_. unlit) wiid_post) K N l" if "unlit l" for b s l
    using that by (simp add: LOGE_def wp_simps)
  have "wp (wiid_main arg) wiid_post K N []"
    unfolding wiid_main_def
    by (rule wp_bindI [OF init_unlit], rule wp_bindI [OF arg], assumption,
        rule wp_bindI [OF connect_unlit], assumption)
      (intro wp_intro wp_bindI [OF log] main_chases, simp_all)
  then show ?thesis
    by (fastforce simp: wp_def wiid_post_def lights_def unlit_def split: res.splits)
qed

end
