(* ===== verification/Uinput.thy ===== *)
theory Uinput
  imports Wiid_Setup "HOL-Library.Sublist"
begin

text \<open>
  \<open>uinput/tx.c\<close>, which makes an input device and sends ten readings of an accelerometer,
  \<open>uinput/rx.c\<close>, which finds such a device by its name and prints its events, and
  \<open>wiid-tests/test_acc.c\<close>, which does so for any device. A directory is a handle, its entries are the
  answers of \<open>readdir\<close>.
\<close>

section \<open>The sender\<close>

definition tx_dev :: uinput_user_dev where
  "tx_dev = \<lparr>dev_name = strncpy UINPUT_MAX_NAME_SIZE (chars ''uinput_test''), dev_bustype = 1,
     dev_vendor = 1, dev_product = 1, dev_version = 1\<rparr>"

text \<open>The labels \<open>ioctl_err\<close> and \<open>write_err\<close>.\<close>

definition tx_err :: "int \<Rightarrow> (int \<times> int, input_call) io" where
  "tx_err fd = sys (UiDevDestroy fd) (\<lambda>_. sys (U (Close fd)) (\<lambda>_. ret (EINVAL_ret, fd)))"

definition tx_acc_init :: "(int \<times> int, input_call) io" where
  "tx_acc_init =
     sys (U (Open UINPUT_DEV)) (\<lambda>f.
     let fd = rv f in
     if fd < 0 then say [S ''Error opening /dev/uinput''] (ret (EINVAL_ret, fd)) else
     sys (UiSetEvbit fd EV_REL) (\<lambda>a.
     if 0 > rv a then perror ''ioctl UI_SET_EVBIT'' (tx_err fd) else
     sys (UiSetRelbit fd REL_X) (\<lambda>x.
     if rv x < 0 then perror ''UI_SET_RELBIT'' (tx_err fd) else
     sys (UiSetRelbit fd REL_Y) (\<lambda>y.
     if rv y < 0 then perror ''UI_SET_RELBIT'' (tx_err fd) else
     sys (UiSetRelbit fd REL_Z) (\<lambda>z.
     if rv z < 0 then perror ''UI_SET_RELBIT'' (tx_err fd) else
     sys (WriteDev fd tx_dev) (\<lambda>w.
     if 0 > rv w then say [S ''Unable to write to uinput wii_acc device''] (tx_err fd) else
     sys (UiDevCreate fd) (\<lambda>c.
     if rv c \<noteq> 0 then say [S ''Unable to ioctl wii_acc device''] (tx_err fd)
     else ret (0, fd))))))))"

definition tx_acc_close :: "int \<Rightarrow> (unit, input_call) io" where
  "tx_acc_close fd = sys (UiDevDestroy fd) (\<lambda>_. sys (U (Close fd)) (\<lambda>_. ret ()))"

definition tx_send_event :: "int \<Rightarrow> 16 word \<Rightarrow> 16 word \<Rightarrow> 32 word \<Rightarrow> (unit, input_call) io" where
  "tx_send_event fd ty co v =
     sys (WriteEvent fd \<lparr>ev_sec = 0, ev_usec = 0, ev_type = ty, ev_code = co, ev_value = v\<rparr>)
     (\<lambda>_. ret ())"

definition tx_handle_accelerometer :: "int \<Rightarrow> byte \<Rightarrow> byte \<Rightarrow> byte \<Rightarrow> (unit, input_call) io" where
  "tx_handle_accelerometer fd x y z =
     say [S ''Acc message ['', D (uint x), S '', '', D (uint y), S '', '', D (uint z), S '']'']
     (bind (tx_send_event fd (word_of_int EV_REL) (word_of_int REL_X) (ucast x)) (\<lambda>_.
      bind (tx_send_event fd (word_of_int EV_REL) (word_of_int REL_Y) (ucast y)) (\<lambda>_.
      bind (tx_send_event fd (word_of_int EV_REL) (word_of_int REL_Z) (ucast z)) (\<lambda>_.
      tx_send_event fd (word_of_int EV_SYN) 0 0))))"

definition tx_main :: "(unit, input_call) io" where
  "tx_main =
     bind tx_acc_init (\<lambda>x.
     if 0 > fst x then say [S ''Couldn't setup wii_input''] (exit 255) else
     bind (foreach [0..<10] (\<lambda>i u.
       bind (tx_handle_accelerometer (snd x) 120 120 150) (\<lambda>_.
       sys (U (SleepSec 1)) (\<lambda>_. ret (Inl u)))) ()) (\<lambda>_ :: unit + unit.
     bind (tx_acc_close (snd x)) (\<lambda>_. exit 0)))"

section \<open>Finding a device\<close>

definition is_dots :: "byte list \<Rightarrow> bool" where
  "is_dots d \<longleftrightarrow> d = [46] \<or> d = [46, 46]"

text \<open>
  The name of a device, in \<open>name\<close> after the \<open>ioctl\<close>: none when that fails; the last of its 80 bytes is
  never written, so an answer without a NUL is an error.
\<close>

definition evioc_name :: "resp \<Rightarrow> byte list option" where
  "evioc_name r = (if rv r < 1 then Some [] else if terminated (bytes r) then Some (cstr (bytes r)) else None)"

definition dev_path :: "byte list \<Rightarrow> byte list" where
  "dev_path f = chars ''/dev/input/'' @ f"

definition open_input_entry :: "byte list \<Rightarrow> int \<Rightarrow> int \<Rightarrow> (int + int, input_call) io" where
  "open_input_entry nm dir fd =
     sys (Readdir dir) (\<lambda>e.
     if rv e = 0 then ret (Inr fd)
     else if is_dots (cstr (bytes e)) then ret (Inl fd)
     else
       sys (OpenPath (dev_path (cstr (bytes e)))) (\<lambda>p.
       if rv p \<ge> 0 then
         sys (EviocGName (rv p) 79) (\<lambda>n. case evioc_name n of
           None \<Rightarrow> fault ''name is not terminated''
         | Some s \<Rightarrow>
             if s = nm then ret (Inr (rv p))
             else sys (U (Close (rv p))) (\<lambda>_. ret (Inl (-1))))
       else ret (Inl (rv p))))"

definition open_input :: "byte list \<Rightarrow> (int, input_call) io" where
  "open_input nm =
     sys (Opendir ''/dev/input'') (\<lambda>d.
     if rv d = 0 then ret (-1)
     else bind (loop (open_input_entry nm (rv d)) (-1)) (\<lambda>fd. sys (Closedir (rv d)) (\<lambda>_. ret fd)))"

datatype input_action = LIST | FIND

text \<open>\<open>input_devices_lookup\<close> of \<open>test_acc.c\<close>; \<open>strcmp\<close> is not reached with a NULL name.\<close>

definition lookup_entry :: "byte list option \<Rightarrow> input_action \<Rightarrow> int \<Rightarrow> int \<Rightarrow> (int + int, input_call) io" where
  "lookup_entry nm act dir fd =
     sys (Readdir dir) (\<lambda>e.
     if rv e = 0 then ret (Inr fd)
     else if is_dots (cstr (bytes e)) then ret (Inl fd)
     else
       sys (OpenPath (dev_path (cstr (bytes e)))) (\<lambda>p.
       if rv p \<ge> 0 then
         sys (EviocGName (rv p) 79) (\<lambda>n. case evioc_name n of
           None \<Rightarrow> fault ''name is not terminated''
         | Some s \<Rightarrow> (case act of
             LIST \<Rightarrow> say [S ''['', B s, S '']''] (sys (U (Close (rv p))) (\<lambda>_. ret (Inl (rv p))))
           | FIND \<Rightarrow> (case nm of
               None \<Rightarrow> fault ''strcmp with NULL''
             | Some t \<Rightarrow>
                 if s = t then ret (Inr (rv p))
                 else sys (U (Close (rv p))) (\<lambda>_. ret (Inl (-1))))))
       else ret (Inl (rv p))))"

definition input_devices_lookup :: "byte list option \<Rightarrow> input_action \<Rightarrow> (int, input_call) io" where
  "input_devices_lookup nm act =
     sys (Opendir ''/dev/input'') (\<lambda>d.
     if rv d = 0 then ret (-1)
     else bind (loop (lookup_entry nm act (rv d)) (-1)) (\<lambda>fd. sys (Closedir (rv d)) (\<lambda>_. ret fd)))"

section \<open>Printing events\<close>

text \<open>
  \<open>int\<close> to \<open>float\<close>: 24 bits of precision, rounded to the nearest, ties to even; and \<open>%.2f\<close> of such a
  value, which is an integer.
\<close>

definition float32 :: "int \<Rightarrow> int" where
  "float32 i = (let a = \<bar>i\<bar>; s = 2 ^ length (filter (\<lambda>j. 2 ^ (23 + j) \<le> a) [1..<9]);
     q = a div s; r = a mod s in
     sgn i * (if 2 * r > s \<or> 2 * r = s \<and> odd q then (q + 1) * s else q * s))"

definition float_text :: "int \<Rightarrow> byte list" where
  "float_text i = dec (float32 i) @ [46, 48, 48]"

definition ev_val :: "string \<Rightarrow> int \<Rightarrow> out list" where
  "ev_val s v = [S s, S '' ['', B (float_text v), S '']'']"

text \<open>What \<open>rx.c\<close> prints for an event.\<close>

definition rx_lines :: "int \<times> int \<times> int \<Rightarrow> out list list" where
  "rx_lines e = (case e of (ty, co, v) \<Rightarrow>
     if ty = EV_REL then
       (if co = REL_X then [ev_val ''ACCEL_X'' v]
        else if co = REL_Y then [ev_val ''ACCEL_Y'' v]
        else if co = REL_Z then [ev_val ''ACCEL_Z'' v] else [])
     else if ty = EV_SYN then [[S ''EV_SYN'']]
     else [[S ''AccelSensor: unknown event (type='', D ty, S '', code='', D co, S '')'']])"

text \<open>The same for \<open>test_acc.c\<close>.\<close>

definition test_acc_lines :: "int \<times> int \<times> int \<Rightarrow> out list list" where
  "test_acc_lines e = (case e of (ty, co, v) \<Rightarrow>
     if ty = EV_REL then
       (if co = REL_X then [ev_val ''REL_X'' v]
        else if co = REL_Y then [ev_val ''REL_Y'' v]
        else if co = REL_Z then [ev_val ''REL_Z'' v] else [])
     else if ty = EV_ABS then
       (if co = ABS_X then [ev_val ''ABS_X'' v]
        else if co = REL_Y then [ev_val ''ABS_Y'' v] else [[S ''WARN: unknown ABS event'']])
     else if ty = EV_SYN then [[S ''EV_SYN'']]
     else if ty = EV_KEY then [[S ''EV_KEY: '', D co]]
     else [[S ''WARN: unknown event (type='', D ty, S '', code='', D co, S '')'']])"

primrec say_all :: "out list list \<Rightarrow> ('a, 'c) io \<Rightarrow> ('a, 'c) io" where
  "say_all [] k = k"
| "say_all (os # oss) k = say os (say_all oss k)"

definition event_of :: "resp \<Rightarrow> int \<times> int \<times> int" where
  "event_of r = (num r 0, num r 1, num r 2)"

text \<open>The reading loops: the error message and the lines are what differs.\<close>

definition rx_read :: "int \<Rightarrow> unit \<Rightarrow> (unit + unit, input_call) io" where
  "rx_read fd u =
     sys (ReadEvent fd) (\<lambda>r.
     if rv r \<noteq> EVENT_SIZE then perror ''read event13'' (exit 255)
     else say_all (rx_lines (event_of r)) (ret (Inl ())))"

definition rx_main :: "(unit, input_call) io" where
  "rx_main =
     bind (open_input (chars ''uinput_test'')) (\<lambda>fd.
     if 0 > fd then say [S ''Can't open device named '', B (39 # chars ''uinput_test'' @ [39])] (exit 255) else
     say [S ''start reading events...''] (loop (rx_read fd) ()))"

definition test_acc_read :: "int \<Rightarrow> unit \<Rightarrow> (unit + unit, input_call) io" where
  "test_acc_read fd u =
     sys (ReadEvent fd) (\<lambda>r.
     if rv r \<noteq> EVENT_SIZE then perror ''read event'' (exit 255)
     else say_all (test_acc_lines (event_of r)) (ret (Inl ())))"

definition test_acc_usage :: "byte list \<Rightarrow> (unit, input_call) io" where
  "test_acc_usage name =
     say [B name, S '' [-e <input>] [-l] [-h]''] (say [S ''  -d <input>: input device name'']
     (say [S ''  -l: list input devices''] (say [S ''  -h: this help message''] (exit 0))))"

primrec test_acc_options :: "byte list \<Rightarrow> (char \<times> byte list) list \<Rightarrow> byte list option \<Rightarrow>
    (byte list option, input_call) io" where
  "test_acc_options name [] nm = ret nm"
| "test_acc_options name (x # xs) nm =
     (if fst x = CHR ''e'' then test_acc_options name xs (Some (snd x))
      else if fst x = CHR ''l'' then bind (input_devices_lookup None LIST) (\<lambda>_. exit 0)
      else bind (test_acc_usage name) (\<lambda>_. ret None))"

definition test_acc_main :: "byte list \<Rightarrow> (char \<times> byte list) list \<Rightarrow> (unit, input_call) io" where
  "test_acc_main name opts =
     bind (test_acc_options name opts None) (\<lambda>x. case x of
       None \<Rightarrow> test_acc_usage name
     | Some nm \<Rightarrow>
         bind (input_devices_lookup (Some nm) FIND) (\<lambda>fd.
         if 0 > fd then say [S ''Can't open device named '', B (39 # nm @ [39])] (exit 255) else
         say [S ''start reading events...''] (loop (test_acc_read fd) ())))"

end
