(* ===== verification/Uinput_Runs.thy ===== *)
theory Uinput_Runs
  imports Uinput
begin

text \<open>
  What the sender of \<open>uinput/tx.c\<close> does as a whole, that \<open>uinput/rx.c\<close> prints what it sends, and the
  search for an input device, which \<open>rx.c\<close> and \<open>wiid-tests/test_acc.c\<close> share.
\<close>

section \<open>The run of the sender\<close>

lemma tx_err_same: "tx_err = acc_err"
  by (simp add: fun_eq_iff tx_err_def acc_err_def)

lemma tx_init_step:
  assumes "obeys K (fresh_fds input_fds)"
  shows "wp tx_acc_init (did_post K sound (made acc_ready [])) K N []"
  unfolding tx_acc_init_def tx_err_same
proof (rule did_sys [OF assms(1)])
  show "sound []" by (simp add: sound_def)
  fix f assume f: "fresh_fds input_fds [] (U (Open UINPUT_DEV)) f"
  let ?l = "[Ev (U (Open UINPUT_DEV)) f]"
  have may: "may_init []" by (simp add: may_init_def sound_def)
  have o1: "opened (rv f) [] ?l" if "\<not> rv f < 0" using opened_start [OF may f] that by simp
  show "wp (let fd = rv f in
     if fd < 0 then say [S ''Error opening /dev/uinput''] (ret (EINVAL_ret, fd)) else
     sys (UiSetEvbit fd EV_REL) (\<lambda>a.
     if 0 > rv a then perror ''ioctl UI_SET_EVBIT'' (acc_err fd) else
     sys (UiSetRelbit fd REL_X) (\<lambda>x.
     if rv x < 0 then perror ''UI_SET_RELBIT'' (acc_err fd) else
     sys (UiSetRelbit fd REL_Y) (\<lambda>y.
     if rv y < 0 then perror ''UI_SET_RELBIT'' (acc_err fd) else
     sys (UiSetRelbit fd REL_Z) (\<lambda>z.
     if rv z < 0 then perror ''UI_SET_RELBIT'' (acc_err fd) else
     sys (WriteDev fd tx_dev) (\<lambda>w.
     if 0 > rv w then say [S ''Unable to write to uinput wii_acc device''] (acc_err fd) else
     sys (UiDevCreate fd) (\<lambda>c.
     if rv c \<noteq> 0 then say [S ''Unable to ioctl wii_acc device''] (acc_err fd)
     else ret (0, fd)))))))) (did_post K sound (made acc_ready [])) K N ?l"
    unfolding Let_def
    by (intro wp_ifI did_sys [OF assms(1)] acc_err_step acc_done_step wp_say [THEN iffD2])
      (use o1 may in \<open>auto simp: wp_simps made_failed acc_ready_def created_def
        intro: opened_sound [where l = "[]" and fd = "rv f"]\<close>)
qed

text \<open>The events of a reading; the state after \<open>n\<close> of them.\<close>

definition burst :: "byte \<Rightarrow> byte \<Rightarrow> byte \<Rightarrow> (int \<times> int \<times> int) list" where
  "burst x y z =
     [(EV_REL, REL_X, uint x), (EV_REL, REL_Y, uint y), (EV_REL, REL_Z, uint z), (EV_SYN, 0, 0)]"

definition bursts :: "nat \<Rightarrow> (int \<times> int \<times> int) list" where
  "bursts n = concat (replicate n (burst 120 120 150))"

definition sending :: "int \<Rightarrow> nat \<Rightarrow> (int \<times> int \<times> int) list \<Rightarrow> input_call history \<Rightarrow> bool" where
  "sending fd n es l \<longleftrightarrow> sound l \<and> open_fds input_fds l = {fd} \<and> acc_ready fd l \<and> injected l = bursts n @ es"

definition tx_post :: "'a res \<Rightarrow> input_call history \<Rightarrow> bool" where
  "tx_post r l \<longleftrightarrow> sound l \<and> (case r of
     Exit n \<Rightarrow> open_fds input_fds l = {} \<and> (n = 0 \<and> injected l = bursts 10 \<or> n = 255 \<and> injected l = [])
   | Wait \<Rightarrow> prefix (injected l) (bursts 10) | _ \<Rightarrow> False)"

lemma bursts_Suc: "bursts (Suc n) = bursts n @ burst 120 120 150"
  by (simp add: bursts_def flip: replicate_append_same)

lemma bursts_prefix: "n < 10 \<Longrightarrow> prefix es (burst 120 120 150) \<Longrightarrow> prefix (bursts n @ es) (bursts 10)"
proof -
  assume "n < 10" and es: "prefix es (burst 120 120 150)"
  then obtain m where "10 = Suc n + m" using less_iff_Suc_add by auto
  then have "bursts 10 = bursts (Suc n) @ bursts m"
    by (simp only: bursts_def replicate_add concat_append)
  moreover have "prefix (bursts n @ es) (bursts (Suc n))" using es by (simp add: bursts_Suc)
  ultimately show ?thesis by (simp add: prefix_order.order_trans [of _ "bursts (Suc n)"])
qed


lemma sending_wait:
  "sending fd n es l \<Longrightarrow> n < 10 \<Longrightarrow> prefix es (burst 120 120 150) \<Longrightarrow> tx_post Wait l"
  by (simp add: tx_post_def sending_def bursts_prefix)

lemma sending_simps [simp]:
  "sending fd n es (Out os # l) = sending fd n es l"
  "sending fd n es (Ev (U (SleepSec k)) r # l) = sending fd n es l"
  by (auto simp: sending_def sound_def acc_ready_def created_def)

lemma sending_event:
  assumes "sending fd n es l" "ev_data e = d"
    and "uint (ev_type e) = EV_SYN \<or> uint (ev_type e) = EV_REL \<and> uint (ev_code e) \<in> {REL_X, REL_Y, REL_Z}"
  shows "sending fd n (es @ [d]) (Ev (WriteEvent fd e) r # l)"
proof -
  have l: "sound l" "open_fds input_fds l = {fd}" "acc_ready fd l" "injected l = bursts n @ es"
    using assms(1) by (simp_all add: sending_def)
  have "registered l fd e" using assms(3) ready_registered(3,4) [OF l(3), of e] by blast
  moreover have "acc_ready fd (Ev (WriteEvent fd e) r # l)"
    by (rule ready_mono(2) [OF _ l(3)]) auto
  ultimately show ?thesis using l assms(2) by (simp add: sending_def sound_def)
qed

lemma tx_send_step:
  assumes "sending fd n es l" "n < 10" "prefix es (burst 120 120 150)"
    and "uint ty = EV_SYN \<or> uint ty = EV_REL \<and> uint co \<in> {REL_X, REL_Y, REL_Z}"
    and "es' = es @ [(uint ty, uint co, sint v)]"
    and "\<And>l. tx_post (Wait :: unit res) l \<Longrightarrow> Q Wait l"
  shows "wp (tx_send_event fd ty co v) (seq (\<lambda>_. sending fd n es') Q) K N l"
  unfolding tx_send_event_def
proof (rule wp_stepI)
  show "seq (\<lambda>_. sending fd n es') Q Wait l" using assms(6) sending_wait [OF assms(1-3)] by simp
qed (use assms(4,5) in \<open>auto simp: wp_ret ev_data_def intro!: sending_event [OF assms(1)]\<close>)

lemma tx_handle_step:
  assumes "sending fd n [] l" "n < 10" "\<And>l. tx_post (Wait :: unit res) l \<Longrightarrow> Q Wait l"
  shows "wp (tx_handle_accelerometer fd 120 120 150) (seq (\<lambda>_. sending fd n (burst 120 120 150)) Q) K N l"
proof -
  have b: "burst 120 120 150 = [(2, 0, 120), (2, 1, 120), (2, 2, 150), (0, 0, 0)]" by (simp add: burst_def)
  have start: "sending fd n [] (Out os # l)" for os using assms(1) by simp
  show ?thesis
    unfolding tx_handle_accelerometer_def
    by (rule wp_say [THEN iffD2],
        rule wp_bindI [OF tx_send_step [OF start assms(2), where es' = "[(2, 0, 120)]"]],
        simp, simp, simp, simp add: assms(3),
        rule wp_bindI [OF tx_send_step [OF _ assms(2), where es' = "[(2, 0, 120), (2, 1, 120)]"]],
        assumption, simp add: b, simp, simp, simp add: assms(3),
        rule wp_bindI [OF tx_send_step [OF _ assms(2), where es' = "[(2, 0, 120), (2, 1, 120), (2, 2, 150)]"]],
        assumption, simp add: b, simp, simp, simp add: assms(3),
        rule tx_send_step [OF _ assms(2)], assumption)
      (simp_all add: b assms(3))
qed

lemma tx_loop_step:
  assumes "sending fd 0 [] l" "\<And>l. tx_post (Wait :: unit res) l \<Longrightarrow> Q Wait l"
    and "\<And>l. sending fd 10 [] l \<Longrightarrow> Q (Val (Inl ())) l"
  shows "wp (foreach [0..<10] (\<lambda>i u. bind (tx_handle_accelerometer fd 120 120 150) (\<lambda>_.
     sys (U (SleepSec 1)) (\<lambda>_. ret (Inl u)))) ()) Q K N l"
proof (rule wp_for [where I = "\<lambda>n u. sending fd n []"])
  fix i u l assume i: "i < 10" and I: "sending fd i [] l"
  have wait: "seq (for_post (\<lambda>u. sending fd (Suc i) []) Q) Q Wait l" if "tx_post (Wait :: unit res) l" for l
    using assms(2) [OF that] by simp
  show "wp (bind (tx_handle_accelerometer fd 120 120 150) (\<lambda>_. sys (U (SleepSec 1)) (\<lambda>_. ret (Inl u))))
      (seq (for_post (\<lambda>u. sending fd (Suc i) []) Q) Q) K N l"
  proof (rule wp_bindI [OF tx_handle_step [where Q = "seq (for_post (\<lambda>u. sending fd (Suc i) []) Q) Q",
          OF I i wait]], assumption, intro wp_intro)
    fix a :: unit and l assume l: "sending fd i (burst 120 120 150) l"
    show "seq (for_post (\<lambda>u. sending fd (Suc i) []) Q) Q Wait l"
      by (rule wait, rule sending_wait [OF l i]) simp
    show "wp (ret (Inl u)) (seq (for_post (\<lambda>u. sending fd (Suc i) []) Q) Q) K N (Ev (U (SleepSec 1)) r # l)" for r
      using l by (simp add: wp_ret sending_def bursts_Suc sound_def acc_ready_def created_def)
  qed
qed (use assms in auto)

text \<open>
  The sender, on every run, injects nothing but the events of ten readings (120, 120, 150), in order and
  each for a code that it has registered; when it ends with status 0 it has injected all of them, when
  it ends with status 255 none; either way its device is closed. Its calls are on open descriptors.
\<close>

theorem uinput_tx_run:
  assumes "obeys K (fresh_fds input_fds)"
  shows "case tx_main K N [] of (r, l) \<Rightarrow> registered_or_refused l \<and> disciplined input_fds l \<and>
    prefix (injected l) (concat (replicate 10 [(2, 0, 120), (2, 1, 120), (2, 2, 150), (0, 0, 0)])) \<and>
    (r = Wait \<or> open_fds input_fds l = {} \<and>
       (r = Exit 0 \<and> length (injected l) = 40 \<or> r = Exit 255 \<and> injected l = []))"
proof -
  have "wp tx_main tx_post K N []"
    unfolding tx_main_def
  proof (rule wp_bindI [where P = "made acc_ready []"])
    have "wp tx_acc_init (\<lambda>r l. injected l = [] \<and> (\<forall>n. r \<noteq> Exit n)) K N []"
      unfolding tx_acc_init_def tx_err_def Let_def
      by (intro wp_intro wp_ret [THEN iffD2]) (simp_all (no_asm))
    then have "wp tx_acc_init (\<lambda>r l. did_post K sound (made acc_ready []) r l \<and> injected l = [] \<and>
        (\<forall>n. r \<noteq> Exit n)) K N []"
      using tx_init_step [OF assms] by (simp add: wp_conj)
    then show "wp tx_acc_init (seq (made acc_ready []) tx_post) K N []"
    proof (rule wp_mono)
      fix r :: "(int \<times> int) res" and l
      assume "did_post K sound (made acc_ready []) r l \<and> injected l = [] \<and> (\<forall>n. r \<noteq> Exit n)"
      then show "seq (made acc_ready []) tx_post r l" by (cases r) (simp_all add: tx_post_def)
    qed
  next
    fix x l assume m: "made acc_ready [] x l"
    show "wp (if 0 > fst x then say [S ''Couldn't setup wii_input''] (exit 255) else
     bind (foreach [0..<10] (\<lambda>i u.
       bind (tx_handle_accelerometer (snd x) 120 120 150) (\<lambda>_.
       sys (U (SleepSec 1)) (\<lambda>_. ret (Inl u)))) ()) (\<lambda>_ :: unit + unit.
     bind (tx_acc_close (snd x)) (\<lambda>_. exit 0))) tx_post K N l"
    proof (intro wp_ifI wp_say [THEN iffD2] wp_exit [THEN iffD2])
      assume "0 > fst x"
      then show "tx_post (Exit 255) (Out [S ''Couldn't setup wii_input''] # l)"
        using m by (simp add: made_def tx_post_def sound_def)
    next
      assume "\<not> 0 > fst x"
      then have "sending (snd x) 0 [] l" using m by (simp add: made_def sending_def bursts_def)
      then show "wp (bind (foreach [0..<10] (\<lambda>i u.
         bind (tx_handle_accelerometer (snd x) 120 120 150) (\<lambda>_.
         sys (U (SleepSec 1)) (\<lambda>_. ret (Inl u)))) ()) (\<lambda>_ :: unit + unit.
         bind (tx_acc_close (snd x)) (\<lambda>_. exit 0))) tx_post K N l"
        unfolding wp_bind
        by (rule tx_loop_step)
          (auto simp: tx_acc_close_def wp_simps tx_post_def sending_def sound_def split: option.split)
    qed
  qed
  then have post: "tx_post r l" if "tx_main K N [] = (r, l)" for r l
    using that by (simp add: wp_def)
  have b: "burst 120 120 150 = [(2, 0, 120), (2, 1, 120), (2, 2, 150), (0, 0, 0)]" by (simp add: burst_def)
  have "bursts 10 = concat (replicate 10 [(2, 0, 120), (2, 1, 120), (2, 2, 150), (0, 0, 0)])"
    "length (bursts 10) = 40"
    by (simp_all add: bursts_def b length_concat sum_list_replicate)
  then show ?thesis
    using post by (cases "tx_main K N []"; cases "fst (tx_main K N [])")
      (auto simp: tx_post_def sound_def)
qed

section \<open>The receiver\<close>

lemma float32_exact: "\<bar>i\<bar> < 2 ^ 24 \<Longrightarrow> float32 i = i"
  by (auto simp: float32_def Let_def upt_rec sgn_if filter_empty_conv)

lemma rx_lines_burst:
  "concat (map rx_lines (burst x y z)) =
     [ev_val ''ACCEL_X'' (uint x), ev_val ''ACCEL_Y'' (uint y), ev_val ''ACCEL_Z'' (uint z), [S ''EV_SYN'']]"
  by (simp add: burst_def rx_lines_def)

text \<open>
  C26: a reading (x, y, z) that the sender writes is what the receiver prints: its three values, exactly,
  although the receiver converts them to \<open>float\<close>, and the end of the report. The writer injects
  the four events or is still at it.
\<close>

theorem uinput_round_trip:
  "case tx_handle_accelerometer fd x y z K N l of (r, l') \<Rightarrow>
     r = Wait \<or> r = Val () \<and> (\<exists>es. injected l' = injected l @ es \<and>
       concat (map rx_lines es) =
         [[S ''ACCEL_X'', S '' ['', B (dec (uint x) @ chars ''.00''), S '']''],
          [S ''ACCEL_Y'', S '' ['', B (dec (uint y) @ chars ''.00''), S '']''],
          [S ''ACCEL_Z'', S '' ['', B (dec (uint z) @ chars ''.00''), S '']''], [S ''EV_SYN'']])"
proof -
  have "uint b < 2 ^ 24" for b :: byte
    by (rule order_less_trans [OF unsigned_less]) simp
  then have v: "float_text (uint b) = dec (uint b) @ chars ''.00''" for b :: byte
    by (simp add: float_text_def float32_exact chars_def)
  have "wp (tx_handle_accelerometer fd x y z) (\<lambda>r l'. r = Wait \<or>
      r = Val () \<and> injected l' = injected l @ burst x y z) K N l"
    by (simp add: tx_handle_accelerometer_def tx_send_event_def wp_simps ev_data_def burst_def sint_byte
        split: option.split)
  then show ?thesis
    by (auto simp: wp_def rx_lines_burst ev_val_def v)
qed

section \<open>The search for a device\<close>

definition found :: "byte list \<Rightarrow> int \<Rightarrow> input_call history \<Rightarrow> bool" where
  "found nm fd l \<longleftrightarrow> (\<exists>n. Ev (EviocGName fd 79) n \<in> set l \<and> evioc_name n = Some nm)"

lemma lookup_find: "input_devices_lookup (Some nm) FIND = open_input nm"
proof -
  have "lookup_entry (Some nm) FIND d fd = open_input_entry nm d fd" for d fd
    by (simp add: lookup_entry_def open_input_entry_def cong: if_cong option.case_cong)
  then have "lookup_entry (Some nm) FIND d = open_input_entry nm d" for d by (rule ext)
  then show ?thesis by (simp add: input_devices_lookup_def open_input_def cong: if_cong)
qed

definition search_post :: "byte list \<Rightarrow> int set \<Rightarrow> int res \<Rightarrow> input_call history \<Rightarrow> bool" where
  "search_post nm F r l \<longleftrightarrow> disciplined input_fds l \<and> (case r of
     Val fd \<Rightarrow> fd < 0 \<and> open_fds input_fds l = F \<or>
       fd \<notin> F \<and> open_fds input_fds l = insert fd F \<and> found nm fd l
   | Fault e \<Rightarrow> e = ''name is not terminated'' | Exit n \<Rightarrow> False
   | Wait \<Rightarrow> \<exists>fd. open_fds input_fds l \<subseteq> insert fd F)"

lemma open_input_search:
  assumes K: "obeys K (fresh_fds input_fds)" and l: "disciplined input_fds l"
  shows "wp (open_input nm) (search_post nm (open_fds input_fds l)) K N l"
proof -
  let ?F = "open_fds input_fds l" let ?Q = "search_post nm ?F"
  let ?I = "\<lambda>fd l'. fd < 0 \<and> open_fds input_fds l' = ?F \<and> disciplined input_fds l'"
  have entry: "wp (open_input_entry nm d fd) (seq (next_or ?I ?Q) ?Q) K N l1" if I: "?I fd l1" for d fd l1
    unfolding open_input_entry_def
  proof (rule wp_stepI)
    show "seq (next_or ?I ?Q) ?Q Wait l1" using I by (auto simp: search_post_def)
    fix e
    let ?l = "Ev (Readdir d) e # l1"
    have opened: "wp (sys (OpenPath p) k) (seq (next_or ?I ?Q) ?Q) K N ?l"
      if "\<And>f. fresh_fds input_fds ?l (OpenPath p) f \<Longrightarrow>
        wp (k f) (seq (next_or ?I ?Q) ?Q) K N (Ev (OpenPath p) f # ?l)" for p k
      by (rule wp_sysI [OF K _ that]) (use I in \<open>auto simp: search_post_def\<close>)
    show "wp (if rv e = 0 then ret (Inr fd)
     else if is_dots (cstr (bytes e)) then ret (Inl fd)
     else
       sys (OpenPath (dev_path (cstr (bytes e)))) (\<lambda>p.
       if rv p \<ge> 0 then
         sys (EviocGName (rv p) 79) (\<lambda>n. case evioc_name n of
           None \<Rightarrow> fault ''name is not terminated''
         | Some s \<Rightarrow>
             if s = nm then ret (Inr (rv p))
             else sys (U (Close (rv p))) (\<lambda>_. ret (Inl (-1))))
       else ret (Inl (rv p)))) (seq (next_or ?I ?Q) ?Q) K N ?l"
      by (intro wp_ifI opened)
        (use I in \<open>auto simp: wp_simps search_post_def found_def fresh_fds_def split: option.split\<close>)
  qed
  have "wp (loop (open_input_entry nm d) (-1)) (search_post nm ?F) K N (Ev (Opendir p) r # l)" for d p r
    by (rule wp_loop [where I = ?I]) (use l entry in \<open>auto simp: search_post_def\<close>)
  note search = this
  show ?thesis
    unfolding open_input_def
  proof (intro wp_intro wp_ret [THEN iffD2])
    fix d
    show "wp (bind (loop (open_input_entry nm (rv d)) (-1)) (\<lambda>fd. sys (Closedir (rv d)) (\<lambda>_. ret fd)))
        (search_post nm ?F) K N (Ev (Opendir ''/dev/input'') d # l)"
      unfolding wp_bind
      by (rule wp_mono [OF search])
        (auto simp: seq_def wp_simps search_post_def found_def split: res.splits option.split)
  qed (use l in \<open>auto simp: search_post_def\<close>)
qed

definition list_post :: "int set \<Rightarrow> int res \<Rightarrow> input_call history \<Rightarrow> bool" where
  "list_post F r l \<longleftrightarrow> disciplined input_fds l \<and> (\<forall>n. r \<noteq> Exit n) \<and> (\<forall>fd. r = Val fd \<longrightarrow> open_fds input_fds l = F)"

lemma list_input:
  assumes K: "obeys K (fresh_fds input_fds)" and l: "disciplined input_fds l"
  shows "wp (input_devices_lookup nm LIST) (list_post (open_fds input_fds l)) K N l"
proof -
  let ?F = "open_fds input_fds l" let ?Q = "list_post ?F"
  let ?I = "\<lambda>fd :: int. \<lambda>l'. open_fds input_fds l' = ?F \<and> disciplined input_fds l'"
  have entry: "wp (lookup_entry nm LIST d fd) (seq (next_or ?I ?Q) ?Q) K N l1" if I: "?I fd l1" for d fd l1
    unfolding lookup_entry_def
  proof (rule wp_stepI)
    show "seq (next_or ?I ?Q) ?Q Wait l1" using I by (simp add: list_post_def)
    fix e
    let ?l = "Ev (Readdir d) e # l1"
    have opened: "wp (sys (OpenPath p) k) (seq (next_or ?I ?Q) ?Q) K N ?l"
      if "\<And>f. fresh_fds input_fds ?l (OpenPath p) f \<Longrightarrow>
        wp (k f) (seq (next_or ?I ?Q) ?Q) K N (Ev (OpenPath p) f # ?l)" for p k
      by (rule wp_sysI [OF K _ that]) (use I in \<open>simp add: list_post_def\<close>)
    show "wp (if rv e = 0 then ret (Inr fd)
     else if is_dots (cstr (bytes e)) then ret (Inl fd)
     else
       sys (OpenPath (dev_path (cstr (bytes e)))) (\<lambda>p.
       if rv p \<ge> 0 then
         sys (EviocGName (rv p) 79) (\<lambda>n. case evioc_name n of
           None \<Rightarrow> fault ''name is not terminated''
         | Some s \<Rightarrow> (case LIST of
             LIST \<Rightarrow> say [S ''['', B s, S '']''] (sys (U (Close (rv p))) (\<lambda>_. ret (Inl (rv p))))
           | FIND \<Rightarrow> (case nm of
               None \<Rightarrow> fault ''strcmp with NULL''
             | Some t \<Rightarrow>
                 if s = t then ret (Inr (rv p))
                 else sys (U (Close (rv p))) (\<lambda>_. ret (Inl (-1))))))
       else ret (Inl (rv p)))) (seq (next_or ?I ?Q) ?Q) K N ?l"
      by (intro wp_ifI opened)
        (use I in \<open>auto simp: wp_simps list_post_def fresh_fds_def split: option.split\<close>)
  qed
  have loop: "wp (loop (lookup_entry nm LIST d) (-1)) ?Q K N (Ev (Opendir p) r # l)" for d p r
    by (rule wp_loop [where I = ?I]) (use l entry in \<open>auto simp: list_post_def\<close>)
  show ?thesis
    unfolding input_devices_lookup_def
  proof (intro wp_intro wp_ret [THEN iffD2])
    fix d
    show "wp (bind (loop (lookup_entry nm LIST (rv d)) (-1)) (\<lambda>fd. sys (Closedir (rv d)) (\<lambda>_. ret fd)))
        ?Q K N (Ev (Opendir ''/dev/input'') d # l)"
      unfolding wp_bind
      by (rule wp_mono [OF loop]) (auto simp: seq_def wp_simps list_post_def split: res.splits option.split)
  qed (use l in \<open>auto simp: list_post_def\<close>)
qed

text \<open>
  The search for an input device. \<open>open_input\<close> of \<open>rx.c\<close> and the lookup of \<open>test_acc.c\<close> do the same; when
  the result is not negative it is a new descriptor, the only one more than before, and its device has
  the name; otherwise nothing is left open. The listing of all devices leaves nothing open either.
\<close>

theorem input_lookup_finds:
  assumes "obeys K (fresh_fds input_fds)" and "disciplined input_fds l"
  shows "input_devices_lookup (Some nm) FIND = open_input nm \<and>
    (case open_input nm K N l of (r, l') \<Rightarrow> disciplined input_fds l' \<and> (case r of
       Val fd \<Rightarrow> fd < 0 \<and> open_fds input_fds l' = open_fds input_fds l \<or>
         fd \<notin> open_fds input_fds l \<and> open_fds input_fds l' = insert fd (open_fds input_fds l) \<and>
         (\<exists>n. Ev (EviocGName fd 79) n \<in> set l' \<and> evioc_name n = Some nm)
     | Fault e \<Rightarrow> e = ''name is not terminated'' | Exit n \<Rightarrow> False
     | Wait \<Rightarrow> \<exists>fd. open_fds input_fds l' \<subseteq> insert fd (open_fds input_fds l))) \<and>
    (case input_devices_lookup None LIST K N l of (r, l') \<Rightarrow> disciplined input_fds l' \<and>
       (\<forall>fd. r = Val fd \<longrightarrow> open_fds input_fds l' = open_fds input_fds l))"
  using open_input_search [OF assms, of nm N] list_input [OF assms, of None N]
  by (auto simp: wp_def search_post_def list_post_def found_def lookup_find split: prod.splits res.splits)

definition dev_script :: "resp list" where
  "dev_script = [ok 7, got [46, 0], got (chars ''event0'' @ [0]), ok 3, got (chars ''Power'' @ [0]), ok 0,
     got (chars ''event1'' @ [0]), ok 3, got (chars ''uinput_test'' @ [0]), ok 0]"

definition dev_kernel :: "input_call kernel" where
  "dev_kernel = guarded (fresh_fds input_fds) (play dev_script)"

theorem input_lookup_finds_witness:
  "(input_devices_lookup (Some (chars ''uinput_test'')) FIND = open_input (chars ''uinput_test'') \<and>
    (case open_input (chars ''uinput_test'') dev_kernel 6 [] of (r, l') \<Rightarrow> disciplined input_fds l' \<and> (case r of
       Val fd \<Rightarrow> fd < 0 \<and> open_fds input_fds l' = open_fds input_fds [] \<or>
         fd \<notin> open_fds input_fds [] \<and> open_fds input_fds l' = insert fd (open_fds input_fds []) \<and>
         (\<exists>n. Ev (EviocGName fd 79) n \<in> set l' \<and> evioc_name n = Some (chars ''uinput_test''))
     | Fault e \<Rightarrow> e = ''name is not terminated'' | Exit n \<Rightarrow> False
     | Wait \<Rightarrow> \<exists>fd. open_fds input_fds l' \<subseteq> insert fd (open_fds input_fds []))) \<and>
    (case input_devices_lookup None LIST dev_kernel 6 [] of (r, l') \<Rightarrow> disciplined input_fds l' \<and>
       (\<forall>fd. r = Val fd \<longrightarrow> open_fds input_fds l' = open_fds input_fds []))) \<and>
   fst (open_input (chars ''uinput_test'') dev_kernel 6 []) = Val 3"
proof (rule conjI)
  show "fst (open_input (chars ''uinput_test'') dev_kernel 6 []) = Val 3" by code_simp
qed (rule input_lookup_finds, simp_all add: dev_kernel_def obeys_guarded)

definition tx_kernel :: "input_call kernel" where
  "tx_kernel = guarded (fresh_fds input_fds)
     (\<lambda>l c. Some (ok (case c of U d \<Rightarrow> (case d of Open p \<Rightarrow> 3 | _ \<Rightarrow> 0) | _ \<Rightarrow> 0)))"

theorem uinput_tx_run_witness:
  "(case tx_main tx_kernel 1 [] of (r, l) \<Rightarrow> registered_or_refused l \<and> disciplined input_fds l \<and>
    prefix (injected l) (concat (replicate 10 [(2, 0, 120), (2, 1, 120), (2, 2, 150), (0, 0, 0)])) \<and>
    (r = Wait \<or> open_fds input_fds l = {} \<and>
       (r = Exit 0 \<and> length (injected l) = 40 \<or> r = Exit 255 \<and> injected l = []))) \<and>
   fst (tx_main tx_kernel 1 []) = Exit 0"
proof (rule conjI)
  show "fst (tx_main tx_kernel 1 []) = Exit 0" by code_simp
qed (rule uinput_tx_run, simp add: tx_kernel_def obeys_guarded)

end
