(* ===== verification/Linux_Sys.thy ===== *)
theory Linux_Sys
  imports Posix C_Lib
begin

text \<open>
  The calls of the smaller programs: those of \<open>Posix\<close> (\<open>L\<close>), timers and event counters, the file
  watcher, the frame buffer, datagrams with control data, and the tunnel.
\<close>

datatype (plugins only: code size) linux_call =
    L posix
  | Eventfd
  | TimerfdCreate
  | TimerfdSettime int int int
  | TimerfdGettime int
  | ClockMono
  | InotifyInit
  | InotifyAddWatch int "byte list"
  | Fionread int
  | FbInfo int
  | FbPan int
  | FbMmap int int
  | FbPut "32 word list"
  | FbMunmap int int
  | OpenArg "byte list"
  | FcntlGet int
  | FcntlSet int int
  | Recvfrom int nat
  | Recvmsg int nat
  | Sendmsg int "byte list" sockaddr
  | Tunsetiff int int "byte list"
  | Tunsetnocsum int
  | InetAddr "byte list"

fun linux_opens :: "linux_call \<Rightarrow> resp \<Rightarrow> int list" where
  "linux_opens (L c) r = posix_opens c r"
| "linux_opens Eventfd r = (if 0 \<le> rv r then [rv r] else [])"
| "linux_opens TimerfdCreate r = (if 0 \<le> rv r then [rv r] else [])"
| "linux_opens InotifyInit r = (if 0 \<le> rv r then [rv r] else [])"
| "linux_opens (OpenArg p) r = (if 0 \<le> rv r then [rv r] else [])"
| "linux_opens c r = []"

fun linux_closes :: "linux_call \<Rightarrow> int list" where
  "linux_closes (L c) = posix_closes c"
| "linux_closes c = []"

fun linux_uses :: "linux_call \<Rightarrow> int list" where
  "linux_uses (L c) = posix_uses c"
| "linux_uses (TimerfdSettime fd t i) = [fd]"
| "linux_uses (TimerfdGettime fd) = [fd]"
| "linux_uses (InotifyAddWatch fd p) = [fd]"
| "linux_uses (Fionread fd) = [fd]"
| "linux_uses (FbInfo fd) = [fd]"
| "linux_uses (FbPan fd) = [fd]"
| "linux_uses (FbMmap fd n) = [fd]"
| "linux_uses (FcntlGet fd) = [fd]"
| "linux_uses (FcntlSet fd n) = [fd]"
| "linux_uses (Recvfrom fd n) = [fd]"
| "linux_uses (Recvmsg fd n) = [fd]"
| "linux_uses (Sendmsg fd bs a) = [fd]"
| "linux_uses (Tunsetiff fd f n) = [fd]"
| "linux_uses (Tunsetnocsum fd) = [fd]"
| "linux_uses c = []"

definition linux_fds :: "linux_call fd_ops" where
  "linux_fds = \<lparr>opens = linux_opens, closes = linux_closes, uses = linux_uses\<rparr>"

lemma linux_fds_simps [simp]:
  "opens linux_fds = linux_opens" "closes linux_fds = linux_closes" "uses linux_fds = linux_uses"
  by (simp_all add: linux_fds_def)

text \<open>\<open>select\<close> reports descriptors that it was asked about, and their number.\<close>

definition select_sound :: "linux_call contract" where
  "select_sound l c r \<longleftrightarrow> (case c of
     L d \<Rightarrow> (case d of
       Select n fds t \<Rightarrow> set (ready r) \<subseteq> set fds \<and> (0 < rv r \<longrightarrow> ready r \<noteq> [])
     | _ \<Rightarrow> True)
   | _ \<Rightarrow> True)"

definition linux_contract :: "linux_call contract" where
  "linux_contract l c r \<longleftrightarrow> fresh_fds linux_fds l c r \<and> select_sound l c r"

text \<open>A value passes to the rest of the program.\<close>

lemma wp_retI: "P a l \<Longrightarrow> wp (ret a) (seq P Q) K N l"
  by (simp add: wp_ret)

text \<open>A number in a buffer, least significant byte first.\<close>

primrec le_num :: "byte list \<Rightarrow> nat" where
  "le_num [] = 0"
| "le_num (b # bs) = unat b + 256 * le_num bs"

primrec le_bytes :: "nat \<Rightarrow> nat \<Rightarrow> byte list" where
  "le_bytes 0 n = []"
| "le_bytes (Suc k) n = of_nat n # le_bytes k (n div 256)"

lemma length_le_bytes [simp]: "length (le_bytes k n) = k"
  by (induction k arbitrary: n) auto

lemma le_num_bytes [simp]: "n < 256 ^ k \<Longrightarrow> le_num (le_bytes k n) = n"
proof (induction k arbitrary: n)
  case (Suc k)
  then have "n div 256 < 256 ^ k" by (simp add: less_mult_imp_div_less mult.commute)
  moreover have "unat (of_nat n :: byte) = n mod 256" by (simp add: unat_of_nat)
  ultimately show ?case using Suc.IH by simp
qed simp

end
