(* ===== verification/Timerfd.thy ===== *)
theory Timerfd
  imports Linux_Sys
begin

text \<open>
  \<open>timers/c/timerfd.c\<close>: a one-shot timer that the program re-arms each time it has expired, a
  periodic timer, and an event counter to which the expirations of the first timer are passed on. The
  abstract specification is the bookkeeping of the counter: what has been read from the timer, what has
  been read from the counter, and where the difference is.
\<close>

section \<open>The program\<close>

definition ulong :: "int \<Rightarrow> int" where
  "ulong n = n mod 2 ^ 64"

text \<open>\<open>(long)(now.tv_sec + d)\<close> in 64 bits; an overflow is undefined.\<close>

definition later :: "resp \<Rightarrow> int \<Rightarrow> int option" where
  "later now d = (let t = num now 0 + d in if - (2 ^ 63) \<le> t \<and> t < 2 ^ 63 then Some t else None)"

definition arm_timer :: "string \<Rightarrow> int \<Rightarrow> int \<Rightarrow> int \<Rightarrow> (unit, linux_call) io" where
  "arm_timer name fd delay interval =
     sys ClockMono (\<lambda>now.
     if rv now < 0 then perror ''clock_gettime'' (exit 255) else
     case later now delay of
       None \<Rightarrow> fault ''overflow of tv_sec''
     | Some t \<Rightarrow> sys (TimerfdSettime fd t interval) (\<lambda>r.
         if rv r < 0 then perror (''timerfd_settime('' @ name @ '')'') (exit 255) else ret ()))"

text \<open>A timer of the set-up; the value is its descriptor and what \<open>timerfd_gettime\<close> has stored.\<close>

definition make_timer :: "string \<Rightarrow> int \<Rightarrow> int \<Rightarrow> (int \<times> resp, linux_call) io" where
  "make_timer name delay interval =
     sys TimerfdCreate (\<lambda>f.
     if rv f < 0 then perror (''timerfd_create('' @ name @ '')'') (exit 255) else
     bind (arm_timer name (rv f) delay interval) (\<lambda>_.
     sys (TimerfdGettime (rv f)) (\<lambda>g.
     if rv g < 0 then perror (''timerfd_gettime('' @ name @ '')'') (exit 255)
     else ret (rv f, g))))"

text \<open>\<open>read(fd, &exp, sizeof(uint64_t))\<close>\<close>

definition read_count :: "string \<Rightarrow> int \<Rightarrow> (nat, linux_call) io" where
  "read_count name fd =
     sys (L (Read fd 8)) (\<lambda>r.
     if rv r \<noteq> 8 then perror (''read('' @ name @ '')'') (exit 255) else ret (le_num (bytes r)))"

definition timer_round :: "int \<Rightarrow> int \<Rightarrow> int \<Rightarrow> unit \<Rightarrow> (unit + unit, linux_call) io" where
  "timer_round efd tfd pfd u =
     sys (L (Select (max pfd (max efd tfd) + 1) [efd, tfd, pfd] (Some 1))) (\<lambda>s.
     if rv s = 0 then say [S ''select timeout''] (ret (Inl ()))
     else if rv s < 0 then
       (if err s = EINTR then say [S ''select interrupt''] (ret (Inl ()))
        else perror ''select'' (exit 255))
     else if tfd \<in> set (ready s) then
       bind (read_count ''tfd'' tfd) (\<lambda>n.
       bind (arm_timer ''tfd'' tfd 5 0) (\<lambda>_.
       say [S ''timerfd expired '', D (int n), S '' times'']
       (sys (L (Write efd (le_bytes 8 n))) (\<lambda>w.
        if rv w < 0 then perror ''write(efd)'' (exit 255) else ret (Inl ())))))
     else if efd \<in> set (ready s) then
       bind (read_count ''efd'' efd) (\<lambda>n. say [S ''eventfd: '', D (int n), S '' times''] (ret (Inl ())))
     else if pfd \<in> set (ready s) then
       bind (read_count ''pfd'' pfd) (\<lambda>n.
       say [S ''periodic timerfd expired '', D (int n), S '' times''] (ret (Inl ())))
     else fault ''assert(0)'')"

definition timer_main :: "(unit, linux_call) io" where
  "timer_main =
     sys (L (Sigaction ''SIGINT'')) (\<lambda>_.
     sys Eventfd (\<lambda>e.
     if rv e < 0 then perror ''eventfd'' (exit 255) else
     bind (make_timer ''tfd'' 5 0) (\<lambda>t.
     say [S ''single shot timer expires in '', D (ulong (num (snd t) 0)), S '' sec'']
     (bind (make_timer ''pfd'' 3 7) (\<lambda>p.
      say [S ''periodic timer expires in '', D (ulong (num (snd p) 0)), S '' sec, then each '',
           D (ulong (num (snd p) 1)), S '' sec'']
      (loop (timer_round (rv e) (fst t) (fst p)) ()))))))"

definition sigint_handler :: "(unit, linux_call) io" where
  "sigint_handler = say [S ''SIGINT...''] (exit 0)"

section \<open>The bookkeeping\<close>

text \<open>
  Where the relay of an expiration stands: none, the count has been read, the clock has been read
  after it, the timer is armed again (5 s after that reading, one shot). \<open>Astray\<close> is any other order of these
  calls, and a write of anything but the count.
\<close>

datatype relay = Idle | Expired nat | Clocked nat int | Rearmed nat | Astray

record timer_abs =
  a_efd :: int
  a_tfd :: int
  counter :: nat
  relay :: relay
  expired :: nat
  taken :: nat

fun pending :: "relay \<Rightarrow> nat" where
  "pending (Expired n) = n"
| "pending (Clocked n t) = n"
| "pending (Rearmed n) = n"
| "pending r = 0"

text \<open>\<open>-2\<close> is no descriptor: nothing has been made yet.\<close>

definition abs_start :: timer_abs where
  "abs_start = \<lparr>a_efd = -2, a_tfd = -2, counter = 0, relay = Idle, expired = 0, taken = 0\<rparr>"

definition abs_read :: "int \<Rightarrow> resp \<Rightarrow> timer_abs \<Rightarrow> timer_abs" where
  "abs_read fd r a =
     (if rv r \<noteq> 8 then a
      else if fd = a_tfd a then
        (if relay a = Idle then a\<lparr>relay := Expired (le_num (bytes r)), expired := expired a + le_num (bytes r)\<rparr>
         else a\<lparr>relay := Astray\<rparr>)
      else if fd = a_efd a then a\<lparr>counter := 0, taken := taken a + le_num (bytes r)\<rparr>
      else a)"

definition abs_write :: "int \<Rightarrow> byte list \<Rightarrow> resp \<Rightarrow> timer_abs \<Rightarrow> timer_abs" where
  "abs_write fd bs r a =
     (case relay a of
        Rearmed n \<Rightarrow> if fd \<noteq> a_efd a \<or> bs \<noteq> le_bytes 8 n then a\<lparr>relay := Astray\<rparr>
          else if rv r < 0 then a
          else a\<lparr>relay := Idle, counter := counter a + n\<rparr>
      | _ \<Rightarrow> a\<lparr>relay := Astray\<rparr>)"

definition abs_clock :: "resp \<Rightarrow> timer_abs \<Rightarrow> timer_abs" where
  "abs_clock r a =
     (if rv r < 0 then a else case relay a of
        Expired n \<Rightarrow> a\<lparr>relay := Clocked n (num r 0)\<rparr>
      | Idle \<Rightarrow> a
      | _ \<Rightarrow> a\<lparr>relay := Astray\<rparr>)"

definition abs_arm :: "int \<Rightarrow> int \<Rightarrow> int \<Rightarrow> resp \<Rightarrow> timer_abs \<Rightarrow> timer_abs" where
  "abs_arm fd v i r a =
     (if rv r < 0 then a else case relay a of
        Clocked n t \<Rightarrow> if fd = a_tfd a \<and> v = t + 5 \<and> i = 0 then a\<lparr>relay := Rearmed n\<rparr>
          else a\<lparr>relay := Astray\<rparr>
      | Idle \<Rightarrow> a
      | _ \<Rightarrow> a\<lparr>relay := Astray\<rparr>)"

definition abs_step :: "linux_call \<Rightarrow> resp \<Rightarrow> timer_abs \<Rightarrow> timer_abs" where
  "abs_step c r a =
     (case c of
        Eventfd \<Rightarrow> if 0 \<le> rv r then a\<lparr>a_efd := rv r\<rparr> else a
      | TimerfdCreate \<Rightarrow> if 0 \<le> rv r \<and> a_tfd a = -2 then a\<lparr>a_tfd := rv r\<rparr> else a
      | ClockMono \<Rightarrow> abs_clock r a
      | TimerfdSettime fd v i \<Rightarrow> abs_arm fd v i r a
      | L d \<Rightarrow> (case d of
            Read fd n \<Rightarrow> abs_read fd r a
          | Write fd bs \<Rightarrow> abs_write fd bs r a
          | _ \<Rightarrow> a)
      | _ \<Rightarrow> a)"

primrec books_of :: "linux_call history \<Rightarrow> timer_abs" where
  "books_of [] = abs_start"
| "books_of (x # l) = (case x of Ev c r \<Rightarrow> abs_step c r (books_of l) | Out os \<Rightarrow> books_of l)"

text \<open>
  The kernel: descriptors are fresh, \<open>select\<close> reports what it was asked about, a read of the counter
  yields its count, the clock is far from the end of its range.
\<close>

definition timer_contract :: "linux_call contract" where
  "timer_contract l c r \<longleftrightarrow> linux_contract l c r \<and>
     (case c of
        L d \<Rightarrow> (case d of
          Read fd n \<Rightarrow> rv r = 8 \<longrightarrow> fd = a_efd (books_of l) \<longrightarrow>
            le_num (bytes r) = counter (books_of l)
        | _ \<Rightarrow> True)
      | ClockMono \<Rightarrow> 0 \<le> num r 0 \<and> num r 0 < 2 ^ 62
      | _ \<Rightarrow> True)"

section \<open>The invariant\<close>

definition books :: "linux_call history \<Rightarrow> bool" where
  "books l \<longleftrightarrow> relay (books_of l) \<noteq> Astray \<and>
     expired (books_of l) = taken (books_of l) + counter (books_of l) + pending (relay (books_of l)) \<and>
     disciplined linux_fds l \<and> card (open_fds linux_fds l) \<le> 3"

text \<open>In the loop, with the relay in a state of its own.\<close>

definition timer_at :: "int \<Rightarrow> int \<Rightarrow> int \<Rightarrow> relay \<Rightarrow> linux_call history \<Rightarrow> bool" where
  "timer_at efd tfd pfd rl l \<longleftrightarrow> books l \<and> open_fds linux_fds l = {efd, tfd, pfd} \<and>
     a_efd (books_of l) = efd \<and> a_tfd (books_of l) = tfd \<and> relay (books_of l) = rl \<and>
     efd \<noteq> tfd \<and> pfd \<noteq> tfd \<and> pfd \<noteq> efd"

definition timer_good :: "unit res \<Rightarrow> linux_call history \<Rightarrow> bool" where
  "timer_good r l \<longleftrightarrow> r \<in> {Wait, Exit 255} \<and> books l"

lemma timer_good_simps [simp]:
  "timer_good Wait l = books l" "timer_good (Exit n) l = (n = 255 \<and> books l)"
  "\<not> timer_good (Fault e) l" "\<not> timer_good (Val x) l"
  by (auto simp: timer_good_def)

lemmas abs_defs = abs_step_def abs_read_def abs_write_def abs_clock_def abs_arm_def

definition setting_up :: "int set \<Rightarrow> linux_call history \<Rightarrow> bool" where
  "setting_up fds l \<longleftrightarrow> books l \<and> relay (books_of l) = Idle \<and> open_fds linux_fds l = fds"

lemma books_Out [simp]: "books (Out os # l) = books l"
  by (simp add: books_def)

lemma arm_timer_setup:
  assumes K: "obeys K timer_contract" and l: "setting_up fds l" "fd \<in> fds" "d \<in> {3, 5}"
    and Q: "\<And>l'. setting_up fds l' \<Longrightarrow> a_efd (books_of l') = a_efd (books_of l) \<Longrightarrow>
      a_tfd (books_of l') = a_tfd (books_of l) \<Longrightarrow> Q (Val ()) l'"
    and bad: "\<And>l. books l \<Longrightarrow> Q Wait l \<and> Q (Exit 255) l"
  shows "wp (arm_timer s fd d i) Q K N l"
  unfolding arm_timer_def
proof (rule wp_sysI [OF K])
  show "Q Wait l" using l bad by (simp add: setting_up_def)
  fix now assume "timer_contract l ClockMono now"
  then have t: "later now d = Some (num now 0 + d)"
    using l(3) by (auto simp: timer_contract_def later_def)
  let ?l = "Ev ClockMono now # l"
  have "setting_up fds ?l \<and> a_efd (books_of ?l) = a_efd (books_of l) \<and> a_tfd (books_of ?l) = a_tfd (books_of l)"
    using l(1) by (auto simp: setting_up_def books_def abs_defs)
  then show "wp (if rv now < 0 then perror ''clock_gettime'' (exit 255) else
     case later now d of
       None \<Rightarrow> fault ''overflow of tv_sec''
     | Some t \<Rightarrow> sys (TimerfdSettime fd t i) (\<lambda>r.
         if rv r < 0 then perror (''timerfd_settime('' @ s @ '')'') (exit 255) else ret ())) Q K N ?l"
    using l(2) unfolding t option.case
    by (intro wp_intro) (auto simp: wp_ret setting_up_def books_def abs_defs intro!: Q bad [THEN conjunct1] bad [THEN conjunct2])
qed

lemma make_timer_step:
  assumes K: "obeys K timer_contract" and l: "setting_up fds l" "d \<in> {3, 5}" "card fds \<le> 2"
    and Q: "\<And>fd g l'. fd \<notin> fds \<Longrightarrow> 0 \<le> fd \<Longrightarrow> setting_up (insert fd fds) l' \<Longrightarrow>
      a_efd (books_of l') = a_efd (books_of l) \<Longrightarrow>
      a_tfd (books_of l') = (if a_tfd (books_of l) = -2 then fd else a_tfd (books_of l)) \<Longrightarrow> Q (Val (fd, g)) l'"
    and bad: "\<And>l. books l \<Longrightarrow> Q Wait l \<and> Q (Exit 255) l"
  shows "wp (make_timer s d i) Q K N l"
  unfolding make_timer_def
proof (rule wp_sysI [OF K])
  show "Q Wait l" using l bad by (simp add: setting_up_def)
  fix f assume f: "timer_contract l TimerfdCreate f"
  let ?l = "Ev TimerfdCreate f # l"
  show "wp (if rv f < 0 then perror (''timerfd_create('' @ s @ '')'') (exit 255) else
     bind (arm_timer s (rv f) d i) (\<lambda>_.
     sys (TimerfdGettime (rv f)) (\<lambda>g.
     if rv g < 0 then perror (''timerfd_gettime('' @ s @ '')'') (exit 255)
     else ret (rv f, g)))) Q K N ?l"
  proof (cases "rv f < 0")
    case True
    then show ?thesis
      using l by (auto simp: wp_simps setting_up_def books_def abs_defs intro!: bad [THEN conjunct2])
  next
    case False
    then have new: "rv f \<notin> fds" "0 \<le> rv f"
      using f l by (auto simp: timer_contract_def linux_contract_def fresh_fds_def setting_up_def)
    have "setting_up (insert (rv f) fds) ?l"
      using False l new by (auto simp: setting_up_def books_def abs_defs card_insert_if)
    then show ?thesis
      unfolding if_not_P [OF False] wp_bind
      by (rule arm_timer_setup [OF K])
        (use l False new in \<open>auto simp: wp_simps abs_defs setting_up_def books_def card_insert_if
           intro!: Q bad [THEN conjunct1] bad [THEN conjunct2] split: option.split\<close>)
  qed
qed

lemma wp_later:
  assumes "timer_contract l ClockMono now" "wp (f (num now 0 + 5)) Q K N l'"
  shows "wp (case later now 5 of None \<Rightarrow> fault e | Some t \<Rightarrow> f t) Q K N l'"
  using assms by (simp add: timer_contract_def later_def)

lemma timer_at_books: "timer_at e t p rl l \<Longrightarrow> books l"
  by (simp add: timer_at_def)

lemma timer_at_keep [simp]:
  "timer_at e t p rl (Out os # l) = timer_at e t p rl l"
  "timer_at e t p rl l \<Longrightarrow> timer_at e t p rl (Ev (L (Select m fds tv)) r # l)"
  "timer_at e t p rl l \<Longrightarrow> rv r \<noteq> 8 \<Longrightarrow> fd \<in> {e, t, p} \<Longrightarrow> timer_at e t p rl (Ev (L (Read fd n)) r # l)"
  "timer_at e t p rl l \<Longrightarrow> rv r < 0 \<Longrightarrow> timer_at e t p rl (Ev ClockMono r # l)"
  "timer_at e t p rl l \<Longrightarrow> rv r < 0 \<Longrightarrow> timer_at e t p rl (Ev (TimerfdSettime t v i) r # l)"
  "timer_at e t p rl l \<Longrightarrow> timer_at e t p rl (Ev (L (Read p n)) r # l)"
  by (auto simp: timer_at_def books_def abs_defs)

lemma timer_at_step:
  "timer_at e t p Idle l \<Longrightarrow> rv r = 8 \<Longrightarrow>
     timer_at e t p (Expired (le_num (bytes r))) (Ev (L (Read t n)) r # l)"
  "timer_at e t p (Expired m) l \<Longrightarrow> 0 \<le> rv r \<Longrightarrow>
     timer_at e t p (Clocked m (num r 0)) (Ev ClockMono r # l)"
  "timer_at e t p (Clocked m v) l \<Longrightarrow> 0 \<le> rv r \<Longrightarrow>
     timer_at e t p (Rearmed m) (Ev (TimerfdSettime t (v + 5) 0) r # l)"
  "timer_at e t p (Rearmed m) l \<Longrightarrow> 0 \<le> rv r \<Longrightarrow>
     timer_at e t p Idle (Ev (L (Write e (le_bytes 8 m))) r # l)"
  "timer_at e t p (Rearmed m) l \<Longrightarrow> rv r < 0 \<Longrightarrow>
     timer_at e t p (Rearmed m) (Ev (L (Write e (le_bytes 8 m))) r # l)"
  by (auto simp: timer_at_def books_def abs_defs)

lemma timer_at_take:
  assumes "timer_at e t p Idle l" "timer_contract l (L (Read e n)) r"
  shows "timer_at e t p Idle (Ev (L (Read e n)) r # l)"
  using assms by (auto simp: timer_at_def books_def abs_defs timer_contract_def)

lemma timer_relays:
  assumes K: "obeys K timer_contract" and l: "timer_at e t p Idle l"
  shows "wp (bind (read_count ''tfd'' t) (\<lambda>n.
       bind (arm_timer ''tfd'' t 5 0) (\<lambda>_.
       say [S ''timerfd expired '', D (int n), S '' times'']
       (sys (L (Write e (le_bytes 8 n))) (\<lambda>w.
        if rv w < 0 then perror ''write(efd)'' (exit 255) else ret (Inl ()))))))
    (seq (next_or (\<lambda>u. timer_at e t p Idle) timer_good) timer_good) K N l"
proof -
  let ?l1 = "\<lambda>r. Ev (L (Read t 8)) r # l"
  let ?l2 = "\<lambda>r c. Ev ClockMono c # ?l1 r"
  let ?l3 = "\<lambda>r c a. Ev (TimerfdSettime t (num c 0 + 5) 0) a # ?l2 r c"
  let ?l4 = "\<lambda>r c a w. Ev (L (Write e (le_bytes 8 (le_num (bytes r))))) w #
     Out [S ''timerfd expired '', D (int (le_num (bytes r))), S '' times''] # ?l3 r c a"
  have at1: "timer_at e t p (Expired (le_num (bytes r))) (?l1 r)" if "rv r = 8" for r
    using l that by (simp add: timer_at_step)
  have at2: "timer_at e t p (Clocked (le_num (bytes r)) (num c 0)) (?l2 r c)"
    if "rv r = 8" "0 \<le> rv c" for r c
    using at1 that by (simp add: timer_at_step)
  have at3: "timer_at e t p (Rearmed (le_num (bytes r))) (?l3 r c a)"
    if "rv r = 8" "0 \<le> rv c" "0 \<le> rv a" for r c a
    using at2 that by (simp add: timer_at_step)
  have "timer_at e t p (Rearmed (le_num (bytes r))) (?l4 r c a w)"
    if "rv r = 8" "0 \<le> rv c" "0 \<le> rv a" "rv w < 0" for r c a w
    by (rule timer_at_step(5)) (use at3 that in simp_all)
  note failing = timer_at_books [OF timer_at_keep(3) [OF l]] timer_at_books [OF timer_at_keep(4) [OF at1]]
    timer_at_books [OF timer_at_keep(5) [OF at2]] timer_at_books [OF this]
  have passed: "timer_at e t p Idle (?l4 r c a w)"
    if "rv r = 8" "0 \<le> rv c" "0 \<le> rv a" "0 \<le> rv w" for r c a w
    by (rule timer_at_step(4)) (use at3 that in simp_all)
  show ?thesis
    unfolding read_count_def arm_timer_def
    by (intro wp_ifI wp_bind [THEN iffD2] wp_say [THEN iffD2] wp_exit [THEN iffD2] wp_retI wp_later
        wp_sysI [OF K])
      (simp_all add: not_less passed failing timer_at_books [OF l] timer_at_books [OF at1]
        timer_at_books [OF at2] timer_at_books [OF at3])
qed

lemma timer_round_step:
  assumes K: "obeys K timer_contract" and l: "timer_at e t p Idle l"
  shows "wp (timer_round e t p u) (seq (next_or (\<lambda>u. timer_at e t p Idle) timer_good) timer_good) K N l"
  unfolding timer_round_def
proof (intro wp_ifI wp_sysI [OF K] timer_relays [OF K])
  fix s assume s: "timer_contract l (L (Select (max p (max e t) + 1) [e, t, p] (Some 1))) s"
  let ?l = "Ev (L (Select (max p (max e t) + 1) [e, t, p] (Some 1))) s # l"
  have at: "timer_at e t p Idle ?l" using l by simp
  then show "timer_at e t p Idle ?l" .
  note keep = timer_at_keep(3) [OF at] timer_at_keep(6) [OF at] timer_at_take [OF at]
  show "wp (bind (read_count ''efd'' e) (\<lambda>n. say [S ''eventfd: '', D (int n), S '' times''] (ret (Inl ()))))
     (seq (next_or (\<lambda>u. timer_at e t p Idle) timer_good) timer_good) K N ?l"
    unfolding read_count_def
    by (intro wp_ifI wp_bind [THEN iffD2] wp_say [THEN iffD2] wp_exit [THEN iffD2] wp_retI wp_sysI [OF K])
      (use at in \<open>simp_all add: keep timer_at_books [OF keep(1)] timer_at_books\<close>)
  show "wp (bind (read_count ''pfd'' p) (\<lambda>n.
       say [S ''periodic timerfd expired '', D (int n), S '' times''] (ret (Inl ()))))
     (seq (next_or (\<lambda>u. timer_at e t p Idle) timer_good) timer_good) K N ?l"
    unfolding read_count_def
    by (intro wp_ifI wp_bind [THEN iffD2] wp_say [THEN iffD2] wp_exit [THEN iffD2] wp_retI wp_sysI [OF K])
      (use at in \<open>simp_all add: keep timer_at_books [OF keep(1)] timer_at_books\<close>)
qed (use l timer_at_books [OF l] timer_at_books [OF timer_at_keep(2) [OF l]] in
    \<open>auto simp: wp_simps timer_contract_def linux_contract_def select_sound_def neq_Nil_conv\<close>)

interpretation timers: service "timer_round e t p" timer_contract "\<lambda>u. timer_at e t p Idle" timer_good
  for e t p
  by unfold_locales (auto intro: timer_round_step timer_at_books)

text \<open>
  C27: on every run of the timer demo the program only ends by a failed call (status 255), never reaches
  its \<open>assert(0)\<close>, has at most three open descriptors and calls on open ones only. An expiration is relayed
  in one order: the count is read from the timer, the timer is armed again for 5 s after the next reading of
  the clock, and exactly the count is written to the event counter, before the timer is read again.
  So no expiration is lost: those read from the timer are those taken from the counter, those
  still in it, and the one being relayed.
\<close>

theorem timerfd_relays:
  assumes "obeys K timer_contract"
  shows "case timer_main K N [] of (r, l) \<Rightarrow>
    r \<in> {Wait, Exit 255} \<and> relay (books_of l) \<noteq> Astray \<and>
    expired (books_of l) = taken (books_of l) + counter (books_of l) + pending (relay (books_of l)) \<and>
    disciplined linux_fds l \<and> card (open_fds linux_fds l) \<le> 3"
proof -
  have "wp timer_main timer_good K N []"
    unfolding timer_main_def
  proof (intro wp_ifI wp_bind [THEN iffD2] wp_exit [THEN iffD2] wp_say [THEN iffD2] wp_sysI [OF assms])
    fix i f assume f: "timer_contract [Ev (L (Sigaction ''SIGINT'')) i] Eventfd f" "\<not> rv f < 0"
    let ?l = "[Ev Eventfd f, Ev (L (Sigaction ''SIGINT'')) i]"
    have up: "setting_up {rv f} ?l" "a_efd (books_of ?l) = rv f" "a_tfd (books_of ?l) = -2"
      using f by (simp_all add: setting_up_def books_def abs_defs abs_start_def)
    show "wp (make_timer ''tfd'' 5 0)
       (seq (\<lambda>t. wp (say [S ''single shot timer expires in '', D (ulong (num (snd t) 0)), S '' sec'']
         (bind (make_timer ''pfd'' 3 7) (\<lambda>p.
          say [S ''periodic timer expires in '', D (ulong (num (snd p) 0)), S '' sec, then each '',
               D (ulong (num (snd p) 1)), S '' sec'']
          (loop (timer_round (rv f) (fst t) (fst p)) ())))) timer_good K N) timer_good) K N ?l"
    proof (rule make_timer_step [OF assms up(1)])
      fix t g l1
      assume t: "t \<notin> {rv f}" "0 \<le> t" "setting_up (insert t {rv f}) l1"
        "a_efd (books_of l1) = a_efd (books_of ?l)"
        "a_tfd (books_of l1) = (if a_tfd (books_of ?l) = -2 then t else a_tfd (books_of ?l))"
      let ?l1 = "Out [S ''single shot timer expires in '', D (ulong (num g 0)), S '' sec''] # l1"
      have up1: "setting_up {t, rv f} ?l1" using t(3) by (simp add: setting_up_def)
      show "seq (\<lambda>t. wp (say [S ''single shot timer expires in '', D (ulong (num (snd t) 0)), S '' sec'']
         (bind (make_timer ''pfd'' 3 7) (\<lambda>p.
          say [S ''periodic timer expires in '', D (ulong (num (snd p) 0)), S '' sec, then each '',
               D (ulong (num (snd p) 1)), S '' sec'']
          (loop (timer_round (rv f) (fst t) (fst p)) ())))) timer_good K N) timer_good (Val (t, g)) l1"
        unfolding seq_simps wp_say wp_bind fst_conv snd_conv
        by (rule make_timer_step [OF assms up1])
          (use t up in \<open>auto simp: wp_say card_insert_if timer_at_def setting_up_def
             intro!: timers.serves [OF assms]\<close>)
    qed simp_all
  qed (simp_all add: books_def abs_defs abs_start_def)
  then show ?thesis by (auto simp: wp_def timer_good_def books_def)
qed

text \<open>A run with two expirations that are relayed and taken in one go.\<close>

definition timer_script :: "resp list" where
  "timer_script =
     [ok 0, ok 3, ok 4, with_nums 0 [100], ok 0, with_nums 0 [5, 0],
      ok 5, with_nums 0 [100], ok 0, with_nums 0 [3, 7],
      ready_fds [4], (got (le_bytes 8 2))\<lparr>rv := 8\<rparr>, with_nums 0 [107], ok 0, ok 8,
      ready_fds [5], got (le_bytes 8 1),
      ready_fds [3], got (le_bytes 8 2)]"

abbreviation timer_demo :: "linux_call kernel" where
  "timer_demo \<equiv> guarded timer_contract (play timer_script)"

theorem timerfd_relays_witness:
  "obeys timer_demo timer_contract \<and>
   (case timer_main timer_demo 4 [] of (r, l) \<Rightarrow>
     r = Wait \<and> relay (books_of l) = Idle \<and> expired (books_of l) = 2 \<and> taken (books_of l) = 2 \<and>
     expired (books_of l) = taken (books_of l) + counter (books_of l) + pending (relay (books_of l)) \<and>
     card (open_fds linux_fds l) \<le> 3)"
proof -
  have K: "obeys timer_demo timer_contract" by (rule obeys_guarded)
  have "case timer_main timer_demo 4 [] of (r, l) \<Rightarrow>
     r = Wait \<and> relay (books_of l) = Idle \<and> expired (books_of l) = 2 \<and> taken (books_of l) = 2"
    by code_simp
  then show ?thesis using timerfd_relays [OF K, of 4] K by auto
qed

end
