(* ===== verification/Inotify.thy ===== *)
theory Inotify
  imports Linux_Sys "HOL-Library.Sublist"
begin

text \<open>
  \<open>inotify/c/fs_notify.c\<close>: the program waits for file events and walks through the buffer in which the
  kernel has laid them out, a header of 16 bytes and a name each. The reference is a parser of such
  buffers, the inverse of the layout.
\<close>

unbundle bit_operations_syntax

section \<open>Events and their layout\<close>

record inotify_event =
  in_wd :: "32 word"
  in_mask :: "32 word"
  in_cookie :: "32 word"
  in_name :: "byte list"

abbreviation (input) HEADER :: nat where "HEADER \<equiv> 16"
abbreviation (input) EVENTS_SIZE :: nat where "EVENTS_SIZE \<equiv> 4096"

definition lay_event :: "inotify_event \<Rightarrow> byte list" where
  "lay_event e = le_bytes 4 (unat (in_wd e)) @ le_bytes 4 (unat (in_mask e)) @
     le_bytes 4 (unat (in_cookie e)) @ le_bytes 4 (length (in_name e)) @ in_name e"

definition field32 :: "byte list \<Rightarrow> nat \<Rightarrow> 32 word" where
  "field32 buf i = of_nat (le_num (take 4 (drop i buf)))"

section \<open>The program\<close>

definition mask_flags :: "(32 word \<times> string) list" where
  "mask_flags = [(0x40000000, ''ISDIR ''), (0x1, ''ACCESS ''), (0x20, ''OPEN ''), (0x2, ''MODIFY ''),
     (0x100, ''CREATE ''), (0x200, ''DELETE ''), (0x18, ''CLOSE '')]"

definition hex08 :: "nat \<Rightarrow> byte list" where
  "hex08 n = replicate (8 - length (uhex n)) 48 @ uhex n"

definition event_lines :: "int \<Rightarrow> 32 word \<Rightarrow> 32 word \<Rightarrow> out list list" where
  "event_lines j wd m =
     [[S ''     INOTIFY: event #'', D j],
      [S ''          wd('', D (sint wd), S ''): mask(0x'', B (hex08 (unat m)), S ''): ''] @
        map (\<lambda>f. S (if m AND fst f \<noteq> 0 then snd f else '''')) mask_flags]"

text \<open>
  One pass of the walk; \<open>i\<close> is an \<open>int\<close>, the sum is computed in 64 bits and cut down. A header
  outside of the array is an error.
\<close>

definition inotify_walk :: "byte list \<Rightarrow> int \<Rightarrow> int \<times> int \<Rightarrow> ((int \<times> int) + unit, linux_call) io" where
  "inotify_walk events len s = (case s of (i, j) \<Rightarrow>
     if i < len then
       if i < 0 \<or> int EVENTS_SIZE < i + int HEADER then fault ''event outside of the buffer''
       else
         (let wd = field32 events (nat i); m = field32 events (nat i + 4);
              elen = field32 events (nat i + 12) in
          say (event_lines (j + 1) wd m ! 0) (say (event_lines (j + 1) wd m ! 1)
          (ret (Inl (int32 (i + (int HEADER + uint elen)), j + 1)))))
     else ret (Inr ()))"

text \<open>
  One pass of the main loop. \<open>rset\<close> is never cleared: its state holds the descriptors that are in it
  when \<open>FD_SET\<close> adds \<open>ifd\<close>; \<open>events\<close> keeps the bytes of earlier reads.
\<close>

definition inotify_round :: "int \<Rightarrow> int list \<times> byte list \<Rightarrow> ((int list \<times> byte list) + unit, linux_call) io" where
  "inotify_round ifd s = (case s of (rset, events) \<Rightarrow>
     sys (L (Select (ifd + 1) (List.insert ifd rset) None)) (\<lambda>r.
     if rv r < 0 then
       (if err r = EINTR then perror ''select interrupt'' (exit 0) else perror ''select error'' (exit 255))
     else if ifd \<in> set (ready r) then
       sys (Fionread ifd) (\<lambda>p.
       if rv p < 0 then perror ''ioctl'' (exit 255) else
       say [S ''INOTIFY: pending '', D ((num p 0 mod 2 ^ 64) div int HEADER), S '' events'']
       (sys (L (Read ifd EVENTS_SIZE)) (\<lambda>q.
        if rv q < 0 then perror ''read inotify events'' (exit 255)
        else if rv q = 0 then perror ''zero read'' (ret (Inl (ready r, events)))
        else
          (let events' = fill events (bytes q) in
           bind (loop (inotify_walk events' (rv q)) (0, 0)) (\<lambda>_. ret (Inl (ready r, events')))))))
     else ret (Inl (ready r, events))))"

text \<open>
  \<open>main\<close>; \<open>junk\<close> and \<open>buf\<close> are what the uninitialised \<open>rset\<close> (below \<open>ifd\<close>) and \<open>events\<close> hold.
  The calls after the loop are not reached.
\<close>

definition inotify_main :: "int list \<Rightarrow> byte list \<Rightarrow> byte list list \<Rightarrow> (unit, linux_call) io" where
  "inotify_main junk buf args =
     (if length args \<noteq> 2 then
        say [S ''Usage: '', B (args ! 0), S '' </path/to/dir/or/file>''] (exit 255)
      else sys InotifyInit (\<lambda>f.
        if rv f < 0 then perror ''inotify_init1'' (exit 255) else
        sys (InotifyAddWatch (rv f) (args ! 1)) (\<lambda>w.
        if rv w < 0 then perror ''inotify_add_watch'' (exit 255) else
        loop (inotify_round (rv f)) (junk, buf))))"

section \<open>The reference\<close>

function parse_events :: "byte list \<Rightarrow> inotify_event list" where
  "parse_events bs =
     (if length bs < HEADER then []
      else let n = unat (field32 bs 12) in
        \<lparr>in_wd = field32 bs 0, in_mask = field32 bs 4, in_cookie = field32 bs 8,
         in_name = take n (drop HEADER bs)\<rparr> # parse_events (drop (HEADER + n) bs))"
  by auto
termination by (relation "measure length") auto

declare parse_events.simps [simp del]

definition whole :: "byte list \<Rightarrow> bool" where
  "whole bs \<longleftrightarrow> concat (map lay_event (parse_events bs)) = bs"

primrec report :: "int \<Rightarrow> inotify_event list \<Rightarrow> out list list" where
  "report j [] = []"
| "report j (e # es) = event_lines (j + 1) (in_wd e) (in_mask e) @ report (j + 1) es"

definition answer_lines :: "linux_call \<Rightarrow> resp \<Rightarrow> out list list" where
  "answer_lines c r =
     (case c of
        InotifyInit \<Rightarrow> if rv r < 0 then [[S ''inotify_init1'']] else []
      | InotifyAddWatch fd p \<Rightarrow> if rv r < 0 then [[S ''inotify_add_watch'']] else []
      | Fionread fd \<Rightarrow> if rv r < 0 then [[S ''ioctl'']]
          else [[S ''INOTIFY: pending '', D ((num r 0 mod 2 ^ 64) div int HEADER), S '' events'']]
      | L d \<Rightarrow> (case d of
          Select n fds t \<Rightarrow> if rv r < 0
            then [[S (if err r = EINTR then ''select interrupt'' else ''select error'')]] else []
        | Read fd n \<Rightarrow> if rv r < 0 then [[S ''read inotify events'']]
            else if rv r = 0 then [[S ''zero read'']] else report 0 (parse_events (bytes r))
        | _ \<Rightarrow> [])
      | _ \<Rightarrow> [])"

primrec said :: "'c history \<Rightarrow> out list list" where
  "said [] = []"
| "said (x # l) = (case x of Ev c r \<Rightarrow> said l | Out os \<Rightarrow> said l @ [os])"

primrec due_lines :: "linux_call history \<Rightarrow> out list list" where
  "due_lines [] = []"
| "due_lines (x # l) = (case x of Ev c r \<Rightarrow> due_lines l @ answer_lines c r | Out os \<Rightarrow> due_lines l)"

text \<open>A read yields whole events, at most as many bytes as were asked for.\<close>

definition inotify_contract :: "linux_call contract" where
  "inotify_contract l c r \<longleftrightarrow> fresh_fds linux_fds l c r \<and>
     (case c of
        L d \<Rightarrow> (case d of
          Read fd n \<Rightarrow> 0 < rv r \<longrightarrow> rv r = int (length (bytes r)) \<and> length (bytes r) \<le> n \<and> whole (bytes r)
        | _ \<Rightarrow> True)
      | _ \<Rightarrow> True)"

section \<open>The layout and the parser\<close>

lemma length_lay [simp]: "length (lay_event e) = HEADER + length (in_name e)"
  by (simp add: lay_event_def)

lemma field32_append: "length a = i \<Longrightarrow> n < 2 ^ 32 \<Longrightarrow> field32 (a @ le_bytes 4 n @ b) i = of_nat n"
  by (simp add: field32_def)

lemma lay_fields:
  assumes "length (in_name e) < 2 ^ 32" "i \<le> length a" "drop i a = lay_event e @ b"
  shows "field32 a i = in_wd e" "field32 a (i + 4) = in_mask e" "field32 a (i + 8) = in_cookie e"
    "field32 a (i + 12) = of_nat (length (in_name e))"
proof -
  have u: "unat (w :: 32 word) < 256 ^ 4" for w using unsigned_less [of w] by simp
  have d: "drop (i + k) a = drop k (lay_event e @ b)" for k
    using assms(3) by (metis add.commute drop_drop)
  show "field32 a i = in_wd e"
    using d [of 0] u by (simp add: field32_def lay_event_def)
  show "field32 a (i + 4) = in_mask e" "field32 a (i + 8) = in_cookie e"
    "field32 a (i + 12) = of_nat (length (in_name e))"
    using d [of 4] d [of 8] d [of 12] u assms(1) by (simp_all add: field32_def lay_event_def)
qed

lemma parse_lay:
  assumes "\<forall>e \<in> set es. length (in_name e) < 2 ^ 32"
  shows "parse_events (concat (map lay_event es)) = es"
  using assms
proof (induction es)
  case (Cons e es)
  let ?bs = "lay_event e @ concat (map lay_event es)"
  have e: "length (in_name e) < 2 ^ 32" using Cons.prems by simp
  have f: "field32 ?bs 0 = in_wd e" "field32 ?bs 4 = in_mask e" "field32 ?bs 8 = in_cookie e"
    "field32 ?bs 12 = of_nat (length (in_name e))"
    using lay_fields [OF e, of 0 ?bs] by simp_all
  have n: "unat (of_nat (length (in_name e)) :: 32 word) = length (in_name e)"
    using e by (simp add: unat_of_nat)
  have "drop HEADER (lay_event e) = in_name e" by (simp add: lay_event_def)
  then have "take (length (in_name e)) (drop HEADER ?bs) = in_name e" by simp
  then show ?case
    using Cons by (subst parse_events.simps) (simp add: f n Let_def)
qed (subst parse_events.simps, simp)

lemma parse_names: "e \<in> set (parse_events bs) \<Longrightarrow> length (in_name e) < 2 ^ 32"
proof (induction bs rule: parse_events.induct)
  case (1 bs)
  have "unat (field32 bs 12) < 2 ^ LENGTH(32)" by (rule unsigned_less)
  then show ?case using 1 by (subst (asm) parse_events.simps) (auto simp: Let_def split: if_splits)
qed

section \<open>The walk\<close>

text \<open>The events in the buffer from \<open>i\<close> to \<open>len\<close> are \<open>es\<close>.\<close>

definition rest_of :: "byte list \<Rightarrow> int \<Rightarrow> int \<Rightarrow> inotify_event list \<Rightarrow> bool" where
  "rest_of buf len i es \<longleftrightarrow> 0 \<le> i \<and> len \<le> int EVENTS_SIZE \<and>
     len = i + int (length (concat (map lay_event es))) \<and>
     (\<exists>b. drop (nat i) buf = concat (map lay_event es) @ b)"

lemma rest_of_Nil: "rest_of buf len i [] \<Longrightarrow> len = i"
  by (simp add: rest_of_def)

lemma rest_of_Cons:
  assumes "rest_of buf len i (e # es)"
  shows "i < len" "0 \<le> i" "i + int HEADER \<le> int EVENTS_SIZE"
    "field32 buf (nat i) = in_wd e" "field32 buf (nat i + 4) = in_mask e"
    "rest_of buf len (int32 (i + (int HEADER + uint (field32 buf (nat i + 12))))) es"
proof -
  let ?n = "length (in_name e)" and ?r = "concat (map lay_event es)"
  obtain b where d: "drop (nat i) buf = lay_event e @ ?r @ b" and i: "0 \<le> i" "len \<le> int EVENTS_SIZE"
      "len = i + int HEADER + int ?n + int (length ?r)"
    using assms by (auto simp: rest_of_def)
  have n: "?n < 2 ^ 32" using i by simp
  have il: "nat i \<le> length buf"
  proof -
    have "HEADER \<le> length (drop (nat i) buf)" unfolding d by simp
    then show ?thesis by simp
  qed
  note f = lay_fields [OF n il d]
  have u: "uint (field32 buf (nat i + 12)) = int ?n"
    using n by (simp add: f(4) uint_nat unat_of_nat)
  have nxt: "int32 (i + (int HEADER + uint (field32 buf (nat i + 12)))) = i + int HEADER + int ?n"
    unfolding u using i by (subst int32_id) auto
  have "drop (nat (i + int HEADER + int ?n)) buf = drop (HEADER + ?n) (drop (nat i) buf)"
    using i by (simp add: nat_add_distrib ac_simps)
  also have "\<dots> = ?r @ b" unfolding d by simp
  finally show "rest_of buf len (int32 (i + (int HEADER + uint (field32 buf (nat i + 12))))) es"
    unfolding nxt using i by (auto simp: rest_of_def)
  show "i < len" "0 \<le> i" "i + int HEADER \<le> int EVENTS_SIZE" using i by auto
  show "field32 buf (nat i) = in_wd e" "field32 buf (nat i + 4) = in_mask e" using f(1,2) by simp_all
qed

primrec told :: "int \<Rightarrow> inotify_event list \<Rightarrow> 'c history \<Rightarrow> 'c history" where
  "told j [] l = l"
| "told j (e # es) l = told (j + 1) es
     (Out (event_lines (j + 1) (in_wd e) (in_mask e) ! 1) #
      Out (event_lines (j + 1) (in_wd e) (in_mask e) ! 0) # l)"

lemma walk_run:
  assumes "rest_of buf len i es"
  shows "iter f (inotify_walk buf len) (i, j) K N l =
    (if length es < f then (Val (), told j es l) else (Wait, told j (take f es) l))"
  using assms
proof (induction f arbitrary: i j es l)
  case (Suc f)
  show ?case
  proof (cases es)
    case Nil
    then have "len = i" using rest_of_Nil Suc.prems by simp
    then show ?thesis using Nil by (simp add: inotify_walk_def [of buf i "(i, j)"] io_simps)
  next
    case (Cons e es')
    note r = rest_of_Cons [OF Suc.prems [unfolded Cons]]
    show ?thesis using r(1-5) Suc.IH [OF r(6)] by (simp add: inotify_walk_def [of buf len "(i, j)"] io_simps Cons Let_def)
  qed
qed (simp add: io_simps)

section \<open>What is reported\<close>

lemma said_told: "said (told j es l) = said l @ report j es"
  by (induction es arbitrary: j l) (simp_all add: event_lines_def)

lemma due_told [simp]: "due_lines (told j es l) = due_lines l"
  by (induction es arbitrary: j l) simp_all

lemma fds_told [simp]:
  "open_fds F (told j es l) = open_fds F l" "disciplined F (told j es l) = disciplined F l"
  by (induction es arbitrary: j l) simp_all

lemma report_take: "prefix (report j (take k es)) (report j es)"
proof (induction es arbitrary: j k)
  case (Cons e es)
  then show ?case by (cases k) simp_all
qed simp

lemma few_events: "length (concat (map lay_event es)) \<le> EVENTS_SIZE \<Longrightarrow> length es \<le> 256"
proof -
  have "16 * length es \<le> length (concat (map lay_event es))" by (induction es) auto
  then show "length (concat (map lay_event es)) \<le> EVENTS_SIZE \<Longrightarrow> length es \<le> 256" by simp
qed

definition inotify_good :: "nat \<Rightarrow> unit res \<Rightarrow> linux_call history \<Rightarrow> bool" where
  "inotify_good N r l \<longleftrightarrow> r \<in> {Wait, Exit 0, Exit 255} \<and> prefix (said l) (due_lines l) \<and>
     (256 < N \<longrightarrow> said l = due_lines l) \<and> disciplined linux_fds l \<and> card (open_fds linux_fds l) \<le> 1"

definition inotify_inv :: "int \<Rightarrow> linux_call history \<Rightarrow> bool" where
  "inotify_inv ifd l \<longleftrightarrow> said l = due_lines l \<and> disciplined linux_fds l \<and>
     open_fds linux_fds l = {ifd}"

lemma inotify_inv_good: "inotify_inv ifd l \<Longrightarrow> inotify_good N Wait l"
  by (simp add: inotify_inv_def inotify_good_def)

lemma walk_step:
  assumes l: "inotify_inv ifd l" and q: "inotify_contract l (L (Read ifd EVENTS_SIZE)) q" "0 < rv q"
    and Q: "\<And>l'. inotify_good N Wait l' \<Longrightarrow> Q Wait l'"
  shows "wp (loop (inotify_walk (fill buf (bytes q)) (rv q)) (0, 0)) (seq (\<lambda>u. inotify_inv ifd) Q) K N
    (Ev (L (Read ifd EVENTS_SIZE)) q # l)"
proof -
  let ?es = "parse_events (bytes q)" and ?l = "Ev (L (Read ifd EVENTS_SIZE)) q # l"
  have len: "rv q = int (length (bytes q))" "length (bytes q) \<le> EVENTS_SIZE"
    and whole: "concat (map lay_event ?es) = bytes q"
    using q by (auto simp: inotify_contract_def whole_def)
  have few: "length ?es \<le> 256" using few_events [of ?es] whole len(2) by simp
  have "rest_of (fill buf (bytes q)) (rv q) 0 ?es"
    using len by (auto simp: rest_of_def whole fill_def)
  note run = walk_run [OF this, of N 0 K N ?l]
  have "due_lines ?l = said l @ report 0 ?es"
    using l q(2) by (simp add: answer_lines_def inotify_inv_def)
  then show ?thesis
    unfolding wp_def io_simps run
    using l few by (auto simp: inotify_inv_def said_told report_take
        intro!: Q [unfolded inotify_good_def, simplified])
qed

lemma inotify_round_step:
  assumes K: "obeys K inotify_contract" and l: "inotify_inv ifd l"
  shows "wp (inotify_round ifd s) (seq (next_or (\<lambda>s. inotify_inv ifd) (inotify_good N)) (inotify_good N)) K N l"
proof (cases s)
  case (Pair rset events)
  let ?Q = "seq (next_or (\<lambda>s. inotify_inv ifd) (inotify_good N)) (inotify_good N)"
  have again: "inotify_inv ifd l' \<Longrightarrow> wp (ret (Inl s')) ?Q K N l'" for s' l'
    by (simp add: wp_ret)
  have walk: "wp (bind (loop (inotify_walk (fill b (bytes q)) (rv q)) (0, 0)) (\<lambda>_. ret (Inl s'))) ?Q K N
      (Ev (L (Read ifd EVENTS_SIZE)) q # l')"
    if "inotify_inv ifd l'" "inotify_contract l' (L (Read ifd EVENTS_SIZE)) q" "\<not> rv q < 0" "rv q \<noteq> 0"
    for b q s' l'
    by (rule wp_bindI [OF walk_step again]) (use that in simp_all)
  show ?thesis
    unfolding inotify_round_def Pair prod.case Let_def
    by (intro wp_ifI wp_exit [THEN iffD2] wp_say [THEN iffD2] wp_sysI [OF K] walk again)
      (use l in \<open>auto simp: inotify_inv_def inotify_good_def answer_lines_def\<close>)
qed

lemma inotify_serves:
  "obeys K inotify_contract \<Longrightarrow> inotify_inv ifd l \<Longrightarrow> wp (loop (inotify_round ifd) s) (inotify_good N) K N l"
  by (rule wp_loop [where I = "\<lambda>s. inotify_inv ifd"]) (auto intro: inotify_round_step inotify_inv_good)

text \<open>
  C28: on every run of the file watcher, with any junk in the uninitialised buffer and descriptor set, no event
  is read outside of the buffer and nothing overflows; what is printed is, in order and completely, what the
  reference makes of the answers: for every read the events that a parser of the buffer finds, numbered from
  1. (When a run is observed for at most 256 passes of the loops, a report may be cut short.) One descriptor
  is open; the program ends only by a failed call (255) or an interrupted wait (0).
\<close>

theorem inotify_reports:
  assumes "obeys K inotify_contract" and "length args = 2"
  shows "case inotify_main junk buf args K N [] of (r, l) \<Rightarrow>
    r \<in> {Wait, Exit 0, Exit 255} \<and> prefix (said l) (due_lines l) \<and>
    (256 < N \<longrightarrow> said l = due_lines l) \<and> disciplined linux_fds l \<and> card (open_fds linux_fds l) \<le> 1"
proof -
  have "wp (inotify_main junk buf args) (inotify_good N) K N []"
    unfolding inotify_main_def
    by (intro wp_ifI wp_exit [THEN iffD2] wp_say [THEN iffD2] wp_sysI [OF assms(1)]
        inotify_serves [OF assms(1)])
      (use assms(2) in \<open>auto simp: inotify_inv_def inotify_good_def answer_lines_def\<close>)
  then show ?thesis by (simp add: wp_def inotify_good_def)
qed

text \<open>A kernel with a read of two events, for a directory.\<close>

definition demo_events :: "inotify_event list" where
  "demo_events =
     [\<lparr>in_wd = 1, in_mask = 0x100, in_cookie = 0, in_name = chars ''a'' @ zeros 3\<rparr>,
      \<lparr>in_wd = 1, in_mask = 0x40000020, in_cookie = 0, in_name = []\<rparr>]"

definition inotify_script :: "resp list" where
  "inotify_script =
     [ok 3, ok 1,
      ready_fds [3], with_nums 0 [36], got (concat (map lay_event demo_events)),
      failed EINTR]"

abbreviation inotify_demo :: "linux_call kernel" where
  "inotify_demo \<equiv> guarded inotify_contract (play inotify_script)"

lemma demo_parsed [simp]: "parse_events (concat (map lay_event demo_events)) = demo_events"
  by (rule parse_lay) (simp add: demo_events_def)

lemma demo_length [simp]: "length (concat (map lay_event demo_events)) = 36"
  by (simp add: demo_events_def)

lemma walk_whole:
  assumes "whole bs" "length bs \<le> EVENTS_SIZE" "256 < N"
  shows "iter N (inotify_walk (fill buf bs) (int (length bs))) (0, 0) K N l =
    (Val (), told 0 (parse_events bs) l)"
proof -
  have c: "concat (map lay_event (parse_events bs)) = bs" using assms(1) by (simp add: whole_def)
  then have "rest_of (fill buf bs) (int (length bs)) 0 (parse_events bs)"
    using assms(2) by (auto simp: rest_of_def fill_def)
  moreover have "length (parse_events bs) \<le> 256" using few_events [of "parse_events bs"] c assms(2) by simp
  ultimately show ?thesis using assms(3) walk_run by auto
qed

lemma calls_told [simp]: "calls (told j es l) = calls l"
  by (induction es arbitrary: j l) simp_all

lemma inotify_demo_run:
  "256 < n \<Longrightarrow> \<exists>l. inotify_main [] buf [a, b] inotify_demo (Suc (Suc n)) [] = (Exit 0, l) \<and>
     said l = [[S ''INOTIFY: pending '', D 2, S '' events'']] @ report 0 demo_events @ [[S ''select interrupt'']]"
  using walk_whole [of "concat (map lay_event demo_events)" "Suc (Suc n)"]
  by (simp add: inotify_main_def inotify_round_def io_simps guarded_def play_def inotify_script_def
      inotify_contract_def fresh_fds_def whole_def said_told Let_def num_def)

theorem inotify_reports_witness:
  "obeys inotify_demo inotify_contract \<and>
   (case inotify_main [] (zeros 64) [chars ''fs_notify'', chars ''/tmp''] inotify_demo 300 [] of (r, l) \<Rightarrow>
     r = Exit 0 \<and> length (said l) = 6 \<and> said l = due_lines l \<and> disciplined linux_fds l)"
proof -
  let ?args = "[chars ''fs_notify'', chars ''/tmp'']"
  have K: "obeys inotify_demo inotify_contract" by (rule obeys_guarded)
  have "case inotify_main [] (zeros 64) ?args inotify_demo 300 [] of (r, l) \<Rightarrow>
     r = Exit 0 \<and> length (said l) = 6"
    using inotify_demo_run
      [where n = 298 and buf = "zeros 64" and a = "chars ''fs_notify''" and b = "chars ''/tmp''"]
    by (auto simp: demo_events_def event_lines_def)
  moreover note inotify_reports [OF K, where args = ?args and N = 300 and junk = "[]" and buf = "zeros 64"]
  ultimately show ?thesis using K by auto
qed

end
