(* ===== verification/Udp.thy ===== *)
theory Udp
  imports Linux_Sys "HOL-Library.Sublist"
begin

unbundle bit_operations_syntax

text \<open>
  The messages of \<open>udp/c/msg\<close>: two clients that send the lines of their input as datagrams (whole
  buffers in \<open>c_udp_simple.c\<close>, the bytes of the line with \<open>sendmsg\<close> in \<open>c_udp_sg.c\<close>) and two servers that print the
  datagrams they receive (\<open>s_udp_nb.c\<close>, which toggles between blocking and non-blocking reads, and
  \<open>s_udp_sg.c\<close>, which prints the control data too).
\<close>

section \<open>The clients\<close>

abbreviation (input) BUFSIZE :: nat where "BUFSIZE \<equiv> 1024"

definition udp_port :: int where "udp_port = 20001"

definition LOCALHOST :: int where "LOCALHOST = 0x7F000001"

definition c_simple_round :: "int \<Rightarrow> unit \<Rightarrow> (unit + unit, linux_call) io" where
  "c_simple_round sock u =
     sys (L (Fgets (BUFSIZE - 1))) (\<lambda>f.
     if rv f = 0 then ret (Inr ())
     else sys (L (Sendto sock (fgets_store (zeros BUFSIZE) f) (SockIn LOCALHOST udp_port))) (\<lambda>r.
       if rv r < 0 then perror ''>>> sendto'' (exit 1) else ret (Inl ())))"

definition c_udp_simple :: "(unit, linux_call) io" where
  "c_udp_simple =
     sys (L (Socket AF_INET SOCK_DGRAM)) (\<lambda>s.
     if rv s < 0 then perror ''>>> socket'' (exit 1) else
     bind (loop (c_simple_round (rv s)) ()) (\<lambda>_. sys (L (Close (rv s))) (\<lambda>_. exit 0)))"

definition udp_usage :: "byte list list \<Rightarrow> ('a, linux_call) io" where
  "udp_usage args = say [S ''use: '', B (args ! 0), S '' <ip addr>''] (exit 0)"

text \<open>\<open>inet_pton\<close> on the argument, and what the two programs do when it fails; the value is the address.\<close>

definition udp_address :: "int \<Rightarrow> byte list list \<Rightarrow> (int, linux_call) io" where
  "udp_address sock args =
     sys (L (Inet_pton AF_INET (args ! 1))) (\<lambda>p.
     if rv p \<le> 0 then
       (if rv p = 0 then udp_usage args
        else perror ''>>> inet_pton'' (sys (L (Close sock)) (\<lambda>_. exit 1)))
     else ret (num p 0))"

definition c_sg_round :: "int \<Rightarrow> int \<Rightarrow> unit \<Rightarrow> (unit + unit, linux_call) io" where
  "c_sg_round sock addr u =
     sys (L (Fgets (BUFSIZE - 1))) (\<lambda>f.
     if rv f = 0 then ret (Inr ())
     else (let buf = fgets_store (zeros BUFSIZE) f in
       sys (Sendmsg sock (take (strlen buf) buf) (SockIn addr udp_port)) (\<lambda>r.
       if rv r < 0 then perror ''>>> recvmsg'' (exit 1) else ret (Inl ()))))"

definition c_udp_sg :: "byte list list \<Rightarrow> (unit, linux_call) io" where
  "c_udp_sg args =
     (if length args \<noteq> 2 then udp_usage args else
      sys (L (Socket AF_INET SOCK_DGRAM)) (\<lambda>s.
      if rv s < 0 then perror ''>>> socket'' (exit 1) else
      bind (udp_address (rv s) args) (\<lambda>addr.
      bind (loop (c_sg_round (rv s) addr) ()) (\<lambda>_. sys (L (Close (rv s))) (\<lambda>_. exit 0)))))"

section \<open>The servers\<close>

definition inet_ntoa :: "int \<Rightarrow> byte list" where
  "inet_ntoa a = udec (a div 2 ^ 24 mod 256) @ 46 # udec (a div 2 ^ 16 mod 256) @ 46 #
     udec (a div 2 ^ 8 mod 256) @ 46 # udec (a mod 256)"

text \<open>The line for a datagram: \<open>%s\<close> reads past a buffer that holds no NUL.\<close>

definition say_datagram :: "string \<Rightarrow> resp \<Rightarrow> (unit, linux_call) io" where
  "say_datagram word r =
     (let buf = fill (zeros BUFSIZE) (bytes r) in
      if terminated buf then
        say [S word, D (rv r), S '' bytes from ('', B (inet_ntoa (num r 0)), S '', '', D (num r 1), S '') : '',
             B (cstr buf)] (ret ())
      else fault ''buffer is not terminated'')"

definition O_NONBLOCK :: int where "O_NONBLOCK = 2048"

text \<open>\<open>len\<close> is uninitialised, so what is stored of the client's address is up to the kernel's answer.\<close>

definition s_nb_round :: "int \<Rightarrow> unit \<Rightarrow> (unit + unit, linux_call) io" where
  "s_nb_round sock u =
     sys (Recvfrom sock BUFSIZE) (\<lambda>r.
     if rv r < 0 then
       (if err r = EWOULDBLOCK then
          say [S ''non-blocking recvfrom: no data''] (sys (L (SleepSec 1)) (\<lambda>_. ret (Inl ())))
        else perror ''>>> recvfrom'' (exit 1))
     else
       bind (say_datagram ''Got '' r) (\<lambda>_.
       say [S ''Toggle blocking mode'']
       (sys (FcntlGet sock) (\<lambda>g.
        sys (FcntlSet sock (rv g XOR O_NONBLOCK)) (\<lambda>t.
        if rv t < 0 then perror ''>>> fcntl'' (exit 1) else ret (Inl ()))))))"

definition s_udp_nb :: "(unit, linux_call) io" where
  "s_udp_nb =
     sys (L (Socket AF_INET SOCK_DGRAM)) (\<lambda>s.
     if rv s < 0 then perror ''>>> socket'' (exit 1) else
     sys (FcntlGet (rv s)) (\<lambda>g.
     sys (FcntlSet (rv s) (rv g OR O_NONBLOCK)) (\<lambda>_.
     sys (L (Bind (rv s) (SockIn LOCALHOST udp_port))) (\<lambda>b.
     if rv b < 0 then perror ''>>> bind'' (exit 1)
     else loop (s_nb_round (rv s)) ()))))"

text \<open>
  A control message: level, type, and for packet information the interface and two addresses. Both
  calls of \<open>inet_ntoa\<close> write into the same static buffer before \<open>printf\<close> reads it; which of
  the two is the last one is not specified (\<open>spec_last\<close>).
\<close>

definition field :: "int list \<Rightarrow> nat \<Rightarrow> int" where
  "field t i = (if i < length t then t ! i else 0)"

definition cmsg_line :: "bool \<Rightarrow> int list \<Rightarrow> out list" where
  "cmsg_line spec_last t =
     (if field t 0 = 0 \<and> field t 1 = 8 then
        (let static = inet_ntoa (if spec_last then field t 3 else field t 4) in
         [S ''ifindex['', D (field t 2), S '']  local_addr['', B static, S '']  dest_addr['', B static, S '']''])
      else [S ''ctl msg of level '', D (field t 0), S '' and type '', D (field t 1)])"

primrec say_lines :: "out list list \<Rightarrow> (unit, linux_call) io" where
  "say_lines [] = ret ()"
| "say_lines (os # oss) = say os (say_lines oss)"

definition s_sg_round :: "bool \<Rightarrow> int \<Rightarrow> unit \<Rightarrow> (unit + unit, linux_call) io" where
  "s_sg_round spec_last sock u =
     sys (Recvmsg sock BUFSIZE) (\<lambda>r.
     if rv r < 0 then perror ''>>> recvmsg'' (exit 1) else
     bind (say_lines ((if num r 2 AND 0x20 \<noteq> 0 then [[S ''diagram was truncated'']] else []) @
       (if num r 2 AND 0x8 \<noteq> 0 then [[S ''control data was truncated'']] else []) @
       map (cmsg_line spec_last) (tables r))) (\<lambda>_.
     bind (say_datagram ''got '' r) (\<lambda>_. ret (Inl ()))))"

definition s_udp_sg :: "bool \<Rightarrow> byte list list \<Rightarrow> (unit, linux_call) io" where
  "s_udp_sg spec_last args =
     (if length args \<noteq> 2 then udp_usage args else
      sys (L (Socket AF_INET SOCK_DGRAM)) (\<lambda>s.
      if rv s < 0 then perror ''>>> socket'' (exit 1) else
      sys (L (Setsockopt (rv s) ''IP_PKTINFO'' (OptInt 1))) (\<lambda>o1.
      if rv o1 < 0 then perror ''>>> setsockopt'' (exit 1) else
      bind (udp_address (rv s) args) (\<lambda>addr.
      sys (L (Bind (rv s) (SockIn addr udp_port))) (\<lambda>b.
      if rv b < 0 then perror ''>>> bind'' (exit 1)
      else loop (s_sg_round spec_last (rv s)) ())))))"

section \<open>What has been typed, sent, received and shown\<close>

text \<open>All of these are oldest first. \<open>text_of\<close> is the text in a line for a datagram.\<close>

primrec typed :: "linux_call history \<Rightarrow> byte list list" where
  "typed [] = []"
| "typed (x # l) = typed l @ (case x of
     Ev c r \<Rightarrow> (case c of L d \<Rightarrow> (case d of Fgets n \<Rightarrow> if rv r = 0 then [] else [bytes r] | _ \<Rightarrow> []) | _ \<Rightarrow> [])
   | Out os \<Rightarrow> [])"

primrec udp_sent :: "linux_call history \<Rightarrow> byte list list" where
  "udp_sent [] = []"
| "udp_sent (x # l) = udp_sent l @ (case x of
     Ev c r \<Rightarrow> (case c of
         L d \<Rightarrow> (case d of Sendto fd bs a \<Rightarrow> [bs] | _ \<Rightarrow> [])
       | Sendmsg fd bs a \<Rightarrow> [bs] | _ \<Rightarrow> [])
   | Out os \<Rightarrow> [])"

primrec received :: "linux_call history \<Rightarrow> byte list list" where
  "received [] = []"
| "received (x # l) = received l @ (case x of
     Ev c r \<Rightarrow> (case c of
         Recvfrom fd n \<Rightarrow> if rv r < 0 then [] else [bytes r]
       | Recvmsg fd n \<Rightarrow> if rv r < 0 then [] else [bytes r]
       | _ \<Rightarrow> [])
   | Out os \<Rightarrow> [])"

definition text_of :: "out list \<Rightarrow> byte list list" where
  "text_of os = (if length os = 8 then (case last os of B t \<Rightarrow> [t] | _ \<Rightarrow> []) else [])"

primrec shown :: "linux_call history \<Rightarrow> byte list list" where
  "shown [] = []"
| "shown (x # l) = shown l @ (case x of Ev c r \<Rightarrow> [] | Out os \<Rightarrow> text_of os)"

definition udp_contract :: "linux_call contract" where
  "udp_contract l c r \<longleftrightarrow> fresh_fds linux_fds l c r \<and>
     (case c of
        L d \<Rightarrow> (case d of
          Fgets n \<Rightarrow> rv r \<noteq> 0 \<longrightarrow> length (bytes r) < n \<and> 0 \<notin> set (bytes r)
        | _ \<Rightarrow> True)
      | Recvfrom fd n \<Rightarrow> length (bytes r) \<le> n
      | Recvmsg fd n \<Rightarrow> length (bytes r) \<le> n
      | _ \<Rightarrow> True)"

section \<open>The clients send their lines\<close>

text \<open>What a server prints of a datagram.\<close>

definition as_shown :: "byte list \<Rightarrow> byte list" where
  "as_shown d = cstr (fill (zeros BUFSIZE) d)"

definition printable :: "byte list \<Rightarrow> bool" where
  "printable d \<longleftrightarrow> terminated (fill (zeros BUFSIZE) d)"

lemma printable_line:
  assumes "0 \<notin> set t" "length t < BUFSIZE - 1"
  shows "printable t" "as_shown t = t"
    "printable (fill (zeros BUFSIZE) (t @ [0]))" "as_shown (fill (zeros BUFSIZE) (t @ [0])) = t"
proof -
  have z: "drop (length t) (zeros BUFSIZE) = zeros (BUFSIZE - length t)" by (rule drop_zeros)
  show "printable t" "as_shown t = t"
    using assms by (simp_all add: printable_def as_shown_def fill_def z terminated_def cstr_append_zeros)
      (simp add: zeros_def)
  have "length (fill (zeros BUFSIZE) (t @ [0])) = BUFSIZE" using assms by (subst length_fill) simp_all
  then have "fill (zeros BUFSIZE) (fill (zeros BUFSIZE) (t @ [0])) = fill (zeros BUFSIZE) (t @ [0])"
    by (simp add: fill_def [of _ "fill _ _"])
  then show "printable (fill (zeros BUFSIZE) (t @ [0]))" "as_shown (fill (zeros BUFSIZE) (t @ [0])) = t"
    using assms by (simp_all add: printable_def as_shown_def fill_def terminated_def cstr_append_nul)
qed

definition lines_sent :: "unit \<Rightarrow> linux_call history \<Rightarrow> bool" where
  "lines_sent u l \<longleftrightarrow> map as_shown (udp_sent l) = typed l \<and> (\<forall>d \<in> set (udp_sent l). printable d)"

definition client_post :: "'a res \<Rightarrow> linux_call history \<Rightarrow> bool" where
  "client_post r l \<longleftrightarrow> (\<forall>e. r \<noteq> Fault e) \<and> prefix (map as_shown (udp_sent l)) (typed l) \<and>
     (\<forall>d \<in> set (udp_sent l). printable d)"

lemma lines_sent_post: "lines_sent u l \<Longrightarrow> (\<forall>e. r \<noteq> Fault e) \<Longrightarrow> client_post r l"
  by (simp add: lines_sent_def client_post_def)

lemma lines_sent_keep [simp]:
  "lines_sent u (Out os # l) = lines_sent u l"
  "lines_sent u (Ev (L (Close fd)) r # l) = lines_sent u l"
  "rv r = 0 \<Longrightarrow> lines_sent u (Ev (L (Fgets n)) r # l) = lines_sent u l"
  by (simp_all add: lines_sent_def)

lemma fgets_stored: "rv f \<noteq> 0 \<Longrightarrow> fgets_store b f = fill b (bytes f @ [0])"
  by (simp add: fgets_store_def)

lemma typed_line:
  assumes "udp_contract l (L (Fgets 1023)) f" "rv f \<noteq> 0" "lines_sent u l"
  shows "lines_sent u (Ev (L (Sendto s (fgets_store (zeros BUFSIZE) f) a)) r # Ev (L (Fgets 1023)) f # l)"
    "lines_sent u (Ev (Sendmsg s (cstr (fgets_store (zeros BUFSIZE) f)) a) r # Ev (L (Fgets 1023)) f # l)"
    "client_post Wait (Ev (L (Fgets 1023)) f # l)"
proof -
  have t: "0 \<notin> set (bytes f)" "length (bytes f) < BUFSIZE - 1"
    using assms(1,2) by (auto simp: udp_contract_def)
  have "cstr (fgets_store (zeros BUFSIZE) f) = bytes f"
    using t assms(2) by (simp add: fgets_stored fill_def cstr_append_nul)
  then show "lines_sent u (Ev (L (Sendto s (fgets_store (zeros BUFSIZE) f) a)) r # Ev (L (Fgets 1023)) f # l)"
    "lines_sent u (Ev (Sendmsg s (cstr (fgets_store (zeros BUFSIZE) f)) a) r # Ev (L (Fgets 1023)) f # l)"
    using assms(2,3) printable_line [OF t] by (simp_all add: lines_sent_def fgets_stored)
  show "client_post Wait (Ev (L (Fgets 1023)) f # l)"
    using assms(2,3) by (simp add: lines_sent_def client_post_def)
qed

lemma c_simple_round_step:
  assumes K: "obeys K udp_contract" and l: "lines_sent u l"
  shows "wp (c_simple_round s u) (seq (next_or lines_sent client_post) client_post) K N l"
  unfolding c_simple_round_def
  by (intro wp_ifI wp_exit [THEN iffD2] wp_say [THEN iffD2] wp_sysI [OF K])
    (use l in \<open>auto simp: wp_ret typed_line intro: lines_sent_post [of u] lines_sent_post [OF typed_line(1)]\<close>)

lemma c_sg_round_step:
  assumes K: "obeys K udp_contract" and l: "lines_sent u l"
  shows "wp (c_sg_round s a u) (seq (next_or lines_sent client_post) client_post) K N l"
  unfolding c_sg_round_def Let_def
  by (intro wp_ifI wp_exit [THEN iffD2] wp_say [THEN iffD2] wp_sysI [OF K])
    (use l in \<open>auto simp: wp_ret typed_line intro: lines_sent_post [of u] lines_sent_post [OF typed_line(2)]\<close>)

interpretation simple_client: service "c_simple_round s" udp_contract lines_sent client_post for s
  by unfold_locales (auto intro: c_simple_round_step lines_sent_post)

interpretation sg_client: service "c_sg_round s a" udp_contract lines_sent client_post for s a
  by unfold_locales (auto intro: c_sg_round_step lines_sent_post)

lemma client_ends:
  assumes "obeys K udp_contract" "wp m client_post K N l"
  shows "wp (bind m (\<lambda>_. sys (L (Close s)) (\<lambda>_. exit 0))) client_post K N l"
  unfolding wp_bind
  by (rule wp_mono [OF assms(2)])
    (auto simp: client_post_def seq_def wp_simps split: res.splits option.split)

lemma clients_send:
  assumes K: "obeys K udp_contract"
  shows "wp c_udp_simple client_post K N []" "wp (c_udp_sg args) client_post K N []"
proof -
  note start = lines_sent_post [of "()"]
  show "wp c_udp_simple client_post K N []"
    unfolding c_udp_simple_def
    by (intro wp_ifI wp_exit [THEN iffD2] wp_say [THEN iffD2] wp_sysI [OF K] client_ends [OF K]
        simple_client.serves [OF K])
      (auto simp: lines_sent_def intro!: start)
  show "wp (c_udp_sg args) client_post K N []"
    unfolding c_udp_sg_def udp_usage_def udp_address_def
    by (intro wp_ifI wp_bind [where f = "\<lambda>addr. bind (f addr) g" for f g, THEN iffD2] wp_exit [THEN iffD2]
        wp_say [THEN iffD2] wp_sysI [OF K] wp_retI client_ends [OF K] sg_client.serves [OF K])
      (auto simp: lines_sent_def intro!: start)
qed

section \<open>The servers show what they receive\<close>

definition server_post :: "'a res \<Rightarrow> linux_call history \<Rightarrow> bool" where
  "server_post r l \<longleftrightarrow> (case r of
     Fault e \<Rightarrow> (\<exists>d \<in> set (received l). \<not> printable d)
   | Exit n \<Rightarrow> n \<in> {0, 1} \<and> shown l = map as_shown (received l)
   | Val a \<Rightarrow> False
   | Wait \<Rightarrow> shown l = map as_shown (received l))"

definition all_shown :: "linux_call history \<Rightarrow> bool" where
  "all_shown l \<longleftrightarrow> shown l = map as_shown (received l)"

lemma server_post_simps [simp]:
  "server_post Wait l = all_shown l" "server_post (Exit n) l = (n \<in> {0, 1} \<and> all_shown l)"
  "server_post (Fault e) l = (\<exists>d \<in> set (received l). \<not> printable d)"
  by (auto simp: server_post_def all_shown_def)

lemma say_datagram_step:
  assumes "all_shown l" "0 \<le> rv r" "c = Recvfrom s n \<or> c = Recvmsg s n"
    "received l' = received (Ev c r # l)" "shown l' = shown l"
    "\<And>l''. all_shown l'' \<Longrightarrow> P () l''"
    "\<And>e l''. server_post (Fault e) l'' \<Longrightarrow> Q (Fault e) l''"
  shows "wp (say_datagram w r) (seq P Q) K N l'"
  using assms
  by (auto simp: say_datagram_def Let_def wp_simps all_shown_def as_shown_def printable_def text_of_def
      server_post_def)

lemma say_lines_run:
  "wp (say_lines oss) (seq P Q) K N l = P () (rev (map Out oss) @ l)"
  by (induction oss arbitrary: l) (simp_all add: wp_simps)

lemma quiet_lines:
  "\<forall>os \<in> set oss. length os \<noteq> 8 \<Longrightarrow> shown (rev (map Out oss) @ l) = shown l"
  "received (rev (map Out oss) @ l) = received l"
  by (induction oss arbitrary: l) (simp_all add: text_of_def)

lemma all_shown_keep [simp]:
  "length os \<noteq> 8 \<Longrightarrow> all_shown (Out os # l) = all_shown l"
  "all_shown (Ev (L d) r # l) = all_shown l"
  "all_shown (Ev (FcntlGet fd) r # l) = all_shown l"
  "all_shown (Ev (FcntlSet fd v) r # l) = all_shown l"
  "rv r < 0 \<Longrightarrow> all_shown (Ev (Recvfrom fd n) r # l) = all_shown l"
  "rv r < 0 \<Longrightarrow> all_shown (Ev (Recvmsg fd n) r # l) = all_shown l"
  by (simp_all add: all_shown_def text_of_def)

lemma s_nb_round_step:
  assumes l: "all_shown l"
  shows "wp (s_nb_round s u) (seq (next_or (\<lambda>u. all_shown) server_post) server_post) K N l"
  unfolding s_nb_round_def
  by (intro wp_intro wp_bind [THEN iffD2] say_datagram_step [OF l])
    (use l in \<open>auto simp: wp_simps split: option.split\<close>)

lemma cmsg_line_short: "length (cmsg_line b t) \<noteq> 8"
  by (simp add: cmsg_line_def Let_def)

lemma s_sg_round_step:
  assumes l: "all_shown l"
  shows "wp (s_sg_round b s u) (seq (next_or (\<lambda>u. all_shown) server_post) server_post) K N l"
  unfolding s_sg_round_def
proof (intro wp_intro)
  fix r :: resp assume r: "\<not> rv r < 0"
  let ?oss = "(if num r 2 AND 0x20 \<noteq> 0 then [[S ''diagram was truncated'']] else []) @
    (if num r 2 AND 0x8 \<noteq> 0 then [[S ''control data was truncated'']] else []) @
    map (cmsg_line b) (tables r)"
  have quiet: "\<forall>os \<in> set ?oss. length os \<noteq> 8" by (auto simp: cmsg_line_short)
  show "wp (bind (say_lines ?oss) (\<lambda>_. bind (say_datagram ''got '' r) (\<lambda>_. ret (Inl ()))))
     (seq (next_or (\<lambda>u. all_shown) server_post) server_post) K N (Ev (Recvmsg s BUFSIZE) r # l)"
    unfolding wp_bind [of "say_lines ?oss"] say_lines_run
    by (intro wp_bind [THEN iffD2] say_datagram_step [OF l, where c = "Recvmsg s BUFSIZE"])
      (use r quiet_lines(1) [OF quiet] quiet_lines(2) [of ?oss] in \<open>simp_all add: wp_ret\<close>)
qed (use l in simp_all)

interpretation nb_server: service "s_nb_round s" "\<lambda>l c r. True" "\<lambda>u. all_shown" server_post for s
  by unfold_locales (auto intro: s_nb_round_step)

interpretation sg_server: service "s_sg_round b s" "\<lambda>l c r. True" "\<lambda>u. all_shown" server_post for b s
  by unfold_locales (auto intro: s_sg_round_step)

lemma servers_show: "wp s_udp_nb server_post K N []" "wp (s_udp_sg b args) server_post K N []"
proof -
  have any: "obeys K (\<lambda>l c r. True)" by (simp add: obeys_def)
  show "wp s_udp_nb server_post K N []"
    unfolding s_udp_nb_def
    by (intro wp_intro nb_server.serves [OF any]) (auto simp: all_shown_def text_of_def)
  show "wp (s_udp_sg b args) server_post K N []"
    unfolding s_udp_sg_def udp_usage_def udp_address_def
    by (intro wp_intro wp_bind [THEN iffD2] wp_retI sg_server.serves [OF any])
      (auto simp: all_shown_def text_of_def)
qed

section \<open>From one terminal to the other\<close>

text \<open>
  C29: whichever client sends and whichever server receives, on runs of any length: when the
  datagrams that the server receives are some of those that the client has sent, in order (datagrams may
  be lost), the texts that the server prints are the lines typed at the client, apart from the lost ones, in
  order and unchanged; no buffer is read beyond its end.
\<close>

theorem udp_delivers:
  assumes "obeys K udp_contract"
    and "client \<in> {c_udp_simple, c_udp_sg xs}" and "server \<in> {s_udp_nb, s_udp_sg b ys}"
    and "client K M [] = (r, l)" and "server H N [] = (q, m)"
    and "subseq (received m) (udp_sent l)"
  shows "subseq (shown m) (typed l) \<and> q \<in> {Wait, Exit 0, Exit 1}"
proof -
  have "wp client client_post K M []" using clients_send [OF assms(1)] assms(2) by auto
  then have c: "prefix (map as_shown (udp_sent l)) (typed l)" "\<forall>d \<in> set (udp_sent l). printable d"
    using assms(4) by (auto simp: wp_def client_post_def)
  have sub: "set (received m) \<subseteq> set (udp_sent l)"
    using assms(6) by (auto elim: list_emb_set)
  have "wp server server_post H N []" using servers_show assms(3) by auto
  then have "server_post q m" using assms(5) by (simp add: wp_def)
  moreover have "\<nexists>e. q = Fault e" using calculation sub c(2) by (cases q) (auto simp: server_post_def)
  ultimately have s: "shown m = map as_shown (received m)" and q: "q \<in> {Wait, Exit 0, Exit 1}"
    by (auto simp: server_post_def split: res.splits)
  have "subseq (map as_shown (received m)) (map as_shown (udp_sent l))"
    by (rule subseq_map [OF assms(6)])
  also have "subseq \<dots> (typed l)" using c(1) by (rule prefix_imp_subseq)
  finally show ?thesis using q unfolding s by simp
qed

text \<open>Two lines are typed, the first datagram is lost.\<close>

definition udp_typing :: "resp list" where
  "udp_typing = [ok 3, with_nums 1 [LOCALHOST], got (chars ''hi''), ok 2, got (chars ''you''), ok 3, ok 0, ok 0]"

definition udp_arriving :: "resp list" where
  "udp_arriving = [ok 4, ok 2, ok 0, ok 0, failed EWOULDBLOCK, ok 0,
     (got (chars ''you''))\<lparr>nums := [LOCALHOST, 40000]\<rparr>, ok 2050, ok 0]"

theorem udp_delivers_witness:
  "obeys (guarded udp_contract (play udp_typing)) udp_contract \<and>
   (case c_udp_sg [[], []] (guarded udp_contract (play udp_typing)) 5 [] of (r1, l1) \<Rightarrow>
    case s_udp_nb (play udp_arriving) 5 [] of (r2, l2) \<Rightarrow>
      r1 = Exit 0 \<and> shown l2 = [chars ''you''] \<and> typed l1 = [chars ''hi'', chars ''you''] \<and>
      subseq (shown l2) (typed l1) \<and> r2 = Wait)"
proof -
  let ?K = "guarded udp_contract (play udp_typing)"
  have K: "obeys ?K udp_contract" by (rule obeys_guarded)
  obtain r1 l1 where 1: "c_udp_sg [[], []] ?K 5 [] = (r1, l1)" by (cases "c_udp_sg [[], []] ?K 5 []")
  obtain r2 l2 where 2: "s_udp_nb (play udp_arriving) 5 [] = (r2, l2)"
    by (cases "s_udp_nb (play udp_arriving) 5 []")
  have "case c_udp_sg [[], []] ?K 5 [] of (r1, l1) \<Rightarrow>
      r1 = Exit 0 \<and> typed l1 = [chars ''hi'', chars ''you''] \<and> udp_sent l1 = [chars ''hi'', chars ''you'']"
    by code_simp
  moreover have "case s_udp_nb (play udp_arriving) 5 [] of (r2, l2) \<Rightarrow>
      r2 = Wait \<and> shown l2 = [chars ''you''] \<and> received l2 = [chars ''you'']"
    by code_simp
  moreover note udp_delivers [where client = "c_udp_sg [[], []]" and server = s_udp_nb
    and xs = "[[], []]", OF K _ _ 1 2]
  ultimately show ?thesis using K 1 2 by auto
qed

end
