(* ===== verification/Tunnel.thy ===== *)
theory Tunnel
  imports Linux_Sys "HOL-Library.Sublist"
begin

text \<open>
  \<open>tun-tap/tunnel.c\<close>: frames of a tun or tap device are sent as datagrams to the other end, and datagrams from there
  are written to the device.
\<close>

section \<open>The program\<close>

abbreviation (input) FRAME_SIZE :: nat where "FRAME_SIZE \<equiv> 1600"

definition tunnel_port :: int where "tunnel_port = 20001"

text \<open>\<open>None\<close> for a device that is neither a tun nor a tap; \<open>IFF_NO_PI\<close> is \<open>0x1000\<close>.\<close>

definition tun_flags :: "byte list \<Rightarrow> int option" where
  "tun_flags name = (if take 3 name = chars ''tun'' then Some 0x1001
     else if take 3 name = chars ''tap'' then Some 0x1002 else None)"

text \<open>
  \<open>sprintf (ifr.ifr_name, "%s%d", argv[1], 0)\<close>: the field has 16 bytes, one for the digit and one for the NUL.
\<close>

definition tun_ifname :: "byte list \<Rightarrow> byte list option" where
  "tun_ifname name = (if length name + 2 \<le> 16 then Some (name @ [48]) else None)"

definition tun_open :: "byte list \<Rightarrow> (int, linux_call) io" where
  "tun_open name =
     (case tun_flags name of
        None \<Rightarrow> say [S ''usage: bridge tap|tun''] (exit 1)
      | Some flags \<Rightarrow>
          sys (L (Open ''/dev/net/tun'')) (\<lambda>f.
          if rv f < 0 then perror ''open'' (exit 255) else
          case tun_ifname name of
            None \<Rightarrow> fault ''overflow of ifr_name''
          | Some ifn \<Rightarrow>
              sys (Tunsetiff (rv f) flags ifn) (\<lambda>a.
              if rv a < 0 then perror ''ioctl TUNSETIFF'' (exit 255) else
              sys (Tunsetnocsum (rv f)) (\<lambda>b.
              if rv b < 0 then perror ''ioctl TUNSETNOSUM'' (exit 255) else ret (rv f)))))"

text \<open>The part of a pass for frames from the device; \<open>buf\<close> is the array, whatever it holds.\<close>

definition tun_to_net :: "int \<Rightarrow> int \<Rightarrow> sockaddr \<Rightarrow> byte list \<Rightarrow> (byte list option, linux_call) io" where
  "tun_to_net fd sock client buf =
     sys (L (Read fd FRAME_SIZE)) (\<lambda>r.
     if rv r < 0 then perror ''read'' (ret None) else
     (let buf' = fill buf (bytes r) in
      say [S ''<1> read '', D (rv r), S '' bytes from tun0'']
      (sys (L (Sendto sock (take (nat (rv r)) buf') client)) (\<lambda>w.
       if rv w < 0 then perror ''sock sendto'' (exit 255)
       else say [S ''<1> write '', D (rv w), S '' bytes to sock''] (ret (Some buf'))))))"

definition net_to_tun :: "int \<Rightarrow> int \<Rightarrow> byte list \<Rightarrow> (byte list option, linux_call) io" where
  "net_to_tun fd sock buf =
     sys (L (Read sock FRAME_SIZE)) (\<lambda>r.
     if rv r < 0 then perror ''read'' (ret None) else
     (let buf' = fill buf (bytes r) in
      say [S ''<2> read '', D (rv r), S '' bytes from sock'']
      (sys (L (Write fd (take (nat (rv r)) buf'))) (\<lambda>w.
       if rv w < 0 then perror ''sock write'' (exit 255)
       else say [S ''<2> write '', D (rv w), S '' bytes to tun0''] (ret (Some buf'))))))"

text \<open>
  The result of \<open>select\<close> is not looked at; when it fails it leaves the descriptors in the set, so both are
  read. A failed read leaves the loop (\<open>break\<close>).
\<close>

definition tunnel_round :: "int \<Rightarrow> int \<Rightarrow> sockaddr \<Rightarrow> byte list \<Rightarrow> (byte list + unit, linux_call) io" where
  "tunnel_round fd sock client buf =
     sys (L (Select (max fd sock + 1) [fd, sock] None)) (\<lambda>s.
     let fds = (if rv s < 0 then [fd, sock] else ready s) in
     bind (if fd \<in> set fds then tun_to_net fd sock client buf else ret (Some buf)) (\<lambda>b.
     case b of None \<Rightarrow> ret (Inr ())
     | Some buf1 \<Rightarrow>
         bind (if sock \<in> set fds then net_to_tun fd sock buf1 else ret (Some buf1)) (\<lambda>b2.
         case b2 of None \<Rightarrow> ret (Inr ()) | Some buf2 \<Rightarrow> ret (Inl buf2))))"

definition tunnel_main :: "byte list \<Rightarrow> byte list list \<Rightarrow> (unit, linux_call) io" where
  "tunnel_main junk args =
     (if length args < 4 then say [S ''usage: bridge tap|tun src dest''] (exit 1) else
      bind (tun_open (args ! 1)) (\<lambda>fd.
      sys (L (Socket AF_INET SOCK_DGRAM)) (\<lambda>s.
      if rv s < 0 then perror ''socket'' (exit 255) else
      sys (InetAddr (args ! 2)) (\<lambda>a.
      sys (L (Bind (rv s) (SockIn (num a 0) tunnel_port))) (\<lambda>b.
      if rv b < 0 then perror ''bind'' (exit 255) else
      sys (InetAddr (args ! 3)) (\<lambda>c.
      bind (loop (tunnel_round fd (rv s) (SockIn (num c 0) tunnel_port)) junk) (\<lambda>_. exit 0)))))))"

section \<open>Both directions\<close>

text \<open>
  The descriptors of a history, and what has gone through each of them (oldest first): the data of the reads
  that succeeded, and the data handed over in writes and datagrams.
\<close>

primrec tun_fd :: "linux_call history \<Rightarrow> int" where
  "tun_fd [] = -1"
| "tun_fd (x # l) = (case x of
     Ev c r \<Rightarrow> (case c of L d \<Rightarrow> (case d of Open p \<Rightarrow> rv r | _ \<Rightarrow> tun_fd l) | _ \<Rightarrow> tun_fd l) | Out os \<Rightarrow> tun_fd l)"

primrec net_fd :: "linux_call history \<Rightarrow> int" where
  "net_fd [] = -1"
| "net_fd (x # l) = (case x of
     Ev c r \<Rightarrow> (case c of L d \<Rightarrow> (case d of Socket a b \<Rightarrow> rv r | _ \<Rightarrow> net_fd l) | _ \<Rightarrow> net_fd l) | Out os \<Rightarrow> net_fd l)"

primrec taken_from :: "int \<Rightarrow> linux_call history \<Rightarrow> byte list list" where
  "taken_from fd [] = []"
| "taken_from fd (x # l) = taken_from fd l @ (case x of
     Ev c r \<Rightarrow> (case c of L d \<Rightarrow> (case d of Read e n \<Rightarrow> if e = fd \<and> 0 \<le> rv r then [bytes r] else [] | _ \<Rightarrow> [])
       | _ \<Rightarrow> [])
   | Out os \<Rightarrow> [])"

primrec given_to :: "int \<Rightarrow> linux_call history \<Rightarrow> byte list list" where
  "given_to fd [] = []"
| "given_to fd (x # l) = given_to fd l @ (case x of
     Ev c r \<Rightarrow> (case c of L d \<Rightarrow> (case d of
         Write e bs \<Rightarrow> if e = fd then [bs] else []
       | Sendto e bs a \<Rightarrow> if e = fd then [bs] else []
       | _ \<Rightarrow> []) | _ \<Rightarrow> [])
   | Out os \<Rightarrow> [])"

text \<open>A read stores as many bytes as it reports, at most those asked for.\<close>

definition tunnel_contract :: "linux_call contract" where
  "tunnel_contract l c r \<longleftrightarrow> fresh_fds linux_fds l c r \<and>
     (case c of
        L d \<Rightarrow> (case d of
          Read fd n \<Rightarrow> 0 \<le> rv r \<longrightarrow> rv r = int (length (bytes r)) \<and> length (bytes r) \<le> n
        | _ \<Rightarrow> True)
      | _ \<Rightarrow> True)"

text \<open>All but at most the last of the first list.\<close>

definition keeps_up :: "byte list list \<Rightarrow> byte list list \<Rightarrow> bool" where
  "keeps_up ins outs \<longleftrightarrow> outs = ins \<or> (ins \<noteq> [] \<and> outs = butlast ins)"

definition relayed :: "linux_call history \<Rightarrow> bool" where
  "relayed l \<longleftrightarrow>
     keeps_up (taken_from (tun_fd l) l) (given_to (net_fd l) l) \<and>
     keeps_up (taken_from (net_fd l) l) (given_to (tun_fd l) l) \<and>
     disciplined linux_fds l \<and> card (open_fds linux_fds l) \<le> 2"

definition tunnel_at :: "int \<Rightarrow> int \<Rightarrow> linux_call history \<Rightarrow> bool" where
  "tunnel_at fd sock l \<longleftrightarrow> tun_fd l = fd \<and> net_fd l = sock \<and> fd \<noteq> sock \<and>
     taken_from fd l = given_to sock l \<and> taken_from sock l = given_to fd l \<and>
     disciplined linux_fds l \<and> open_fds linux_fds l = {fd, sock}"

definition tunnel_good :: "byte list \<Rightarrow> unit res \<Rightarrow> linux_call history \<Rightarrow> bool" where
  "tunnel_good name r l \<longleftrightarrow> relayed l \<and> (case r of
     Fault e \<Rightarrow> 14 < length name | Exit n \<Rightarrow> n \<in> {0, 1, 255} | Val a \<Rightarrow> True | Wait \<Rightarrow> True)"

lemma keeps_up_refl [simp]: "keeps_up xs xs" "keeps_up (xs @ [x]) xs"
  by (simp_all add: keeps_up_def)

lemma relayed_Out [simp]: "relayed (Out os # l) = relayed l"
  by (simp add: relayed_def)

lemma tunnel_at_relayed: "tunnel_at fd sock l \<Longrightarrow> relayed l"
  by (auto simp: tunnel_at_def relayed_def card_insert_if)

lemma tunnel_at_keep [simp]:
  "tunnel_at fd sock (Out os # l) = tunnel_at fd sock l"
  "tunnel_at fd sock l \<Longrightarrow> tunnel_at fd sock (Ev (L (Select n fds t)) r # l)"
  "tunnel_at fd sock l \<Longrightarrow> rv r < 0 \<Longrightarrow> e \<in> {fd, sock} \<Longrightarrow> tunnel_at fd sock (Ev (L (Read e m)) r # l)"
  by (auto simp: tunnel_at_def)

lemma tunnel_frame:
  assumes "tunnel_at fd sock l" "0 \<le> rv r"
  shows "relayed (Ev (L (Read fd m)) r # l)" "relayed (Ev (L (Read sock m)) r # l)"
    "tunnel_at fd sock (Ev (L (Sendto sock (bytes r) a)) w # Out os # Ev (L (Read fd m)) r # l)"
    "tunnel_at fd sock (Ev (L (Write fd (bytes r))) w # Out os # Ev (L (Read sock m)) r # l)"
  using assms by (auto simp: tunnel_at_def relayed_def card_insert_if)

lemma frame_bytes:
  assumes "tunnel_contract l (L (Read fd FRAME_SIZE)) r" "\<not> rv r < 0"
  shows "take (nat (rv r)) (fill buf (bytes r)) = bytes r"
  using assms by (auto simp: tunnel_contract_def fill_def)

lemma tun_to_net_step:
  assumes K: "obeys K tunnel_contract" and l: "tunnel_at fd sock l"
    and Q: "\<And>l. relayed l \<Longrightarrow> Q Wait l" "\<And>l. relayed l \<Longrightarrow> Q (Exit 255) l"
  shows "wp (tun_to_net fd sock a buf) (seq (\<lambda>b. tunnel_at fd sock) Q) K N l"
  unfolding tun_to_net_def Let_def
  by (intro wp_ifI wp_say [THEN iffD2] wp_exit [THEN iffD2] wp_sysI [OF K])
    (use l in \<open>auto simp: wp_ret frame_bytes tunnel_frame [OF l] tunnel_at_relayed [OF l] not_less
      tunnel_at_relayed [OF tunnel_frame(3) [OF l]] intro!: Q\<close>)

lemma net_to_tun_step:
  assumes K: "obeys K tunnel_contract" and l: "tunnel_at fd sock l"
    and Q: "\<And>l. relayed l \<Longrightarrow> Q Wait l" "\<And>l. relayed l \<Longrightarrow> Q (Exit 255) l"
  shows "wp (net_to_tun fd sock buf) (seq (\<lambda>b. tunnel_at fd sock) Q) K N l"
  unfolding net_to_tun_def Let_def
  by (intro wp_ifI wp_say [THEN iffD2] wp_exit [THEN iffD2] wp_sysI [OF K])
    (use l in \<open>auto simp: wp_ret frame_bytes tunnel_frame [OF l] tunnel_at_relayed [OF l] not_less
      tunnel_at_relayed [OF tunnel_frame(4) [OF l]] intro!: Q\<close>)

lemma tunnel_round_step:
  assumes K: "obeys K tunnel_contract" and l: "tunnel_at fd sock l"
  shows "wp (tunnel_round fd sock a buf)
    (seq (next_or (\<lambda>b. tunnel_at fd sock) (tunnel_good n)) (tunnel_good n)) K N l"
proof -
  let ?Q = "seq (next_or (\<lambda>b. tunnel_at fd sock) (tunnel_good n)) (tunnel_good n)"
  have Q: "\<And>l. relayed l \<Longrightarrow> ?Q Wait l" "\<And>l. relayed l \<Longrightarrow> ?Q (Exit 255) l"
    by (simp_all add: tunnel_good_def)
  have fin: "\<And>l. tunnel_at fd sock l \<Longrightarrow> wp (ret (Inr ())) ?Q K N l"
    by (simp add: wp_ret tunnel_good_def tunnel_at_relayed)
  have one: "wp (if b then tun_to_net fd sock a buf' else ret (Some buf')) (seq (\<lambda>b. tunnel_at fd sock) ?Q) K N l'"
    "wp (if b then net_to_tun fd sock buf' else ret (Some buf')) (seq (\<lambda>b. tunnel_at fd sock) ?Q) K N l'"
    if "tunnel_at fd sock l'" for b buf' l'
    by (rule wp_ifI, rule tun_to_net_step [OF K that Q], assumption, assumption, simp add: wp_ret that)
      (rule wp_ifI, rule net_to_tun_step [OF K that Q], assumption, assumption, simp add: wp_ret that)
  show ?thesis
    unfolding tunnel_round_def Let_def
  proof (intro wp_stepI wp_bindI [OF one(1)])
    fix s and b1 :: "byte list option" and l1
    let ?fds = "if rv s < 0 then [fd, sock] else ready s"
    assume l1: "tunnel_at fd sock l1"
    show "wp (case b1 of None \<Rightarrow> ret (Inr ())
     | Some buf1 \<Rightarrow>
         bind (if sock \<in> set ?fds then net_to_tun fd sock buf1 else ret (Some buf1)) (\<lambda>b2.
         case b2 of None \<Rightarrow> ret (Inr ()) | Some buf2 \<Rightarrow> ret (Inl buf2))) ?Q K N l1"
    proof (cases b1)
      case (Some buf1)
      show ?thesis
        unfolding Some option.case
        by (rule wp_bindI [OF one(2) [OF l1]])
          (auto simp: wp_ret tunnel_good_def tunnel_at_relayed split: option.split)
    qed (simp add: fin l1)
  qed (use l in \<open>simp_all add: tunnel_good_def tunnel_at_relayed\<close>)
qed

text \<open>The device is open and nothing has been read or written yet.\<close>

definition tun_up :: "int \<Rightarrow> linux_call history \<Rightarrow> bool" where
  "tun_up fd l \<longleftrightarrow> tun_fd l = fd \<and> (\<forall>x. taken_from x l = [] \<and> given_to x l = []) \<and>
     disciplined linux_fds l \<and> open_fds linux_fds l = {fd}"

lemma tun_open_step:
  assumes K: "obeys K tunnel_contract"
  shows "wp (tun_open name) (seq tun_up (tunnel_good name)) K N []"
proof (cases "tun_flags name")
  case (Some flags)
  show ?thesis
    unfolding tun_open_def Some option.case
    by (cases "tun_ifname name"; simp only: option.case; intro wp_ifI wp_say [THEN iffD2] wp_exit [THEN iffD2]
        wp_fault [THEN iffD2] wp_retI wp_sysI [OF K])
      (auto simp: tunnel_good_def relayed_def tun_up_def tun_ifname_def split: if_splits)
qed (simp add: tun_open_def wp_simps tunnel_good_def relayed_def)

lemma tun_up_relayed: "tun_up fd l \<Longrightarrow> relayed l"
  by (simp add: tun_up_def relayed_def)

interpretation tunnel: service "tunnel_round fd sock a" tunnel_contract "\<lambda>b. tunnel_at fd sock" "tunnel_good n"
  for fd sock a n
  by unfold_locales (auto simp: tunnel_good_def intro: tunnel_round_step tunnel_at_relayed)

text \<open>
  C30: on every run of the tunnel, every frame read from the device has been sent to the peer and every
  datagram read from the socket has been written to the device, each unchanged, in order and once, but for
  at most one that is on its way in each direction when the run ends or is waiting; also when \<open>select\<close> fails. At most two
  descriptors are open and calls are on open ones; undefined behaviour is only met when the name of the device
  has more than 14 bytes.
\<close>

theorem tunnel_relays:
  assumes "obeys K tunnel_contract"
  shows "case tunnel_main junk args K N [] of (r, l) \<Rightarrow>
    keeps_up (taken_from (tun_fd l) l) (given_to (net_fd l) l) \<and>
    keeps_up (taken_from (net_fd l) l) (given_to (tun_fd l) l) \<and>
    disciplined linux_fds l \<and> card (open_fds linux_fds l) \<le> 2 \<and>
    (case r of Fault e \<Rightarrow> 14 < length (args ! 1) | Exit n \<Rightarrow> n \<in> {0, 1, 255} | Val a \<Rightarrow> True | Wait \<Rightarrow> True)"
proof -
  let ?g = "tunnel_good (args ! 1)"
  have fin: "wp (bind (loop (tunnel_round fd s a) junk) (\<lambda>_. exit 0)) ?g K N l" if "tunnel_at fd s l" for fd s a l
    unfolding wp_bind
    by (rule wp_mono [OF tunnel.serves [OF assms that, where n = "args ! 1"]])
      (auto simp: seq_def wp_exit tunnel_good_def split: res.splits)
  have "wp (tunnel_main junk args) ?g K N []"
    unfolding tunnel_main_def
  proof (intro wp_ifI wp_say [THEN iffD2] wp_exit [THEN iffD2] wp_bindI [OF tun_open_step [OF assms]]
      wp_sysI [OF assms] fin)
    fix fd l s a b c
    assume up: "tun_up fd l" and s: "tunnel_contract l (L (Socket AF_INET SOCK_DGRAM)) s" "\<not> rv s < 0"
    show "tunnel_at fd (rv s) (Ev (InetAddr (args ! 3)) c # Ev (L (Bind (rv s) (SockIn (num a 0) tunnel_port))) b #
        Ev (InetAddr (args ! 2)) a # Ev (L (Socket AF_INET SOCK_DGRAM)) s # l)"
      using up s by (auto simp: tun_up_def tunnel_at_def tunnel_contract_def fresh_fds_def)
  qed (auto simp: tunnel_good_def tun_up_def relayed_def tunnel_contract_def fresh_fds_def)
  then show ?thesis unfolding wp_def tunnel_good_def relayed_def by (simp add: case_prod_unfold)
qed

text \<open>One frame in each direction, then \<open>select\<close> is interrupted and the read that follows fails.\<close>

definition tunnel_script :: "resp list" where
  "tunnel_script =
     [ok 3, ok 0, ok 0, ok 4, with_nums 0 [0x0A000001], ok 0, with_nums 0 [0x0A000002],
      ready_fds [3, 4], got [1, 2, 3], ok 3, got [9, 8], ok 2,
      failed EINTR, got [5], ok 1, failed EOTHER]"

theorem tunnel_relays_witness:
  "obeys (guarded tunnel_contract (play tunnel_script)) tunnel_contract \<and>
   (case tunnel_main [] [[], chars ''tun'', [], []] (guarded tunnel_contract (play tunnel_script)) 4 [] of (r, l) \<Rightarrow>
     r = Exit 0 \<and> given_to 4 l = [[1, 2, 3], [5]] \<and> given_to 3 l = [[9, 8]] \<and>
     keeps_up (taken_from (tun_fd l) l) (given_to (net_fd l) l))"
proof -
  let ?K = "guarded tunnel_contract (play tunnel_script)"
  have K: "obeys ?K tunnel_contract" by (rule obeys_guarded)
  have "case tunnel_main [] [[], chars ''tun'', [], []] ?K 4 [] of (r, l) \<Rightarrow>
     r = Exit 0 \<and> given_to 4 l = [[1, 2, 3], [5]] \<and> given_to 3 l = [[9, 8]]"
    by code_simp
  then show ?thesis using K tunnel_relays [OF K, where junk = "[]" and args = "[[], chars ''tun'', [], []]" and N = 4] by auto
qed

end
