(* ===== verification/Gst_Sink.thy ===== *)
theory Gst_Sink
  imports Drm_Kms
begin

unbundle bit_operations_syntax

text \<open>
  The GStreamer sinks \<open>gst/gst-drm/drmsink.c\<close> and \<open>drmplanesink.c\<close>: the state of a sink object and its
  handlers. GStreamer itself (the classes, the negotiation of formats, the order of the calls) is not part of
  the repository; the handlers are operations on the state, applied in the order in which the framework
  calls them. This theory holds what the two sinks share, two frames with a buffer object each, the copying of an
  image, and the handlers of the first sink.
\<close>

section \<open>The state of a sink\<close>

text \<open>
  The entries of the arrays \<open>bo\<close>, \<open>frame\<close>, \<open>stride\<close> and \<open>fb\<close> at one index. \<open>fr_bo\<close> is 0 for NULL; \<open>fr_map\<close> is the buffer
  object whose mapping \<open>frame\<close> points to, if any, and \<open>fr_data\<close> are the bytes of that mapping. A new object is
  all zero.
\<close>

record frame =
  fr_bo :: int
  fr_map :: "int option"
  fr_data :: "byte list"
  fr_stride :: uint32
  fr_fb :: uint32

definition no_frame :: frame where
  "no_frame = \<lparr>fr_bo = 0, fr_map = None, fr_data = [], fr_stride = 0, fr_fb = 0\<rparr>"

record sink =
  enabled :: bool
  drv :: int
  frames :: "frame list"
  current :: nat
  device :: "byte list option"
  width :: uint32
  height :: uint32
  crtc_id :: uint32
  sink_fd :: int

abbreviation (input) DRM_FRAMES :: nat where "DRM_FRAMES \<equiv> 2"

section \<open>What the sinks share\<close>

definition put_frame :: "nat \<Rightarrow> (frame \<Rightarrow> frame) \<Rightarrow> 'a sink_scheme \<Rightarrow> 'a sink_scheme" where
  "put_frame i f s = s\<lparr>frames := (frames s)[i := f (frames s ! i)]\<rparr>"

text \<open>
  One frame of the set-up, for an image of the given size; \<open>Inr\<close> is \<open>return false\<close>, with what has been stored
  in the object until then.
\<close>

definition sink_frame :: "uint32 \<Rightarrow> uint32 \<Rightarrow> nat \<Rightarrow> 'a sink_scheme \<Rightarrow>
    ('a sink_scheme + 'a sink_scheme, drm_call) io" where
  "sink_frame w h i s =
     sys (BoCreate (drv s) w h) (\<lambda>b.
     if rv b \<noteq> 0 then perror ''failed kms_bo_create()'' (ret (Inr s)) else
     let bo = num b 0; s1 = put_frame i (\<lambda>f. f\<lparr>fr_bo := bo\<rparr>) s in
     sys (BoProp bo ''KMS_PITCH'') (\<lambda>p.
     if rv p \<noteq> 0 then perror ''failed kms_bo_get_prop(KMS_PITCH)'' (ret (Inr s1)) else
     let s2 = put_frame i (\<lambda>f. f\<lparr>fr_stride := unum p 0\<rparr>) s1 in
     sys (BoProp bo ''KMS_HANDLE'') (\<lambda>d.
     if rv d \<noteq> 0 then perror ''failed kms_bo_get_prop(KMS_HANDLE)'' (ret (Inr s2)) else
     sys (BoMap bo) (\<lambda>m.
     if rv m \<noteq> 0 then perror ''failed kms_bo_map()'' (ret (Inr s2)) else
     let s3 = put_frame i (\<lambda>f. f\<lparr>fr_map := Some bo, fr_data := bytes m\<rparr>) s2 in
     sys (AddFB (sink_fd s) w h (unum p 0) (unum d 0)) (\<lambda>a.
     if rv a \<noteq> 0 then perror ''failed drmModeAddFB()'' (ret (Inr s3))
     else ret (Inl (put_frame i (\<lambda>f. f\<lparr>fr_fb := unum a 0\<rparr>) s3)))))))"

text \<open>
  The image of \<open>w * h\<close> pixels of four bytes is copied row by row; the offsets are computed in 32 bits, a
  copy outside of the mapping or of the image is an error.
\<close>

definition copy_row :: "uint32 \<Rightarrow> uint32 \<Rightarrow> byte list \<Rightarrow> nat \<Rightarrow> byte list \<Rightarrow> byte list option" where
  "copy_row stride w src y dst =
     (let d = unat (word_of_nat y * stride); o' = unat (4 * word_of_nat y * w); n = unat (4 * w) in
      if d + n \<le> length dst \<and> o' + n \<le> length src
      then Some (take d dst @ take n (drop o' src) @ drop (d + n) dst) else None)"

definition copy_image :: "uint32 \<Rightarrow> uint32 \<Rightarrow> uint32 \<Rightarrow> byte list \<Rightarrow> byte list \<Rightarrow> byte list option" where
  "copy_image stride w h src dst = for_opt (copy_row stride w src) [0..<unat h] dst"

text \<open>The start of \<open>render\<close>: the check of the size and the copying; \<open>None\<close> is \<open>GST_FLOW_ERROR\<close>.\<close>

definition sink_copy :: "byte list \<Rightarrow> 'a sink_scheme \<Rightarrow> ('a sink_scheme option, drm_call) io" where
  "sink_copy buf s =
     (if (of_nat (length buf) :: uint32) < 4 * width s * height s then
        say [S ''Incoming buffer is less than expected. Some negotiation problem occured...''] (ret None)
      else (let f = frames s ! current s in
        case fr_map f of
          None \<Rightarrow> if height s = 0 then ret (Some s) else fault ''frame is NULL''
        | Some m \<Rightarrow> (case copy_image (fr_stride f) (width s) (height s) buf (fr_data f) of
            None \<Rightarrow> fault ''copying outside of the mapping''
          | Some dst \<Rightarrow> sys (PutBytes m dst) (\<lambda>_.
              ret (Some (put_frame (current s) (\<lambda>f. f\<lparr>fr_data := dst\<rparr>) s))))))"

text \<open>
  The end of \<open>stop\<close>: the frames, the driver, the device. The library sets the pointers of what it has
  destroyed to NULL; the mappings, frame buffers and the flag \<open>enabled\<close> are left as they were.
\<close>

definition free_frame :: "nat \<Rightarrow> 'a sink_scheme \<Rightarrow> ('a sink_scheme + 'a sink_scheme, drm_call) io" where
  "free_frame i s =
     (let f = frames s ! i in
      sys (RmFB (sink_fd s) (fr_fb f)) (\<lambda>_.
      if fr_bo f = 0 then fault ''kms_bo_unmap of NULL'' else
      sys (BoUnmap (fr_bo f)) (\<lambda>_.
      sys (BoDestroy (fr_bo f)) (\<lambda>d.
      ret (Inl (put_frame i (\<lambda>f. f\<lparr>fr_bo := if rv d = 0 then 0 else fr_bo f\<rparr>) s))))))"

definition sink_free :: "'a sink_scheme \<Rightarrow> (bool \<times> 'a sink_scheme, drm_call) io" where
  "sink_free s =
     bind (foreach [0..<DRM_FRAMES] free_frame s) (\<lambda>x.
     sys (KmsDestroy (drv (either x))) (\<lambda>_.
     sys (P (Close (sink_fd s))) (\<lambda>_. ret (True, (either x)\<lparr>drv := 0\<rparr>))))"

text \<open>The device is opened; a device that has never been set is the null pointer, which \<open>open\<close> refuses.\<close>

definition open_device :: "'a sink_scheme \<Rightarrow> ('a sink_scheme \<Rightarrow> (bool \<times> 'a sink_scheme, drm_call) io) \<Rightarrow>
    (bool \<times> 'a sink_scheme, drm_call) io" where
  "open_device s k =
     (case device s of
        None \<Rightarrow> perror ''cannot open drm device'' (ret (False, s\<lparr>sink_fd := -1\<rparr>))
      | Some name \<Rightarrow> sys (P (Open (map (\<lambda>b. char_of (unat b)) name))) (\<lambda>f.
          if rv f < 0 then perror ''cannot open drm device'' (ret (False, s\<lparr>sink_fd := rv f\<rparr>))
          else k (s\<lparr>sink_fd := rv f\<rparr>)))"

text \<open>The device property, of which a null pointer is replaced by the default.\<close>

definition DEFAULT_PROP_FILE :: "byte list" where "DEFAULT_PROP_FILE = chars ''/dev/dri/card0''"

definition or_default :: "byte list option \<Rightarrow> byte list \<Rightarrow> byte list option" where
  "or_default v d = (case v of None \<Rightarrow> Some d | Some x \<Rightarrow> Some x)"

section \<open>Sequences of handler calls\<close>

datatype 'p sink_op = SetProp 'p | Start | SetCaps int int | Render "byte list" | Stop

text \<open>
  The framework goes on after an image that could not be shown, and ends (\<open>Inr\<close>) when the sink could not be
  started or set up.
\<close>

fun goes_on :: "'p sink_op \<Rightarrow> bool" where
  "goes_on (Render buf) = True"
| "goes_on op = False"

definition sink_run :: "('p sink_op \<Rightarrow> 's \<Rightarrow> (bool \<times> 's, drm_call) io) \<Rightarrow> 'p sink_op list \<Rightarrow> 's \<Rightarrow>
    ('s + 's, drm_call) io" where
  "sink_run handle ops s = foreach ops (\<lambda>op s.
     bind (handle op s) (\<lambda>x. ret (if fst x \<or> goes_on op then Inl (snd x) else Inr (snd x)))) s"

section \<open>The copying of an image\<close>

text \<open>\<open>dst'\<close> is \<open>dst\<close> with the first \<open>n\<close> rows of the image.\<close>

definition rows_copied :: "nat \<Rightarrow> nat \<Rightarrow> byte list \<Rightarrow> byte list \<Rightarrow> nat \<Rightarrow> byte list \<Rightarrow> bool" where
  "rows_copied pitch row src dst n dst' \<longleftrightarrow> length dst' = length dst \<and>
     (\<forall>i < length dst. dst' ! i =
       (if i div pitch < n \<and> i mod pitch < row then src ! (i div pitch * row + i mod pitch) else dst ! i))"

lemma copy_row_step:
  assumes size: "4 * unat w \<le> unat pitch" "unat pitch * unat (h :: uint32) \<le> length dst" "length dst < 2 ^ 32"
    and src: "4 * unat w * unat h \<le> length src"
    and y: "y < unat h" and l: "rows_copied (unat pitch) (4 * unat w) src dst y dst1"
  shows "\<exists>dst2. copy_row pitch w src y dst1 = Some dst2 \<and>
    rows_copied (unat pitch) (4 * unat w) src dst (Suc y) dst2"
proof -
  let ?p = "unat pitch" and ?n = "4 * unat w"
  have "Suc y * ?p \<le> unat h * ?p" using y by (intro mult_le_mono1) simp
  then have d: "y * ?p + ?p \<le> length dst" using size(2) by (simp add: mult.commute)
  have "Suc y * ?n \<le> unat h * ?n" using y by (intro mult_le_mono1) simp
  then have o': "y * ?n + ?n \<le> length src" using src by (simp add: mult.commute)
  have "y * ?n \<le> y * ?p" using size(1) by (intro mult_le_mono2)
  then have "y * ?n \<le> length dst" "y * ?p \<le> length dst" "?n \<le> length dst"
    using d size(1) by linarith+
  then have small: "y * ?p < 2 ^ 32" "y * ?n < 2 ^ 32" "?n < 2 ^ 32"
    using size(3) by linarith+
  have "unat h < 2 ^ LENGTH(32)" by (rule unsigned_less)
  then have y32: "y < 2 ^ 32" using y by simp
  have n4: "unat (4 * w) = ?n" using small(3) by (simp add: unat_word_ariths)
  have y4: "unat (4 * word_of_nat y * w) = y * ?n"
  proof -
    have "4 * word_of_nat y * w = word_of_nat (y * ?n)" by (simp add: ac_simps)
    then show ?thesis using small(2) by (simp add: unat_of_nat del: of_nat_mult)
  qed
  have yp: "unat (word_of_nat y * pitch) = y * ?p"
    using small(1) y32 by (simp add: unat_word_ariths unat_of_nat)
  let ?dst2 = "take (y * ?p) dst1 @ take ?n (drop (y * ?n) src) @ drop (y * ?p + ?n) dst1"
  have len: "length dst1 = length dst" using l by (simp add: rows_copied_def)
  have "copy_row pitch w src y dst1 = Some ?dst2"
    using d o' size(1) len by (simp add: copy_row_def Let_def n4 y4 yp)
  moreover have "rows_copied ?p ?n src dst (Suc y) ?dst2"
    unfolding rows_copied_def
  proof (intro conjI allI impI)
    show "length ?dst2 = length dst" using d o' size(1) len by simp
    fix i assume i: "i < length dst"
    have old: "dst1 ! i = (if i div ?p < y \<and> i mod ?p < ?n then src ! (i div ?p * ?n + i mod ?p) else dst ! i)"
      using l i by (simp add: rows_copied_def)
    show "?dst2 ! i = (if i div ?p < Suc y \<and> i mod ?p < ?n then src ! (i div ?p * ?n + i mod ?p) else dst ! i)"
    proof (cases "i < y * ?p")
      case True
      then have "i div ?p < y" by (rule less_mult_imp_div_less)
      then show ?thesis using True old i len by (simp add: nth_append)
    next
      case False
      show ?thesis
      proof (cases "i < y * ?p + ?n")
        case True
        then obtain k where k: "i = y * ?p + k" "k < ?n" using False by (metis add_diff_inverse_nat nat_add_left_cancel_less)
        then have "k < ?p" "0 < ?p" using size(1) by linarith+
        then have "i div ?p = y" "i mod ?p = k" using k(1) by simp_all
        then show ?thesis using k i len o' by (simp add: nth_append)
      next
        case out: False
        have "\<not> (i div ?p = y \<and> i mod ?p < ?n)"
        proof
          assume "i div ?p = y \<and> i mod ?p < ?n"
          then show False using out div_mult_mod_eq [of i ?p] by simp
        qed
        then have "(i div ?p < Suc y \<and> i mod ?p < ?n) = (i div ?p < y \<and> i mod ?p < ?n)" by auto
        moreover have "\<not> i - y * ?p < ?n" using out False by linarith
        ultimately show ?thesis using out False old i len d o' size(1) by (simp add: nth_append)
      qed
    qed
  qed
  ultimately show ?thesis by blast
qed

lemma copy_image_rows:
  assumes "4 * unat w \<le> unat pitch" and "unat pitch * unat h \<le> length dst" and "length dst < 2 ^ 32"
    and "4 * unat w * unat h \<le> length src"
  shows "\<exists>dst'. copy_image pitch w h src dst = Some dst' \<and> rows_copied (unat pitch) (4 * unat w) src dst (unat h) dst'"
proof -
  have "\<exists>dst'. for_opt (copy_row pitch w src) [0..<n] dst = Some dst' \<and>
      rows_copied (unat pitch) (4 * unat w) src dst n dst'" if "n \<le> unat h" for n
    using that
  proof (induction n)
    case (Suc n)
    then obtain d1 where d1: "for_opt (copy_row pitch w src) [0..<n] dst = Some d1"
        "rows_copied (unat pitch) (4 * unat w) src dst n d1" by auto
    obtain d2 where "copy_row pitch w src n d1 = Some d2" "rows_copied (unat pitch) (4 * unat w) src dst (Suc n) d2"
      using copy_row_step [OF assms _ d1(2)] Suc.prems by auto
    then show ?case using d1(1) by (simp add: for_opt_append)
  qed (simp add: rows_copied_def)
  then show ?thesis by (simp add: copy_image_def)
qed

text \<open>
  C33: An image that is not wider than the pitch of a mapping, in a mapping of at least \<open>h\<close> lines, is copied
  without a store outside of the mapping and without a wrapped offset: byte \<open>x\<close> of line \<open>y\<close> of the mapping is byte
  \<open>x\<close> of row \<open>y\<close> of the image, for all rows and the four bytes of each pixel; everything else is left alone.
\<close>

theorem sink_copies_image:
  assumes "4 * unat w \<le> unat pitch" and "unat pitch * unat h \<le> length dst" and "length dst < 2 ^ 32"
    and "4 * unat w * unat h \<le> length src"
  shows "\<exists>dst'. copy_image pitch w h src dst = Some dst' \<and> length dst' = length dst \<and>
    (\<forall>i < length dst. dst' ! i =
      (if i div unat pitch < unat h \<and> i mod unat pitch < 4 * unat w
       then src ! (i div unat pitch * (4 * unat w) + i mod unat pitch) else dst ! i))"
  using copy_image_rows [OF assms] by (simp add: rows_copied_def)

theorem sink_copies_image_witness:
  "\<exists>dst'. copy_image 6 1 2 [1, 2, 3, 4, 5, 6, 7, 8] (replicate 13 0) = Some dst' \<and>
    dst' ! 0 = 1 \<and> dst' ! 5 = 0 \<and> dst' ! 6 = 5 \<and> dst' ! 9 = 8 \<and> dst' ! 12 = 0"
  using sink_copies_image [of 1 6 2 "replicate 13 0" "[1, 2, 3, 4, 5, 6, 7, 8]"] by fastforce

end
