(* ===== verification/Gst_Frames.thy ===== *)
theory Gst_Frames
  imports Gst_Sink
begin

unbundle bit_operations_syntax

text \<open>
  What the sinks own and show: the ledger of a sink with its two frames, the buffers that are shown and where, the
  contract of libkms, and for each shared step of the handlers what it does to them. The order of the handler calls is an
  interface, in which the life of a sink is proved once.
\<close>

section \<open>The screen and the buffers in a history\<close>

text \<open>
  Which buffer objects are shown, and where, from the calls: the crtcs and the planes that have been
  given a frame buffer, each with the buffer object to which its present one belongs (0 for none of
  the sink's). A frame buffer belongs to the buffer object that was mapped last before it was added.
\<close>

datatype pipe = OnCrtc uint32 | OnPlane uint32

definition put_on :: "pipe \<Rightarrow> int \<Rightarrow> (pipe \<times> int) list \<Rightarrow> (pipe \<times> int) list" where
  "put_on p bo xs = (p, bo) # filter (\<lambda>x. fst x \<noteq> p) xs"

primrec mapped_last :: "drm_call history \<Rightarrow> int" where
  "mapped_last [] = 0"
| "mapped_last (x # l) = (case x of
     Ev c r \<Rightarrow> (case c of BoMap bo \<Rightarrow> if rv r = 0 then bo else mapped_last l | _ \<Rightarrow> mapped_last l)
   | Out os \<Rightarrow> mapped_last l)"

primrec owner :: "uint32 \<Rightarrow> drm_call history \<Rightarrow> int" where
  "owner f [] = 0"
| "owner f (x # l) = (case x of
     Ev c r \<Rightarrow> (case c of
       AddFB fd w h s d \<Rightarrow> if rv r = 0 \<and> unum r 0 = f then mapped_last l else owner f l
     | _ \<Rightarrow> owner f l)
   | Out os \<Rightarrow> owner f l)"

primrec on_screen :: "drm_call history \<Rightarrow> (pipe \<times> int) list" where
  "on_screen [] = []"
| "on_screen (x # l) = (case x of
     Ev c r \<Rightarrow> (case c of
       SetCrtc fd i f a b con m \<Rightarrow> if rv r = 0 then put_on (OnCrtc i) (owner f l) (on_screen l) else on_screen l
     | SetPlane fd i c f a b w h sw sh \<Rightarrow> if rv r = 0 then put_on (OnPlane i) (owner f l) (on_screen l) else on_screen l
     | _ \<Rightarrow> on_screen l)
   | Out os \<Rightarrow> on_screen l)"

definition is_shown :: "int \<Rightarrow> drm_call history \<Rightarrow> bool" where
  "is_shown bo l \<longleftrightarrow> bo \<in> snd ` set (on_screen l)"

text \<open>The buffers shown elsewhere than on one crtc or plane are none of these two.\<close>

definition only_on :: "pipe \<Rightarrow> int \<Rightarrow> int \<Rightarrow> drm_call history \<Rightarrow> bool" where
  "only_on p a b l \<longleftrightarrow> (\<forall>x \<in> set (on_screen l). fst x \<noteq> p \<longrightarrow> snd x \<noteq> a \<and> snd x \<noteq> b)"

lemma shown_keep [simp]:
  assumes "on_screen (x # l) = on_screen l"
  shows "is_shown bo (x # l) = is_shown bo l" "only_on p a b (x # l) = only_on p a b l"
  using assms by (simp_all add: is_shown_def only_on_def del: on_screen.simps)

text \<open>When one of the two is put on that crtc or plane, the other one is shown nowhere any more.\<close>

lemma put_on_swaps:
  assumes "on_screen l' = put_on p a (on_screen l)" "only_on p a b l" "a \<noteq> b"
  shows "\<not> is_shown b l'" "only_on p b a l'"
  using assms by (auto simp: is_shown_def only_on_def put_on_def)

text \<open>No image is written into a buffer that is shown, on whichever crtc or plane.\<close>

primrec untorn :: "drm_call history \<Rightarrow> bool" where
  "untorn [] = True"
| "untorn (x # l) = (untorn l \<and> (case x of
     Ev c r \<Rightarrow> (case c of PutBytes bo bs \<Rightarrow> \<not> is_shown bo l | _ \<Rightarrow> True) | Out os \<Rightarrow> True))"

section \<open>The buffers of libkms\<close>

primrec bo_dims :: "int \<Rightarrow> drm_call history \<Rightarrow> nat \<times> nat" where
  "bo_dims bo [] = (0, 0)"
| "bo_dims bo (x # l) = (case x of
     Ev c r \<Rightarrow> (case c of
       BoCreate d w h \<Rightarrow> if rv r = 0 \<and> num r 0 = bo then (unat w, unat h) else bo_dims bo l
     | _ \<Rightarrow> bo_dims bo l)
   | Out os \<Rightarrow> bo_dims bo l)"

primrec bo_pitch :: "int \<Rightarrow> drm_call history \<Rightarrow> nat" where
  "bo_pitch bo [] = 0"
| "bo_pitch bo (x # l) = (case x of
     Ev c r \<Rightarrow> (case c of
       BoProp b p \<Rightarrow> if rv r = 0 \<and> b = bo \<and> p = ''KMS_PITCH'' then unat (unum r 0) else bo_pitch bo l
     | _ \<Rightarrow> bo_pitch bo l)
   | Out os \<Rightarrow> bo_pitch bo l)"

text \<open>
  What libkms promises: a buffer object is not NULL, a line of it holds four bytes for each pixel, and its mapping
  has all its lines, in less than 4 GB.
\<close>

definition kms_sound :: "drm_call contract" where
  "kms_sound l c r \<longleftrightarrow> (rv r = 0 \<longrightarrow> (case c of
     BoCreate d w h \<Rightarrow> num r 0 \<noteq> 0
   | BoProp b p \<Rightarrow> p = ''KMS_PITCH'' \<longrightarrow> 4 * fst (bo_dims b l) \<le> unat (unum r 0)
   | BoMap b \<Rightarrow> length (bytes r) = bo_pitch b l * snd (bo_dims b l) \<and> int (length (bytes r)) < 2 ^ 32
   | _ \<Rightarrow> True))"

definition sink_contract :: "drm_call contract" where
  "sink_contract l c r \<longleftrightarrow> new_res l c r \<and> kms_sound l c r"

lemma sink_step:
  assumes K: "obeys K sink_contract" and "own H l" "needs c \<subseteq> H" "Q Wait l"
    and go: "\<And>r. gives c r \<inter> H = {} \<Longrightarrow> own ((H - takes c) \<union> gives c r) (Ev c r # l) \<Longrightarrow>
      kms_sound l c r \<Longrightarrow> wp (k r) Q K N (Ev c r # l)"
  shows "wp (sys c k) Q K N l"
proof (rule wp_sysI [OF K])
  show "Q Wait l" by (rule assms(4))
  fix r assume "sink_contract l c r"
  then show "wp (k r) Q K N (Ev c r # l)"
    using assms(2,3) by (intro go) (auto simp: sink_contract_def new_res_def own_def)
qed

section \<open>The frames\<close>

definition frame_ok :: "nat \<Rightarrow> nat \<Rightarrow> frame \<Rightarrow> bool" where
  "frame_ok w h f \<longleftrightarrow> fr_bo f \<noteq> 0 \<and> fr_map f = Some (fr_bo f) \<and> 4 * w \<le> unat (fr_stride f) \<and>
     unat (fr_stride f) * h \<le> length (fr_data f) \<and> length (fr_data f) < 2 ^ 32"

definition frame_res :: "frame \<Rightarrow> kms_res set" where
  "frame_res f = {RBo (fr_bo f), RMap (fr_bo f), RFb (fr_fb f)}"

text \<open>Properly owned, the screen as it should be.\<close>

definition clean :: "kms_res set \<Rightarrow> drm_call history \<Rightarrow> bool" where
  "clean H l \<longleftrightarrow> own H l \<and> untorn l"

definition tidy :: "drm_call history \<Rightarrow> bool" where
  "tidy l \<longleftrightarrow> proper l \<and> untorn l"

lemma clean_Out [simp]: "clean H (Out os # l) = clean H l" "tidy (Out os # l) = tidy l"
  by (simp_all add: clean_def tidy_def)

lemma clean_tidy: "clean H l \<Longrightarrow> tidy l"
  by (simp add: clean_def tidy_def own_def)

lemma tidy_Ev: "tidy (Ev c r # l) \<longleftrightarrow>
    needs c \<subseteq> held l \<and> tidy l \<and> (case c of PutBytes bo bs \<Rightarrow> \<not> is_shown bo l | _ \<Rightarrow> True)"
  by (auto simp: tidy_def)

lemma put_frame_put [simp]:
  "i < length (frames s) \<Longrightarrow> put_frame i g (put_frame i f s) = put_frame i (\<lambda>x. g (f x)) s"
  by (simp add: put_frame_def)

lemma put_frame_sel [simp]:
  "drv (put_frame i f s) = drv s" "sink_fd (put_frame i f s) = sink_fd s"
  "crtc_id (put_frame i f s) = crtc_id s"
  "length (frames (put_frame i f s)) = length (frames s)"
  by (simp_all add: put_frame_def)

lemma clean_keep:
  "clean H l \<Longrightarrow> RBo bo \<in> H \<Longrightarrow> clean H (Ev (BoProp bo p) r # l)"
  "clean H l \<Longrightarrow> RBo bo \<in> H \<Longrightarrow> rv r \<noteq> 0 \<Longrightarrow> clean H (Ev (BoMap bo) r # l)"
  "clean H l \<Longrightarrow> RFd fd \<in> H \<Longrightarrow> rv r \<noteq> 0 \<Longrightarrow> clean H (Ev (AddFB fd w h a b) r # l)"
  by (simp_all add: clean_def own_def needs_def)

lemma sink_frame_step:
  assumes K: "obeys K sink_contract" and l: "clean H l" "RDrv (drv s) \<in> H" "RFd (sink_fd s) \<in> H"
    and i: "i < length (frames s)"
    and wait: "\<And>l'. tidy l' \<Longrightarrow> Q Wait l'" and fail: "\<And>s' l'. tidy l' \<Longrightarrow> Q (Val (Inr s')) l'"
    and made: "\<And>f l'. frame_res f \<inter> H = {} \<Longrightarrow> clean (frame_res f \<union> H) l' \<Longrightarrow> frame_ok (unat w) (unat h) f \<Longrightarrow>
      on_screen l' = on_screen l \<Longrightarrow> (\<And>g. owner g l' = (if g = fr_fb f then fr_bo f else owner g l)) \<Longrightarrow>
      Q (Val (Inl (put_frame i (\<lambda>_. f) s))) l'"
  shows "wp (sink_frame w h i s) Q K N l"
  unfolding sink_frame_def Let_def
proof (rule sink_step [OF K])
  show "own H l" using l by (simp add: clean_def)
  show "needs (BoCreate (drv s) w h) \<subseteq> H" using l by (simp add: needs_def)
  show "Q Wait l" by (rule wait [OF clean_tidy [OF l(1)]])
  fix b
  let ?bo = "num b 0" and ?l1 = "Ev (BoCreate (drv s) w h) b # l"
  assume b: "gives (BoCreate (drv s) w h) b \<inter> H = {}"
    "own ((H - takes (BoCreate (drv s) w h)) \<union> gives (BoCreate (drv s) w h) b) ?l1"
    "kms_sound l (BoCreate (drv s) w h) b"
  show "wp (if rv b \<noteq> 0 then perror ''failed kms_bo_create()'' (ret (Inr s)) else
     sys (BoProp ?bo ''KMS_PITCH'') (\<lambda>p.
     if rv p \<noteq> 0 then perror ''failed kms_bo_get_prop(KMS_PITCH)''
       (ret (Inr (put_frame i (\<lambda>f. f\<lparr>fr_bo := ?bo\<rparr>) s))) else
     sys (BoProp ?bo ''KMS_HANDLE'') (\<lambda>d.
     if rv d \<noteq> 0 then perror ''failed kms_bo_get_prop(KMS_HANDLE)''
       (ret (Inr (put_frame i (\<lambda>f. f\<lparr>fr_stride := unum p 0\<rparr>) (put_frame i (\<lambda>f. f\<lparr>fr_bo := ?bo\<rparr>) s)))) else
     sys (BoMap ?bo) (\<lambda>m.
     if rv m \<noteq> 0 then perror ''failed kms_bo_map()''
       (ret (Inr (put_frame i (\<lambda>f. f\<lparr>fr_stride := unum p 0\<rparr>) (put_frame i (\<lambda>f. f\<lparr>fr_bo := ?bo\<rparr>) s)))) else
     sys (AddFB (sink_fd s) w h (unum p 0) (unum d 0)) (\<lambda>a.
     if rv a \<noteq> 0 then perror ''failed drmModeAddFB()''
       (ret (Inr (put_frame i (\<lambda>f. f\<lparr>fr_map := Some ?bo, fr_data := bytes m\<rparr>)
         (put_frame i (\<lambda>f. f\<lparr>fr_stride := unum p 0\<rparr>) (put_frame i (\<lambda>f. f\<lparr>fr_bo := ?bo\<rparr>) s)))))
     else ret (Inl (put_frame i (\<lambda>f. f\<lparr>fr_fb := unum a 0\<rparr>)
       (put_frame i (\<lambda>f. f\<lparr>fr_map := Some ?bo, fr_data := bytes m\<rparr>)
         (put_frame i (\<lambda>f. f\<lparr>fr_stride := unum p 0\<rparr>) (put_frame i (\<lambda>f. f\<lparr>fr_bo := ?bo\<rparr>) s))))))))))
     Q K N ?l1"
  proof (cases "rv b = 0")
    case False
    then have "tidy ?l1" using b l by (intro clean_tidy [of H]) (simp add: clean_def)
    then show ?thesis using False by (simp add: wp_simps fail)
  next
    case True
    then have bo: "?bo \<noteq> 0" "RBo ?bo \<notin> H" and own1: "own (insert (RBo ?bo) H) ?l1"
      using b by (simp_all add: kms_sound_def)
    then have c1: "clean (insert (RBo ?bo) H) ?l1" using l by (simp add: clean_def)
    let ?l4 = "\<lambda>p d m. Ev (BoMap ?bo) m # Ev (BoProp ?bo ''KMS_HANDLE'') d # Ev (BoProp ?bo ''KMS_PITCH'') p # ?l1"
    have c4: "clean (insert (RMap ?bo) (insert (RBo ?bo) H)) (?l4 p d m)" "RMap ?bo \<notin> H"
      if "rv m = 0" "sink_contract (Ev (BoProp ?bo ''KMS_HANDLE'') d # Ev (BoProp ?bo ''KMS_PITCH'') p # ?l1) (BoMap ?bo) m"
      for p d m
      using that c1 by (auto simp: clean_def own_def needs_def sink_contract_def new_res_def)
    have fin: "Q (Val (Inl (put_frame i (\<lambda>f. f\<lparr>fr_bo := ?bo, fr_stride := unum p 0, fr_map := Some ?bo,
        fr_data := bytes m, fr_fb := unum a 0\<rparr>) s))) (Ev (AddFB (sink_fd s) w h (unum p 0) (unum d 0)) a # ?l4 p d m)"
      if "rv p = 0" "rv m = 0" "rv a = 0" "sink_contract ?l1 (BoProp ?bo ''KMS_PITCH'') p"
        "sink_contract (Ev (BoProp ?bo ''KMS_HANDLE'') d # Ev (BoProp ?bo ''KMS_PITCH'') p # ?l1) (BoMap ?bo) m"
        "sink_contract (?l4 p d m) (AddFB (sink_fd s) w h (unum p 0) (unum d 0)) a" for p d m a
    proof -
      let ?f = "\<lparr>fr_bo = ?bo, fr_map = Some ?bo, fr_data = bytes m, fr_stride = unum p 0, fr_fb = unum a 0\<rparr>"
      have eq: "put_frame i (\<lambda>f. f\<lparr>fr_bo := ?bo, fr_stride := unum p 0, fr_map := Some ?bo,
          fr_data := bytes m, fr_fb := unum a 0\<rparr>) s = put_frame i (\<lambda>_. ?f) s"
        by (cases "frames s ! i") (simp add: put_frame_def)
      have "RFb (unum a 0) \<notin> H" using that(3,6) c4 [OF that(2,5)]
        by (auto simp: clean_def own_def sink_contract_def new_res_def)
      then show ?thesis
        unfolding eq using that c4 [OF that(2,5)] bo True l(3)
        by (intro made) (auto simp: frame_res_def clean_def own_def needs_def frame_ok_def sink_contract_def kms_sound_def)
    qed
    show ?thesis
      by (intro wp_ifI wp_say [THEN iffD2] wp_ret [THEN iffD2] wp_sysI [OF K])
        (use True c1 c4(1) fin l(3) i in \<open>simp_all add: wait fail tidy_Ev needs_def clean_def own_def tidy_def\<close>)
  qed
qed

lemma sink_frames_step:
  assumes K: "obeys K sink_contract" and l: "clean H l" "RDrv (drv s) \<in> H" "RFd (sink_fd s) \<in> H"
    and two: "length (frames s) = 2"
    and wait: "\<And>l'. tidy l' \<Longrightarrow> Q Wait l'" and fail: "\<And>s' l'. tidy l' \<Longrightarrow> Q (Val (Inr s')) l'"
    and made: "\<And>f0 f1 l'. frame_res f0 \<inter> H = {} \<Longrightarrow> frame_res f1 \<inter> (frame_res f0 \<union> H) = {} \<Longrightarrow>
      clean (frame_res f1 \<union> (frame_res f0 \<union> H)) l' \<Longrightarrow> frame_ok (unat w) (unat h) f0 \<Longrightarrow>
      frame_ok (unat w) (unat h) f1 \<Longrightarrow> on_screen l' = on_screen l \<Longrightarrow> owner (fr_fb f0) l' = fr_bo f0 \<Longrightarrow>
      owner (fr_fb f1) l' = fr_bo f1 \<Longrightarrow> Q (Val (Inl (s\<lparr>frames := [f0, f1]\<rparr>))) l'"
  shows "wp (foreach [0..<DRM_FRAMES] (sink_frame w h) s) Q K N l"
proof -
  have upt: "[0..<DRM_FRAMES] = [0, 1]" by (simp add: upt_rec)
  have one: "wp (foreach [1] (sink_frame w h) s') Q K N l1"
    if f0: "frame_res f0 \<inter> H = {}" "clean (frame_res f0 \<union> H) l1" "frame_ok (unat w) (unat h) f0"
      "on_screen l1 = on_screen l" "owner (fr_fb f0) l1 = fr_bo f0" "s' = put_frame 0 (\<lambda>_. f0) s" for f0 s' l1
    unfolding foreach.simps wp_bind
  proof (rule sink_frame_step [OF K f0(2)])
    fix f1 l2
    assume f1: "frame_res f1 \<inter> (frame_res f0 \<union> H) = {}" "clean (frame_res f1 \<union> (frame_res f0 \<union> H)) l2"
      "frame_ok (unat w) (unat h) f1" "on_screen l2 = on_screen l1"
      "\<And>g. owner g l2 = (if g = fr_fb f1 then fr_bo f1 else owner g l1)"
    have "fr_fb f1 \<noteq> fr_fb f0" using f1(1) by (auto simp: frame_res_def)
    moreover have "put_frame 1 (\<lambda>_. f1) s' = s\<lparr>frames := [f0, f1]\<rparr>"
    proof -
      obtain a b where "frames s = [a, b]" using two by (auto simp: length_Suc_conv numeral_2_eq_2)
      then show ?thesis using f0(6) by (simp add: put_frame_def One_nat_def)
    qed
    ultimately show "seq (\<lambda>y. wp (case y of Inl s' \<Rightarrow> ret (Inl s') | Inr a \<Rightarrow> ret (Inr a)) Q K N) Q
        (Val (Inl (put_frame 1 (\<lambda>_. f1) s'))) l2"
      using made [OF f0(1) f1(1,2) f0(3) f1(3)] f0 f1 by (simp add: wp_ret)
  qed (use l two f0 in \<open>auto simp: wp_ret intro: wait fail\<close>)
  show ?thesis
    unfolding upt foreach.simps(2) [where x = 0] wp_bind
    by (rule sink_frame_step [OF K l]) (use two in \<open>auto simp del: foreach.simps simp: wp_ret intro: wait fail intro!: one\<close>)
qed

section \<open>A sink that has been set up\<close>

text \<open>
  What a sink that has been set up owns, and the state of its screen: it shows its buffers on the crtc
  or plane \<open>p\<close> only, and the one that is written next nowhere.
\<close>

definition live_with :: "pipe \<Rightarrow> frame \<Rightarrow> frame \<Rightarrow> 'a sink_scheme \<Rightarrow> drm_call history \<Rightarrow> bool" where
  "live_with p f g s l \<longleftrightarrow> (current s = 0 \<and> frames s = [f, g] \<or> current s = Suc 0 \<and> frames s = [g, f]) \<and>
     clean (frame_res f \<union> (frame_res g \<union> {RFd (sink_fd s), RDrv (drv s)})) l \<and>
     fr_bo f \<noteq> fr_bo g \<and> fr_fb f \<noteq> fr_fb g \<and>
     frame_ok (unat (width s)) (unat (height s)) f \<and> frame_ok (unat (width s)) (unat (height s)) g \<and>
     owner (fr_fb f) l = fr_bo f \<and> owner (fr_fb g) l = fr_bo g \<and> \<not> is_shown (fr_bo f) l \<and>
     only_on p (fr_bo f) (fr_bo g) l"

definition sink_live :: "pipe \<Rightarrow> 'a sink_scheme \<Rightarrow> drm_call history \<Rightarrow> bool" where
  "sink_live p s l \<longleftrightarrow> (\<exists>f g. live_with p f g s l)"

lemma live_current: "live_with p f g s l \<Longrightarrow> frames s ! current s = f"
  by (auto simp: live_with_def)

lemma sink_live_current:
  assumes "sink_live p s l" "f = frames s ! current s"
  obtains g where "live_with p f g s l"
proof -
  obtain f' g where "live_with p f' g s l" using assms(1) by (auto simp: sink_live_def)
  with live_current [OF this] assms(2) that show thesis by simp
qed

lemma sink_live_tidy: "sink_live p s l \<Longrightarrow> tidy l"
  by (auto simp: sink_live_def live_with_def intro: clean_tidy)

lemma frame_ok_mono: "frame_ok w h f \<Longrightarrow> w' \<le> w \<Longrightarrow> h' \<le> h \<Longrightarrow> frame_ok w' h' f"
  unfolding frame_ok_def by (auto elim: order_trans [rotated] intro: mult_le_mono)

lemma unat_size:
  assumes n: "0 \<le> (n :: int)" "n \<le> uint (d :: uint32)"
  shows "unat (word_of_int n :: uint32) = nat n" "nat n \<le> unat d"
proof -
  have "uint d < 2 ^ LENGTH(32)" by (rule unsigned_less)
  then have "uint (word_of_int n :: uint32) = n" using n by (simp add: uint_word_of_int)
  then have "int (unat (word_of_int n :: uint32)) = n" by simp
  then show "unat (word_of_int n :: uint32) = nat n" by (metis nat_int)
  show "nat n \<le> unat d" using nat_mono [OF n(2)] by simp
qed

text \<open>
  A handler ends well (\<open>True\<close>) with one property of the object and the history, badly with another;
  it does not fail otherwise.
\<close>

definition ends :: "('s \<Rightarrow> drm_call history \<Rightarrow> bool) \<Rightarrow> ('s \<Rightarrow> drm_call history \<Rightarrow> bool) \<Rightarrow>
    (bool \<times> 's) res \<Rightarrow> drm_call history \<Rightarrow> bool" where
  "ends good bad r l \<longleftrightarrow> (case r of Val (b, s) \<Rightarrow> if b then good s l else bad s l | Wait \<Rightarrow> tidy l | _ \<Rightarrow> False)"

lemma ends_simps [simp]:
  "ends good bad (Val (True, s)) l = good s l" "ends good bad (Val (False, s)) l = bad s l" "ends good bad Wait l = tidy l"
  "\<not> ends good bad (Fault e) l" "\<not> ends good bad (Exit n) l"
  by (simp_all add: ends_def)

abbreviation given_up :: "'s \<Rightarrow> drm_call history \<Rightarrow> bool" where
  "given_up \<equiv> \<lambda>s. tidy"

lemma sink_live_Out [simp]: "sink_live p s (Out os # l) = sink_live p s l"
  by (simp add: sink_live_def live_with_def)

lemma sink_live_frame:
  assumes "sink_live p s l" and "f = frames s ! current s"
  shows "frame_ok (unat (width s)) (unat (height s)) f" "\<not> is_shown (fr_bo f) l" "RMap (fr_bo f) \<in> held l"
    "RFd (sink_fd s) \<in> held l"
proof -
  obtain g where "live_with p f g s l" using assms(1,2) by (rule sink_live_current)
  then show "frame_ok (unat (width s)) (unat (height s)) f" "\<not> is_shown (fr_bo f) l" "RMap (fr_bo f) \<in> held l"
    "RFd (sink_fd s) \<in> held l"
    by (simp_all add: live_with_def clean_def own_def frame_res_def)
qed

lemma sink_live_paint:
  assumes "sink_live p s l" and f: "f = frames s ! current s" and "length dst = length (fr_data f)"
  shows "sink_live p (put_frame (current s) (\<lambda>f. f\<lparr>fr_data := dst\<rparr>) s) (Ev (PutBytes (fr_bo f) dst) r # l)"
proof -
  obtain g where "live_with p f g s l" using assms(1,2) by (rule sink_live_current)
  note l = this [unfolded live_with_def]
  let ?f = "f\<lparr>fr_data := dst\<rparr>" and ?s = "put_frame (current s) (\<lambda>f. f\<lparr>fr_data := dst\<rparr>) s"
  have same: "frame_res ?f = frame_res f" "frame_ok w h ?f = frame_ok w h f" for w h
    using assms(3) by (simp_all add: frame_res_def frame_ok_def)
  have fs: "current s = 0 \<and> frames ?s = [?f, g] \<or> current s = Suc 0 \<and> frames ?s = [g, ?f]"
    using l by (auto simp: put_frame_def)
  have sel: "width ?s = width s" "height ?s = height s" "current ?s = current s" by (simp_all add: put_frame_def)
  have "RMap (fr_bo f) \<in> frame_res f" by (simp add: frame_res_def)
  then have "clean (frame_res f \<union> (frame_res g \<union> {RFd (sink_fd s), RDrv (drv s)})) (Ev (PutBytes (fr_bo f) dst) r # l)"
    using l by (simp add: clean_def own_def needs_def)
  then have "live_with p ?f g ?s (Ev (PutBytes (fr_bo f) dst) r # l)"
    unfolding live_with_def sel same using fs l by simp
  then show ?thesis by (auto simp: sink_live_def)
qed

text \<open>A call that puts a frame buffer on the screen.\<close>

fun shows_fb :: "pipe \<Rightarrow> int \<Rightarrow> uint32 \<Rightarrow> drm_call \<Rightarrow> bool" where
  "shows_fb p d fb (SetCrtc fd c f x y con m) \<longleftrightarrow> fd = d \<and> f = fb \<and> p = OnCrtc c"
| "shows_fb p d fb (SetPlane fd i c f x y w h sw sh) \<longleftrightarrow> fd = d \<and> f = fb \<and> p = OnPlane i"
| "shows_fb p d fb c \<longleftrightarrow> False"

lemma sink_live_flip:
  assumes "sink_live p s l" and "shows_fb p (sink_fd s) (fr_fb (frames s ! current s)) c"
  shows "rv r = 0 \<Longrightarrow> sink_live p (s\<lparr>current := current s XOR 1\<rparr>) (Ev c r # l)"
    "rv r \<noteq> 0 \<Longrightarrow> sink_live p s (Ev c r # l)"
proof -
  obtain f g where fg: "live_with p f g s l" using assms(1) by (auto simp: sink_live_def)
  then have c: "shows_fb p (sink_fd s) (fr_fb f) c" using assms(2) live_current [OF fg] by simp
  let ?D = "{RFd (sink_fd s), RDrv (drv s)}"
  have l: "clean (frame_res f \<union> (frame_res g \<union> ?D)) (Ev c r # l)" "owner u (Ev c r # l) = owner u l"
    "rv r = 0 \<Longrightarrow> on_screen (Ev c r # l) = put_on p (fr_bo f) (on_screen l)" "rv r \<noteq> 0 \<Longrightarrow> on_screen (Ev c r # l) = on_screen l" for u
    using c fg by (cases c; simp add: live_with_def clean_def own_def needs_def)+
  have "\<not> is_shown (fr_bo g) (Ev c r # l)" "only_on p (fr_bo g) (fr_bo f) (Ev c r # l)" if "rv r = 0"
    using put_on_swaps [OF l(3) [OF that]] fg by (auto simp: live_with_def)
  then have "rv r = 0 \<Longrightarrow> live_with p g f (s\<lparr>current := current s XOR 1\<rparr>) (Ev c r # l)"
    using fg l [unfolded Un_left_commute [of "frame_res f"]] unfolding live_with_def
    by (auto simp: One_nat_def simp del: owner.simps on_screen.simps)
  then show "rv r = 0 \<Longrightarrow> sink_live p (s\<lparr>current := current s XOR 1\<rparr>) (Ev c r # l)"
    by (auto simp: sink_live_def)
  have "rv r \<noteq> 0 \<Longrightarrow> live_with p f g s (Ev c r # l)"
    using fg l unfolding live_with_def by (simp del: owner.simps on_screen.simps)
  then show "rv r \<noteq> 0 \<Longrightarrow> sink_live p s (Ev c r # l)"
    by (auto simp: sink_live_def)
qed

lemma sink_live_dirty: "sink_live p s l \<Longrightarrow> sink_live p s (Ev (DirtyFB (sink_fd s) fb) r # l)"
proof -
  have "live_with p f g s l \<Longrightarrow> live_with p f g s (Ev (DirtyFB (sink_fd s) fb) r # l)" for f g
    by (simp add: live_with_def clean_def own_def needs_def)
  then show "sink_live p s l \<Longrightarrow> sink_live p s (Ev (DirtyFB (sink_fd s) fb) r # l)"
    unfolding sink_live_def by blast
qed

text \<open>Two new frames, of an image that fits.\<close>

lemma made_live:
  assumes "frame_res a \<inter> E = {}" "frame_res b \<inter> (frame_res a \<union> E) = {}" "clean (frame_res b \<union> (frame_res a \<union> E)) l"
    "frame_ok w h a" "frame_ok w h b" "on_screen l = []" "owner (fr_fb a) l = fr_bo a" "owner (fr_fb b) l = fr_bo b"
    and "E = {RFd (sink_fd s), RDrv (drv s)}" "frames s = [a, b]" "current s = 0" "unat (width s) \<le> w" "unat (height s) \<le> h"
  shows "sink_live p s l"
proof -
  note ok = assms(4,5) [THEN frame_ok_mono, OF assms(12,13)]
  have "fr_bo a \<noteq> 0" using assms(4) by (simp add: frame_ok_def)
  then have "live_with p a b s l"
    using assms ok unfolding live_with_def Un_left_commute [of "frame_res b"]
    by (auto simp: frame_res_def is_shown_def only_on_def)
  then show ?thesis by (auto simp: sink_live_def)
qed

text \<open>The copying succeeds when the size of the image has passed the check.\<close>

lemma image_fits:
  assumes f: "frame_ok (unat w) (unat h) f"
    and big: "\<not> (of_nat (length buf) :: uint32) < 4 * w * h"
  obtains dst where "copy_image (fr_stride f) w h buf (fr_data f) = Some dst" "length dst = length (fr_data f)"
proof -
  have p: "4 * unat w \<le> unat (fr_stride f)" "unat (fr_stride f) * unat h \<le> length (fr_data f)"
    "length (fr_data f) < 2 ^ 32" using f by (simp_all add: frame_ok_def)
  have "4 * unat w * unat h \<le> unat (fr_stride f) * unat h" using p(1) by (rule mult_le_mono1)
  then have small: "4 * unat w * unat h < 2 ^ 32" using p by linarith
  have "4 * w * h = word_of_nat (4 * unat w * unat h)" by (simp add: ac_simps)
  then have n: "unat (4 * w * h) = 4 * unat w * unat h" using small by (simp add: unat_of_nat del: of_nat_mult)
  have "unat (4 * w * h) \<le> unat (of_nat (length buf) :: uint32)" using big by (simp add: word_le_nat_alt not_less)
  also have "\<dots> \<le> length buf" by (simp add: unat_of_nat)
  finally have "4 * unat w * unat h \<le> length buf" unfolding n .
  from copy_image_rows [OF p this] show thesis by (auto simp: rows_copied_def intro: that)
qed

lemma put_frame_same [simp]:
  "enabled (put_frame i f s) = enabled s" "current (put_frame i f s) = current s"
  by (simp_all add: put_frame_def)

lemma sink_copy_step:
  assumes l: "sink_live p s l" and wait: "\<And>l. tidy l \<Longrightarrow> Q Wait l"
    and small: "\<And>os. Q (Val None) (Out os # l)"
    and copied: "\<And>dst r. sink_live p (put_frame (current s) (\<lambda>f. f\<lparr>fr_data := dst\<rparr>) s)
      (Ev (PutBytes (fr_bo (frames s ! current s)) dst) r # l) \<Longrightarrow>
      Q (Val (Some (put_frame (current s) (\<lambda>f. f\<lparr>fr_data := dst\<rparr>) s)))
        (Ev (PutBytes (fr_bo (frames s ! current s)) dst) r # l)"
  shows "wp (sink_copy buf s) Q K N l"
proof (cases "(of_nat (length buf) :: uint32) < 4 * width s * height s")
  case False
  let ?f = "frames s ! current s"
  note f = sink_live_frame [OF l refl]
  obtain dst where dst: "copy_image (fr_stride ?f) (width s) (height s) buf (fr_data ?f) = Some dst"
      "length dst = length (fr_data ?f)"
    by (rule image_fits [OF f(1) False])
  have "fr_map ?f = Some (fr_bo ?f)" using f(1) by (simp add: frame_ok_def)
  then show ?thesis
    using dst sink_live_tidy [OF l] False
    by (simp add: sink_copy_def Let_def wp_simps wait copied sink_live_paint [OF l refl] split: option.split)
qed (simp add: sink_copy_def wp_simps small)

lemma free_frame_step:
  assumes K: "obeys K sink_contract" and l: "clean (frame_res f \<union> H) l" "RFd (sink_fd s) \<in> H"
    and disj: "frame_res f \<inter> H = {}" and f: "f = frames s ! i" "fr_bo f \<noteq> 0"
    and wait: "\<And>l. tidy l \<Longrightarrow> Q Wait l"
    and k: "\<And>g l'. clean H l' \<Longrightarrow> Q (Val (Inl (put_frame i g s))) l'"
  shows "wp (free_frame i s) Q K N l"
proof -
  let ?l1 = "\<lambda>a. Ev (RmFB (sink_fd s) (fr_fb f)) a # l"
  let ?l2 = "\<lambda>a b. Ev (BoUnmap (fr_bo f)) b # ?l1 a" and ?l3 = "\<lambda>a b c. Ev (BoDestroy (fr_bo f)) c # Ev (BoUnmap (fr_bo f)) b # ?l1 a"
  have c: "tidy l" "tidy (?l1 a)" "tidy (?l2 a b)" for a b
    using l by (auto simp: tidy_Ev clean_def own_def frame_res_def needs_def tidy_def)
  have "held (?l3 a b c) = H" for a b c
    using l(1) disj by (auto simp: clean_def own_def frame_res_def)
  then have "clean H (?l3 a b c)" for a b c
    using c(3) l by (auto simp: clean_def own_def frame_res_def needs_def tidy_def)
  then show ?thesis
    unfolding free_frame_def Let_def
    using f(2) c by (simp add: f(1) [symmetric] wp_simps wait k split: option.split)
qed

text \<open>What there is to free at the end.\<close>

definition to_free :: "'a sink_scheme \<Rightarrow> drm_call history \<Rightarrow> bool" where
  "to_free s l \<longleftrightarrow> (\<exists>a b. frames s = [a, b] \<and> frame_res a \<inter> frame_res b = {} \<and> fr_bo a \<noteq> 0 \<and> fr_bo b \<noteq> 0 \<and>
     clean (frame_res a \<union> (frame_res b \<union> {RFd (sink_fd s), RDrv (drv s)})) l)"

lemma to_free_keep:
  assumes "sink_live p s l"
  shows "to_free s l" "shows_fb q (sink_fd s) fb c \<Longrightarrow> to_free s (Ev c r # l)"
proof -
  obtain f g where l: "live_with p f g s l" using assms by (auto simp: sink_live_def)
  then have d: "frame_res f \<inter> frame_res g = {}" "frame_res g \<inter> frame_res f = {}" and n: "fr_bo f \<noteq> 0" "fr_bo g \<noteq> 0"
    by (auto simp: live_with_def frame_res_def frame_ok_def)
  have c: "clean (frame_res f \<union> (frame_res g \<union> {RFd (sink_fd s), RDrv (drv s)})) l"
    using l by (simp add: live_with_def)
  from l consider "frames s = [f, g]" | "frames s = [g, f]" by (auto simp: live_with_def)
  then show all: "to_free s l"
    unfolding to_free_def by cases (use c c [unfolded Un_left_commute [of "frame_res f"]] d n in blast)+
  assume c: "shows_fb q (sink_fd s) fb c"
  have "clean H (Ev c r # l)" if "clean H l" "RFd (sink_fd s) \<in> H" for H
    using that c by (cases c) (simp_all add: clean_def own_def needs_def)
  then show "to_free s (Ev c r # l)"
    using all unfolding to_free_def by (metis UnI2 insertI1)
qed

lemma to_free_Out [simp]: "to_free s (Out os # l) = to_free s l"
  by (simp add: to_free_def)

lemma to_free_tidy: "to_free s l \<Longrightarrow> tidy l"
  by (auto simp: to_free_def intro: clean_tidy)

lemma sink_free_step:
  assumes K: "obeys K sink_contract" and l: "to_free s l"
  shows "wp (sink_free s) (ends (\<lambda>s. clean {}) given_up) K N l"
proof -
  let ?D = "{RFd (sink_fd s), RDrv (drv s)}" and ?P = "ends (\<lambda>s. clean {}) given_up"
    and ?k = "\<lambda>x :: 'a sink_scheme + 'a sink_scheme. sys (KmsDestroy (drv (either x)))
      (\<lambda>_. sys (P (Close (sink_fd s))) (\<lambda>_. ret (True, (either x)\<lparr>drv := 0\<rparr>)))"
  obtain a b where s: "frames s = [a, b]" "clean (frame_res a \<union> (frame_res b \<union> ?D)) l"
      "fr_bo a \<noteq> 0" "fr_bo b \<noteq> 0" "frame_res a \<inter> frame_res b = {}"
    using l unfolding to_free_def by metis
  have upt: "[0..<DRM_FRAMES] = [0, 1]" by (simp add: upt_rec)
  have end_ok: "wp (?k (Inl s')) ?P K N l'" if "clean ?D l'" "drv s' = drv s" for s' l'
  proof -
    have "tidy l'" "tidy (Ev (KmsDestroy (drv s)) x # l')"
      "clean {} (Ev (P (Close (sink_fd s))) y # Ev (KmsDestroy (drv s)) x # l')" for x y
      using that by (auto simp: clean_def own_def needs_def tidy_def)
    then show ?thesis using that(2) by (simp add: wp_simps split: option.split)
  qed
  show ?thesis
    unfolding sink_free_def upt foreach.simps wp_bind
  proof (rule free_frame_step [OF K s(2)])
    fix h l' assume c: "clean (frame_res b \<union> ?D) l'"
    let ?s = "put_frame 0 h s"
    have b: "b = frames ?s ! 1" using s(1) by (simp add: put_frame_def One_nat_def)
    show "seq (\<lambda>y. wp (case y of Inl s' \<Rightarrow> bind (free_frame 1 s') (\<lambda>y. case y of Inl s' \<Rightarrow> ret (Inl s') | Inr a \<Rightarrow> ret (Inr a))
         | Inr a \<Rightarrow> ret (Inr a)) (seq (\<lambda>x. wp (?k x) ?P K N) ?P) K N)
       (seq (\<lambda>x. wp (?k x) ?P K N) ?P) (Val (Inl ?s)) l'"
      unfolding seq_simps sum.case wp_bind
      by (rule free_frame_step [OF K c _ _ b])
        (use s end_ok in \<open>auto simp: frame_res_def wp_ret\<close>)
  qed (use s in \<open>auto simp: frame_res_def\<close>)
qed

lemma looks_clean: "RFd fd \<in> H \<Longrightarrow> closed_under (look_call fd) (\<lambda>l. clean H l \<and> on_screen l = [])"
proof -
  assume fd: "RFd fd \<in> H"
  have "clean H (Ev c r # l) \<and> on_screen (Ev c r # l) = []"
    if "look_call fd c" "clean H l \<and> on_screen l = []" for c r l
    using that fd by (cases c) (simp_all add: clean_def own_def needs_def)
  then show ?thesis by (simp add: closed_under_def)
qed

section \<open>The life of a sink\<close>

text \<open>
  What may come between the set-up and the stop: images, formats, and the properties that keep the
  crtc or plane on which the sink shows its images.
\<close>

fun plays :: "('p \<Rightarrow> bool) \<Rightarrow> 'p sink_op \<Rightarrow> bool" where
  "plays keeps Start = False"
| "plays keeps Stop = False"
| "plays keeps (SetProp q) = keeps q"
| "plays keeps op = True"

definition sink_done :: "('s + 's) res \<Rightarrow> drm_call history \<Rightarrow> bool" where
  "sink_done r l \<longleftrightarrow> tidy l \<and> (case r of Val (Inl s) \<Rightarrow> held l = {} | Val (Inr s) \<Rightarrow> True | Wait \<Rightarrow> True | _ \<Rightarrow> False)"

lemma sink_run_step:
  assumes op: "wp (handle op s) (ends good bad) K N l"
    and good: "\<And>s l. good s l \<Longrightarrow> wp (sink_run handle ops s) sink_done K N l"
    and bad: "\<And>s l. bad s l \<Longrightarrow> if goes_on op then wp (sink_run handle ops s) sink_done K N l else tidy l"
  shows "wp (sink_run handle (op # ops) s) sink_done K N l"
  unfolding sink_run_def foreach.simps wp_bind
proof (rule wp_mono [OF op])
  fix x l assume x: "ends good bad x l"
  have "wp (sink_run handle ops s) sink_done K N l" if "x = Val (b, s)" "b \<or> goes_on op" for b s
    using x that good [of s l] bad [of s l] by (cases b) auto
  moreover have "tidy l" if "x = Val (b, s)" "\<not> (b \<or> goes_on op)" for b s
    using x that bad [of s l] by auto
  ultimately show "seq (\<lambda>x. wp (ret (if fst x \<or> goes_on op then Inl (snd x) else Inr (snd x)))
      (seq (\<lambda>y. wp (case y of Inl s' \<Rightarrow> foreach ops (\<lambda>op s. bind (handle op s)
         (\<lambda>x. ret (if fst x \<or> goes_on op then Inl (snd x) else Inr (snd x)))) s'
         | Inr a \<Rightarrow> ret (Inr a)) sink_done K N) sink_done) K N)
      (seq (\<lambda>y. wp (case y of Inl s' \<Rightarrow> foreach ops (\<lambda>op s. bind (handle op s)
         (\<lambda>x. ret (if fst x \<or> goes_on op then Inl (snd x) else Inr (snd x)))) s'
         | Inr a \<Rightarrow> ret (Inr a)) sink_done K N) sink_done) x l"
    using x by (cases x) (auto simp: wp_ret sink_run_def sink_done_def)
qed

locale sink_protocol =
  fixes handle :: "'p sink_op \<Rightarrow> 's \<Rightarrow> (bool \<times> 's, drm_call) io"
    and set_prop :: "'p \<Rightarrow> 's \<Rightarrow> 's"
    and keeps :: "'p \<Rightarrow> bool"
    and named :: "'s \<Rightarrow> bool"
    and started :: "'s \<Rightarrow> drm_call history \<Rightarrow> bool"
    and live :: "'s \<Rightarrow> drm_call history \<Rightarrow> bool"
  assumes sets: "handle (SetProp p) s = ret (True, set_prop p s)"
    and starts: "obeys K sink_contract \<Longrightarrow> named s \<Longrightarrow> clean {} l \<Longrightarrow> on_screen l = [] \<Longrightarrow>
      wp (handle Start s) (ends started given_up) K N l"
    and sets_up: "obeys K sink_contract \<Longrightarrow> started s l \<Longrightarrow> 0 \<le> w \<Longrightarrow> 0 \<le> h \<Longrightarrow>
      wp (handle (SetCaps w h) s) (ends live given_up) K N l"
    and plays_on: "live s l \<Longrightarrow> plays keeps op \<Longrightarrow> wp (handle op s) (ends live live) K N l"
    and stops: "obeys K sink_contract \<Longrightarrow> live s l \<Longrightarrow> wp (handle Stop s) (ends (\<lambda>s. clean {}) given_up) K N l"
    and live_tidy: "live s l \<Longrightarrow> tidy l"
begin

lemma run_plays:
  assumes K: "obeys K sink_contract" and "list_all (plays keeps) qs" "live s l"
  shows "wp (sink_run handle (qs @ [Stop]) s) sink_done K N l"
  using assms(2,3)
proof (induction qs arbitrary: s l)
  case Nil
  show ?case
    unfolding append_Nil
    by (rule sink_run_step, rule stops [OF K Nil(2)])
      (auto simp: sink_run_def wp_ret sink_done_def clean_def tidy_def own_def)
next
  case (Cons op qs)
  then show ?case
    by (auto intro!: sink_run_step [where op = op, OF plays_on] Cons.IH live_tidy)
qed

lemma run_sets:
  assumes k: "wp (sink_run handle ops (fold set_prop ps s)) sink_done K N l" and l: "tidy l"
  shows "wp (sink_run handle (map SetProp ps @ ops) s) sink_done K N l"
  using k
proof (induction ps arbitrary: s)
  case (Cons p ps)
  show ?case
    unfolding list.map append_Cons
    by (rule sink_run_step [where good = "\<lambda>s' l'. s' = set_prop p s \<and> l' = l" and bad = "\<lambda>s l. False"])
      (use Cons l in \<open>auto simp: sets wp_ret\<close>)
qed simp

lemma life:
  assumes K: "obeys K sink_contract" and "named (fold set_prop ps s)" and "0 \<le> w" and "0 \<le> h" and "list_all (plays keeps) qs"
  shows "wp (sink_run handle (map SetProp ps @ Start # SetCaps w h # qs @ [Stop]) s) (\<lambda>r l.
    proper l \<and> untorn l \<and> (\<forall>e. r \<noteq> Fault e) \<and> (\<forall>s. r = Val (Inl s) \<longrightarrow> held l = {})) K N []"
proof (rule wp_mono [OF run_sets])
  have caps: "wp (sink_run handle (SetCaps w h # qs @ [Stop]) s) sink_done K N l" if "started s l" for s l
    by (rule sink_run_step [where good = live and bad = given_up])
      (use sets_up [OF K that assms(3,4)] run_plays [OF K assms(5)] in simp_all)
  show "wp (sink_run handle (Start # SetCaps w h # qs @ [Stop]) (fold set_prop ps s)) sink_done K N []"
    by (rule sink_run_step [where good = started and bad = given_up])
      (use starts [OF K assms(2), of "[]"] caps in \<open>simp_all add: clean_def\<close>)
qed (auto simp: sink_done_def tidy_def)

end

text \<open>The answers at the set-up of a frame of two lines, with a pitch of six bytes, for the witnesses.\<close>

definition sink_bo :: "int \<Rightarrow> resp list" where
  "sink_bo n = [with_nums 0 [n], with_nums 0 [6], with_nums 0 [n + 1], (ok 0)\<lparr>bytes := replicate 12 0\<rparr>, with_nums 0 [n + 2]]"

end
