(* ===== verification/Gst_Drm.thy ===== *)
theory Gst_Drm
  imports Gst_Frames
begin

unbundle bit_operations_syntax

text \<open>
  \<open>gst/gst-drm/drmsink.c\<close>: the sink that shows the images on a crtc. Its handlers, what they own, and the life of the
  sink by the shared interface.
\<close>

section \<open>drmsink.c\<close>

record drm_sink = sink +
  saved :: "resp option"
  mode :: "mode_info option"
  mode_name :: "byte list option"
  conn_id :: uint32

definition new_drm_sink :: drm_sink where
  "new_drm_sink = \<lparr>enabled = False, drv = 0, frames = [no_frame, no_frame], current = 0, device = None,
     width = 0, height = 0, crtc_id = 0, sink_fd = 0, saved = None, mode = None, mode_name = None, conn_id = 0\<rparr>"



datatype sink_prop =
  PROP_CONN int | PROP_CRTC int | PROP_MODE "byte list option" | PROP_FILE "byte list option"

definition DEFAULT_PROP_MODE :: "byte list" where "DEFAULT_PROP_MODE = chars ''preferred''"

fun set_property :: "sink_prop \<Rightarrow> drm_sink \<Rightarrow> drm_sink" where
  "set_property (PROP_CONN n) s = s\<lparr>conn_id := word_of_int n\<rparr>"
| "set_property (PROP_CRTC n) s = s\<lparr>crtc_id := word_of_int n\<rparr>"
| "set_property (PROP_MODE v) s = s\<lparr>mode_name := or_default v DEFAULT_PROP_MODE\<rparr>"
| "set_property (PROP_FILE v) s = s\<lparr>device := or_default v DEFAULT_PROP_FILE\<rparr>"

datatype prop_id = ID_CONN | ID_CRTC | ID_MODE | ID_FILE

fun get_property :: "prop_id \<Rightarrow> drm_sink \<Rightarrow> sink_prop" where
  "get_property ID_CONN s = PROP_CONN (sint (conn_id s))"
| "get_property ID_CRTC s = PROP_CRTC (sint (crtc_id s))"
| "get_property ID_MODE s = PROP_MODE (mode_name s)"
| "get_property ID_FILE s = PROP_FILE (device s)"

text \<open>The second half of the start: the mode is chosen, the driver created.\<close>

definition start_mode :: "resp \<Rightarrow> resp \<Rightarrow> drm_sink \<Rightarrow> (bool \<times> drm_sink, drm_call) io" where
  "start_mode res con s = (case mode_name s of
     None \<Rightarrow> if conn_modes con = [] then
         say [S ''No selected mode''] (sys (FreeConnector (rv con)) (\<lambda>_. ret (False, s)))
       else fault ''strcmp with NULL''
   | Some name \<Rightarrow> (case mode_index (conn_modes con) name of
       None \<Rightarrow> say [S ''No selected mode''] (sys (FreeConnector (rv con)) (\<lambda>_. ret (False, s)))
     | Some i \<Rightarrow>
         sys (FreeResources (rv res)) (\<lambda>_.
         sys (KmsCreate (sink_fd s)) (\<lambda>d.
         if rv d \<noteq> 0 then perror ''failed kms_create()'' (ret (False, s\<lparr>mode := Some (mode_at con i)\<rparr>))
         else ret (True, s\<lparr>mode := Some (mode_at con i), drv := num d 0\<rparr>)))))"

definition sink_start :: "drm_sink \<Rightarrow> (bool \<times> drm_sink, drm_call) io" where
  "sink_start s0 = open_device s0 (\<lambda>s.
     sys (GetResources (sink_fd s)) (\<lambda>res.
     if rv res = 0 then say [S ''drmModeGetResources failed''] (ret (False, s)) else
     bind (foreach (res_connectors res) (conn_loop (sink_fd s) (\<lambda>r. conn_id_of r = conn_id s)) ()) (\<lambda>x. case x of
       Inl u \<Rightarrow> say [S ''No proper connector found''] (sys (FreeResources (rv res)) (\<lambda>_. ret (False, s)))
     | Inr con \<Rightarrow> start_mode res con s)))"

text \<open>The size comes from the negotiated format.\<close>

definition sink_setup :: "int \<Rightarrow> int \<Rightarrow> drm_sink \<Rightarrow> (bool \<times> drm_sink, drm_call) io" where
  "sink_setup w h s = (case mode s of
     None \<Rightarrow> fault ''mode is NULL''
   | Some m \<Rightarrow>
       if w > uint (hdisplay m) \<or> h > uint (vdisplay m) then
         say [S ''incoming image is far too big: '', D w, S ''x'', D h] (ret (False, s))
       else
         bind (foreach [0..<DRM_FRAMES] (sink_frame (hdisplay m) (vdisplay m))
           (s\<lparr>width := word_of_int w, height := word_of_int h\<rparr>)) (\<lambda>x. case x of
           Inr s' \<Rightarrow> ret (False, s')
         | Inl s' \<Rightarrow>
             sys (GetCrtc (sink_fd s') (crtc_id s')) (\<lambda>c.
             if rv c = 0 then perror ''failed drmModeGetCrtc(current)'' (ret (False, s'\<lparr>saved := None\<rparr>))
             else ret (True, s'\<lparr>saved := Some c, enabled := True, current := 0\<rparr>))))"

definition sink_setcaps :: "int \<Rightarrow> int \<Rightarrow> drm_sink \<Rightarrow> (bool \<times> drm_sink, drm_call) io" where
  "sink_setcaps w h s = (if enabled s then ret (True, s) else sink_setup w h s)"

definition sink_render :: "byte list \<Rightarrow> drm_sink \<Rightarrow> (bool \<times> drm_sink, drm_call) io" where
  "sink_render buf s =
     bind (sink_copy buf s) (\<lambda>x. case x of
       None \<Rightarrow> ret (False, s)
     | Some s' \<Rightarrow>
         let fb = fr_fb (frames s' ! current s') in
         case mode s' of None \<Rightarrow> fault ''mode is NULL'' | Some m \<Rightarrow>
         sys (SetCrtc (sink_fd s') (crtc_id s') fb 0 0 (conn_id s') (mode_info.mode_name m)) (\<lambda>r.
         if rv r \<noteq> 0 then perror ''failed drmModeSetCrtc(new)'' (ret (False, s')) else
         sys (DirtyFB (sink_fd s') fb) (\<lambda>_.
         ret (True, s'\<lparr>current := current s' XOR 1\<rparr>))))"

definition sink_stop :: "drm_sink \<Rightarrow> (bool \<times> drm_sink, drm_call) io" where
  "sink_stop s = (case saved s of
     None \<Rightarrow> fault ''saved_crtc is NULL''
   | Some c \<Rightarrow>
       if crtc_valid c then
         sys (SetCrtc (sink_fd s) (unum c 0) (unum c 1) (unum c 2) (unum c 3) (conn_id s) (crtc_mode_name c)) (\<lambda>r.
         if rv r \<noteq> 0 then perror ''failed drmModeSetCrtc(restore original)'' (sink_free s) else sink_free s)
       else sink_free s)"

definition sink_handle :: "sink_prop sink_op \<Rightarrow> drm_sink \<Rightarrow> (bool \<times> drm_sink, drm_call) io" where
  "sink_handle op s = (case op of
     SetProp p \<Rightarrow> ret (True, set_property p s)
   | Start \<Rightarrow> sink_start s
   | SetCaps w h \<Rightarrow> sink_setcaps w h s
   | Render buf \<Rightarrow> sink_render buf s
   | Stop \<Rightarrow> sink_stop s)"

section \<open>The handlers\<close>

definition sink_started :: "drm_sink \<Rightarrow> drm_call history \<Rightarrow> bool" where
  "sink_started s l \<longleftrightarrow> clean {RFd (sink_fd s), RDrv (drv s)} l \<and> on_screen l = [] \<and> length (frames s) = 2 \<and>
     mode s \<noteq> None \<and> \<not> enabled s"

definition sink_shows :: "drm_sink \<Rightarrow> drm_call history \<Rightarrow> bool" where
  "sink_shows s l \<longleftrightarrow> sink_live (OnCrtc (crtc_id s)) s l \<and> enabled s \<and> mode s \<noteq> None \<and> saved s \<noteq> None"

lemma sink_setup_step:
  assumes K: "obeys K sink_contract" and l: "sink_started s l" and wh: "0 \<le> w" "0 \<le> h"
  shows "wp (sink_setcaps w h s) (ends sink_shows given_up) K N l"
proof -
  obtain m where m: "mode s = Some m" using l by (auto simp: sink_started_def)
  have off: "\<not> enabled s" and tl: "tidy l" using l by (auto simp: sink_started_def intro: clean_tidy)
  let ?s = "s\<lparr>width := word_of_int w, height := word_of_int h\<rparr>"
  show ?thesis
  proof (cases "w > uint (hdisplay m) \<or> h > uint (vdisplay m)")
    case True
    then show ?thesis using off m tl by (simp add: sink_setcaps_def sink_setup_def wp_simps)
  next
    case False
    then have size: "unat (width ?s) \<le> unat (hdisplay m)" "unat (height ?s) \<le> unat (vdisplay m)"
      using unat_size [of w "hdisplay m"] unat_size [of h "vdisplay m"] wh by auto
    show ?thesis
      unfolding sink_setcaps_def if_not_P [OF off] sink_setup_def m option.case if_not_P [OF False] wp_bind
    proof (rule sink_frames_step [OF K, where H = "{RFd (sink_fd s), RDrv (drv s)}"])
      fix f0 f1 l'
      let ?H = "frame_res f1 \<union> (frame_res f0 \<union> {RFd (sink_fd s), RDrv (drv s)})"
      assume made: "frame_res f1 \<inter> (frame_res f0 \<union> {RFd (sink_fd s), RDrv (drv s)}) = {}" "clean ?H l'"
        "frame_ok (unat (hdisplay m)) (unat (vdisplay m)) f0" "frame_ok (unat (hdisplay m)) (unat (vdisplay m)) f1"
        "on_screen l' = on_screen l" "owner (fr_fb f0) l' = fr_bo f0" "owner (fr_fb f1) l' = fr_bo f1"
        "frame_res f0 \<inter> {RFd (sink_fd s), RDrv (drv s)} = {}"
      have keep: "clean ?H (Ev (GetCrtc (sink_fd s) (crtc_id s)) c # l')" for c
        using made(2) by (simp add: clean_def own_def needs_def)
      have live: "sink_shows (?s\<lparr>frames := [f0, f1], saved := Some c, enabled := True, current := 0\<rparr>)
          (Ev (GetCrtc (sink_fd s) (crtc_id s)) c # l')" for c
        unfolding sink_shows_def using made keep l size m
        by (intro conjI made_live [where E = "{RFd (sink_fd s), RDrv (drv s)}"]) (auto simp: sink_started_def)
      show "seq (\<lambda>x. wp (case x of Inr s' \<Rightarrow> ret (False, s')
         | Inl s' \<Rightarrow>
             sys (GetCrtc (sink_fd s') (crtc_id s')) (\<lambda>c.
             if rv c = 0 then perror ''failed drmModeGetCrtc(current)'' (ret (False, s'\<lparr>saved := None\<rparr>))
             else ret (True, s'\<lparr>saved := Some c, enabled := True, current := 0\<rparr>)))
         (ends sink_shows given_up) K N) (ends sink_shows given_up) (Val (Inl (?s\<lparr>frames := [f0, f1]\<rparr>))) l'"
        using live clean_tidy [OF keep] clean_tidy [OF made(2)] by (simp add: wp_simps split: option.split)
    qed (use l in \<open>auto simp: sink_started_def wp_simps\<close>)
  qed
qed

lemma put_frame_drm [simp]: "mode (put_frame i f s) = mode s" "saved (put_frame i f s) = saved s"
  by (simp_all add: put_frame_def)

lemma sink_render_step:
  assumes l: "sink_shows s l"
  shows "wp (sink_render buf s) (ends sink_shows sink_shows) K N l"
proof -
  obtain m where m: "mode s = Some m" and sv: "enabled s" "saved s \<noteq> None" and live: "sink_live (OnCrtc (crtc_id s)) s l"
    using l by (auto simp: sink_shows_def)
  show ?thesis
    unfolding sink_render_def wp_bind
  proof (rule sink_copy_step [OF live])
    fix dst r
    let ?s = "put_frame (current s) (\<lambda>f. f\<lparr>fr_data := dst\<rparr>) s"
      and ?l = "Ev (PutBytes (fr_bo (frames s ! current s)) dst) r # l"
    assume p: "sink_live (OnCrtc (crtc_id s)) ?s ?l"
    note flip = sink_live_flip [OF p]
    have shown: "sink_live (OnCrtc (crtc_id s)) (?s\<lparr>current := current ?s XOR 1\<rparr>) (Ev (DirtyFB (sink_fd ?s) fb) q # Ev c r # ?l)"
      if "rv r = 0" "shows_fb (OnCrtc (crtc_id s)) (sink_fd ?s) (fr_fb (frames ?s ! current ?s)) c" for c r q fb
      using sink_live_dirty [OF flip(1) [OF that(2,1)]] by simp
    show "seq (\<lambda>x. wp (case x of None \<Rightarrow> ret (False, s)
       | Some s' \<Rightarrow>
         let fb = fr_fb (frames s' ! current s') in
         case mode s' of None \<Rightarrow> fault ''mode is NULL'' | Some m \<Rightarrow>
         sys (SetCrtc (sink_fd s') (crtc_id s') fb 0 0 (conn_id s') (mode_info.mode_name m)) (\<lambda>r.
         if rv r \<noteq> 0 then perror ''failed drmModeSetCrtc(new)'' (ret (False, s')) else
         sys (DirtyFB (sink_fd s') fb) (\<lambda>_.
         ret (True, s'\<lparr>current := current s' XOR 1\<rparr>)))) (ends sink_shows sink_shows) K N)
       (ends sink_shows sink_shows) (Val (Some ?s)) ?l"
      using flip shown sink_live_tidy [OF flip(1)] sink_live_tidy [OF p] m sv
      by (auto simp: Let_def wp_simps sink_shows_def split: option.split)
  qed (use l live in \<open>simp_all add: wp_ret sink_shows_def\<close>)
qed

lemma sink_stop_step:
  assumes K: "obeys K sink_contract" and l: "sink_shows s l"
  shows "wp (sink_stop s) (ends (\<lambda>s. clean {}) given_up) K N l"
proof -
  obtain c where c: "saved s = Some c" and live: "sink_live (OnCrtc (crtc_id s)) s l" using l by (auto simp: sink_shows_def)
  note free = to_free_keep [OF live, THEN sink_free_step [OF K, where N = N]]
    to_free_keep(2) [OF live, of "OnCrtc (unum c 0)"]
  show ?thesis
    unfolding sink_stop_def c option.case
    by (intro wp_ifI wp_say [THEN iffD2] wp_sysI [OF K])
      (use free sink_live_tidy [OF live] in \<open>simp_all add: sink_free_step [OF K]\<close>)
qed

text \<open>A sink that can be started: its device and its mode have been named.\<close>

definition sink_named :: "drm_sink \<Rightarrow> bool" where
  "sink_named s \<longleftrightarrow> mode_name s \<noteq> None \<and> length (frames s) = 2 \<and> \<not> enabled s"

lemma sink_start_step:
  assumes K: "obeys K sink_contract" and l: "clean {} l" "on_screen l = []" and s: "sink_named s"
  shows "wp (sink_start s) (ends sink_started given_up) K N l"
proof (cases "device s")
  case None
  then show ?thesis using clean_tidy [OF l(1)] by (simp add: sink_start_def open_device_def wp_simps)
next
  case (Some dev)
  obtain name where name: "mode_name s = Some name" using s by (auto simp: sink_named_def)
  have looked: "wp (bind (foreach ids (conn_loop fd p) ()) f) (ends sink_started given_up) K N l1"
    if "clean {RFd fd} l1 \<and> on_screen l1 = []"
      "\<And>x l. clean {RFd fd} l \<Longrightarrow> on_screen l = [] \<Longrightarrow> wp (f x) (ends sink_started given_up) K N l"
    for fd ids p f l1
    by (rule wp_bind_steady [OF conn_loop_looks [OF looks_clean that(1)]]) (use that(2) in \<open>auto intro: clean_tidy\<close>)
  have made: "wp (sys (KmsCreate fd) (\<lambda>d. if rv d \<noteq> 0 then perror ''failed kms_create()'' (ret (False, s1))
      else ret (True, s1\<lparr>drv := num d 0\<rparr>))) (ends sink_started given_up) K N l1"
    if l1: "clean {RFd fd} l1" "on_screen l1 = []" and s1: "s1 = s\<lparr>sink_fd := fd, mode := Some m\<rparr>" for fd s1 l1 m
  proof (rule sink_step [OF K, where H = "{RFd fd}"])
    fix d assume d: "own (({RFd fd} - takes (KmsCreate fd)) \<union> gives (KmsCreate fd) d) (Ev (KmsCreate fd) d # l1)"
    then have "tidy (Ev (KmsCreate fd) d # l1)" using l1 by (simp add: tidy_def clean_def own_def)
    moreover have "rv d = 0 \<Longrightarrow> sink_started (s1\<lparr>drv := num d 0\<rparr>) (Ev (KmsCreate fd) d # l1)"
      using d l1 s s1 by (simp add: sink_started_def sink_named_def clean_def insert_commute)
    ultimately show "wp (if rv d \<noteq> 0 then perror ''failed kms_create()'' (ret (False, s1))
        else ret (True, s1\<lparr>drv := num d 0\<rparr>)) (ends sink_started given_up) K N (Ev (KmsCreate fd) d # l1)"
      by (simp add: wp_simps)
  qed (use l1 in \<open>auto simp: clean_def needs_def tidy_def own_def\<close>)
  have opened: "clean {RFd (rv f)} (Ev (P (Open dev')) f # l)" "tidy (Ev (P (Open dev')) f # l)"
    "tidy (Ev (GetResources (rv f)) r # Ev (P (Open dev')) f # l)" if "0 \<le> rv f" for dev' f r
    using l that by (simp_all add: clean_def own_def needs_def tidy_def)
  have bad: "tidy (Ev (P (Open dev')) f # l)" if "rv f < 0" for dev' f
    using l that by (simp add: clean_def own_def needs_def tidy_def)
  have kept: "clean H (Ev (GetResources fd) r # l1)" if "clean H l1" "RFd fd \<in> H" for H fd r l1
    using that by (simp add: clean_def own_def needs_def)
  have freed: "clean H (Ev (FreeConnector p) q # l1)" "clean H (Ev (FreeResources p) q # l1)" if "clean H l1" for H q p l1
    using that by (simp_all add: clean_def own_def needs_def)
  have start: "wp (case x of Inl u \<Rightarrow> say os (sys (FreeResources p) (\<lambda>_. ret (False, s1)))
      | Inr con \<Rightarrow> start_mode res con s1) (ends sink_started given_up) K N l1"
    if l1: "clean {RFd fd} l1" "on_screen l1 = []" and s1: "s1 = s\<lparr>sink_fd := fd\<rparr>" for x fd s1 l1 p os res
  proof -
    have k: "tidy (Ev (FreeResources q) r # l1)" "tidy (Ev (FreeResources p) r # Out u # l1)"
      "tidy (Ev (FreeConnector q) r # Out u # l1)" for p r q u
      using l1(1) by (auto intro: clean_tidy [OF freed(2)] clean_tidy [OF freed(1)])
    have m: "wp (sys (KmsCreate fd) (\<lambda>d. if rv d \<noteq> 0 then perror ''failed kms_create()'' (ret (False, s1\<lparr>mode := Some m\<rparr>))
      else ret (True, s1\<lparr>mode := Some m, drv := num d 0\<rparr>))) (ends sink_started given_up) K N (Ev (FreeResources q) r # l1)" for q r m
      using made [OF freed(2) [OF l1(1)], of q r "s1\<lparr>mode := Some m\<rparr>" m] l1(2) s1 by simp
    have chosen: "wp (start_mode res con s1) (ends sink_started given_up) K N l1" for con
    proof (cases "mode_index (conn_modes con) name")
      case (Some i)
      have n: "mode_name s1 = Some name" "sink_fd s1 = fd" using name s1 by simp_all
      show ?thesis
        unfolding start_mode_def n option.case Some
        by (rule wp_sysI [OF K]) (use m clean_tidy [OF l1(1)] in simp_all)
    qed (use k clean_tidy [OF l1(1)] name s1 in \<open>auto simp: start_mode_def wp_simps split: option.split\<close>)
    show ?thesis
      using chosen k clean_tidy [OF l1(1)] by (auto simp: wp_say wp_sys wp_ret split: option.split sum.split)
  qed
  show ?thesis
    unfolding sink_start_def open_device_def Some option.case Let_def
    by (intro wp_ifI wp_say [THEN iffD2] wp_sysI [OF K] looked start)
      (use opened bad kept l clean_tidy in \<open>auto simp: wp_ret\<close>)
qed

text \<open>The properties that leave the crtc alone.\<close>

fun keeps_crtc :: "sink_prop \<Rightarrow> bool" where
  "keeps_crtc (PROP_CRTC n) = False"
| "keeps_crtc p = True"

lemma set_property_shows: "sink_shows s l \<Longrightarrow> keeps_crtc p \<Longrightarrow> sink_shows (set_property p s) l"
  by (cases p) (simp_all add: sink_shows_def sink_live_def live_with_def)

interpretation drm: sink_protocol sink_handle set_property keeps_crtc sink_named sink_started sink_shows
proof
  fix K and l :: "drm_call history" and s and op :: "sink_prop sink_op" and N :: nat
  assume l: "sink_shows s l" and "plays keeps_crtc op"
  from this(2) show "wp (sink_handle op s) (ends sink_shows sink_shows) K N l"
  proof (cases op)
    case (SetCaps w h)
    then show ?thesis using l by (simp add: sink_handle_def sink_setcaps_def sink_shows_def wp_ret)
  qed (use l in \<open>simp_all add: sink_handle_def wp_ret set_property_shows sink_render_step\<close>)
qed (auto simp: sink_handle_def sink_start_step sink_setup_step sink_stop_step sink_shows_def intro: sink_live_tidy)

lemma set_property_named:
  "sink_named (fold set_property ps s) \<longleftrightarrow> length (frames s) = 2 \<and> \<not> enabled s \<and>
     (mode_name s \<noteq> None \<or> (\<exists>m. PROP_MODE m \<in> set ps))"
proof (induction ps arbitrary: s)
  case (Cons p ps)
  show ?case
    by (cases p) (auto simp: Cons.IH or_default_def split: option.split)
qed (auto simp: sink_named_def)

text \<open>
  C31: a complete life of a new crtc sink. Its properties are set, among them the mode; it is started and
  set up for an image, then plays any images and formats while any properties but the crtc change,
  and is stopped. Whatever the device answers, as long as libkms keeps its promises
  (\<open>sink_contract\<close>): the sink never uses a null pointer and never stores outside of a mapping; each
  descriptor, driver, buffer object, mapping and frame buffer is used only while it is owned; an image
  is never written into a buffer that is shown on any crtc or plane; and when the life has come to its
  end by the stop, none of these things is owned any more. A start or set-up that fails ends the life
  before, and nothing is claimed of what it leaves; and the structures of libdrm (connector,
  resource list, saved crtc) are not counted, some of them the code never frees.
\<close>

theorem sink_lifecycle:
  assumes "obeys K sink_contract" and "PROP_MODE m \<in> set ps" and "0 \<le> w" and "0 \<le> h" and "list_all (plays keeps_crtc) qs"
  shows "wp (sink_run sink_handle (map SetProp ps @ Start # SetCaps w h # qs @ [Stop]) new_drm_sink) (\<lambda>r l.
    proper l \<and> untorn l \<and> (\<forall>e. r \<noteq> Fault e) \<and> (\<forall>s. r = Val (Inl s) \<longrightarrow> held l = {})) K N []"
proof (rule drm.life [OF assms(1) _ assms(3-5)])
  show "sink_named (fold set_property ps new_drm_sink)"
    using assms(2) by (auto simp: set_property_named new_drm_sink_def)
qed

text \<open>Two images of one column and two lines, on a display of that size with a pitch of six bytes.\<close>

definition sink_script :: "resp list" where
  "sink_script = [ok 4, (ok 10)\<lparr>tables := [[7]]\<rparr>, (with_nums 11 [7, 1, 0])\<lparr>tables := [[], [1], [2]], texts := [[65]]\<rparr>, ok 0,
     with_nums 0 [77]] @ sink_bo 20 @ sink_bo 30 @
     [with_nums 12 [9, 3, 0, 0, 0, 0, 1], ok 0, ok 0, ok 0, ok 0, ok 0, ok 0, ok 0, ok 0, ok 0, ok 0, ok 0, ok 0, ok 0, ok 0, ok 0]"

definition sink_kernel :: "drm_call kernel" where
  "sink_kernel = guarded sink_contract (play sink_script)"

lemmas sink_obeys = obeys_guarded [of sink_contract "play sink_script", folded sink_kernel_def]

theorem sink_lifecycle_witness:
  "wp (sink_run sink_handle (map SetProp [PROP_MODE (Some [65]), PROP_FILE None, PROP_CONN 7] @
       Start # SetCaps 1 2 # [Render [1, 2, 3, 4, 5, 6, 7, 8], Render [8, 7, 6, 5, 4, 3, 2, 1]] @ [Stop]) new_drm_sink)
     (\<lambda>r l. proper l \<and> untorn l \<and> (\<forall>e. r \<noteq> Fault e) \<and> (\<forall>s. r = Val (Inl s) \<longrightarrow> held l = {})) sink_kernel 0 [] \<and>
   wp (sink_run sink_handle (map SetProp [PROP_MODE (Some [65]), PROP_FILE None, PROP_CONN 7] @
       Start # SetCaps 1 2 # [Render [1, 2, 3, 4, 5, 6, 7, 8], Render [8, 7, 6, 5, 4, 3, 2, 1]] @ [Stop]) new_drm_sink)
     (\<lambda>r l. (case r of Val (Inl s) \<Rightarrow> True | _ \<Rightarrow> False) \<and> calls l = length sink_script \<and>
        on_screen (drop 9 l) = [(OnCrtc 0, 30)] \<and> on_screen (drop 12 l) = [(OnCrtc 0, 20)]) sink_kernel 0 []"
  by (rule conjI [OF sink_lifecycle [where m = "Some [65]", OF sink_obeys]]) (simp, simp, simp, simp, code_simp)

text \<open>
  The condition on the properties is needed: when the crtc is changed while images are shown, the old
  crtc keeps its buffer (as far as the calls tell; a kernel may turn the crtc off when it takes the
  connector from it), and the image after the next one is written into it.
\<close>

lemma sink_crtc_change_tears:
  "wp (sink_run sink_handle (map SetProp [PROP_MODE (Some [65]), PROP_FILE None, PROP_CONN 7] @
       Start # SetCaps 1 2 # [Render [1, 2, 3, 4, 5, 6, 7, 8], SetProp (PROP_CRTC 9), Render [8, 7, 6, 5, 4, 3, 2, 1],
         Render [1, 1, 1, 1, 1, 1, 1, 1]] @ [Stop]) new_drm_sink)
     (\<lambda>r l. \<not> untorn l) sink_kernel 0 []"
  by code_simp

end
