(* ===== verification/Gst_Plane.thy ===== *)
theory Gst_Plane
  imports Gst_Frames
begin

unbundle bit_operations_syntax

text \<open>
  \<open>gst/gst-drm/drmplanesink.c\<close>: the sink that shows the images on a plane, at a position of its own. Its handlers, what
  they own, and the life of the sink by the interface that it shares with the other one.
\<close>

section \<open>drmplanesink.c\<close>

record plane_sink = sink +
  posx :: uint32
  posy :: uint32
  plane_id :: uint32

definition new_plane_sink :: plane_sink where
  "new_plane_sink = \<lparr>enabled = False, drv = 0, frames = [no_frame, no_frame], current = 0, device = None,
     width = 0, height = 0, crtc_id = 0, sink_fd = 0, posx = 0, posy = 0, plane_id = 0\<rparr>"

datatype plane_prop =
  PLANE_PLANE int | PLANE_CRTC int | PLANE_POSX int | PLANE_POSY int | PLANE_FILE "byte list option"

fun plane_set_property :: "plane_prop \<Rightarrow> plane_sink \<Rightarrow> plane_sink" where
  "plane_set_property (PLANE_PLANE n) s = s\<lparr>plane_id := word_of_int n\<rparr>"
| "plane_set_property (PLANE_CRTC n) s = s\<lparr>crtc_id := word_of_int n\<rparr>"
| "plane_set_property (PLANE_POSX n) s = s\<lparr>posx := word_of_int n\<rparr>"
| "plane_set_property (PLANE_POSY n) s = s\<lparr>posy := word_of_int n\<rparr>"
| "plane_set_property (PLANE_FILE v) s = s\<lparr>device := or_default v DEFAULT_PROP_FILE\<rparr>"

datatype plane_prop_id = IDP_PLANE | IDP_CRTC | IDP_POSX | IDP_POSY | IDP_FILE

fun plane_get_property :: "plane_prop_id \<Rightarrow> plane_sink \<Rightarrow> plane_prop" where
  "plane_get_property IDP_PLANE s = PLANE_PLANE (sint (plane_id s))"
| "plane_get_property IDP_CRTC s = PLANE_CRTC (sint (crtc_id s))"
| "plane_get_property IDP_POSX s = PLANE_POSX (sint (posx s))"
| "plane_get_property IDP_POSY s = PLANE_POSY (sint (posy s))"
| "plane_get_property IDP_FILE s = PLANE_FILE (device s)"

definition plane_start :: "plane_sink \<Rightarrow> (bool \<times> plane_sink, drm_call) io" where
  "plane_start s0 = open_device s0 (\<lambda>s.
     find_plane (sink_fd s) (plane_id s) (\<lambda>n. ret (False, s)) (
     sys (KmsCreate (sink_fd s)) (\<lambda>d.
     if rv d \<noteq> 0 then perror ''failed kms_create()'' (ret (False, s))
     else ret (True, s\<lparr>drv := num d 0\<rparr>))))"

definition plane_setup :: "int \<Rightarrow> int \<Rightarrow> plane_sink \<Rightarrow> (bool \<times> plane_sink, drm_call) io" where
  "plane_setup w h s =
     bind (foreach [0..<DRM_FRAMES] (sink_frame (word_of_int w) (word_of_int h))
       (s\<lparr>width := word_of_int w, height := word_of_int h\<rparr>)) (\<lambda>x. case x of
       Inr s' \<Rightarrow> ret (False, s')
     | Inl s' \<Rightarrow> ret (True, s'\<lparr>enabled := True, current := 0\<rparr>))"

definition plane_setcaps :: "int \<Rightarrow> int \<Rightarrow> plane_sink \<Rightarrow> (bool \<times> plane_sink, drm_call) io" where
  "plane_setcaps w h s = (if enabled s then ret (True, s) else plane_setup w h s)"

definition plane_render :: "byte list \<Rightarrow> plane_sink \<Rightarrow> (bool \<times> plane_sink, drm_call) io" where
  "plane_render buf s =
     bind (sink_copy buf s) (\<lambda>x. case x of
       None \<Rightarrow> ret (False, s)
     | Some s' \<Rightarrow>
         sys (SetPlane (sink_fd s') (plane_id s') (crtc_id s') (fr_fb (frames s' ! current s')) (posx s') (posy s')
           (width s') (height s') (push_bit 16 (width s')) (push_bit 16 (height s'))) (\<lambda>r.
         if rv r \<noteq> 0 then say [S ''cannot set plane''] (ret (False, s'))
         else ret (True, s'\<lparr>current := current s' XOR 1\<rparr>)))"

definition plane_stop :: "plane_sink \<Rightarrow> (bool \<times> plane_sink, drm_call) io" where
  "plane_stop s = sys (SetPlane (sink_fd s) (plane_id s) 0 0 0 0 0 0 0 0) (\<lambda>_. sink_free s)"

definition plane_handle :: "plane_prop sink_op \<Rightarrow> plane_sink \<Rightarrow> (bool \<times> plane_sink, drm_call) io" where
  "plane_handle op s = (case op of
     SetProp p \<Rightarrow> ret (True, plane_set_property p s)
   | Start \<Rightarrow> plane_start s
   | SetCaps w h \<Rightarrow> plane_setcaps w h s
   | Render buf \<Rightarrow> plane_render buf s
   | Stop \<Rightarrow> plane_stop s)"

section \<open>The handlers\<close>

definition plane_named :: "plane_sink \<Rightarrow> bool" where
  "plane_named s \<longleftrightarrow> length (frames s) = 2 \<and> \<not> enabled s"

definition plane_started :: "plane_sink \<Rightarrow> drm_call history \<Rightarrow> bool" where
  "plane_started s l \<longleftrightarrow> clean {RFd (sink_fd s), RDrv (drv s)} l \<and> on_screen l = [] \<and> plane_named s"

definition plane_shows :: "plane_sink \<Rightarrow> drm_call history \<Rightarrow> bool" where
  "plane_shows s l \<longleftrightarrow> sink_live (OnPlane (plane_id s)) s l \<and> enabled s"

lemma plane_named_set: "plane_named (fold plane_set_property ps s) = plane_named s"
proof (induction ps arbitrary: s)
  case (Cons p ps)
  show ?case by (cases p) (simp_all add: Cons.IH, simp_all add: plane_named_def)
qed simp

text \<open>The properties that leave the plane alone.\<close>

fun keeps_plane :: "plane_prop \<Rightarrow> bool" where
  "keeps_plane (PLANE_PLANE n) = False"
| "keeps_plane p = True"

lemma plane_set_property_shows: "plane_shows s l \<Longrightarrow> keeps_plane p \<Longrightarrow> plane_shows (plane_set_property p s) l"
  by (cases p) (simp_all add: plane_shows_def sink_live_def live_with_def)

lemma put_frame_plane [simp]: "plane_id (put_frame i f s) = plane_id s"
  by (simp add: put_frame_def)

lemma plane_setup_step:
  assumes K: "obeys K sink_contract" and l: "plane_started s l"
  shows "wp (plane_setcaps w h s) (ends plane_shows given_up) K N l"
proof -
  let ?s = "s\<lparr>width := word_of_int w, height := word_of_int h\<rparr>"
  have off: "\<not> enabled s" using l by (simp add: plane_started_def plane_named_def)
  have live: "plane_shows (?s\<lparr>frames := [f0, f1], enabled := True, current := 0\<rparr>) l'"
    if "frame_res f0 \<inter> {RFd (sink_fd s), RDrv (drv s)} = {}"
      "frame_res f1 \<inter> (frame_res f0 \<union> {RFd (sink_fd s), RDrv (drv s)}) = {}"
      "clean (frame_res f1 \<union> (frame_res f0 \<union> {RFd (sink_fd s), RDrv (drv s)})) l'"
      "frame_ok (unat (word_of_int w :: uint32)) (unat (word_of_int h :: uint32)) f0"
      "frame_ok (unat (word_of_int w :: uint32)) (unat (word_of_int h :: uint32)) f1"
      "on_screen l' = on_screen l" "owner (fr_fb f0) l' = fr_bo f0" "owner (fr_fb f1) l' = fr_bo f1" for f0 f1 l'
    unfolding plane_shows_def using that l
    by (intro conjI made_live [OF that(1-5)]) (simp_all add: plane_started_def)
  show ?thesis
    unfolding plane_setcaps_def if_not_P [OF off] plane_setup_def wp_bind
    by (rule sink_frames_step [OF K, where H = "{RFd (sink_fd s), RDrv (drv s)}"])
      (use l live in \<open>simp_all add: wp_ret plane_started_def plane_named_def\<close>)
qed

lemma plane_flip:
  assumes "plane_shows s l"
  shows "wp (sys (SetPlane (sink_fd s) (plane_id s) c (fr_fb (frames s ! current s)) x y w h sw sh) (\<lambda>r.
      if rv r \<noteq> 0 then say os (ret (False, s)) else ret (True, s\<lparr>current := current s XOR 1\<rparr>)))
    (ends plane_shows plane_shows) K N l"
proof -
  have l: "sink_live (OnPlane (plane_id s)) s l" "enabled s" using assms by (auto simp: plane_shows_def)
  show ?thesis
    using l sink_live_tidy [OF l(1)] sink_live_flip [OF l(1)]
    by (simp add: wp_simps plane_shows_def split: option.split)
qed

lemma plane_render_step:
  assumes l: "plane_shows s l"
  shows "wp (plane_render buf s) (ends plane_shows plane_shows) K N l"
proof -
  have live: "sink_live (OnPlane (plane_id s)) s l" "enabled s" using l by (auto simp: plane_shows_def)
  show ?thesis
    unfolding plane_render_def wp_bind
    by (rule sink_copy_step [OF live(1)], simp, use l in \<open>simp add: wp_ret plane_shows_def\<close>)
      (use live(2) in \<open>simp only: seq_simps option.case, intro plane_flip, simp add: plane_shows_def\<close>)
qed

lemma plane_stop_step:
  assumes K: "obeys K sink_contract" and l: "plane_shows s l"
  shows "wp (plane_stop s) (ends (\<lambda>s. clean {}) given_up) K N l"
  unfolding plane_stop_def
  by (rule wp_sysI [OF K])
    (use l in \<open>auto simp: plane_shows_def intro: sink_live_tidy intro!: sink_free_step [OF K] to_free_keep(2) [where fb = 0]\<close>)

lemma find_plane_looks:
  assumes fd: "RFd fd \<in> H" and l: "clean H l" "on_screen l = []" and wait: "\<And>l. tidy l \<Longrightarrow> Q Wait l"
    and out: "\<And>n l. tidy l \<Longrightarrow> wp (out n) Q K N l"
    and k: "\<And>l. clean H l \<Longrightarrow> on_screen l = [] \<Longrightarrow> wp k Q K N l"
  shows "wp (find_plane fd pid out k) Q K N l"
proof -
  let ?J = "\<lambda>l. clean H l \<and> on_screen l = []"
  have looks: "?J (Ev (GetPlaneResources fd) r # l)" "?J (Ev (GetPlane fd i) r # l)" "?J (Ev (FreePlane 0) r # l)"
    if "?J l" for i r l
    using that fd by (simp_all add: clean_def own_def needs_def)
  have first: "tidy (Ev (GetPlaneResources fd) r # l)" for r
    using looks(1) l by (blast intro: clean_tidy)
  have loop: "wp (foreach ids (plane_loop fd pid) ()) (steady ?J) K N l" if "?J l" for ids l
  proof (rule wp_foreach [where I = "\<lambda>u. ?J"])
    fix i u and l :: "drm_call history" assume "?J l"
    then show "wp (plane_loop fd pid i u) (seq (for_post (\<lambda>u. ?J) (steady ?J)) (steady ?J)) K N l"
      using looks by (simp add: plane_loop_def wp_simps split: option.split)
  qed (use that in simp_all)
  have rest: "wp (bind (foreach ids (plane_loop fd pid) ()) (\<lambda>x. case x of
      Inl u \<Rightarrow> say os (out n) | Inr p \<Rightarrow> k)) Q K N l" if "?J l" for ids os n l
    by (rule wp_bind_steady [OF loop [OF that]])
      (auto intro!: out k wait intro: clean_tidy simp: wp_say split: sum.split)
  show ?thesis
    unfolding find_plane_def
    by (intro wp_ifI wp_say [THEN iffD2] wp_stepI)
      (use l looks first in \<open>auto intro!: out rest wait intro: clean_tidy\<close>)
qed

lemma plane_start_step:
  assumes K: "obeys K sink_contract" and l: "clean {} l" "on_screen l = []" and s: "plane_named s"
  shows "wp (plane_start s) (ends plane_started given_up) K N l"
proof -
  have made: "wp (sys (KmsCreate fd) (\<lambda>d. if rv d \<noteq> 0 then perror ''failed kms_create()'' (ret (False, s1))
      else ret (True, s1\<lparr>drv := num d 0\<rparr>))) (ends plane_started given_up) K N l1"
    if l1: "clean {RFd fd} l1" "on_screen l1 = []" and s1: "s1 = s\<lparr>sink_fd := fd\<rparr>" for fd s1 l1
  proof (rule sink_step [OF K, where H = "{RFd fd}"])
    fix d assume d: "own (({RFd fd} - takes (KmsCreate fd)) \<union> gives (KmsCreate fd) d) (Ev (KmsCreate fd) d # l1)"
    then have "tidy (Ev (KmsCreate fd) d # l1)" using l1 by (simp add: tidy_def clean_def own_def)
    moreover have "rv d = 0 \<Longrightarrow> plane_started (s1\<lparr>drv := num d 0\<rparr>) (Ev (KmsCreate fd) d # l1)"
      using d l1 s s1 by (simp add: plane_started_def plane_named_def clean_def insert_commute)
    ultimately show "wp (if rv d \<noteq> 0 then perror ''failed kms_create()'' (ret (False, s1))
        else ret (True, s1\<lparr>drv := num d 0\<rparr>)) (ends plane_started given_up) K N (Ev (KmsCreate fd) d # l1)"
      by (simp add: wp_simps)
  qed (use l1 in \<open>auto simp: clean_def needs_def tidy_def own_def\<close>)
  have opened: "0 \<le> rv f \<Longrightarrow> clean {RFd (rv f)} (Ev (P (Open dev)) f # l)"
    "rv f < 0 \<Longrightarrow> tidy (Ev (P (Open dev)) f # l)" for dev f
    using l by (simp_all add: clean_def own_def needs_def tidy_def)
  show ?thesis
  proof (cases "device s")
    case None
    then show ?thesis using clean_tidy [OF l(1)] by (simp add: plane_start_def open_device_def wp_simps)
  next
    case (Some dev)
    show ?thesis
      unfolding plane_start_def open_device_def Some option.case
    proof (rule wp_sysI [OF K])
      fix f
      show "wp (if rv f < 0 then perror ''cannot open drm device'' (ret (False, s\<lparr>sink_fd := rv f\<rparr>))
        else find_plane (sink_fd (s\<lparr>sink_fd := rv f\<rparr>)) (plane_id (s\<lparr>sink_fd := rv f\<rparr>)) (\<lambda>n. ret (False, s\<lparr>sink_fd := rv f\<rparr>))
          (sys (KmsCreate (sink_fd (s\<lparr>sink_fd := rv f\<rparr>))) (\<lambda>d.
           if rv d \<noteq> 0 then perror ''failed kms_create()'' (ret (False, s\<lparr>sink_fd := rv f\<rparr>))
           else ret (True, s\<lparr>sink_fd := rv f, drv := num d 0\<rparr>))))
        (ends plane_started given_up) K N (Ev (P (Open (map (\<lambda>b. char_of (unat b)) dev))) f # l)"
        by (intro wp_ifI wp_say [THEN iffD2] find_plane_looks [where H = "{RFd (rv f)}"])
          (use opened l(2) made [of "rv f" _ "s\<lparr>sink_fd := rv f\<rparr>"] in \<open>simp_all add: wp_ret\<close>)
    qed (use clean_tidy [OF l(1)] in simp)
  qed
qed

lemma plane_keeps:
  assumes "plane_shows s l" "plays keeps_plane op"
  shows "wp (plane_handle op s) (ends plane_shows plane_shows) K N l"
  using assms(2)
proof (cases op)
  case (SetCaps w h)
  then show ?thesis using assms(1) by (simp add: plane_handle_def plane_setcaps_def plane_shows_def wp_ret)
qed (use assms(1) in \<open>simp_all add: plane_handle_def wp_ret plane_set_property_shows plane_render_step\<close>)

interpretation plane: sink_protocol plane_handle plane_set_property keeps_plane plane_named plane_started plane_shows
  by (unfold_locales; (erule (1) plane_keeps)?)
    (auto simp: plane_handle_def plane_start_step plane_setup_step plane_stop_step plane_shows_def intro: sink_live_tidy)

text \<open>
  C32: a complete life of a new plane sink. Its properties are set; it is started and set up for an
  image, then plays any images and formats while any properties but the plane change, and is
  stopped. Whatever the device answers, as long as libkms keeps its promises (\<open>sink_contract\<close>): the
  sink never uses a null pointer and never stores outside of a mapping; each descriptor, driver,
  buffer object, mapping and frame buffer is used only while it is owned; an image is never written
  into a buffer that is shown on any crtc or plane; and when the life has come to its end by the stop,
  none of these things is owned any more. A start or set-up that fails ends the life before, and
  nothing is claimed of what it leaves; and the structures of libdrm (planes, plane resources) are
  not counted, the code never frees them.
\<close>

theorem plane_sink_lifecycle:
  assumes "obeys K sink_contract" and "0 \<le> w" and "0 \<le> h" and "list_all (plays keeps_plane) qs"
  shows "wp (sink_run plane_handle (map SetProp ps @ Start # SetCaps w h # qs @ [Stop]) new_plane_sink) (\<lambda>r l.
    proper l \<and> untorn l \<and> (\<forall>e. r \<noteq> Fault e) \<and> (\<forall>s. r = Val (Inl s) \<longrightarrow> held l = {})) K N []"
  by (rule plane.life [OF assms(1) _ assms(2-4)]) (simp add: plane_named_set, simp add: plane_named_def new_plane_sink_def)

definition plane_script :: "resp list" where
  "plane_script = [ok 4, (ok 10)\<lparr>tables := [[6, 7]]\<rparr>, with_nums 11 [6], ok 0, with_nums 12 [7], with_nums 0 [77]] @
     sink_bo 20 @ sink_bo 30 @ [ok 0, ok 0, ok 0, ok (-1), ok 0, ok 0, ok 0, ok 0, ok 0, ok 0, ok 0, ok 0, ok 0]"

definition plane_kernel :: "drm_call kernel" where
  "plane_kernel = guarded sink_contract (play plane_script)"

lemmas plane_obeys = obeys_guarded [of sink_contract "play plane_script", folded plane_kernel_def]

text \<open>The second image cannot be shown: the first one stays.\<close>

theorem plane_sink_lifecycle_witness:
  "wp (sink_run plane_handle (map SetProp [PLANE_PLANE 7, PLANE_FILE None, PLANE_POSX (-1)] @
       Start # SetCaps 1 2 # [Render [1, 2, 3, 4, 5, 6, 7, 8], Render [8, 7, 6, 5, 4, 3, 2, 1]] @ [Stop]) new_plane_sink)
     (\<lambda>r l. proper l \<and> untorn l \<and> (\<forall>e. r \<noteq> Fault e) \<and> (\<forall>s. r = Val (Inl s) \<longrightarrow> held l = {})) plane_kernel 0 [] \<and>
   wp (sink_run plane_handle (map SetProp [PLANE_PLANE 7, PLANE_FILE None, PLANE_POSX (-1)] @
       Start # SetCaps 1 2 # [Render [1, 2, 3, 4, 5, 6, 7, 8], Render [8, 7, 6, 5, 4, 3, 2, 1]] @ [Stop]) new_plane_sink)
     (\<lambda>r l. (case r of Val (Inl s) \<Rightarrow> True | _ \<Rightarrow> False) \<and> calls l = length plane_script \<and>
        on_screen (drop 9 l) = [(OnPlane 7, 20)]) plane_kernel 0 []"
  by (rule conjI [OF plane_sink_lifecycle [OF plane_obeys]]) (simp, simp, simp, code_simp)

text \<open>
  The condition on the properties is needed: when the plane is changed while images are shown, the old
  plane keeps its buffer, and the image after the next one is written into it.
\<close>

lemma plane_change_tears:
  "wp (sink_run plane_handle (map SetProp [PLANE_PLANE 7, PLANE_FILE None] @
       Start # SetCaps 1 2 # [Render [1, 2, 3, 4, 5, 6, 7, 8], SetProp (PLANE_PLANE 6), Render [8, 7, 6, 5, 4, 3, 2, 1],
         Render [1, 1, 1, 1, 1, 1, 1, 1]] @ [Stop]) new_plane_sink)
     (\<lambda>r l. \<not> untorn l) (guarded sink_contract (play (take 16 plane_script @ replicate 20 (ok 0)))) 0 []"
  by code_simp

end
