(* ===== verification/Gl_Setup.thy ===== *)
theory Gl_Setup
  imports Drm_Kms "HOL-Library.Sublist"
begin

text \<open>
  What the four programs \<open>drm-tests/drm_gl_test1a.c\<close>, \<open>drm_gl_test1b.c\<close>, \<open>drm_gl_test2.c\<close> and \<open>drm_gl_test3.c\<close> share: the
  way from the device to a current OpenGL context and back through the labels, and the scene of \<open>gl_utils.c\<close>.
\<close>

section \<open>gl_utils.c\<close>

text \<open>
  Calls of OpenGL in a row. Of the floating point arguments, the width and height stand for the ratio
  that is computed from them.
\<close>

primrec gl_calls :: "(string \<times> int list) list \<Rightarrow> ('a, drm_call) io \<Rightarrow> ('a, drm_call) io" where
  "gl_calls [] k = k"
| "gl_calls (c # cs) k = sys (G (Gl (fst c) (snd c))) (\<lambda>_. gl_calls cs k)"

definition render_stuff :: "int \<Rightarrow> int \<Rightarrow> int \<Rightarrow> ('a, drm_call) io \<Rightarrow> ('a, drm_call) io" where
  "render_stuff w h rotz k = gl_calls
     [(''glViewport'', [0, 0, w, h]),
      (''glMatrixMode GL_PROJECTION'', []), (''glLoadIdentity'', []), (''glFrustum'', [w, h, -1, 1, 5, 60]),
      (''glMatrixMode GL_MODELVIEW'', []), (''glLoadIdentity'', []), (''glTranslatef'', [0, 0, -10]),
      (''glClear'', []),
      (''glPushMatrix'', []), (''glRotatef'', [0, 1, 0, 0]), (''glRotatef'', [0, 0, 1, 0]), (''glRotatef'', [rotz, 0, 0, 1]),
      (''glVertexPointer'', [-1, -1, 1, -1, 0, 1]), (''glColorPointer'', [1, 0, 0, 0, 1, 0, 0, 0, 1]),
      (''glEnableClientState GL_VERTEX_ARRAY'', []), (''glEnableClientState GL_COLOR_ARRAY'', []),
      (''glDrawArrays'', [0, 3]),
      (''glDisableClientState GL_VERTEX_ARRAY'', []), (''glDisableClientState GL_COLOR_ARRAY'', []),
      (''glPopMatrix'', []), (''glFinish'', [])] k"

section \<open>The labels\<close>

text \<open>The labels from \<open>unmake_current\<close> to \<open>close_fd\<close>, each going on to the next, and the return from \<open>main\<close>.\<close>

record gl =
  gl_fd :: int
  gl_gbm :: int
  gl_dpy :: int
  gl_ctx :: int

definition gl_close_fd :: "int \<Rightarrow> int \<Rightarrow> (unit, drm_call) io" where
  "gl_close_fd fd rt = sys (P (Close fd)) (\<lambda>_. exit (rt mod 256))"

definition destroy_gbm_device :: "int \<Rightarrow> int \<Rightarrow> int \<Rightarrow> (unit, drm_call) io" where
  "destroy_gbm_device fd g rt = sys (G (GbmDeviceDestroy g)) (\<lambda>_. gl_close_fd fd rt)"

definition egl_terminate :: "int \<Rightarrow> int \<Rightarrow> int \<Rightarrow> int \<Rightarrow> (unit, drm_call) io" where
  "egl_terminate fd g dpy rt = sys (G (EglTerminate dpy)) (\<lambda>_. destroy_gbm_device fd g rt)"

definition destroy_context :: "gl \<Rightarrow> int \<Rightarrow> (unit, drm_call) io" where
  "destroy_context e rt =
     sys (G (EglDestroyContext (gl_dpy e) (gl_ctx e))) (\<lambda>_. egl_terminate (gl_fd e) (gl_gbm e) (gl_dpy e) rt)"

definition unmake_current :: "gl \<Rightarrow> int \<Rightarrow> (unit, drm_call) io" where
  "unmake_current e rt = sys (G (EglMakeCurrent (gl_dpy e) 0 0)) (\<lambda>_. destroy_context e rt)"

section \<open>The way to a context\<close>

definition gl_device_name :: string where "gl_device_name = ''/dev/dri/card0''"

definition strstr :: "byte list \<Rightarrow> byte list \<Rightarrow> bool" where
  "strstr s p = list_ex (\<lambda>t. prefix p t) (suffixes s)"

text \<open>The device, its configuration, and the dump of it. \<open>args\<close> is what \<open>getopt\<close> makes of the arguments, if any.\<close>

definition gl_open :: "byte list \<Rightarrow> (char \<times> byte list) list option \<Rightarrow>
    (int \<Rightarrow> kms_display \<Rightarrow> resp \<Rightarrow> (unit, drm_call) io) \<Rightarrow> (unit, drm_call) io" where
  "gl_open name args k =
     sys (P (Open gl_device_name)) (\<lambda>f.
     if rv f < 0 then say [S ''couldn't open '', S gl_device_name, S '', skipping''] (exit 255) else
     bind (case args of
         None \<Rightarrow> drm_autoconf (rv f)
       | Some opts \<Rightarrow> drm_get_conf_cmdline (rv f) name opts) (\<lambda>c. case c of
       None \<Rightarrow> say [S ''failed to setup KMS''] (gl_close_fd (rv f) (-14))
     | Some kms \<Rightarrow> dump_drm_configuration kms (case crtc kms of
           None \<Rightarrow> fault ''crtc is NULL''
         | Some c \<Rightarrow> k (rv f) kms c)))"

text \<open>A display of the device; an answer 0 to \<open>EglQueryString\<close> is the null pointer.\<close>

definition gl_display :: "int \<Rightarrow> (int \<Rightarrow> int \<Rightarrow> (unit, drm_call) io) \<Rightarrow> (unit, drm_call) io" where
  "gl_display fd k =
     sys (G (GbmCreateDevice fd)) (\<lambda>g.
     if rv g = 0 then say [S ''couldn't create gbm device''] (gl_close_fd fd (-1)) else
     sys (G (EglGetDisplay (rv g))) (\<lambda>d.
     if rv d = 0 then say [S ''eglGetDisplay() failed''] (destroy_gbm_device fd (rv g) (-1)) else
     sys (G (EglInitialize (rv d))) (\<lambda>i.
     if rv i = 0 then say [S ''eglInitialize() failed''] (egl_terminate fd (rv g) (rv d) (-1)) else
     sys (G (EglQueryString (rv d) ''EGL_VERSION'')) (\<lambda>v.
     if rv v = 0 then fault ''printf of NULL'' else
     say [S ''EGL_VERSION = '', B (bytes v)] (
     sys (G (EglQueryString (rv d) ''EGL_EXTENSIONS'')) (\<lambda>x.
     if rv x = 0 then fault ''printf of NULL'' else
     say [S ''EGL_EXTENSIONS: '', B (bytes x)] (
     if \<not> strstr (bytes x) (chars ''EGL_KHR_surfaceless_context'') then
       say [S ''No support for EGL_KHR_surfaceless_context''] (egl_terminate fd (rv g) (rv d) (-1))
     else sys (G EglBindApi) (\<lambda>_. k (rv g) (rv d)))))))))"

text \<open>
  A context of a configuration (0 for none) with its attributes, made current without a surface.
\<close>

definition gl_context :: "int \<Rightarrow> int \<Rightarrow> int \<Rightarrow> int \<Rightarrow> int list \<Rightarrow> (gl \<Rightarrow> (unit, drm_call) io) \<Rightarrow> (unit, drm_call) io" where
  "gl_context fd g d cfg attrs k =
     sys (G (EglCreateContext d cfg attrs)) (\<lambda>c.
     if rv c = 0 then say [S ''failed to create context''] (egl_terminate fd g d (-1)) else
     let e = \<lparr>gl_fd = fd, gl_gbm = g, gl_dpy = d, gl_ctx = rv c\<rparr> in
     sys (G (EglMakeCurrent d 0 (rv c))) (\<lambda>m.
     if rv m = 0 then say [S ''failed to make context current''] (destroy_context e (-1)) else k e))"

text \<open>A configuration for windows: \<open>eglChooseConfig\<close> answers with it and with their number.\<close>

definition gl_config :: "int \<Rightarrow> int \<Rightarrow> int \<Rightarrow> (int \<Rightarrow> (unit, drm_call) io) \<Rightarrow> (unit, drm_call) io" where
  "gl_config fd g d k =
     sys (G (EglChooseConfig d)) (\<lambda>c.
     if rv c = 0 \<or> num c 1 \<noteq> 1 then say [S ''failed to choose config''] (egl_terminate fd g d (-1))
     else k (num c 0))"

section \<open>What is owned\<close>

text \<open>Everything is used while it is owned; at an exit, \<open>R\<close> is true of what is still owned.\<close>

definition leaving :: "(kms_res set \<Rightarrow> bool) \<Rightarrow> 'a res \<Rightarrow> drm_call history \<Rightarrow> bool" where
  "leaving R x l \<longleftrightarrow> proper l \<and> (\<forall>n. x = Exit n \<longrightarrow> R (held l))"

lemma leaving_simps [simp]:
  "own H l \<Longrightarrow> leaving R Wait l" "own H l \<Longrightarrow> leaving R (Fault e) l" "own H l \<Longrightarrow> R H \<Longrightarrow> leaving R (Exit n) l"
  by (auto simp: leaving_def own_def)

text \<open>Steps that neither give nor take.\<close>

lemma own_keep:
  "own H l \<Longrightarrow> needs c \<subseteq> H \<Longrightarrow> takes c = {} \<Longrightarrow> gives c r = {} \<Longrightarrow> own H (Ev c r # l)"
  by (auto simp: own_def)

lemma own_keep_step:
  assumes "own H l" "needs c \<subseteq> H" "takes c = {}" "\<And>r. gives c r = {}"
    and "Q Wait l" "\<And>r l. own H l \<Longrightarrow> wp (k r) Q K N l"
  shows "wp (sys c k) Q K N l"
  using assms by (intro wp_stepI) (auto simp: own_keep)

lemma gl_calls_own:
  assumes l: "own H l" and wait: "\<And>l. own H l \<Longrightarrow> Q Wait l" and k: "\<And>l. own H l \<Longrightarrow> wp k Q K N l"
  shows "wp (gl_calls cs k) Q K N l"
  using l
proof (induction cs arbitrary: l)
  case (Cons c cs)
  show ?case
    unfolding gl_calls.simps
    by (rule own_keep_step [OF Cons.prems]) (auto simp: needs_def intro: wait [OF Cons.prems] Cons.IH)
qed (simp add: k)

lemma render_stuff_own:
  assumes "own H l" "\<And>l. own H l \<Longrightarrow> Q Wait l" "\<And>l. own H l \<Longrightarrow> wp k Q K N l"
  shows "wp (render_stuff w h rotz k) Q K N l"
  unfolding render_stuff_def by (rule gl_calls_own [OF assms])

text \<open>The labels: from what is owned, without what they free.\<close>

lemma gl_close_leaves:
  assumes K: "obeys K new_res" and l: "own H l" "RFd fd \<in> H" and R: "R (H - {RFd fd})"
  shows "wp (gl_close_fd fd rt) (leaving R) K N l"
  unfolding gl_close_fd_def
  by (rule own_step [OF K l(1)]) (use l R in \<open>auto simp: needs_def wp_exit\<close>)

lemma gbm_leaves:
  assumes K: "obeys K new_res" and l: "own H l" "RFd fd \<in> H" "RGbm g \<in> H" and R: "R (H - {RGbm g, RFd fd})"
  shows "wp (destroy_gbm_device fd g rt) (leaving R) K N l"
proof -
  have eq: "H - {RGbm g} - {RFd fd} = H - {RGbm g, RFd fd}" by auto
  show ?thesis
    unfolding destroy_gbm_device_def
    by (rule own_step [OF K l(1)])
      (use l R eq in \<open>simp_all add: needs_def gl_close_leaves [OF K, where H = "H - {RGbm g}"]\<close>)
qed

lemma terminate_leaves:
  assumes K: "obeys K new_res" and l: "own H l" "RFd fd \<in> H" "RGbm g \<in> H" and R: "R (H - {RGbm g, RFd fd})"
  shows "wp (egl_terminate fd g d rt) (leaving R) K N l"
  unfolding egl_terminate_def
  by (rule own_keep_step [OF l(1)]) (use l R in \<open>simp_all add: needs_def gbm_leaves [OF K, where H = H]\<close>)

text \<open>What a context holds.\<close>

definition gl_res :: "gl \<Rightarrow> kms_res set" where
  "gl_res e = {RCtx (gl_ctx e), RGbm (gl_gbm e), RFd (gl_fd e)}"

lemma destroy_context_leaves:
  assumes K: "obeys K new_res" and l: "own H l" "gl_res e \<subseteq> H" and R: "R (H - gl_res e)"
  shows "wp (destroy_context e rt) (leaving R) K N l"
proof -
  have eq: "H - {RCtx (gl_ctx e)} - {RGbm (gl_gbm e), RFd (gl_fd e)} = H - gl_res e" by (auto simp: gl_res_def)
  show ?thesis
    unfolding destroy_context_def
    by (rule own_step [OF K l(1)])
      (use l R eq in \<open>simp_all add: needs_def gl_res_def terminate_leaves [OF K, where H = "H - {RCtx (gl_ctx e)}"]\<close>)
qed

lemma unmake_current_leaves:
  assumes K: "obeys K new_res" and l: "own H l" "gl_res e \<subseteq> H" and R: "R (H - gl_res e)"
  shows "wp (unmake_current e rt) (leaving R) K N l"
  unfolding unmake_current_def
  by (rule own_keep_step [OF l(1)]) (use l R in \<open>simp_all add: needs_def some_res_def destroy_context_leaves [OF K, where H = H]\<close>)

section \<open>The way to a context owns its objects\<close>

text \<open>The configuration only looks at the device.\<close>

fun conf_call :: "int \<Rightarrow> drm_call \<Rightarrow> bool" where
  "conf_call fd (GetResources d) \<longleftrightarrow> d = fd"
| "conf_call fd (GetConnector d i) \<longleftrightarrow> d = fd"
| "conf_call fd (GetEncoder d i) \<longleftrightarrow> d = fd"
| "conf_call fd (GetCrtc d i) \<longleftrightarrow> d = fd"
| "conf_call fd (FreeConnector p) \<longleftrightarrow> True"
| "conf_call fd (FreeEncoder p) \<longleftrightarrow> True"
| "conf_call fd (FreeCrtc p) \<longleftrightarrow> True"
| "conf_call fd (FreeResources p) \<longleftrightarrow> True"
| "conf_call fd c \<longleftrightarrow> False"

lemma conf_own: "RFd fd \<in> H \<Longrightarrow> closed_under (conf_call fd) (own H)"
proof -
  assume fd: "RFd fd \<in> H"
  have "own H (Ev c r # l)" if "conf_call fd c" "own H l" for c r l
    using that fd by (cases c) (simp_all add: own_keep needs_def)
  then show ?thesis by (simp add: closed_under_def)
qed

definition quiet :: "('c history \<Rightarrow> bool) \<Rightarrow> 'a res \<Rightarrow> 'c history \<Rightarrow> bool" where
  "quiet J x l \<longleftrightarrow> J l \<and> (\<forall>n. x \<noteq> Exit n)"

lemma quiet_simps [simp]:
  "quiet J (Val a) l = J l" "quiet J Wait l = J l" "quiet J (Fault e) l = J l" "\<not> quiet J (Exit n) l"
  by (simp_all add: quiet_def)

lemma keeps_bind:
  assumes "wp m (quiet J) K N l" "\<And>a l. J l \<Longrightarrow> wp (f a) (quiet J) K N l"
  shows "wp (bind m f) (quiet J) K N l"
  by (rule wp_bindI [where P = "\<lambda>a. J"]) (auto intro!: wp_mono [OF assms(1)] assms(2) simp: seq_def split: res.splits)

lemma keeps_foreach:
  assumes "J l" "\<And>x s l. J l \<Longrightarrow> wp (body x s) (quiet J) K N l"
  shows "wp (foreach xs body s) (quiet J) K N l"
  by (rule wp_foreach [where I = "\<lambda>s. J"])
    (auto intro!: wp_mono [OF assms(2)] simp: assms(1) seq_def for_post_def split: res.splits sum.splits)

lemma conf_loops_keep:
  assumes J: "closed_under (conf_call fd) J" "J l"
  shows "wp (foreach ids (conn_loop fd p) u) (quiet J) K N l"
    "wp (foreach ids (enc_loop fd p) u) (quiet J) K N l"
    "wp (foreach ids (crtc_loop fd p) u) (quiet J) K N l"
    "wp (foreach ids (auto_crtc_loop fd enc) st) (quiet J) K N l"
  by (auto intro!: keeps_foreach [where J = J, OF J(2)] simp: conn_loop_def enc_loop_def crtc_loop_def auto_crtc_loop_def
      wp_simps closed_underD [OF J(1)] J(2) split: option.split)

lemma conf_usage_keep:
  assumes J: "closed_under (conf_call fd) J" "J l" and k: "\<And>l. J l \<Longrightarrow> wp k (quiet J) K N l"
  shows "wp (drm_cmdline_usage name k) (quiet J) K N l"
  by (simp add: drm_cmdline_usage_def wp_say k closed_underD [OF J(1)] J(2))

lemma no_keep:
  assumes J: "closed_under (conf_call fd) J" "J l"
  shows "wp (no_connector name) (quiet J) K N l" "wp (no_encoder name con) (quiet J) K N l"
    "wp (no_mode name con enc) (quiet J) K N l"
proof -
  have 1: "wp (no_connector name) (quiet J) K N l" if "J l" for l
    using that by (simp add: no_connector_def conf_usage_keep [OF J(1)] wp_ret)
  have 2: "wp (no_encoder name con) (quiet J) K N l" if "J l" for l
    using that 1 by (simp add: no_encoder_def wp_sys closed_underD [OF J(1)] J(2) split: option.split)
  have 3: "wp (no_mode name con enc) (quiet J) K N l" if "J l" for l
    using that 2 by (simp add: no_mode_def wp_sys closed_underD [OF J(1)] J(2) split: option.split)
  show "wp (no_connector name) (quiet J) K N l" "wp (no_encoder name con) (quiet J) K N l"
    "wp (no_mode name con enc) (quiet J) K N l"
    using 1 2 3 J(2) by simp_all
qed

lemma conf_crtc_keep:
  assumes J: "closed_under (conf_call fd) J" "J l"
  shows "wp (conf_crtc fd name a res con enc i) (quiet J) K N l" "wp (auto_crtc fd res con enc) (quiet J) K N l"
  unfolding conf_crtc_def auto_crtc_def auto_mode_def
  by (auto intro!: keeps_bind conf_loops_keep [OF J(1)] no_keep [OF J(1)] J(2)
      simp: wp_say wp_sys wp_ret Let_def closed_underD [OF J(1)] J(2) split: option.split sum.split)

lemma conf_encoder_keep:
  assumes J: "closed_under (conf_call fd) J" "J l"
  shows "wp (conf_encoder fd name a res con) (quiet J) K N l" "wp (auto_encoder fd res con) (quiet J) K N l"
  unfolding conf_encoder_def auto_encoder_def
  by (auto intro!: keeps_bind conf_loops_keep [OF J(1)] no_keep [OF J(1)] conf_crtc_keep [OF J(1)] J(2)
      simp: wp_say wp_fault wp_sys wp_ret wp_if Let_def closed_underD [OF J(1)] J(2) split: option.split sum.split)

lemma conf_keep:
  assumes J: "closed_under (conf_call fd) J" "J l"
  shows "wp (drm_get_conf_cmdline fd name opts) (\<lambda>x. J) K N l" "wp (drm_autoconf fd) (quiet J) K N l"
proof -
  show auto: "wp (drm_autoconf fd) (quiet J) K N l"
    unfolding drm_autoconf_def
    by (auto intro!: keeps_bind conf_loops_keep [OF J(1)] conf_encoder_keep [OF J(1)] J(2)
        simp: wp_say wp_sys wp_ret wp_if closed_underD [OF J(1)] J(2) split: option.split sum.split)
  have loop: "wp (bind (foreach ids (conn_loop fd p) ()) f) (\<lambda>x. J) K N l"
    if "J l" "\<And>a l. J l \<Longrightarrow> wp (f a) (quiet J) K N l" for ids p f l
    by (rule wp_mono [OF keeps_bind [OF conf_loops_keep(1) [OF J(1) that(1)] that(2)]]) (simp_all add: quiet_def)
  show "wp (drm_get_conf_cmdline fd name opts) (\<lambda>x. J) K N l"
    unfolding drm_get_conf_cmdline_def
    by (auto intro!: loop no_keep [OF J(1)] conf_encoder_keep [OF J(1)] J(2)
        simp: drm_cmdline_usage_def wp_say wp_exit wp_sys wp_ret wp_if closed_underD [OF J(1)] J(2)
        split: option.split sum.split)
qed

lemma gl_open_leaves:
  assumes K: "obeys K new_res" and l: "own {} l" and R: "R {}" "\<And>fd. args \<noteq> None \<Longrightarrow> R {RFd fd}"
    and k: "\<And>fd kms c l. own {RFd fd} l \<Longrightarrow> wp (k fd kms c) (leaving R) K N l"
  shows "wp (gl_open name args k) (leaving R) K N l"
proof -
  have go: "wp (case c of None \<Rightarrow> say os (gl_close_fd fd (-14))
     | Some kms \<Rightarrow> dump_drm_configuration kms (case crtc kms of None \<Rightarrow> fault e | Some c \<Rightarrow> k fd kms c))
     (leaving R) K N l" if "own {RFd fd} l" for c fd os e l
    using that R k gl_close_leaves [OF K, of "{RFd fd}" _ fd R]
    by (auto simp: wp_simps dump_drm_configuration_def split: option.split)
  have conf: "wp (bind (case args of None \<Rightarrow> drm_autoconf fd | Some opts \<Rightarrow> drm_get_conf_cmdline fd name opts) f) (leaving R) K N l"
    if "own {RFd fd} l" "\<And>c l. own {RFd fd} l \<Longrightarrow> wp (f c) (leaving R) K N l" for fd l f
  proof (rule wp_bindI [where P = "\<lambda>c. own {RFd fd}"])
    have "wp (case args of None \<Rightarrow> drm_autoconf fd | Some opts \<Rightarrow> drm_get_conf_cmdline fd name opts)
        (\<lambda>x l. own {RFd fd} l \<and> (args = None \<longrightarrow> (\<forall>n. x \<noteq> Exit n))) K N l"
      using conf_keep [OF conf_own that(1), where K = K and N = N]
      by (cases args) (auto elim!: wp_mono simp: quiet_def)
    then show "wp (case args of None \<Rightarrow> drm_autoconf fd | Some opts \<Rightarrow> drm_get_conf_cmdline fd name opts)
        (seq (\<lambda>c. own {RFd fd}) (leaving R)) K N l"
      by (rule wp_mono) (cases args; auto simp: seq_def R split: res.split)
  qed (rule that(2))
  show ?thesis
    unfolding gl_open_def
    by (rule own_step [OF K l]) (use l R in \<open>auto simp: needs_def wp_say wp_exit intro!: conf go\<close>)
qed

lemma gl_display_leaves:
  assumes K: "obeys K new_res" and l: "own {RFd fd} l" and R: "R {}"
    and k: "\<And>g d l. own {RGbm g, RFd fd} l \<Longrightarrow> wp (k g d) (leaving R) K N l"
  shows "wp (gl_display fd k) (leaving R) K N l"
proof -
  have close: "wp (gl_close_fd fd rt) (leaving R) K N l" if "own {RFd fd} l" for rt l
    using R by (intro gl_close_leaves [OF K that]) simp_all
  have gbm: "wp (destroy_gbm_device fd g rt) (leaving R) K N l" "wp (egl_terminate fd g d rt) (leaving R) K N l"
    if "own {RGbm g, RFd fd} l" for g d rt l
    using R by (intro gbm_leaves [OF K that] terminate_leaves [OF K that]; simp)+
  show ?thesis
    unfolding gl_display_def
  proof (rule own_step [OF K l])
    fix g assume "own ({RFd fd} - takes (G (GbmCreateDevice fd)) \<union> gives (G (GbmCreateDevice fd)) g) (Ev (G (GbmCreateDevice fd)) g # l)"
    then have g: "rv g = 0 \<Longrightarrow> own {RFd fd} (Ev (G (GbmCreateDevice fd)) g # l)"
      "rv g \<noteq> 0 \<Longrightarrow> own {RGbm (rv g), RFd fd} (Ev (G (GbmCreateDevice fd)) g # l)"
      by (simp_all add: some_res_def)
    show "wp (if rv g = 0 then say [S ''couldn't create gbm device''] (gl_close_fd fd (-1)) else
       sys (G (EglGetDisplay (rv g))) (\<lambda>d.
       if rv d = 0 then say [S ''eglGetDisplay() failed''] (destroy_gbm_device fd (rv g) (-1)) else
       sys (G (EglInitialize (rv d))) (\<lambda>i.
       if rv i = 0 then say [S ''eglInitialize() failed''] (egl_terminate fd (rv g) (rv d) (-1)) else
       sys (G (EglQueryString (rv d) ''EGL_VERSION'')) (\<lambda>v.
       if rv v = 0 then fault ''printf of NULL'' else
       say [S ''EGL_VERSION = '', B (bytes v)] (
       sys (G (EglQueryString (rv d) ''EGL_EXTENSIONS'')) (\<lambda>x.
       if rv x = 0 then fault ''printf of NULL'' else
       say [S ''EGL_EXTENSIONS: '', B (bytes x)] (
       if \<not> strstr (bytes x) (chars ''EGL_KHR_surfaceless_context'') then
         say [S ''No support for EGL_KHR_surfaceless_context''] (egl_terminate fd (rv g) (rv d) (-1))
       else sys (G EglBindApi) (\<lambda>_. k (rv g) (rv d)))))))))
       (leaving R) K N (Ev (G (GbmCreateDevice fd)) g # l)"
      by (intro wp_intro) (use g in \<open>auto simp: own_keep needs_def leaving_simps(1,2) [where H = "{RGbm (rv g), RFd fd}"]
          intro!: k close gbm\<close>)
  qed (use l in \<open>auto simp: needs_def\<close>)
qed

lemma gl_context_leaves:
  assumes K: "obeys K new_res" and l: "own {RGbm g, RFd fd} l" and R: "R {}"
    and k: "\<And>e l. gl_fd e = fd \<Longrightarrow> own (gl_res e) l \<Longrightarrow> wp (k e) (leaving R) K N l"
  shows "wp (gl_context fd g d cfg attrs k) (leaving R) K N l"
proof -
  let ?c = "G (EglCreateContext d cfg attrs)"
  show ?thesis
    unfolding gl_context_def Let_def
  proof (rule own_step [OF K l])
    fix c assume "own ({RGbm g, RFd fd} - takes ?c \<union> gives ?c c) (Ev ?c c # l)"
    then have c: "rv c = 0 \<Longrightarrow> own {RGbm g, RFd fd} (Ev ?c c # l)"
      "rv c \<noteq> 0 \<Longrightarrow> own {RCtx (rv c), RGbm g, RFd fd} (Ev ?c c # l)"
      by (simp_all add: some_res_def insert_commute)
    let ?e = "\<lparr>gl_fd = fd, gl_gbm = g, gl_dpy = d, gl_ctx = rv c\<rparr>"
    have e: "gl_res ?e = {RCtx (rv c), RGbm g, RFd fd}" by (simp add: gl_res_def)
    have no: "wp (egl_terminate fd g d (-1)) (leaving R) K N l" if "own {RGbm g, RFd fd} l" for l
      using R by (intro terminate_leaves [OF K that]) simp_all
    have undo: "wp (destroy_context ?e (-1)) (leaving R) K N l" if "own {RCtx (rv c), RGbm g, RFd fd} l" for l
      using R by (intro destroy_context_leaves [OF K that]) (simp_all add: e)
    show "wp (if rv c = 0 then say [S ''failed to create context''] (egl_terminate fd g d (-1)) else
       sys (G (EglMakeCurrent d 0 (rv c))) (\<lambda>m.
       if rv m = 0 then say [S ''failed to make context current''] (destroy_context ?e (-1)) else k ?e))
       (leaving R) K N (Ev ?c c # l)"
      by (intro wp_intro)
        (use c in \<open>auto simp: own_keep needs_def some_res_def e leaving_simps(1) [where H = "{RCtx (rv c), RGbm g, RFd fd}"]
          intro!: no undo k\<close>)
  qed (use l in \<open>auto simp: needs_def\<close>)
qed

lemma gl_config_leaves:
  assumes K: "obeys K new_res" and l: "own {RGbm g, RFd fd} l" and R: "R {}"
    and k: "\<And>c l. own {RGbm g, RFd fd} l \<Longrightarrow> wp (k c) (leaving R) K N l"
  shows "wp (gl_config fd g d k) (leaving R) K N l"
proof -
  have no: "wp (egl_terminate fd g d (-1)) (leaving R) K N l" if "own {RGbm g, RFd fd} l" for l
    using R by (intro terminate_leaves [OF K that]) simp_all
  show ?thesis
    unfolding gl_config_def
    by (rule own_keep_step [OF l]) (use l in \<open>auto simp: needs_def wp_if wp_say intro!: no k\<close>)
qed

end
