(* ===== verification/Gl_Tests.thy ===== *)
theory Gl_Tests
  imports Gl_Setup
begin

text \<open>
  \<open>drm-tests/drm_gl_test1a.c\<close> (one buffer that is drawn into while it is shown), \<open>drm_gl_test1b.c\<close> (two buffers and page
  flips) and \<open>drm_gl_test2.c\<close> (the buffer of a window surface). A value that has never been set is a fault where it
  is used.
\<close>

section \<open>drm_gl_test1a.c\<close>

text \<open>The labels \<open>destroy_gbm_bo\<close>, \<open>rm_fb\<close>, \<open>rm_rb\<close>, \<open>free_saved_crtc\<close>; \<open>fb\<close> is \<open>fb_id\<close>, if it has been set.\<close>

definition t1a_destroy_bo :: "gl \<Rightarrow> int \<Rightarrow> int \<Rightarrow> (unit, drm_call) io" where
  "t1a_destroy_bo e bo rt = sys (G (GbmBoDestroy bo)) (\<lambda>_. unmake_current e rt)"

definition t1a_rm_fb :: "gl \<Rightarrow> int \<Rightarrow> int \<Rightarrow> uint32 option \<Rightarrow> int \<Rightarrow> (unit, drm_call) io" where
  "t1a_rm_fb e bo im fb rt = (case fb of
     None \<Rightarrow> fault ''fb_id is uninitialised''
   | Some f \<Rightarrow> sys (RmFB (gl_fd e) f) (\<lambda>_. sys (G (EglDestroyImage (gl_dpy e) im)) (\<lambda>_. t1a_destroy_bo e bo rt)))"

definition t1a_rm_rb :: "gl \<Rightarrow> int \<Rightarrow> int \<Rightarrow> uint32 option \<Rightarrow> int \<Rightarrow> (unit, drm_call) io" where
  "t1a_rm_rb e bo im fb rt = gl_calls
     [(''glFramebufferRenderbuffer'', [0]), (''glBindRenderbuffer'', [0]), (''glDeleteRenderbuffers'', [1]),
      (''glDeleteFramebuffers'', [1])]
     (t1a_rm_fb e bo im fb rt)"

definition t1a_free_crtc :: "gl \<Rightarrow> resp \<Rightarrow> int \<Rightarrow> int \<Rightarrow> uint32 \<Rightarrow> int \<Rightarrow> (unit, drm_call) io" where
  "t1a_free_crtc e s bo im fb rt = sys (FreeCrtc (rv s)) (\<lambda>_. t1a_rm_rb e bo im (Some fb) rt)"

definition t1a_frame :: "gl \<Rightarrow> int \<Rightarrow> int \<Rightarrow> uint32 \<Rightarrow> nat \<Rightarrow> unit \<Rightarrow> (unit + unit, drm_call) io" where
  "t1a_frame e w h fb i u =
     render_stuff w h (int i) (
     sys (DirtyFB (gl_fd e) fb) (\<lambda>_.
     sys (P Getchar) (\<lambda>_. say [S ''press enter to continue...''] (ret (Inl ())))))"

text \<open>
  From the frame buffer on: the crtc is saved, set, drawn to ten times and restored. The check of
  the OpenGL frame buffer answers 0 when it is not complete.
\<close>

definition t1a_show :: "gl \<Rightarrow> kms_display \<Rightarrow> resp \<Rightarrow> int \<Rightarrow> int \<Rightarrow> uint32 \<Rightarrow> (unit, drm_call) io" where
  "t1a_show e kms c bo im fb =
     (let con = conn_id_of (connector kms); md = mode kms; fd = gl_fd e in
     sys (GetCrtc fd (crtc_id_of c)) (\<lambda>s.
     if rv s = 0 then perror ''failed drmModeGetCrtc(current)'' (t1a_rm_fb e bo im (Some fb) 0) else
     dump_crtc_configuration ''saved_crtc'' s (
     sys (SetCrtc fd (crtc_id_of c) fb 0 0 con (mode_name md)) (\<lambda>r.
     if rv r \<noteq> 0 then perror ''failed drmModeSetCrtc(new)'' (t1a_free_crtc e s bo im fb (rv r)) else
     sys (GetCrtc fd (crtc_id_of c)) (\<lambda>c'.
     let go =
       gl_calls [(''glFramebufferRenderbuffer'', [1])] (
       sys (G (Gl ''glCheckFramebufferStatus'' [])) (\<lambda>q.
       let draw =
         bind (foreach [0..<10] (t1a_frame e (uint (hdisplay md)) (uint (vdisplay md)) fb) ()) (\<lambda>_.
         if crtc_valid s then
           sys (SetCrtc fd (unum s 0) (unum s 1) (unum s 2) (unum s 3) con (crtc_mode_name s)) (\<lambda>x.
           if rv x \<noteq> 0 then perror ''failed drmModeSetCrtc(restore original)'' (t1a_free_crtc e s bo im fb (rv x))
           else t1a_free_crtc e s bo im fb (rv x))
         else t1a_free_crtc e s bo im fb 0) in
       if rv q = 0 then say [S ''glCheckFramebufferStatus() failed''] draw else draw)) in
     if rv c' \<noteq> 0 then dump_crtc_configuration ''current_crtc'' c' go
     else perror ''failed drmModeGetCrtc(new)'' go)))))"

text \<open>The buffer object, its image and its frame buffer; the answer of \<open>GbmBoCreate\<close> has handle and stride.\<close>

definition t1a_buffer :: "gl \<Rightarrow> kms_display \<Rightarrow> resp \<Rightarrow> (unit, drm_call) io" where
  "t1a_buffer e kms c =
     (let w = hdisplay (mode kms); h = vdisplay (mode kms) in
     sys (G (Gl ''eglGetProcAddress'' [])) (\<lambda>p.
     gl_calls [(''glGenFramebuffers'', [1]), (''glBindFramebuffer'', [1]), (''glGenRenderbuffers'', [1]),
       (''glBindRenderbuffer'', [1])] (
     sys (G (GbmBoCreate (gl_gbm e) w h)) (\<lambda>b.
     if rv b = 0 then say [S ''failed to create gbm bo''] (unmake_current e (-1)) else
     sys (G (EglCreateImage (gl_dpy e) (rv b))) (\<lambda>m.
     if rv m = 0 then say [S ''failed to create egl image''] (t1a_destroy_bo e (rv b) (-1)) else
     if rv p = 0 then fault ''call of NULL'' else
     sys (G (Gl ''glEGLImageTargetRenderbufferStorageOES'' [rv m])) (\<lambda>_.
     sys (AddFB (gl_fd e) w h (unum b 1) (unum b 0)) (\<lambda>a.
     if rv a \<noteq> 0 then perror ''failed drmModeAddFB()'' (t1a_rm_rb e (rv b) (rv m) None (rv a))
     else t1a_show e kms c (rv b) (rv m) (unum a 0))))))))"

definition drm_gl_test1a :: "(unit, drm_call) io" where
  "drm_gl_test1a = gl_open [] None (\<lambda>fd kms c.
     gl_display fd (\<lambda>g d. gl_context fd g d 0 [] (\<lambda>e. t1a_buffer e kms c)))"

section \<open>drm_gl_test1b.c\<close>

record t1b_frame =
  tb_bo :: int
  tb_image :: int
  tb_fb :: "uint32 option"

text \<open>The labels \<open>destroy_gbm_bo\<close>, \<open>rm_fb\<close>, \<open>rm_rb\<close>, \<open>free_saved_crtc\<close>; \<open>fs\<close> are the frames that have been set up.\<close>

definition t1b_destroy_bos :: "gl \<Rightarrow> t1b_frame \<Rightarrow> t1b_frame \<Rightarrow> int \<Rightarrow> (unit, drm_call) io" where
  "t1b_destroy_bos e f g rt =
     sys (G (EglDestroyImage (gl_dpy e) (tb_image f))) (\<lambda>_.
     sys (G (EglDestroyImage (gl_dpy e) (tb_image g))) (\<lambda>_.
     sys (G (GbmBoDestroy (tb_bo f))) (\<lambda>_.
     sys (G (GbmBoDestroy (tb_bo g))) (\<lambda>_. unmake_current e rt))))"

definition t1b_rm_fb :: "gl \<Rightarrow> t1b_frame list \<Rightarrow> int \<Rightarrow> (unit, drm_call) io" where
  "t1b_rm_fb e fs rt = (case fs of
     [] \<Rightarrow> fault ''fb_id[0] is uninitialised''
   | f # r \<Rightarrow> (case tb_fb f of
       None \<Rightarrow> fault ''fb_id[0] is uninitialised''
     | Some a \<Rightarrow> sys (RmFB (gl_fd e) a) (\<lambda>_. case r of
         [] \<Rightarrow> fault ''fb_id[1] is uninitialised''
       | g # r' \<Rightarrow> (case tb_fb g of
           None \<Rightarrow> fault ''fb_id[1] is uninitialised''
         | Some b \<Rightarrow> sys (RmFB (gl_fd e) b) (\<lambda>_. t1b_destroy_bos e f g rt)))))"

definition t1b_rm_rb :: "gl \<Rightarrow> t1b_frame list \<Rightarrow> int \<Rightarrow> (unit, drm_call) io" where
  "t1b_rm_rb e fs rt = gl_calls
     [(''glFramebufferRenderbuffer'', [0]), (''glBindRenderbuffer'', [0]), (''glDeleteRenderbuffers'', [1]),
      (''glDeleteRenderbuffers'', [2])]
     (t1b_rm_fb e fs rt)"

definition t1b_free_crtc :: "gl \<Rightarrow> resp \<Rightarrow> t1b_frame list \<Rightarrow> int \<Rightarrow> (unit, drm_call) io" where
  "t1b_free_crtc e s fs rt = sys (FreeCrtc (rv s)) (\<lambda>_. t1b_rm_rb e fs rt)"

text \<open>
  One frame. \<open>Inr (None, fs)\<close> goes to \<open>unmake_current\<close>, \<open>Inr (Some rt, fs)\<close> to \<open>rm_rb\<close>. The check of the image
  compares the array with \<open>EGL_NO_IMAGE_KHR\<close>, so an image that could not be created is used.
\<close>

definition t1b_buffer :: "gl \<Rightarrow> int \<Rightarrow> uint32 \<Rightarrow> uint32 \<Rightarrow> nat \<Rightarrow> t1b_frame list \<Rightarrow>
    (t1b_frame list + int option \<times> t1b_frame list, drm_call) io" where
  "t1b_buffer e p w h i fs =
     gl_calls [(''glBindRenderbuffer'', [int i + 1])] (
     sys (G (GbmBoCreate (gl_gbm e) w h)) (\<lambda>b.
     if rv b = 0 then say [S ''failed to create gbm bo''] (ret (Inr (None, fs))) else
     sys (G (EglCreateImage (gl_dpy e) (rv b))) (\<lambda>m.
     if p = 0 then fault ''call of NULL'' else
     sys (G (Gl ''glEGLImageTargetRenderbufferStorageOES'' [rv m])) (\<lambda>_.
     sys (AddFB (gl_fd e) w h (unum b 1) (unum b 0)) (\<lambda>a.
     if rv a \<noteq> 0 then say [S ''failed to create fb'']
       (ret (Inr (Some (rv a), fs @ [\<lparr>tb_bo = rv b, tb_image = rv m, tb_fb = None\<rparr>])))
     else ret (Inl (fs @ [\<lparr>tb_bo = rv b, tb_image = rv m, tb_fb = Some (unum a 0)\<rparr>])))))))"

text \<open>One turn of the drawing loop, for the frame with index \<open>cur\<close>.\<close>

definition t1b_frame_turn :: "gl \<Rightarrow> kms_display \<Rightarrow> resp \<Rightarrow> uint32 list \<Rightarrow> nat \<Rightarrow> nat \<Rightarrow> (nat + unit, drm_call) io" where
  "t1b_frame_turn e kms c fbs i cur =
     gl_calls [(''glFramebufferRenderbuffer'', [int cur + 1])] (
     sys (G (Gl ''glCheckFramebufferStatus'' [])) (\<lambda>q.
     let go =
       sys (DirtyFB (gl_fd e) (fbs ! cur)) (\<lambda>_.
       render_stuff (uint (hdisplay (mode kms))) (uint (vdisplay (mode kms))) (int i) (
       sys (G (PageFlip (gl_fd e) (crtc_id_of c) (fbs ! cur) False)) (\<lambda>r.
       let rest = sys (G (Usleep 50000)) (\<lambda>_. ret (Inl (cur XOR 1))) in
       if rv r < 0 then say [S ''queueing pageflip failed''] rest else say [S ''queueing ok''] rest))) in
     if rv q = 0 then say [S ''glCheckFramebufferStatus() failed''] go else go))"

definition t1b_show :: "gl \<Rightarrow> kms_display \<Rightarrow> resp \<Rightarrow> t1b_frame list \<Rightarrow> uint32 list \<Rightarrow> (unit, drm_call) io" where
  "t1b_show e kms c fs fbs =
     (let con = conn_id_of (connector kms); fd = gl_fd e in
     sys (GetCrtc fd (crtc_id_of c)) (\<lambda>s.
     if rv s = 0 then say [S ''failed to get current mode''] (t1b_rm_fb e fs 0) else
     dump_crtc_configuration ''saved_crtc'' s (
     sys (SetCrtc fd (crtc_id_of c) (fbs ! 0) 0 0 con (mode_name (mode kms))) (\<lambda>r.
     if rv r \<noteq> 0 then say [S ''failed to set mode''] (t1b_free_crtc e s fs (rv r)) else
     bind (foreach [0..<50] (t1b_frame_turn e kms c fbs) 0) (\<lambda>_.
     sys (SetCrtc fd (unum s 0) (unum s 1) (unum s 2) (unum s 3) con (crtc_mode_name s)) (\<lambda>x.
     if rv x \<noteq> 0 then say [S ''failed to restore crtc''] (t1b_free_crtc e s fs (rv x))
     else t1b_free_crtc e s fs (rv x)))))))"

definition t1b_run :: "gl \<Rightarrow> kms_display \<Rightarrow> resp \<Rightarrow> (unit, drm_call) io" where
  "t1b_run e kms c =
     sys (G (Gl ''eglGetProcAddress'' [])) (\<lambda>p.
     gl_calls [(''glGenFramebuffers'', [1]), (''glBindFramebuffer'', [1]), (''glGenRenderbuffers'', [2])] (
     bind (foreach [0..<2] (t1b_buffer e (rv p) (hdisplay (mode kms)) (vdisplay (mode kms))) []) (\<lambda>x. case x of
       Inr (None, fs) \<Rightarrow> unmake_current e (-1)
     | Inr (Some rt, fs) \<Rightarrow> t1b_rm_rb e fs rt
     | Inl fs \<Rightarrow> t1b_show e kms c fs (map (\<lambda>f. case tb_fb f of None \<Rightarrow> 0 | Some a \<Rightarrow> a) fs))))"

definition drm_gl_test1b :: "(unit, drm_call) io" where
  "drm_gl_test1b = gl_open [] None (\<lambda>fd kms c.
     gl_display fd (\<lambda>g d. gl_context fd g d 0 [] (\<lambda>e. t1b_run e kms c)))"

section \<open>drm_gl_test2.c\<close>

text \<open>The labels; the surfaces are not given back by any of them.\<close>

definition t2_rm_fb :: "gl \<Rightarrow> uint32 \<Rightarrow> int \<Rightarrow> (unit, drm_call) io" where
  "t2_rm_fb e fb rt = sys (RmFB (gl_fd e) fb) (\<lambda>_. unmake_current e rt)"

definition t2_free_crtc :: "gl \<Rightarrow> resp \<Rightarrow> uint32 \<Rightarrow> int \<Rightarrow> (unit, drm_call) io" where
  "t2_free_crtc e s fb rt = sys (FreeCrtc (rv s)) (\<lambda>_. t2_rm_fb e fb rt)"

definition t2_frame :: "gl \<Rightarrow> int \<Rightarrow> int \<Rightarrow> uint32 \<Rightarrow> nat \<Rightarrow> unit \<Rightarrow> (unit + unit, drm_call) io" where
  "t2_frame e w h fb i u =
     render_stuff w h (int i) (
     sys (DirtyFB (gl_fd e) fb) (\<lambda>_. say [S ''press enter...''] (sys (P Getchar) (\<lambda>_. ret (Inl ())))))"

definition t2_show :: "gl \<Rightarrow> kms_display \<Rightarrow> resp \<Rightarrow> uint32 \<Rightarrow> (unit, drm_call) io" where
  "t2_show e kms c fb =
     (let con = conn_id_of (connector kms); fd = gl_fd e; md = mode kms in
     sys (GetCrtc fd (crtc_id_of c)) (\<lambda>s.
     if rv s = 0 then say [S ''failed to get current mode''] (t2_rm_fb e fb 0) else
     dump_crtc_configuration ''saved_crtc'' s (
     sys (SetCrtc fd (crtc_id_of c) fb 0 0 con (mode_name md)) (\<lambda>r.
     if rv r \<noteq> 0 then say [S ''failed to set mode''] (t2_free_crtc e s fb (rv r)) else
     bind (foreach [0..<10] (t2_frame e (uint (hdisplay md)) (uint (vdisplay md)) fb) ()) (\<lambda>_.
     sys (SetCrtc fd (unum s 0) (unum s 1) (unum s 2) (unum s 3) con (crtc_mode_name s)) (\<lambda>x.
     if rv x \<noteq> 0 then say [S ''failed to restore crtc''] (t2_free_crtc e s fb (rv x))
     else t2_free_crtc e s fb (rv x)))))))"

text \<open>The surfaces and the buffer; \<open>LockFront\<close> answers with handle and stride. \<open>i\<close> is printed before it has a value, so its
  value is a parameter.\<close>

definition t2_surface :: "int \<Rightarrow> gl \<Rightarrow> kms_display \<Rightarrow> resp \<Rightarrow> (unit, drm_call) io" where
  "t2_surface i e kms c =
     (let w = hdisplay (mode kms); h = vdisplay (mode kms) in
     sys (G (GbmSurfaceCreate (gl_gbm e) w h)) (\<lambda>s.
     if rv s = 0 then say [S ''failed to create gbm surface''] (unmake_current e (-1)) else
     sys (G (EglCreateWindowSurface (gl_dpy e) (rv s))) (\<lambda>x.
     if rv x = 0 then say [S ''failed to create egl surface''] (unmake_current e (-1)) else
     sys (G (EglMakeCurrent (gl_dpy e) (rv x) (gl_ctx e))) (\<lambda>m.
     if rv m = 0 then say [S ''failed to make eglSurface['', D i, S ''] current''] (unmake_current e (-1)) else
     sys (G (EglSwapBuffers (gl_dpy e) (rv x))) (\<lambda>_.
     sys (G (LockFront (rv s))) (\<lambda>b.
     if rv b = 0 then say [S ''failed to lock front buffer''] (unmake_current e (-1)) else
     sys (AddFB (gl_fd e) w h (unum b 3) (unum b 2)) (\<lambda>a.
     if rv a \<noteq> 0 then say [S ''failed to create fb''] (unmake_current e (rv a)) else
     sys (G (ReleaseBuffer (rv s) (rv b))) (\<lambda>_. t2_show e kms c (unum a 0)))))))))"

definition drm_gl_test2 :: "int \<Rightarrow> byte list \<Rightarrow> (char \<times> byte list) list option \<Rightarrow> (unit, drm_call) io" where
  "drm_gl_test2 i name args = gl_open name args (\<lambda>fd kms c.
     gl_display fd (\<lambda>g d. gl_config fd g d (\<lambda>cfg. gl_context fd g d cfg [2] (\<lambda>e. t2_surface i e kms c))))"

section \<open>What is given back\<close>

abbreviation (input) nothing :: "kms_res set \<Rightarrow> bool" where
  "nothing H \<equiv> H = {}"

text \<open>The drawing loops and the steps around a crtc neither give nor take.\<close>

definition turns :: "kms_res set \<Rightarrow> ('s + 'b) res \<Rightarrow> drm_call history \<Rightarrow> bool" where
  "turns H x l \<longleftrightarrow> own H l \<and> (case x of Val y \<Rightarrow> isl y | Wait \<Rightarrow> True | _ \<Rightarrow> False)"

lemma turns_simps [simp]: "turns H (Val (Inl s)) = own H" "turns H Wait = own H"
  by (simp_all add: turns_def fun_eq_iff)

lemma own_loop:
  assumes l: "own H l" and body: "\<And>i s l. own H l \<Longrightarrow> wp (body i s) (turns H) K N l"
    and k: "\<And>x l. own H l \<Longrightarrow> wp (k x) (leaving R) K N l"
  shows "wp (bind (foreach xs body s) k) (leaving R) K N l"
proof (rule wp_bindI [where P = "\<lambda>x. own H"])
  show "wp (foreach xs body s) (seq (\<lambda>x. own H) (leaving R)) K N l"
    by (rule wp_foreach [where I = "\<lambda>s. own H", OF l])
      (auto intro!: wp_mono [OF body] simp: turns_def seq_def for_post_def split: res.splits sum.splits)
qed (rule k)

lemma dump_crtc_own: "own H l \<Longrightarrow> (\<And>l. own H l \<Longrightarrow> wp k Q K N l) \<Longrightarrow> wp (dump_crtc_configuration m c k) Q K N l"
  by (simp add: dump_crtc_configuration_def wp_say)

lemma calm_steps:
  assumes "own H l" "RFd fd \<in> H" and "\<And>l. own H l \<Longrightarrow> Q Wait l" and k: "\<And>r l. own H l \<Longrightarrow> wp (k r) Q K N l"
  shows "wp (sys (GetCrtc fd i) k) Q K N l" "wp (sys (SetCrtc fd i f x y con m) k) Q K N l"
    "wp (sys (DirtyFB fd f) k) Q K N l" "wp (sys (G (PageFlip fd i f b)) k) Q K N l"
  by (rule own_keep_step [OF assms(1)]; use assms in \<open>simp add: needs_def\<close>)+

lemma calm_steps':
  assumes "own H l" and "\<And>l. own H l \<Longrightarrow> Q Wait l" and k: "\<And>r l. own H l \<Longrightarrow> wp (k r) Q K N l"
  shows "wp (sys (FreeCrtc p) k) Q K N l" "wp (sys (P Getchar) k) Q K N l" "wp (sys (G (Gl nm as)) k) Q K N l"
    "wp (sys (G (Usleep n)) k) Q K N l"
  by (rule own_keep_step [OF assms(1)]; use assms in \<open>simp add: needs_def\<close>)+

lemma step_leaves:
  assumes K: "obeys K new_res" and l: "own (H \<union> takes c) l" "needs c \<subseteq> H \<union> takes c" "H \<inter> takes c = {}" "\<And>r. gives c r = {}"
    and k: "\<And>r l. own H l \<Longrightarrow> wp (k r) (leaving R) K N l"
  shows "wp (sys c k) (leaving R) K N l"
proof (rule own_step [OF K l(1,2)])
  show "leaving R Wait l" using l(1) by simp
  have eq: "(H \<union> takes c - takes c) \<union> gives c r = H" for r using l(3,4) by auto
  fix r assume "own ((H \<union> takes c - takes c) \<union> gives c r) (Ev c r # l)"
  then show "wp (k r) (leaving R) K N (Ev c r # l)" unfolding eq by (rule k)
qed

subsection \<open>drm_gl_test1a.c\<close>

lemma t1a_destroy_bo_leaves:
  assumes K: "obeys K new_res" and l: "own (insert (RGbo bo) (gl_res e)) l"
  shows "wp (t1a_destroy_bo e bo rt) (leaving nothing) K N l"
  unfolding t1a_destroy_bo_def
  by (rule step_leaves [OF K, where H = "gl_res e"])
    (use l in \<open>simp_all add: needs_def gl_res_def unmake_current_leaves [OF K]\<close>)

definition t1a_res :: "gl \<Rightarrow> int \<Rightarrow> int \<Rightarrow> uint32 \<Rightarrow> kms_res set" where
  "t1a_res e bo im fb = insert (RFb fb) (some_res RImg im \<union> insert (RGbo bo) (gl_res e))"

lemma t1a_rm_fb_leaves:
  assumes K: "obeys K new_res" and l: "own (t1a_res e bo im fb) l"
  shows "wp (t1a_rm_fb e bo im (Some fb) rt) (leaving nothing) K N l"
proof -
  have 1: "wp (sys (G (EglDestroyImage (gl_dpy e) im)) (\<lambda>_. t1a_destroy_bo e bo rt)) (leaving nothing) K N l"
    if "own (some_res RImg im \<union> insert (RGbo bo) (gl_res e)) l" for l
    by (rule step_leaves [OF K, where H = "insert (RGbo bo) (gl_res e)"])
      (use that in \<open>simp_all add: Un_commute needs_def gl_res_def some_res_def t1a_destroy_bo_leaves [OF K]\<close>)
  show ?thesis
    unfolding t1a_rm_fb_def option.case
    by (rule step_leaves [OF K, where H = "some_res RImg im \<union> insert (RGbo bo) (gl_res e)"])
      (use l in \<open>simp_all add: t1a_res_def needs_def gl_res_def some_res_def 1\<close>)
qed

lemma t1a_free_crtc_leaves:
  assumes K: "obeys K new_res" and l: "own (t1a_res e bo im fb) l"
  shows "wp (t1a_free_crtc e s bo im fb rt) (leaving nothing) K N l"
proof -
  show ?thesis
    unfolding t1a_free_crtc_def t1a_rm_rb_def
    by (intro calm_steps'(1) [OF l] gl_calls_own [where H = "t1a_res e bo im fb"]) (simp_all add: t1a_rm_fb_leaves [OF K])
qed

lemma t1a_show_leaves:
  assumes K: "obeys K new_res" and l: "own (t1a_res e bo im fb) l"
  shows "wp (t1a_show e kms c bo im fb) (leaving nothing) K N l"
proof -
  let ?H = "t1a_res e bo im fb"
  have fd: "RFd (gl_fd e) \<in> ?H" by (simp add: t1a_res_def gl_res_def)
  have draw: "wp (t1a_frame e w h fb i u) (turns ?H) K N l"
    if "own ?H l" for w h i u l
    unfolding t1a_frame_def
    by (intro render_stuff_own [OF that] calm_steps [where H = ?H] calm_steps' [where H = ?H]) (simp_all add: fd wp_say wp_ret)
  show ?thesis
    unfolding t1a_show_def Let_def
    by (intro calm_steps [where H = ?H] calm_steps' [where H = ?H] wp_ifI wp_say [THEN iffD2] dump_crtc_own [where H = ?H] gl_calls_own [where H = ?H]
        own_loop [where H = ?H])
      (simp_all add: l fd draw t1a_rm_fb_leaves [OF K] t1a_free_crtc_leaves [OF K])
qed

text \<open>A call that may give an object.\<close>

lemma gives_step:
  assumes K: "obeys K new_res" and l: "own H l" "needs c \<subseteq> H" "takes c = {}"
    and k: "\<And>r l. own (gives c r \<union> H) l \<Longrightarrow> gives c r \<inter> H = {} \<Longrightarrow> wp (k r) (leaving R) K N l"
  shows "wp (sys c k) (leaving R) K N l"
  by (rule own_step [OF K l(1,2)]) (use l k in \<open>auto simp: Un_commute\<close>)

lemma t1a_buffer_leaves:
  assumes K: "obeys K new_res" and l: "own (gl_res e) l"
  shows "wp (t1a_buffer e kms c) (leaving nothing) K N l"
proof -
  let ?H = "gl_res e" and ?B = "\<lambda>b. insert (RGbo b) (gl_res e)" and ?I = "\<lambda>b m. some_res RImg m \<union> insert (RGbo b) (gl_res e)"
  have fb: "wp (sys (AddFB (gl_fd e) w h x y) (\<lambda>a.
      if rv a \<noteq> 0 then perror msg (t1a_rm_rb e b m None (rv a)) else t1a_show e kms c b m (unum a 0))) (leaving nothing) K N l"
    if l: "own (?I b m) l" for w h x y msg b m l
  proof (rule gives_step [OF K l])
    fix a l1 assume a: "own (gives (AddFB (gl_fd e) w h x y) a \<union> ?I b m) l1"
    have "wp (t1a_rm_rb e b m None (rv a)) (leaving nothing) K N l1" if "own (?I b m) l1" for l1
      unfolding t1a_rm_rb_def t1a_rm_fb_def by (rule gl_calls_own [OF that]) (simp_all add: wp_fault)
    moreover have "rv a = 0 \<Longrightarrow> own (t1a_res e b m (unum a 0)) l1" "rv a \<noteq> 0 \<Longrightarrow> own (?I b m) l1"
      using a by (simp_all add: t1a_res_def insert_commute [of "RFb (unum a 0)"])
    ultimately show "wp (if rv a \<noteq> 0 then perror msg (t1a_rm_rb e b m None (rv a)) else t1a_show e kms c b m (unum a 0))
        (leaving nothing) K N l1"
      using t1a_show_leaves [OF K] by (simp add: wp_say)
  qed (simp_all add: needs_def gl_res_def)
  have image: "wp (sys (G (EglCreateImage (gl_dpy e) b)) (\<lambda>m.
      if rv m = 0 then say os (t1a_destroy_bo e b rt) else
      if p = 0 then fault er else
      sys (G (Gl nm [rv m])) (\<lambda>_. sys (AddFB (gl_fd e) w h x y) (\<lambda>a.
      if rv a \<noteq> 0 then perror msg (t1a_rm_rb e b (rv m) None (rv a)) else t1a_show e kms c b (rv m) (unum a 0)))))
      (leaving nothing) K N l"
    if l: "own (?B b) l" for w h x y msg nm p er os rt b l
  proof (rule gives_step [OF K l])
    fix m l1 assume "own (gives (G (EglCreateImage (gl_dpy e) b)) m \<union> ?B b) l1"
    then have m: "own (?I b (rv m)) l1" by simp
    show "wp (if rv m = 0 then say os (t1a_destroy_bo e b rt) else
      if p = 0 then fault er else
      sys (G (Gl nm [rv m])) (\<lambda>_. sys (AddFB (gl_fd e) w h x y) (\<lambda>a.
      if rv a \<noteq> 0 then perror msg (t1a_rm_rb e b (rv m) None (rv a)) else t1a_show e kms c b (rv m) (unum a 0))))
      (leaving nothing) K N l1"
      by (intro wp_ifI wp_say [THEN iffD2] wp_fault [THEN iffD2] calm_steps' [OF m] fb)
        (use m in \<open>simp_all add: t1a_destroy_bo_leaves [OF K] some_res_def\<close>)
  qed (simp_all add: needs_def)
  have bo: "wp (sys (G (GbmBoCreate (gl_gbm e) w h)) k) (leaving nothing) K N l"
    if l: "own ?H l" and k: "\<And>b l. own (some_res RGbo (rv b) \<union> ?H) l \<Longrightarrow> wp (k b) (leaving nothing) K N l" for w h k l
    by (rule gives_step [OF K l]) (simp_all add: needs_def gl_res_def k)
  show ?thesis
    unfolding t1a_buffer_def Let_def
    by (intro calm_steps' [OF l] gl_calls_own [where H = ?H] bo wp_ifI wp_say [THEN iffD2] image)
      (simp_all add: l some_res_def unmake_current_leaves [OF K])
qed

lemma drm_gl_test1a_leaves:
  assumes K: "obeys K new_res"
  shows "wp drm_gl_test1a (leaving nothing) K N []"
  unfolding drm_gl_test1a_def
  by (intro gl_open_leaves [OF K] gl_display_leaves [OF K] gl_context_leaves [OF K] t1a_buffer_leaves [OF K]) simp_all

subsection \<open>drm_gl_test1b.c\<close>

text \<open>What a frame holds; two frames.\<close>

definition t1b_res :: "t1b_frame \<Rightarrow> kms_res set" where
  "t1b_res f = {RGbo (tb_bo f)} \<union> some_res RImg (tb_image f) \<union> (case tb_fb f of None \<Rightarrow> {} | Some a \<Rightarrow> {RFb a})"

definition t1b_all :: "gl \<Rightarrow> t1b_frame list \<Rightarrow> kms_res set" where
  "t1b_all e fs = \<Union> (set (map t1b_res fs)) \<union> gl_res e"

text \<open>The second buffer object cannot be created: the first frame is lost.\<close>

definition one_frame :: "kms_res set \<Rightarrow> bool" where
  "one_frame H \<longleftrightarrow> H = {} \<or> (\<exists>f. H = t1b_res f)"

lemma one_frame_simps [simp]: "one_frame {}" "one_frame (t1b_res f)"
  by (auto simp: one_frame_def)

lemma t1b_destroy_leaves:
  assumes K: "obeys K new_res" and ne: "t1b_res f \<inter> t1b_res g = {}" and nofb: "tb_fb f = None" "tb_fb g = None"
    and l: "own (t1b_res f \<union> t1b_res g \<union> gl_res e) l"
  shows "wp (t1b_destroy_bos e f g rt) (leaving one_frame) K N l"
proof -
  have neq: "tb_bo f \<noteq> tb_bo g" "some_res RImg (tb_image f) \<inter> some_res RImg (tb_image g) = {}"
    using ne by (auto simp: t1b_res_def)
  have 4: "wp (sys (G (GbmBoDestroy (tb_bo g))) (\<lambda>_. unmake_current e rt)) (leaving one_frame) K N l"
    if "own (gl_res e \<union> {RGbo (tb_bo g)}) l" for l
    by (rule step_leaves [OF K, where H = "gl_res e"])
      (use that in \<open>simp_all add: needs_def gl_res_def unmake_current_leaves [OF K]\<close>)
  have 3: "wp (sys (G (GbmBoDestroy (tb_bo f))) (\<lambda>_. sys (G (GbmBoDestroy (tb_bo g))) (\<lambda>_. unmake_current e rt)))
      (leaving one_frame) K N l" if "own (gl_res e \<union> {RGbo (tb_bo g)} \<union> {RGbo (tb_bo f)}) l" for l
    by (rule step_leaves [OF K, where H = "gl_res e \<union> {RGbo (tb_bo g)}"])
      (use that neq in \<open>simp_all add: needs_def gl_res_def 4 insert_commute\<close>)
  have 2: "wp (sys (G (EglDestroyImage (gl_dpy e) (tb_image g))) (\<lambda>_. sys (G (GbmBoDestroy (tb_bo f)))
      (\<lambda>_. sys (G (GbmBoDestroy (tb_bo g))) (\<lambda>_. unmake_current e rt)))) (leaving one_frame) K N l"
    if "own (gl_res e \<union> {RGbo (tb_bo g)} \<union> {RGbo (tb_bo f)} \<union> some_res RImg (tb_image g)) l" for l
    by (rule step_leaves [OF K, where H = "gl_res e \<union> {RGbo (tb_bo g)} \<union> {RGbo (tb_bo f)}"])
      (use that 3 in \<open>auto simp: needs_def gl_res_def some_res_def\<close>)
  have eq: "t1b_res f \<union> t1b_res g \<union> gl_res e =
      (gl_res e \<union> {RGbo (tb_bo g)} \<union> {RGbo (tb_bo f)} \<union> some_res RImg (tb_image g)) \<union> some_res RImg (tb_image f)"
    using nofb by (auto simp: t1b_res_def)
  show ?thesis
    unfolding t1b_destroy_bos_def
  proof (rule step_leaves [OF K, where H = "gl_res e \<union> {RGbo (tb_bo g)} \<union> {RGbo (tb_bo f)} \<union> some_res RImg (tb_image g)"])
    show "own (gl_res e \<union> {RGbo (tb_bo g)} \<union> {RGbo (tb_bo f)} \<union> some_res RImg (tb_image g) \<union>
        takes (G (EglDestroyImage (gl_dpy e) (tb_image f)))) l"
      using l unfolding eq by simp
  qed (use neq 2 in \<open>auto simp: needs_def gl_res_def some_res_def split: if_splits\<close>)
qed

lemma t1b_rm_fb_leaves:
  assumes K: "obeys K new_res" and ne: "t1b_res f \<inter> t1b_res g = {}" and fb: "tb_fb f = Some a" "tb_fb g = Some b"
    and l: "own (t1b_res f \<union> t1b_res g \<union> gl_res e) l"
  shows "wp (t1b_rm_fb e [f, g] rt) (leaving one_frame) K N l"
proof -
  let ?f = "f\<lparr>tb_fb := None\<rparr>" and ?g = "g\<lparr>tb_fb := None\<rparr>"
  have f: "t1b_res f = insert (RFb a) (t1b_res ?f)" "t1b_res g = insert (RFb b) (t1b_res ?g)" "RFb x \<notin> t1b_res ?f" "RFb x \<notin> t1b_res ?g" for x
    using fb by (auto simp: t1b_res_def some_res_def)
  have ne': "t1b_res ?f \<inter> t1b_res ?g = {}" "a \<noteq> b" using ne f by auto
  have same: "t1b_destroy_bos e f g rt = t1b_destroy_bos e ?f ?g rt" by (simp add: t1b_destroy_bos_def)
  have 2: "wp (sys (RmFB (gl_fd e) b) (\<lambda>_. t1b_destroy_bos e f g rt)) (leaving one_frame) K N l"
    if "own (t1b_res ?f \<union> t1b_res ?g \<union> gl_res e \<union> {RFb b}) l" for l
    unfolding same
    by (rule step_leaves [OF K, where H = "t1b_res ?f \<union> t1b_res ?g \<union> gl_res e"])
      (use that f t1b_destroy_leaves [OF K ne'(1)] in \<open>auto simp: needs_def gl_res_def\<close>)
  have eq: "t1b_res f \<union> t1b_res g \<union> gl_res e = (t1b_res ?f \<union> t1b_res ?g \<union> gl_res e \<union> {RFb b}) \<union> {RFb a}"
    using f by auto
  show ?thesis
    unfolding t1b_rm_fb_def list.case fb option.case
  proof (rule step_leaves [OF K, where H = "t1b_res ?f \<union> t1b_res ?g \<union> gl_res e \<union> {RFb b}"])
    show "own (t1b_res ?f \<union> t1b_res ?g \<union> gl_res e \<union> {RFb b} \<union> takes (RmFB (gl_fd e) a)) l"
      using l unfolding eq by simp
  qed (use f ne' 2 in \<open>auto simp: needs_def gl_res_def\<close>)
qed

lemma t1b_show_leaves:
  assumes K: "obeys K new_res" and ne: "t1b_res f \<inter> t1b_res g = {}" and fb: "tb_fb f = Some a" "tb_fb g = Some b"
    and l: "own (t1b_res f \<union> t1b_res g \<union> gl_res e) l"
  shows "wp (t1b_show e kms c [f, g] fbs) (leaving one_frame) K N l"
proof -
  let ?H = "t1b_res f \<union> t1b_res g \<union> gl_res e"
  have fd: "RFd (gl_fd e) \<in> gl_res e" by (simp add: gl_res_def)
  note rm = t1b_rm_fb_leaves [OF K ne fb]
  have free: "wp (t1b_free_crtc e s [f, g] rt) (leaving one_frame) K N l" if "own ?H l" for s rt l
    unfolding t1b_free_crtc_def t1b_rm_rb_def
    by (intro calm_steps'(1) [OF that] gl_calls_own [where H = ?H]) (simp_all add: rm)
  have draw: "wp (t1b_frame_turn e kms c fbs i cur) (turns ?H) K N l" if "own ?H l" for i cur l
    unfolding t1b_frame_turn_def Let_def
    by (intro gl_calls_own [OF that] calm_steps [where H = ?H] calm_steps' [where H = ?H] render_stuff_own [where H = ?H]
        wp_ifI wp_say [THEN iffD2] wp_ret [THEN iffD2]) (simp_all add: fd)
  show ?thesis
    unfolding t1b_show_def Let_def
    by (intro calm_steps [where H = ?H] wp_ifI wp_say [THEN iffD2] dump_crtc_own [where H = ?H] own_loop [where H = ?H])
      (simp_all add: l fd draw rm free)
qed

text \<open>The set-up of the frames: those that are complete are owned, and no two share anything.\<close>

definition t1b_made :: "gl \<Rightarrow> t1b_frame list \<Rightarrow> drm_call history \<Rightarrow> bool" where
  "t1b_made e fs l \<longleftrightarrow> own (t1b_all e fs) l \<and> (\<forall>f\<in>set fs. tb_fb f \<noteq> None) \<and>
     (\<forall>i<length fs. \<forall>j<i. t1b_res (fs ! i) \<inter> t1b_res (fs ! j) = {})"

text \<open>How the set-up ends when it does not succeed.\<close>

definition t1b_failed :: "gl \<Rightarrow> nat \<Rightarrow> (t1b_frame list + int option \<times> t1b_frame list) res \<Rightarrow> drm_call history \<Rightarrow> bool" where
  "t1b_failed e i x l \<longleftrightarrow> (case x of
     Val (Inl fs) \<Rightarrow> t1b_made e fs l \<and> length fs = Suc i
   | Val (Inr (None, fs)) \<Rightarrow> t1b_made e fs l \<and> length fs = i
   | Val (Inr (Some rt, fs)) \<Rightarrow> (\<exists>H. own H l \<and> RFd (gl_fd e) \<in> H \<and> (\<forall>f\<in>set fs. \<forall>a. tb_fb f = Some a \<longrightarrow> RFb a \<in> H)) \<and>
       length fs = Suc i \<and> tb_fb (last fs) = None
   | Exit n \<Rightarrow> False
   | _ \<Rightarrow> proper l)"

lemma t1b_buffer_step:
  assumes K: "obeys K new_res" and l: "t1b_made e fs l" and i: "length fs = i"
  shows "wp (t1b_buffer e p w h i fs) (t1b_failed e i) K N l"
proof -
  let ?H = "t1b_all e fs"
  have own: "own ?H l" using l by (simp add: t1b_made_def)
  have in_H: "RFd (gl_fd e) \<in> ?H" "RGbm (gl_gbm e) \<in> ?H" by (auto simp: t1b_all_def gl_res_def)
  have waits: "own H l1 \<Longrightarrow> t1b_failed e i Wait l1" "own H l1 \<Longrightarrow> t1b_failed e i (Fault er) l1" for H l1 er
    by (simp_all add: t1b_failed_def own_def)
  have addfb: "wp (sys (AddFB (gl_fd e) w h x y) (\<lambda>a.
      if rv a \<noteq> 0 then say os (ret (Inr (Some (rv a), fs @ [\<lparr>tb_bo = b, tb_image = m, tb_fb = None\<rparr>])))
      else ret (Inl (fs @ [\<lparr>tb_bo = b, tb_image = m, tb_fb = Some (unum a 0)\<rparr>])))) (t1b_failed e i) K N l1"
    if l1: "own (some_res RImg m \<union> ({RGbo b} \<union> ?H)) l1" and new: "some_res RImg m \<inter> ?H = {}" "RGbo b \<notin> ?H" for x y os b m l1
  proof (rule own_step [OF K l1])
    let ?X = "some_res RImg m \<union> ({RGbo b} \<union> ?H)" and ?c = "AddFB (gl_fd e) w h x y"
    fix a assume a: "gives ?c a \<inter> ?X = {}" "own (?X - takes ?c \<union> gives ?c a) (Ev ?c a # l1)"
    have bad: "t1b_failed e i (Val (Inr (Some (rv a), fs @ [\<lparr>tb_bo = b, tb_image = m, tb_fb = None\<rparr>]))) (Out os # Ev ?c a # l1)"
      if "rv a \<noteq> 0"
    proof -
      have "own ?X (Ev ?c a # l1)" using a(2) that by simp
      moreover have "RFd (gl_fd e) \<in> ?X" using in_H by simp
      moreover have "RFb v \<in> ?X" if "f \<in> set fs" "tb_fb f = Some v" for f v
        using that by (auto simp: t1b_all_def t1b_res_def intro!: bexI [of _ f])
      ultimately show ?thesis
        using i unfolding t1b_failed_def by (auto simp: own_Out simp del: Un_iff intro!: exI [of _ ?X])
    qed
    have good: "t1b_failed e i (Val (Inl (fs @ [\<lparr>tb_bo = b, tb_image = m, tb_fb = Some (unum a 0)\<rparr>]))) (Ev ?c a # l1)"
      if "rv a = 0"
    proof -
      let ?f = "\<lparr>tb_bo = b, tb_image = m, tb_fb = Some (unum a 0)\<rparr>"
      have "t1b_all e (fs @ [?f]) = ?X - takes ?c \<union> gives ?c a"
        using that by (auto simp: t1b_all_def t1b_res_def)
      then have 1: "own (t1b_all e (fs @ [?f])) (Ev ?c a # l1)" using a(2) by simp
      have "t1b_res ?f \<inter> ?H = {}" using new a(1) that by (auto simp: t1b_res_def)
      then have "t1b_res ?f \<inter> t1b_res (fs ! j) = {}" if "j < length fs" for j
      proof -
        have "t1b_res (fs ! j) \<subseteq> ?H" using that unfolding t1b_all_def by (auto intro!: bexI [of _ "fs ! j"])
        then show ?thesis using \<open>t1b_res ?f \<inter> ?H = {}\<close> by blast
      qed
      then show ?thesis
        using 1 l i by (auto simp: t1b_failed_def t1b_made_def nth_append less_Suc_eq)
    qed
    show "wp (if rv a \<noteq> 0 then say os (ret (Inr (Some (rv a), fs @ [\<lparr>tb_bo = b, tb_image = m, tb_fb = None\<rparr>])))
      else ret (Inl (fs @ [\<lparr>tb_bo = b, tb_image = m, tb_fb = Some (unum a 0)\<rparr>]))) (t1b_failed e i) K N (Ev ?c a # l1)"
      using bad good by (simp add: wp_say wp_ret)
  qed (use in_H l1 in \<open>auto simp: needs_def intro: waits\<close>)
  have image: "wp (sys (G (EglCreateImage (gl_dpy e) b)) (\<lambda>m.
      if p = 0 then fault er else
      sys (G (Gl nm [rv m])) (\<lambda>_. sys (AddFB (gl_fd e) w h x y) (\<lambda>a.
      if rv a \<noteq> 0 then say os (ret (Inr (Some (rv a), fs @ [\<lparr>tb_bo = b, tb_image = rv m, tb_fb = None\<rparr>])))
      else ret (Inl (fs @ [\<lparr>tb_bo = b, tb_image = rv m, tb_fb = Some (unum a 0)\<rparr>])))))) (t1b_failed e i) K N l1"
    if l1: "own ({RGbo b} \<union> ?H) l1" and new: "RGbo b \<notin> ?H" for x y os nm er b l1
  proof (rule own_step [OF K l1])
    let ?c = "G (EglCreateImage (gl_dpy e) b)"
    fix m assume m: "gives ?c m \<inter> ({RGbo b} \<union> ?H) = {}" "own ({RGbo b} \<union> ?H - takes ?c \<union> gives ?c m) (Ev ?c m # l1)"
    have m': "own (some_res RImg (rv m) \<union> ({RGbo b} \<union> ?H)) (Ev ?c m # l1)" "some_res RImg (rv m) \<inter> ?H = {}"
      using m by (auto simp: Un_commute Un_left_commute)
    show "wp (if p = 0 then fault er else
      sys (G (Gl nm [rv m])) (\<lambda>_. sys (AddFB (gl_fd e) w h x y) (\<lambda>a.
      if rv a \<noteq> 0 then say os (ret (Inr (Some (rv a), fs @ [\<lparr>tb_bo = b, tb_image = rv m, tb_fb = None\<rparr>])))
      else ret (Inl (fs @ [\<lparr>tb_bo = b, tb_image = rv m, tb_fb = Some (unum a 0)\<rparr>]))))) (t1b_failed e i) K N (Ev ?c m # l1)"
      by (intro wp_ifI wp_fault [THEN iffD2] calm_steps' [OF m'(1)] addfb waits [OF m'(1)]) (use m' new in \<open>simp_all add: waits\<close>)
  qed (use l1 in \<open>auto simp: needs_def intro: waits\<close>)
  have bo: "wp (sys (G (GbmBoCreate (gl_gbm e) w h)) (\<lambda>b.
      if rv b = 0 then say os (ret (Inr (None, fs))) else k b)) (t1b_failed e i) K N l1"
    if l1: "own ?H l1" and k: "\<And>b l. own ({RGbo (rv b)} \<union> ?H) l \<Longrightarrow> RGbo (rv b) \<notin> ?H \<Longrightarrow> wp (k b) (t1b_failed e i) K N l" for os k l1
  proof (rule own_step [OF K l1])
    let ?c = "G (GbmBoCreate (gl_gbm e) w h)"
    fix b assume b: "gives ?c b \<inter> ?H = {}" "own (?H - takes ?c \<union> gives ?c b) (Ev ?c b # l1)"
    then have "rv b = 0 \<Longrightarrow> t1b_failed e i (Val (Inr (None, fs))) (Out os # Ev ?c b # l1)"
      using l i by (simp add: t1b_failed_def t1b_made_def some_res_def)
    then show "wp (if rv b = 0 then say os (ret (Inr (None, fs))) else k b) (t1b_failed e i) K N (Ev ?c b # l1)"
      using b k by (cases "rv b = 0") (simp_all add: wp_say wp_ret some_res_def)
  qed (use l1 in_H in \<open>auto simp: needs_def intro: waits\<close>)
  show ?thesis
    unfolding t1b_buffer_def
    by (intro gl_calls_own [OF own] bo image) (simp_all add: waits)
qed

lemma t1b_run_leaves:
  assumes K: "obeys K new_res" and l: "own (gl_res e) l"
  shows "wp (t1b_run e kms c) (leaving one_frame) K N l"
proof -
  let ?w = "hdisplay (mode kms)" and ?h = "vdisplay (mode kms)"
  have start: "t1b_made e [] l" if "own (gl_res e) l" for l
    using that by (simp add: t1b_made_def t1b_all_def)
  have none: "wp (unmake_current e rt) (leaving one_frame) K N l1" if "t1b_made e fs l1" "length fs \<le> 1" for fs rt l1
  proof -
    have "t1b_all e fs - gl_res e = {} \<or> (\<exists>f. t1b_all e fs - gl_res e = t1b_res f)"
    proof (cases fs)
      case (Cons f fs')
      have "t1b_res f \<inter> gl_res e = {}"
        by (auto simp: t1b_res_def gl_res_def some_res_def split: option.splits)
      then show ?thesis using Cons that(2) by (auto simp: t1b_all_def)
    qed (simp add: t1b_all_def)
    then have "one_frame (t1b_all e fs - gl_res e)" by (auto simp: one_frame_def)
    moreover have "own (t1b_all e fs) l1" "gl_res e \<subseteq> t1b_all e fs"
      using that(1) by (auto simp: t1b_made_def t1b_all_def)
    ultimately show ?thesis by (intro unmake_current_leaves [OF K])
  qed
  have uninit: "wp (t1b_rm_rb e fs rt) (leaving one_frame) K N l1"
    if l1: "own H l1" "RFd (gl_fd e) \<in> H" "\<forall>f\<in>set fs. \<forall>a. tb_fb f = Some a \<longrightarrow> RFb a \<in> H" and fs: "length fs = Suc i" "i < 2" "tb_fb (last fs) = None"
    for fs rt H i l1
  proof -
    have "wp (t1b_rm_fb e fs rt) (leaving one_frame) K N l2" if l2: "own H l2" for l2
    proof (cases i)
      case 0
      then obtain f where "fs = [f]" using fs(1) by (auto simp: length_Suc_conv)
      then show ?thesis using fs(3) l2 by (simp add: t1b_rm_fb_def wp_fault)
    next
      case (Suc k)
      then have "length fs = Suc (Suc 0)" using fs(1,2) by simp
      then obtain f g where fg: "fs = [f, g]" by (auto simp: length_Suc_conv)
      show ?thesis
      proof (cases "tb_fb f")
        case (Some a)
        have "wp (sys (RmFB (gl_fd e) a) (\<lambda>_. fault er)) (leaving one_frame) K N l2" for er
          by (rule own_step [OF K l2]) (use l1(2,3) l2 fg Some in \<open>auto simp: needs_def wp_fault\<close>)
        then show ?thesis using fg fs(3) Some by (simp add: t1b_rm_fb_def)
      qed (use fg l2 in \<open>simp add: t1b_rm_fb_def wp_fault\<close>)
    qed
    then show ?thesis
      unfolding t1b_rm_rb_def by (intro gl_calls_own [OF l1(1)]) simp_all
  qed
  have displays: "wp (t1b_show e kms c fs fbs) (leaving one_frame) K N l1" if made: "t1b_made e fs l1" "length fs = 2" for fs fbs l1
  proof -
    obtain f g where fg: "fs = [f, g]" using made(2) by (auto simp: length_Suc_conv numeral_2_eq_2)
    obtain a b where "tb_fb f = Some a" "tb_fb g = Some b" using made(1) fg by (auto simp: t1b_made_def)
    moreover have "t1b_res f \<inter> t1b_res g = {}" using made(1) fg by (auto simp: t1b_made_def less_Suc_eq)
    ultimately show ?thesis
      using made(1) fg unfolding fg by (intro t1b_show_leaves [OF K]) (auto simp: t1b_made_def t1b_all_def Un_assoc)
  qed
  have frames: "wp (bind (foreach [0..<2] (t1b_buffer e p ?w ?h) []) (\<lambda>x. case x of
       Inr (None, fs) \<Rightarrow> unmake_current e (-1)
     | Inr (Some rt, fs) \<Rightarrow> t1b_rm_rb e fs rt
     | Inl fs \<Rightarrow> t1b_show e kms c fs (fbs fs))) (leaving one_frame) K N l1" if "own (gl_res e) l1" for p fbs l1
  proof -
    let ?P = "\<lambda>x l. case x of Inl fs \<Rightarrow> t1b_made e fs l \<and> length fs = 2 | Inr y \<Rightarrow> (\<exists>i<2. t1b_failed e i (Val (Inr y)) l)"
    have "wp (foreach [0..<2] (t1b_buffer e p ?w ?h) []) (seq ?P (leaving one_frame)) K N l1"
    proof (rule wp_for [where I = "\<lambda>i fs l. t1b_made e fs l \<and> length fs = i"])
      fix i fs l assume "0 \<le> i" "i < (2 :: nat)" "t1b_made e fs l \<and> length fs = i"
      then show "wp (t1b_buffer e p ?w ?h i fs) (seq (for_post (\<lambda>fs l. t1b_made e fs l \<and> length fs = Suc i)
          (seq ?P (leaving one_frame))) (seq ?P (leaving one_frame))) K N l"
        by (intro wp_mono [OF t1b_buffer_step [OF K]])
          (auto simp: t1b_failed_def seq_def for_post_def leaving_def split: res.splits sum.splits option.splits)
    qed (use start [OF that] in simp_all)
    then show ?thesis
      by (rule wp_bindI)
        (auto simp: t1b_failed_def split: sum.splits option.splits intro: displays none uninit)
  qed
  show ?thesis
    unfolding t1b_run_def
    by (intro calm_steps' [OF l] gl_calls_own [where H = "gl_res e"] frames) (simp_all add: l)
qed

lemma drm_gl_test1b_leaves:
  assumes K: "obeys K new_res"
  shows "wp drm_gl_test1b (leaving one_frame) K N []"
  unfolding drm_gl_test1b_def
  by (intro gl_open_leaves [OF K] gl_display_leaves [OF K] gl_context_leaves [OF K] t1b_run_leaves [OF K]) simp_all

subsection \<open>drm_gl_test2.c\<close>

text \<open>Surfaces, perhaps with a locked buffer, which no label gives back.\<close>

definition surfaces :: "kms_res set \<Rightarrow> bool" where
  "surfaces H \<longleftrightarrow> (\<exists>s x b. H \<subseteq> {RSurf s, RWin x, RLock b})"

lemma surfaces_simps [simp]:
  "surfaces {}" "surfaces (some_res RSurf s)" "surfaces (some_res RWin x \<union> some_res RSurf s)"
  "surfaces (some_res RLock b \<union> (some_res RWin x \<union> some_res RSurf s))"
  by (auto simp: surfaces_def some_res_def)

lemma unmake_surfaces:
  assumes K: "obeys K new_res" and l: "own (E \<union> gl_res e) l" and E: "surfaces E" "E \<inter> gl_res e = {}"
  shows "wp (unmake_current e rt) (leaving surfaces) K N l"
proof (rule unmake_current_leaves [OF K l])
  have "E \<union> gl_res e - gl_res e = E" using E(2) by auto
  then show "surfaces (E \<union> gl_res e - gl_res e)" using E(1) by simp
qed simp

lemma surfaces_apart [simp]: "some_res RSurf s \<inter> gl_res e = {}" "some_res RWin x \<inter> gl_res e = {}" "some_res RLock b \<inter> gl_res e = {}"
  by (auto simp: some_res_def gl_res_def)

lemma t2_show_leaves:
  assumes K: "obeys K new_res" and E: "surfaces E" "E \<inter> gl_res e = {}" "RFb fb \<notin> E" and l: "own (E \<union> gl_res e \<union> {RFb fb}) l"
  shows "wp (t2_show e kms c fb) (leaving surfaces) K N l"
proof -
  let ?H = "E \<union> gl_res e \<union> {RFb fb}"
  have fd: "RFd (gl_fd e) \<in> gl_res e" by (simp add: gl_res_def)
  have rm: "wp (t2_rm_fb e fb rt) (leaving surfaces) K N l" if "own ?H l" for rt l
    unfolding t2_rm_fb_def
    by (rule step_leaves [OF K, where H = "E \<union> gl_res e"])
      (use that E in \<open>auto simp: needs_def gl_res_def intro!: unmake_surfaces [OF K, of E, unfolded gl_res_def]\<close>)
  have free: "wp (t2_free_crtc e s fb rt) (leaving surfaces) K N l" if "own ?H l" for s rt l
    unfolding t2_free_crtc_def by (intro calm_steps'(1) [OF that] rm) simp_all
  have draw: "wp (t2_frame e w h fb i u) (turns ?H) K N l" if "own ?H l" for w h i u l
    unfolding t2_frame_def
    by (intro render_stuff_own [OF that] wp_say [THEN iffD2] wp_ret [THEN iffD2] calm_steps [where H = ?H] calm_steps' [where H = ?H])
      (simp_all add: fd)
  show ?thesis
    unfolding t2_show_def Let_def
    by (intro calm_steps [where H = ?H] wp_ifI wp_say [THEN iffD2] dump_crtc_own [where H = ?H] own_loop [where H = ?H])
      (use l draw rm free fd in \<open>simp_all\<close>)
qed

lemma t2_surface_leaves:
  assumes K: "obeys K new_res" and l: "own (gl_res e) l"
  shows "wp (t2_surface i e kms c) (leaving surfaces) K N l"
proof -
  let ?w = "hdisplay (mode kms)" and ?h = "vdisplay (mode kms)"
  let ?S = "\<lambda>s. {RSurf s}" and ?W = "\<lambda>x s. {RWin x, RSurf s}" and ?L = "\<lambda>b x s. {RLock b, RWin x, RSurf s}"
  have S: "surfaces (?S s)" "surfaces (?W x s)" "surfaces (?L b x s)" for s x b by (auto simp: surfaces_def)
  have fb: "wp (sys (AddFB (gl_fd e) ?w ?h y z) (\<lambda>a.
     if rv a \<noteq> 0 then say os (unmake_current e (rv a)) else
     sys (G (ReleaseBuffer s b)) (\<lambda>_. t2_show e kms c (unum a 0)))) (leaving surfaces) K N l"
    if l: "own (?L b x s \<union> gl_res e) l" for y z os b x s l
  proof (rule gives_step [OF K l])
    fix a l1 assume a: "own (gives (AddFB (gl_fd e) ?w ?h y z) a \<union> (?L b x s \<union> gl_res e)) l1"
      "gives (AddFB (gl_fd e) ?w ?h y z) a \<inter> (?L b x s \<union> gl_res e) = {}"
    have "wp (sys (G (ReleaseBuffer s b)) (\<lambda>_. t2_show e kms c f)) (leaving surfaces) K N l1"
      if "own (insert (RFb f) (?L b x s \<union> gl_res e)) l1" for f
    proof (rule step_leaves [OF K])
      show "own (?W x s \<union> gl_res e \<union> {RFb f} \<union> takes (G (ReleaseBuffer s b))) l1"
        using that by (simp add: insert_commute)
      show "wp (t2_show e kms c f) (leaving surfaces) K N l" if "own (?W x s \<union> gl_res e \<union> {RFb f}) l" for l
        by (rule t2_show_leaves [OF K _ _ _ that]) (auto simp: S gl_res_def)
    qed (auto simp: needs_def gl_res_def)
    moreover have "wp (unmake_current e rt) (leaving surfaces) K N l1" if "own (?L b x s \<union> gl_res e) l1" for rt l1
      by (rule unmake_surfaces [OF K that]) (auto simp: S gl_res_def)
    ultimately show "wp (if rv a \<noteq> 0 then say os (unmake_current e (rv a)) else
       sys (G (ReleaseBuffer s b)) (\<lambda>_. t2_show e kms c (unum a 0))) (leaving surfaces) K N l1"
      using a by (cases "rv a = 0") (simp_all add: wp_say insert_commute [of _ "RFb (unum a 0)"])
  qed (simp_all add: needs_def gl_res_def)
  have lock: "wp (sys (G (LockFront s)) (\<lambda>b.
     if rv b = 0 then say os (unmake_current e (-1)) else
     sys (AddFB (gl_fd e) ?w ?h (unum b 3) (unum b 2)) (\<lambda>a.
     if rv a \<noteq> 0 then say os' (unmake_current e (rv a)) else
     sys (G (ReleaseBuffer s (rv b))) (\<lambda>_. t2_show e kms c (unum a 0))))) (leaving surfaces) K N l"
    if l: "own (?W x s \<union> gl_res e) l" for os os' x s l
  proof (rule gives_step [OF K l])
    fix b l1 assume b: "own (gives (G (LockFront s)) b \<union> (?W x s \<union> gl_res e)) l1"
    have "wp (unmake_current e rt) (leaving surfaces) K N l1" if "own (?W x s \<union> gl_res e) l1" for rt l1
      by (rule unmake_surfaces [OF K that]) (auto simp: S gl_res_def)
    moreover have "gives (G (LockFront s)) b \<union> (?W x s \<union> gl_res e) = ?L (rv b) x s \<union> gl_res e" if "rv b \<noteq> 0"
      using that by (auto simp: some_res_def)
    ultimately show "wp (if rv b = 0 then say os (unmake_current e (-1)) else
     sys (AddFB (gl_fd e) ?w ?h (unum b 3) (unum b 2)) (\<lambda>a.
     if rv a \<noteq> 0 then say os' (unmake_current e (rv a)) else
     sys (G (ReleaseBuffer s (rv b))) (\<lambda>_. t2_show e kms c (unum a 0)))) (leaving surfaces) K N l1"
      using b by (cases "rv b = 0") (simp_all add: wp_say some_res_def fb)
  qed (auto simp: needs_def)
  have window: "wp (sys (G (EglCreateWindowSurface (gl_dpy e) s)) (\<lambda>x.
     if rv x = 0 then say o1 (unmake_current e (-1)) else
     sys (G (EglMakeCurrent (gl_dpy e) (rv x) (gl_ctx e))) (\<lambda>m.
     if rv m = 0 then say o2 (unmake_current e (-1)) else
     sys (G (EglSwapBuffers (gl_dpy e) (rv x))) (\<lambda>_.
     sys (G (LockFront s)) (\<lambda>b.
     if rv b = 0 then say o3 (unmake_current e (-1)) else
     sys (AddFB (gl_fd e) ?w ?h (unum b 3) (unum b 2)) (\<lambda>a.
     if rv a \<noteq> 0 then say o4 (unmake_current e (rv a)) else
     sys (G (ReleaseBuffer s (rv b))) (\<lambda>_. t2_show e kms c (unum a 0)))))))) (leaving surfaces) K N l"
    if l: "own (?S s \<union> gl_res e) l" for o1 o2 o3 o4 s l
  proof (rule gives_step [OF K l])
    fix x l1 assume x: "own (gives (G (EglCreateWindowSurface (gl_dpy e) s)) x \<union> (?S s \<union> gl_res e)) l1"
    have un1: "wp (unmake_current e rt) (leaving surfaces) K N l1" if "own (?S s \<union> gl_res e) l1" for rt l1
      by (rule unmake_surfaces [OF K that]) (auto simp: S gl_res_def)
    have un2: "wp (unmake_current e rt) (leaving surfaces) K N l1" if "own (?W x s \<union> gl_res e) l1" for rt x l1
      by (rule unmake_surfaces [OF K that]) (auto simp: S gl_res_def)
    have go: "wp (sys (G (EglMakeCurrent (gl_dpy e) (rv x) (gl_ctx e))) (\<lambda>m.
     if rv m = 0 then say o2 (unmake_current e (-1)) else
     sys (G (EglSwapBuffers (gl_dpy e) (rv x))) (\<lambda>_.
     sys (G (LockFront s)) (\<lambda>b.
     if rv b = 0 then say o3 (unmake_current e (-1)) else
     sys (AddFB (gl_fd e) ?w ?h (unum b 3) (unum b 2)) (\<lambda>a.
     if rv a \<noteq> 0 then say o4 (unmake_current e (rv a)) else
     sys (G (ReleaseBuffer s (rv b))) (\<lambda>_. t2_show e kms c (unum a 0))))))) (leaving surfaces) K N l2"
      if w: "own (?W (rv x) s \<union> gl_res e) l2" for l2
      by (rule own_keep_step [OF w], simp_all only: wp_if wp_say)
        (use w in \<open>auto simp: needs_def some_res_def gl_res_def own_Out intro!: un2 lock own_keep_step [where H = "?W (rv x) s \<union> gl_res e"]\<close>)
    have "gives (G (EglCreateWindowSurface (gl_dpy e) s)) x \<union> (?S s \<union> gl_res e) = ?W (rv x) s \<union> gl_res e" if "rv x \<noteq> 0"
      using that by (auto simp: some_res_def)
    then show "wp (if rv x = 0 then say o1 (unmake_current e (-1)) else
     sys (G (EglMakeCurrent (gl_dpy e) (rv x) (gl_ctx e))) (\<lambda>m.
     if rv m = 0 then say o2 (unmake_current e (-1)) else
     sys (G (EglSwapBuffers (gl_dpy e) (rv x))) (\<lambda>_.
     sys (G (LockFront s)) (\<lambda>b.
     if rv b = 0 then say o3 (unmake_current e (-1)) else
     sys (AddFB (gl_fd e) ?w ?h (unum b 3) (unum b 2)) (\<lambda>a.
     if rv a \<noteq> 0 then say o4 (unmake_current e (rv a)) else
     sys (G (ReleaseBuffer s (rv b))) (\<lambda>_. t2_show e kms c (unum a 0))))))) (leaving surfaces) K N l1"
      using x un1 go [of l1] by (cases "rv x = 0") (simp_all only: wp_say wp_if, simp_all add: some_res_def)
  qed (auto simp: needs_def)
  have none: "wp (unmake_current e rt) (leaving surfaces) K N l" if "own (gl_res e) l" for rt l
    using unmake_surfaces [OF K, of "{}"] that by simp
  show ?thesis
    unfolding t2_surface_def Let_def
  proof (rule gives_step [OF K l])
    fix s l1 assume "own (gives (G (GbmSurfaceCreate (gl_gbm e) ?w ?h)) s \<union> gl_res e) l1"
    then show "wp (if rv s = 0 then say [S ''failed to create gbm surface''] (unmake_current e (-1)) else
     sys (G (EglCreateWindowSurface (gl_dpy e) (rv s))) (\<lambda>x.
     if rv x = 0 then say [S ''failed to create egl surface''] (unmake_current e (-1)) else
     sys (G (EglMakeCurrent (gl_dpy e) (rv x) (gl_ctx e))) (\<lambda>m.
     if rv m = 0 then say [S ''failed to make eglSurface['', D i, S ''] current''] (unmake_current e (-1)) else
     sys (G (EglSwapBuffers (gl_dpy e) (rv x))) (\<lambda>_.
     sys (G (LockFront (rv s))) (\<lambda>b.
     if rv b = 0 then say [S ''failed to lock front buffer''] (unmake_current e (-1)) else
     sys (AddFB (gl_fd e) ?w ?h (unum b 3) (unum b 2)) (\<lambda>a.
     if rv a \<noteq> 0 then say [S ''failed to create fb''] (unmake_current e (rv a)) else
     sys (G (ReleaseBuffer (rv s) (rv b))) (\<lambda>_. t2_show e kms c (unum a 0)))))))) (leaving surfaces) K N l1"
      by (cases "rv s = 0") (simp_all add: wp_say some_res_def none window)
  qed (auto simp: needs_def gl_res_def)
qed

lemma drm_gl_test2_leaves:
  assumes K: "obeys K new_res"
  shows "wp (drm_gl_test2 i name args) (leaving (\<lambda>H. surfaces H \<or> (\<exists>fd. H = {RFd fd}))) K N []"
proof -
  let ?R = "\<lambda>H. surfaces H \<or> (\<exists>fd. H = {RFd fd})"
  have run: "wp (t2_surface i e kms c) (leaving ?R) K N l" if "own (gl_res e) l" for e kms c l
    by (rule wp_mono [OF t2_surface_leaves [OF K that]]) (auto simp: leaving_def split: res.splits)
  show ?thesis
    unfolding drm_gl_test2_def
    by (intro gl_open_leaves [OF K] gl_display_leaves [OF K] gl_config_leaves [OF K] gl_context_leaves [OF K] run) simp_all
qed

section \<open>The property\<close>


text \<open>
  A device that creates everything that is asked for, with an own number for each thing, and refuses
  the new mode.
\<close>

fun test_device :: "nat \<Rightarrow> drm_call \<Rightarrow> resp" where
  "test_device k (P (Open n)) = ok 3"
| "test_device k (GetResources fd) = (ok 10)\<lparr>tables := [[7], [12], [5]]\<rparr>"
| "test_device k (GetConnector fd i) = (with_nums 11 [7, 1, 12])\<lparr>tables := [[12], [4], [2]], texts := [[112]]\<rparr>"
| "test_device k (GetEncoder fd i) = with_nums 12 [12, 5, 1]"
| "test_device k (GetCrtc fd i) = with_nums 13 [5, 30, 0, 0, 0, 0, 1]"
| "test_device k (SetCrtc fd i f x y c m) = ok (-16)"
| "test_device k (AddFB fd w h p d) = with_nums 0 [int k]"
| "test_device k (G (EglQueryString d n)) = (ok 1)\<lparr>bytes := chars ''EGL_KHR_surfaceless_context''\<rparr>"
| "test_device k (G (EglChooseConfig d)) = with_nums 1 [9, 1]"
| "test_device k c = ok (int k)"

definition test_kernel :: "drm_call kernel" where
  "test_kernel l c = (let r = test_device (length l) c in
     if gives c r = {} \<or> new_res l c r then Some r else None)"

lemma test_obeys: "obeys test_kernel new_res"
  by (auto simp: obeys_def test_kernel_def Let_def new_res_def split: if_splits)

text \<open>
  Runs that make the buffers and surfaces of each program, are refused the mode, and leave through the
  labels; in between the first program holds six things, the second nine, the third seven.
\<close>

lemma test1a_busy:
  "wp drm_gl_test1a (\<lambda>x l. x = Exit 240 \<and> held l = {} \<and> card (held (drop 12 l)) = 6) test_kernel 1 []"
  by code_simp

lemma test1b_busy:
  "wp drm_gl_test1b (\<lambda>x l. x = Exit 240 \<and> held l = {} \<and> card (held (drop 12 l)) = 9) test_kernel 1 []"
  by code_simp

lemma test2_busy:
  "wp (drm_gl_test2 7 [65] None) (\<lambda>x l. x = Exit 240 \<and> card (held l) = 2 \<and> card (held (drop 13 l)) = 7)
     test_kernel 1 []"
  by code_simp


end
