(* ===== verification/Gl_Flip.thy ===== *)
theory Gl_Flip
  imports Gl_Tests
begin

text \<open>
  \<open>drm-tests/drm_gl_test3.c\<close>: frames are drawn on a window surface, and each is put on the screen by a page flip whose
  completion is an event of the device. A buffer of the surface is locked from the swap until it has left the screen; its
  frame buffer is made at its first use and stays with it as user data, until gbm destroys the buffer. That no buffer is
  given back to the surface while it is on the screen, or on its way there, is proved for every order of
  events, and so is that at the end the program owns no more than the locks that went with the surface.
\<close>

section \<open>The program\<close>

text \<open>
  \<open>struct DrmFb\<close> with its address, \<open>struct DrmOutput\<close>, and beside it the user data that gbm keeps for its
  buffers and the angle of the scene, the local variable of \<open>main\<close>.
\<close>

record drm_fb =
  fb_ptr :: int
  fb_bo :: int
  fb_id :: uint32

record drm_output =
  surface :: int
  egl_surface :: int
  current :: "drm_fb option"
  upcoming :: "drm_fb option"
  flip_pending :: bool

record flip_state = drm_output +
  user_data :: "drm_fb list"
  angle :: int

definition page_flip_handler :: "flip_state \<Rightarrow> (flip_state, drm_call) io" where
  "page_flip_handler u =
     say [S ''-> pageFlipHandler''] (
     let v = u\<lparr>current := upcoming u, upcoming := None, flip_pending := False\<rparr> in
     case current u of
       None \<Rightarrow> ret v
     | Some c \<Rightarrow> sys (G (ReleaseBuffer (surface u) (fb_bo c))) (\<lambda>_. ret v))"

text \<open>\<open>drmHandleEvent\<close> calls the handler for each completed flip that it reads.\<close>

primrec flips_done :: "nat \<Rightarrow> flip_state \<Rightarrow> (flip_state, drm_call) io" where
  "flips_done 0 u = ret u"
| "flips_done (Suc n) u = bind (page_flip_handler u) (flips_done n)"

definition on_drm_input :: "int \<Rightarrow> flip_state \<Rightarrow> (flip_state, drm_call) io" where
  "on_drm_input fd u = say [S ''-> onDrmInput''] (sys (G (HandleEvent fd)) (\<lambda>r. flips_done (nat (rv r)) u))"

primrec fb_callbacks :: "int \<Rightarrow> drm_fb list \<Rightarrow> ('a, drm_call) io \<Rightarrow> ('a, drm_call) io" where
  "fb_callbacks fd [] k = k"
| "fb_callbacks fd (f # fs) k =
     say [S ''-> drmFbDestroyCallback''] (
     let free = sys (P (FreeMem (fb_ptr f))) (\<lambda>_. fb_callbacks fd fs k) in
     if fb_id f \<noteq> 0 then sys (RmFB fd (fb_id f)) (\<lambda>_. free) else free)"

text \<open>The frame buffer of a buffer, whose width, height, stride and handle are those of the answer \<open>b\<close> that locked it.\<close>

definition drm_fb_get_from_bo :: "int \<Rightarrow> resp \<Rightarrow> flip_state \<Rightarrow> (drm_fb option \<times> flip_state, drm_call) io" where
  "drm_fb_get_from_bo fd b u =
     say [S ''-> drmFbGetFromBo''] (case find (\<lambda>f. fb_bo f = rv b) (user_data u) of
       Some f \<Rightarrow> ret (Some f, u)
     | None \<Rightarrow> say [S ''-> drmFbGetFromBo: create new fb''] (
         sys (P (Calloc 24)) (\<lambda>p.
         if rv p = 0 then fault ''store through NULL'' else
         sys (AddFB fd (unum b 0) (unum b 1) (unum b 2) (unum b 3)) (\<lambda>a.
         if rv a \<noteq> 0 then ret (None, u) else
         let f = \<lparr>fb_ptr = rv p, fb_bo = rv b, fb_id = unum a 0\<rparr> in
         ret (Some f, u\<lparr>user_data := f # user_data u\<rparr>)))))"

text \<open>The turn of the loop after the event: the next frame, unless there is one already; on an error \<open>None\<close>.\<close>

definition flip_next :: "gl \<Rightarrow> flip_state \<Rightarrow> (drm_fb option \<times> flip_state, drm_call) io" where
  "flip_next e u = (case upcoming u of
       Some f \<Rightarrow> ret (Some f, u)
     | None \<Rightarrow>
         sys (G (EglSwapBuffers (gl_dpy e) (egl_surface u))) (\<lambda>_.
         sys (G (LockFront (surface u))) (\<lambda>b.
         if rv b = 0 then say [S ''no gbm buffer object''] (ret (None, u)) else
         bind (drm_fb_get_from_bo (gl_fd e) b u) (\<lambda>x. case x of
           (None, u) \<Rightarrow> sys (G (ReleaseBuffer (surface u) (rv b))) (\<lambda>_. ret (None, u))
         | (Some f, u) \<Rightarrow> ret (Some f, u\<lparr>upcoming := Some f\<rparr>)))))"

definition flip_queue :: "int \<Rightarrow> kms_display \<Rightarrow> resp \<Rightarrow> drm_fb \<Rightarrow> flip_state \<Rightarrow> (flip_state + flip_state, drm_call) io" where
  "flip_queue fd kms c f u =
     (let flip = sys (G (PageFlip fd (crtc_id_of c) (fb_id f) True)) (\<lambda>r.
        if rv r < 0 then say [S ''queueing pageflip failed''] (ret (Inr u))
        else ret (Inl (u\<lparr>flip_pending := True\<rparr>))) in
      if current u = None then
        sys (SetCrtc fd (crtc_id_of c) (fb_id f) 0 0 (conn_id_of (connector kms)) (mode_name (mode kms))) (\<lambda>r.
        if rv r \<noteq> 0 then say [S ''failed to set mode in swapBuffers''] (ret (Inr u)) else flip)
      else flip)"

definition flip_turn :: "gl \<Rightarrow> kms_display \<Rightarrow> resp \<Rightarrow> nat \<Rightarrow> flip_state \<Rightarrow> (flip_state + flip_state, drm_call) io" where
  "flip_turn e kms c i u =
     (let fd = gl_fd e; md = mode kms in
     sys (P (Select (fd + 1) [fd] (Some 0))) (\<lambda>q.
     if rv q = -1 then
       if err q = EINTR then say [S '''select' was interrupted, try again''] (ret (Inl u))
       else perror ''exit on select error'' (ret (Inr u))
     else
       bind (if fd \<in> set (ready q) then say [S ''process drm event''] (on_drm_input fd u) else ret u) (\<lambda>u.
       say [S ''render frame''] (
       render_stuff (uint (hdisplay md)) (uint (vdisplay md)) (angle u) (
       say [S ''press enter...''] (sys (P Getchar) (\<lambda>_.
       bind (flip_next e (u\<lparr>angle := angle u + 1\<rparr>)) (\<lambda>x. case x of
         (None, u) \<Rightarrow> ret (Inr u)
       | (Some f, u) \<Rightarrow> flip_queue fd kms c f u))))))))"

text \<open>The labels \<open>destroy_egl_surface\<close> and \<open>destroy_gbm_surface\<close>; with the surface go its buffers, and their user data.\<close>

definition t3_destroy_surface :: "gl \<Rightarrow> int \<Rightarrow> drm_fb list \<Rightarrow> int \<Rightarrow> (unit, drm_call) io" where
  "t3_destroy_surface e s fs rt =
     sys (G (GbmSurfaceDestroy s)) (\<lambda>_. fb_callbacks (gl_fd e) fs (unmake_current e rt))"

definition t3_destroy_egl_surface :: "gl \<Rightarrow> int \<Rightarrow> int \<Rightarrow> drm_fb list \<Rightarrow> int \<Rightarrow> (unit, drm_call) io" where
  "t3_destroy_egl_surface e s x fs rt =
     sys (G (EglDestroySurface (gl_dpy e) x)) (\<lambda>_. t3_destroy_surface e s fs rt)"

definition t3_restore :: "gl \<Rightarrow> kms_display \<Rightarrow> resp \<Rightarrow> flip_state \<Rightarrow> (unit, drm_call) io" where
  "t3_restore e kms s u =
     (let out = \<lambda>rt. sys (FreeCrtc (rv s)) (\<lambda>_. t3_destroy_egl_surface e (surface u) (egl_surface u) (user_data u) rt) in
     sys (SetCrtc (gl_fd e) (unum s 0) (unum s 1) (unum s 2) (unum s 3) (conn_id_of (connector kms)) (crtc_mode_name s)) (\<lambda>x.
     if rv x \<noteq> 0 then say [S ''failed to restore crtc''] (out (rv x)) else out (rv x)))"

text \<open>Without a saved crtc, \<open>ret\<close> is still the \<open>true\<close> of the configuration. \<open>i\<close> is printed before it has a value.\<close>

definition t3_run :: "int \<Rightarrow> gl \<Rightarrow> kms_display \<Rightarrow> resp \<Rightarrow> (unit, drm_call) io" where
  "t3_run i e kms c =
     sys (G (GbmSurfaceCreate (gl_gbm e) (hdisplay (mode kms)) (vdisplay (mode kms)))) (\<lambda>s.
     if rv s = 0 then say [S ''failed to create gbm surface''] (unmake_current e (-1)) else
     sys (G (EglCreateWindowSurface (gl_dpy e) (rv s))) (\<lambda>x.
     if rv x = 0 then say [S ''failed to create egl surface''] (t3_destroy_surface e (rv s) [] (-1)) else
     sys (G (EglMakeCurrent (gl_dpy e) (rv x) (gl_ctx e))) (\<lambda>m.
     if rv m = 0 then say [S ''failed to make eglSurface['', D i, S ''] current''] (t3_destroy_egl_surface e (rv s) (rv x) [] (-1)) else
     sys (GetCrtc (gl_fd e) (crtc_id_of c)) (\<lambda>v.
     if rv v = 0 then say [S ''failed to get current mode''] (t3_destroy_egl_surface e (rv s) (rv x) [] 1) else
     dump_crtc_configuration ''saved_crtc'' v (
     bind (foreach [0..<10] (flip_turn e kms c)
       \<lparr>surface = rv s, egl_surface = rv x, current = None, upcoming = None, flip_pending = False, user_data = [], angle = 0\<rparr>)
     (\<lambda>y. t3_restore e kms v (either y)))))))"

definition drm_gl_test3 :: "int \<Rightarrow> byte list \<Rightarrow> (char \<times> byte list) list option \<Rightarrow> (unit, drm_call) io" where
  "drm_gl_test3 i name args = gl_open name args (\<lambda>fd kms c.
     gl_display fd (\<lambda>g d. gl_config fd g d (\<lambda>cfg. gl_context fd g d cfg [2] (\<lambda>e. t3_run i e kms c))))"

section \<open>The loop and its invariants\<close>

text \<open>
  An invariant of the state and the history that the loop keeps: the steps of the loop that do not concern the
  buffers keep it, and the event, the next frame and the flip do. Its lemma is about the whole loop.
\<close>

fun calm :: "drm_call \<Rightarrow> int \<Rightarrow> bool" where
  "calm (P (Select n fds t)) fd \<longleftrightarrow> fds = [fd]"
| "calm (P Getchar) fd \<longleftrightarrow> True"
| "calm (G (Gl f as)) fd \<longleftrightarrow> True"
| "calm c fd \<longleftrightarrow> False"

definition kept :: "('s \<Rightarrow> 'c history \<Rightarrow> bool) \<Rightarrow> ('a \<Rightarrow> 'c history \<Rightarrow> bool) \<Rightarrow> 'a res \<Rightarrow> 'c history \<Rightarrow> bool" where
  "kept I V x l \<longleftrightarrow> (case x of Val a \<Rightarrow> V a l | Exit n \<Rightarrow> False | _ \<Rightarrow> \<exists>u. I u l)"

lemma kept_simps [simp]:
  "kept I V (Val a) l = V a l" "kept I V (Fault s) l = (\<exists>u. I u l)" "kept I V Wait l = (\<exists>u. I u l)" "kept I V (Exit n) l = False"
  by (simp_all add: kept_def)

lemma kept_bind:
  assumes "wp m (kept I V) K N l" "\<And>a l. V a l \<Longrightarrow> wp (f a) (kept I Q) K N l"
  shows "wp (bind m f) (kept I Q) K N l"
  by (rule wp_bindI [where P = V]) (auto intro!: wp_mono [OF assms(1)] assms(2) simp: kept_def seq_def split: res.splits)

text \<open>The documented behaviour: what is given out is new, no frame buffer has the id 0, and an event is that of a queued flip.\<close>

record flip_view =
  locked_last :: int
  fb_of :: "(uint32 \<times> int) list"
  on_screen :: "int option"
  queued :: "int option"

definition no_view :: flip_view where
  "no_view = \<lparr>locked_last = 0, fb_of = [], on_screen = None, queued = None\<rparr>"

text \<open>
  What the device knows: the buffer of each frame buffer (the one that was locked last when it was made), the one on the
  screen, and the one that a queued flip will put there.
\<close>

fun view_step :: "drm_call \<Rightarrow> resp \<Rightarrow> flip_view \<Rightarrow> flip_view" where
  "view_step (G (LockFront s)) r v = v\<lparr>locked_last := rv r\<rparr>"
| "view_step (AddFB fd w h p d) r v = (if rv r = 0 then v\<lparr>fb_of := (unum r 0, locked_last v) # fb_of v\<rparr> else v)"
| "view_step (SetCrtc fd c f x y n m) r v = (if rv r = 0 then v\<lparr>on_screen := map_of (fb_of v) f\<rparr> else v)"
| "view_step (G (PageFlip fd c f b)) r v = (if rv r < 0 then v else v\<lparr>queued := map_of (fb_of v) f\<rparr>)"
| "view_step (G (HandleEvent fd)) r v = (if 0 < rv r then v\<lparr>on_screen := queued v, queued := None\<rparr> else v)"
| "view_step c r v = v"

primrec view :: "drm_call history \<Rightarrow> flip_view" where
  "view [] = no_view"
| "view (x # l) = (case x of Ev c r \<Rightarrow> view_step c r (view l) | Out os \<Rightarrow> view l)"

definition flip_rules :: "drm_call contract" where
  "flip_rules l c r \<longleftrightarrow> new_res l c r \<and> (case c of
     AddFB fd w h p d \<Rightarrow> rv r = 0 \<longrightarrow> unum r 0 \<noteq> 0
   | G g \<Rightarrow> (case g of HandleEvent fd \<Rightarrow> rv r \<le> (if queued (view l) = None then 0 else 1) | _ \<Rightarrow> True)
   | _ \<Rightarrow> True)"

lemma flip_rules_new: "obeys K flip_rules \<Longrightarrow> obeys K new_res"
  by (auto simp: obeys_def flip_rules_def)

locale flips =
  fixes e :: gl and I :: "flip_state \<Rightarrow> drm_call history \<Rightarrow> bool"
  assumes calm: "calm c (gl_fd e) \<Longrightarrow> I u l \<Longrightarrow> I u (Ev c r # l)" "I u l \<Longrightarrow> I u (Out os # l)" "I u l \<Longrightarrow> I (u\<lparr>angle := a\<rparr>) l"
    and event: "obeys K flip_rules \<Longrightarrow> I u l \<Longrightarrow> wp (on_drm_input (gl_fd e) u) (kept I I) K N l"
    and next_frame: "obeys K flip_rules \<Longrightarrow> I u l \<Longrightarrow>
      wp (flip_next e u) (kept I (\<lambda>(x, u) l. I u l \<and> (\<forall>f. x = Some f \<longrightarrow> upcoming u = Some f))) K N l"
    and queue: "obeys K flip_rules \<Longrightarrow> I u l \<Longrightarrow> upcoming u = Some f \<Longrightarrow>
      wp (flip_queue (gl_fd e) kms cr f u) (kept I (\<lambda>y. I (either y))) K N l"
begin

lemma calm_step:
  assumes "I u l" "calm c (gl_fd e)" "\<And>r l. I u l \<Longrightarrow> wp (k r) (kept I Q) K N l"
  shows "wp (sys c k) (kept I Q) K N l"
  using assms by (auto intro!: wp_stepI calm)

lemma calm_calls:
  assumes "I u l" "\<And>l. I u l \<Longrightarrow> wp k (kept I Q) K N l"
  shows "wp (gl_calls cs k) (kept I Q) K N l"
  using assms(1) by (induction cs arbitrary: l) (auto intro: calm_step assms(2))

lemma turn:
  assumes K: "obeys K flip_rules" and u: "I u l"
  shows "wp (flip_turn e kms c i u) (kept I (\<lambda>y. I (either y))) K N l"
proof -
  have rest: "wp (render_stuff w h a (say os' (sys (P Getchar) (\<lambda>_.
       bind (flip_next e (u\<lparr>angle := a'\<rparr>)) (\<lambda>x. case x of (None, u) \<Rightarrow> ret (Inr u)
       | (Some f, u) \<Rightarrow> flip_queue (gl_fd e) kms c f u))))) (kept I (\<lambda>y. I (either y))) K N l"
    if "I u l" for w h a os' a' u l
    unfolding render_stuff_def
    using that
    by (auto intro!: calm_calls [where u = u] calm_step [where u = u] kept_bind [OF next_frame [OF K]] calm queue [OF K]
        simp: wp_say wp_ret split: option.split)
  show ?thesis
    unfolding flip_turn_def Let_def
    by (intro calm_step [OF u] wp_ifI wp_say [THEN iffD2] wp_ret [THEN iffD2] kept_bind [where V = I] rest event [OF K] calm(2))
      (simp_all add: u calm(2))
qed

lemma turns:
  assumes K: "obeys K flip_rules" and u: "I u l"
  shows "wp (foreach xs (flip_turn e kms c) u) (kept I (\<lambda>y. I (either y))) K N l"
  by (rule wp_foreach [where I = I, OF u])
    (auto intro!: wp_mono [OF turn [OF K]] simp: kept_def seq_def for_post_def split: res.splits sum.splits)

end

section \<open>What the loop owns\<close>

definition flip_res :: "gl \<Rightarrow> flip_state \<Rightarrow> kms_res set" where
  "flip_res e u = RLock ` fb_bo ` (set_option (current u) \<union> set_option (upcoming u)) \<union> RFb ` fb_id ` set (user_data u) \<union>
     {RWin (egl_surface u), RSurf (surface u)} \<union> gl_res e"

definition flip_own :: "gl \<Rightarrow> flip_state \<Rightarrow> drm_call history \<Rightarrow> bool" where
  "flip_own e u l \<longleftrightarrow> own (flip_res e u) l \<and> distinct (map fb_id (user_data u)) \<and> 0 \<notin> fb_id ` set (user_data u) \<and>
     (\<forall>c n. current u = Some c \<longrightarrow> upcoming u = Some n \<longrightarrow> fb_bo c \<noteq> fb_bo n)"

lemma flip_own_res: "flip_own e u l \<Longrightarrow> own (flip_res e u) l"
  by (simp add: flip_own_def)

lemma flip_res_in [simp]:
  "RFd (gl_fd e) \<in> flip_res e u" "RWin (egl_surface u) \<in> flip_res e u" "RSurf (surface u) \<in> flip_res e u"
  "current u = Some c \<Longrightarrow> RLock (fb_bo c) \<in> flip_res e u" "gl_res e \<subseteq> flip_res e u"
  by (auto simp: flip_res_def gl_res_def)

lemma flip_own_Out [simp]: "flip_own e u (Out os # l) = flip_own e u l"
  by (simp add: flip_own_def)

lemma flip_own_calm:
  assumes "flip_own e u l" "needs c \<subseteq> flip_res e u" "takes c = {}" "gives c r = {}"
  shows "flip_own e u (Ev c r # l)"
  using assms own_keep [OF flip_own_res [OF assms(1)] assms(2-4)] by (simp add: flip_own_def)

lemma page_flip_own:
  assumes K: "obeys K new_res" and u: "flip_own e u l"
  shows "wp (page_flip_handler u) (kept (flip_own e) (flip_own e)) K N l"
proof (cases "current u")
  case None
  then have "flip_res e (u\<lparr>current := upcoming u, upcoming := None, flip_pending := False\<rparr>) = flip_res e u"
    by (auto simp: flip_res_def)
  then show ?thesis
    using None u by (simp add: page_flip_handler_def wp_say wp_ret flip_own_def)
next
  case (Some c)
  let ?v = "u\<lparr>current := upcoming u, upcoming := None, flip_pending := False\<rparr>"
  have eq: "flip_res e u - takes (G (ReleaseBuffer (surface u) (fb_bo c))) = flip_res e ?v"
    using u Some by (auto simp: flip_res_def flip_own_def gl_res_def)
  have "wp (sys (G (ReleaseBuffer (surface u) (fb_bo c))) (\<lambda>_. ret ?v)) (kept (flip_own e) (flip_own e)) K N (Out os # l)" for os
  proof (rule own_step [OF K, where H = "flip_res e u"], unfold eq)
    show "kept (flip_own e) (flip_own e) Wait (Out os # l)" using u by (auto simp: flip_own_def)
  qed (use u Some in \<open>simp_all add: needs_def flip_own_def wp_ret\<close>)
  then show ?thesis by (simp add: page_flip_handler_def Some wp_say)
qed

lemma on_drm_input_own:
  assumes K: "obeys K new_res" and u: "flip_own e u l"
  shows "wp (on_drm_input (gl_fd e) u) (kept (flip_own e) (flip_own e)) K N l"
proof -
  have loop: "wp (flips_done n u) (kept (flip_own e) (flip_own e)) K N l" if "flip_own e u l" for n u l
    using that by (induction n arbitrary: u l) (auto simp: wp_ret intro!: kept_bind [OF page_flip_own [OF K]])
  show ?thesis
    unfolding on_drm_input_def wp_say
    by (intro wp_stepI loop) (use u in \<open>auto intro!: flip_own_calm simp: needs_def\<close>)
qed

text \<open>A buffer that has just been locked, without a frame buffer yet.\<close>

definition with_bo :: "int \<Rightarrow> flip_state \<Rightarrow> flip_state" where
  "with_bo b u = u\<lparr>upcoming := Some \<lparr>fb_ptr = 0, fb_bo = b, fb_id = 0\<rparr>\<rparr>"

lemma with_bo_sel [simp]:
  "surface (with_bo b u) = surface u" "current (with_bo b u) = current u" "user_data (with_bo b u) = user_data u"
  "upcoming (with_bo b u) = Some \<lparr>fb_ptr = 0, fb_bo = b, fb_id = 0\<rparr>" "egl_surface (with_bo b u) = egl_surface u"
  by (simp_all add: with_bo_def)

lemma flip_own_bo: "flip_own e (with_bo b u) l \<Longrightarrow> fb_bo f = b \<Longrightarrow> flip_own e (u\<lparr>upcoming := Some f\<rparr>) l"
  by (auto simp: flip_own_def flip_res_def)

lemma get_from_bo_own:
  assumes K: "obeys K flip_rules" and u: "flip_own e (with_bo (rv b) u) l" "upcoming u = None"
  shows "wp (drm_fb_get_from_bo (gl_fd e) b u) (kept (flip_own e) (\<lambda>(x, v) l. (case x of
     None \<Rightarrow> v = u \<and> flip_own e (with_bo (rv b) u) l
   | Some f \<Rightarrow> flip_own e (v\<lparr>upcoming := Some f\<rparr>) l))) K N l"
    (is "wp _ (kept _ ?V) K N l")
proof -
  have add: "wp (sys (AddFB (gl_fd e) w h p d) (\<lambda>a. if rv a \<noteq> 0 then ret (None, u) else
       let f = \<lparr>fb_ptr = q, fb_bo = rv b, fb_id = unum a 0\<rparr> in ret (Some f, u\<lparr>user_data := f # user_data u\<rparr>)))
      (kept (flip_own e) ?V) K N l" if l: "flip_own e (with_bo (rv b) u) l" for w h p d q l
  proof (rule wp_sysI [OF K])
    show "kept (flip_own e) ?V Wait l" using l by auto
    fix a assume a: "flip_rules l (AddFB (gl_fd e) w h p d) a"
    let ?c = "AddFB (gl_fd e) w h p d" and ?f = "\<lparr>fb_ptr = q, fb_bo = rv b, fb_id = unum a 0\<rparr>"
    show "wp (if rv a \<noteq> 0 then ret (None, u) else
       let f = ?f in ret (Some f, u\<lparr>user_data := f # user_data u\<rparr>)) (kept (flip_own e) ?V) K N (Ev ?c a # l)"
    proof (cases "rv a = 0")
      case True
      have eq: "flip_res e (u\<lparr>user_data := ?f # user_data u, upcoming := Some ?f\<rparr>) = insert (RFb (unum a 0)) (flip_res e (with_bo (rv b) u))"
        by (auto simp: flip_res_def)
      have "RFb (unum a 0) \<notin> flip_res e (with_bo (rv b) u)" "unum a 0 \<noteq> 0" "held l = flip_res e (with_bo (rv b) u)"
        using a True l by (auto simp: flip_rules_def new_res_def flip_own_def own_def)
      moreover from this(1) have "unum a 0 \<notin> fb_id ` set (user_data u)" by (auto simp: flip_res_def)
      ultimately have "flip_own e (u\<lparr>user_data := ?f # user_data u, upcoming := Some ?f\<rparr>) (Ev ?c a # l)"
        using True l unfolding flip_own_def eq by (auto simp: own_def needs_def)
      then show ?thesis using True by (simp add: wp_ret Let_def)
    next
      case False
      then show ?thesis using l by (auto simp: wp_ret intro!: flip_own_calm simp: needs_def)
    qed
  qed
  show ?thesis
  proof (cases "find (\<lambda>f. fb_bo f = rv b) (user_data u)")
    case None
    have got: "flip_own e (with_bo (rv b) u) (Ev (P (Calloc n)) r # Out os # Out os' # l)" for r os os' n
      using u by (intro flip_own_calm) (simp_all add: needs_def flip_own_def)
    then have "\<exists>v. flip_own e v (Ev (P (Calloc n)) r # Out os # Out os' # l)" for r os os' n by blast
    with got show ?thesis
      unfolding drm_fb_get_from_bo_def None
      by (intro wp_say [THEN iffD2], simp only: option.case, intro wp_say [THEN iffD2] add wp_stepI wp_ifI wp_fault [THEN iffD2])
        (use u in auto)
  next
    case (Some f)
    then have "flip_own e (u\<lparr>upcoming := Some f\<rparr>) l"
      by (intro flip_own_bo [OF u(1)]) (auto simp: find_Some_iff)
    then show ?thesis unfolding drm_fb_get_from_bo_def Some by (simp add: wp_say wp_ret)
  qed
qed

lemma flip_next_own:
  assumes K: "obeys K flip_rules" and u: "flip_own e u l"
  shows "wp (flip_next e u) (kept (flip_own e) (\<lambda>(x, v) l. flip_own e v l \<and> (\<forall>f. x = Some f \<longrightarrow> upcoming v = Some f))) K N l"
    (is "wp _ (kept _ ?V) K N l")
proof (cases "upcoming u")
  case None
  let ?s = "surface u"
  have give_back: "wp (sys (G (ReleaseBuffer ?s b)) (\<lambda>_. ret (None, u))) (kept (flip_own e) ?V) K N l" if l: "flip_own e (with_bo b u) l" for b l
  proof -
    have eq: "flip_res e (with_bo b u) - takes (G (ReleaseBuffer ?s b)) = flip_res e u"
      using l None by (auto simp: flip_res_def flip_own_def gl_res_def)
    show ?thesis
    proof (rule own_step [OF flip_rules_new [OF K] flip_own_res [OF l]], unfold eq)
      show "needs (G (ReleaseBuffer ?s b)) \<subseteq> flip_res e (with_bo b u)" by (auto simp: needs_def flip_res_def)
      show "kept (flip_own e) ?V Wait l" using l by auto
    qed (use l None in \<open>simp add: flip_own_def wp_ret\<close>)
  qed
  have get: "wp (bind (drm_fb_get_from_bo (gl_fd e) b u) (\<lambda>x. case x of
       (None, u) \<Rightarrow> sys (G (ReleaseBuffer (surface u) (rv b))) (\<lambda>_. ret (None, u))
     | (Some f, u) \<Rightarrow> ret (Some f, u\<lparr>upcoming := Some f\<rparr>))) (kept (flip_own e) ?V) K N l" if "flip_own e (with_bo (rv b) u) l" for b l
    by (rule kept_bind [OF get_from_bo_own [OF K that None]])
      (auto simp: wp_ret split: option.splits intro!: give_back)
  have lock: "wp (sys (G (LockFront ?s)) (\<lambda>b. if rv b = 0 then say os (ret (None, u)) else
     bind (drm_fb_get_from_bo (gl_fd e) b u) (\<lambda>x. case x of
       (None, u) \<Rightarrow> sys (G (ReleaseBuffer (surface u) (rv b))) (\<lambda>_. ret (None, u))
     | (Some f, u) \<Rightarrow> ret (Some f, u\<lparr>upcoming := Some f\<rparr>)))) (kept (flip_own e) ?V) K N l" if l: "flip_own e u l" for os l
  proof (rule own_step [OF flip_rules_new [OF K] flip_own_res [OF l]])
    let ?c = "G (LockFront ?s)"
    fix b assume b: "gives ?c b \<inter> flip_res e u = {}" "own (flip_res e u - takes ?c \<union> gives ?c b) (Ev ?c b # l)"
    show "wp (if rv b = 0 then say os (ret (None, u)) else
     bind (drm_fb_get_from_bo (gl_fd e) b u) (\<lambda>x. case x of
       (None, u) \<Rightarrow> sys (G (ReleaseBuffer (surface u) (rv b))) (\<lambda>_. ret (None, u))
     | (Some f, u) \<Rightarrow> ret (Some f, u\<lparr>upcoming := Some f\<rparr>))) (kept (flip_own e) ?V) K N (Ev ?c b # l)"
    proof (cases "rv b = 0")
      case True
      then show ?thesis using b(2) l None by (simp add: wp_say wp_ret some_res_def flip_own_def)
    next
      case False
      have eq: "flip_res e (with_bo (rv b) u) = flip_res e u - takes ?c \<union> gives ?c b"
        using False None by (auto simp: flip_res_def some_res_def)
      have "current u = Some c \<Longrightarrow> fb_bo c \<noteq> rv b" for c
        using b(1) False by (auto simp: some_res_def flip_res_def)
      then have "flip_own e (with_bo (rv b) u) (Ev ?c b # l)"
        using b(2) l unfolding flip_own_def eq by simp
      then show ?thesis using False by (simp add: get)
    qed
  qed (use l None in \<open>auto simp: needs_def\<close>)
  show ?thesis
    unfolding flip_next_def None
    by (simp, intro wp_stepI lock flip_own_calm) (use u in \<open>auto simp: needs_def\<close>)
qed (use u in \<open>simp add: flip_next_def wp_ret\<close>)

lemma flip_queue_own:
  assumes u: "flip_own e u l"
  shows "wp (flip_queue (gl_fd e) kms c f u) (kept (flip_own e) (\<lambda>y. flip_own e (either y))) K N l"
proof -
  have "flip_own e (u\<lparr>flip_pending := True\<rparr>) l = flip_own e u l" for l
    by (auto simp: flip_own_def flip_res_def)
  then show ?thesis
    unfolding flip_queue_def Let_def
    by (intro wp_ifI wp_stepI wp_say [THEN iffD2] wp_ret [THEN iffD2])
      (use u in \<open>auto intro!: flip_own_calm simp: needs_def\<close>)
qed

interpretation flips_own: flips e "flip_own e" for e
proof
  show "calm c (gl_fd e) \<Longrightarrow> flip_own e u l \<Longrightarrow> flip_own e u (Ev c r # l)" for c u l r
    by (rule flip_own_calm) (erule calm.elims; auto simp: needs_def)+
  show "flip_own e u l \<Longrightarrow> flip_own e (u\<lparr>angle := a\<rparr>) l" for u l a by (auto simp: flip_own_def flip_res_def)
qed (auto intro: on_drm_input_own flip_rules_new flip_next_own flip_queue_own)

text \<open>After the loop, everything goes but the locks, whose buffers go with the surface.\<close>

definition locks :: "kms_res set \<Rightarrow> bool" where
  "locks H \<longleftrightarrow> (\<exists>b c. H \<subseteq> {RLock b, RLock c})"

lemma locks_state: "locks (RLock ` fb_bo ` (set_option (current u) \<union> set_option (upcoming u)))"
  unfolding locks_def by (cases "current u"; cases "upcoming u") auto

lemma locks_apart:
  assumes "locks E"
  shows "E \<inter> gl_res e = {}" "RSurf s \<notin> E" "RWin x \<notin> E" "RFb f \<notin> E"
  using assms by (auto simp: locks_def gl_res_def)

lemma callbacks_own:
  assumes K: "obeys K new_res" and "own (RFb ` fb_id ` set fs \<union> H) l" "distinct (map fb_id fs)" "0 \<notin> fb_id ` set fs"
    and H: "\<And>i. RFb i \<notin> H" "RFd fd \<in> H" and k: "\<And>l. own H l \<Longrightarrow> wp k (leaving R) K N l"
  shows "wp (fb_callbacks fd fs k) (leaving R) K N l"
  using assms(2-4)
proof (induction fs arbitrary: l)
  case (Cons f fs)
  have eq: "RFb ` fb_id ` set (f # fs) \<union> H - takes (RmFB fd (fb_id f)) = RFb ` fb_id ` set fs \<union> H"
    using Cons.prems(2) H(1) by auto
  have free: "wp (sys (P (FreeMem (fb_ptr f))) (\<lambda>_. fb_callbacks fd fs k)) (leaving R) K N l"
    if "own (RFb ` fb_id ` set fs \<union> H) l" for l
    by (rule own_keep_step [OF that]) (use that Cons in \<open>auto simp: needs_def\<close>)
  have "wp (sys (RmFB fd (fb_id f)) (\<lambda>_. sys (P (FreeMem (fb_ptr f))) (\<lambda>_. fb_callbacks fd fs k))) (leaving R) K N (Out os # l)" for os
    by (rule own_step [OF K, where H = "RFb ` fb_id ` set (f # fs) \<union> H"], unfold eq) (use Cons.prems H free in \<open>auto simp: needs_def\<close>)
  then show ?case using Cons.prems(3) by (simp add: wp_say Let_def)
qed (simp add: k)

lemma destroy_surface_leaves:
  assumes K: "obeys K new_res" and E: "locks E" and l: "own (RFb ` fb_id ` set fs \<union> {RSurf s} \<union> E \<union> gl_res e) l"
    and fs: "distinct (map fb_id fs)" "0 \<notin> fb_id ` set fs"
  shows "wp (t3_destroy_surface e s fs rt) (leaving locks) K N l"
proof -
  have eq: "RFb ` fb_id ` set fs \<union> {RSurf s} \<union> E \<union> gl_res e - takes (G (GbmSurfaceDestroy s)) = RFb ` fb_id ` set fs \<union> (E \<union> gl_res e)"
    using locks_apart [OF E] by (auto simp: gl_res_def)
  have "E \<union> gl_res e - gl_res e = E" using locks_apart [OF E] by auto
  then have "wp (unmake_current e rt) (leaving locks) K N l" if "own (E \<union> gl_res e) l" for l
    using E by (intro unmake_current_leaves [OF K that]) auto
  then have go: "wp (fb_callbacks (gl_fd e) fs (unmake_current e rt)) (leaving locks) K N l" if "own (RFb ` fb_id ` set fs \<union> (E \<union> gl_res e)) l" for l
    using locks_apart [OF E] by (intro callbacks_own [OF K that fs]) (auto simp: gl_res_def)
  show ?thesis
    unfolding t3_destroy_surface_def
    by (rule own_step [OF K l], unfold eq) (use l go in \<open>auto simp: needs_def gl_res_def\<close>)
qed

lemma destroy_egl_surface_leaves:
  assumes K: "obeys K new_res" and E: "locks E" and l: "own (RFb ` fb_id ` set fs \<union> {RWin x, RSurf s} \<union> E \<union> gl_res e) l"
    and fs: "distinct (map fb_id fs)" "0 \<notin> fb_id ` set fs"
  shows "wp (t3_destroy_egl_surface e s x fs rt) (leaving locks) K N l"
proof -
  have eq: "RFb ` fb_id ` set fs \<union> {RWin x, RSurf s} \<union> E \<union> gl_res e - takes (G (EglDestroySurface (gl_dpy e) x)) =
      RFb ` fb_id ` set fs \<union> {RSurf s} \<union> E \<union> gl_res e"
    using locks_apart [OF E] by (auto simp: gl_res_def)
  show ?thesis
    unfolding t3_destroy_egl_surface_def
    by (rule own_step [OF K l], unfold eq) (use l in \<open>auto simp: needs_def gl_res_def intro!: destroy_surface_leaves [OF K E _ fs, unfolded gl_res_def]\<close>)
qed

lemma t3_restore_leaves:
  assumes K: "obeys K new_res" and u: "flip_own e u l"
  shows "wp (t3_restore e kms s u) (leaving locks) K N l"
proof -
  have "wp (t3_destroy_egl_surface e (surface u) (egl_surface u) (user_data u) rt) (leaving locks) K N l" if "own (flip_res e u) l" for rt l
    using u that by (intro destroy_egl_surface_leaves [OF K locks_state [of u]])
      (auto simp: flip_own_def flip_res_def Un_assoc Un_commute Un_left_commute insert_commute)
  then show ?thesis
    unfolding t3_restore_def Let_def
    by (intro calm_steps [where H = "flip_res e u"] calm_steps' [where H = "flip_res e u"] wp_ifI wp_say [THEN iffD2])
      (use flip_own_res [OF u] in simp_all)
qed

lemma t3_run_leaves:
  assumes K: "obeys K flip_rules" and l: "own (gl_res e) l"
  shows "wp (t3_run i e kms c) (leaving locks) K N l"
proof -
  note K' = flip_rules_new [OF K]
  let ?S = "\<lambda>s. {RSurf s} \<union> gl_res e" and ?W = "\<lambda>x s. {RWin x, RSurf s} \<union> gl_res e"
  have none: "locks {}" by (simp add: locks_def)
  have start: "flip_own e \<lparr>surface = s, egl_surface = x, current = None, upcoming = None, flip_pending = False, user_data = [], angle = 0\<rparr> l"
    if "own (?W x s) l" for x s l
    using that by (simp add: flip_own_def flip_res_def)
  have go: "wp (bind (foreach [0..<10] (flip_turn e kms c)
       \<lparr>surface = s, egl_surface = x, current = None, upcoming = None, flip_pending = False, user_data = [], angle = 0\<rparr>)
     (\<lambda>y. t3_restore e kms v (either y))) (leaving locks) K N l" if "own (?W x s) l" for v x s l
    by (rule wp_bindI [where P = "\<lambda>y. flip_own e (either y)"])
      (auto intro!: wp_mono [OF flips_own.turns [OF K start [OF that]]] t3_restore_leaves [OF K']
        simp: kept_def seq_def flip_own_def split: res.splits)
  have out: "wp (t3_destroy_egl_surface e s x [] rt) (leaving locks) K N l" if "own (?W x s) l" for x s rt l
    using that destroy_egl_surface_leaves [OF K' none, of "[]" x s e] by simp
  have out1: "wp (t3_destroy_surface e s [] rt) (leaving locks) K N l" if "own (?S s) l" for s rt l
    using that destroy_surface_leaves [OF K' none, of "[]" s e] by simp
  have out0: "wp (unmake_current e rt) (leaving locks) K N l" if "own (gl_res e) l" for rt l
    using none by (intro unmake_current_leaves [OF K' that]) simp_all
  have made: "wp (sys (G (EglMakeCurrent (gl_dpy e) x (gl_ctx e))) (\<lambda>m.
     if rv m = 0 then say er (t3_destroy_egl_surface e s x [] (-1)) else
     sys (GetCrtc (gl_fd e) cr) (\<lambda>v.
     if rv v = 0 then say os (t3_destroy_egl_surface e s x [] 1) else
     dump_crtc_configuration nm v (
     bind (foreach [0..<10] (flip_turn e kms c)
       \<lparr>surface = s, egl_surface = x, current = None, upcoming = None, flip_pending = False, user_data = [], angle = 0\<rparr>)
     (\<lambda>y. t3_restore e kms v (either y)))))) (leaving locks) K N l" if l: "own (?W x s) l" for x s cr er os nm l
    by (intro own_keep_step [where H = "?W x s"] wp_ifI wp_fault [THEN iffD2] wp_say [THEN iffD2] dump_crtc_own [where H = "?W x s"] go out)
      (use l in \<open>auto simp: needs_def some_res_def gl_res_def\<close>)
  show ?thesis
    unfolding t3_run_def
  proof (rule gives_step [OF K' l])
    fix s l1 assume s: "own (gives (G (GbmSurfaceCreate (gl_gbm e) (hdisplay (mode kms)) (vdisplay (mode kms)))) s \<union> gl_res e) l1"
    let ?k = "\<lambda>x. if rv x = 0 then say [S ''failed to create egl surface''] (t3_destroy_surface e (rv s) [] (-1)) else
     sys (G (EglMakeCurrent (gl_dpy e) (rv x) (gl_ctx e))) (\<lambda>m.
     if rv m = 0 then say [S ''failed to make eglSurface['', D i, S ''] current''] (t3_destroy_egl_surface e (rv s) (rv x) [] (-1)) else
     sys (GetCrtc (gl_fd e) (crtc_id_of c)) (\<lambda>v.
     if rv v = 0 then say [S ''failed to get current mode''] (t3_destroy_egl_surface e (rv s) (rv x) [] 1) else
     dump_crtc_configuration ''saved_crtc'' v (
     bind (foreach [0..<10] (flip_turn e kms c)
       \<lparr>surface = rv s, egl_surface = rv x, current = None, upcoming = None, flip_pending = False, user_data = [], angle = 0\<rparr>)
     (\<lambda>y. t3_restore e kms v (either y)))))"
    have "wp (sys (G (EglCreateWindowSurface (gl_dpy e) (rv s))) ?k) (leaving locks) K N l1" if l1: "own (?S (rv s)) l1"
    proof (rule gives_step [OF K' l1])
      fix x l2 assume x: "own (gives (G (EglCreateWindowSurface (gl_dpy e) (rv s))) x \<union> ?S (rv s)) l2"
      have "gives (G (EglCreateWindowSurface (gl_dpy e) (rv s))) x \<union> ?S (rv s) = ?W (rv x) (rv s)" if "rv x \<noteq> 0"
        using that by (auto simp: some_res_def)
      then show "wp (?k x) (leaving locks) K N l2"
        using x out1 made by (cases "rv x = 0") (simp_all only: wp_say wp_if, simp_all add: some_res_def)
    qed (auto simp: needs_def)
    moreover have "gives (G (GbmSurfaceCreate (gl_gbm e) (hdisplay (mode kms)) (vdisplay (mode kms)))) s \<union> gl_res e = ?S (rv s)" if "rv s \<noteq> 0"
      using that by (auto simp: some_res_def)
    ultimately show "wp (if rv s = 0 then say [S ''failed to create gbm surface''] (unmake_current e (-1)) else
     sys (G (EglCreateWindowSurface (gl_dpy e) (rv s))) ?k) (leaving locks) K N l1"
      using s out0 by (cases "rv s = 0") (simp_all only: wp_say wp_if, simp_all add: some_res_def)
  qed (auto simp: needs_def gl_res_def)
qed

lemma drm_gl_test3_leaves:
  assumes K: "obeys K flip_rules"
  shows "wp (drm_gl_test3 i name args) (leaving (\<lambda>H. locks H \<or> (\<exists>fd. H = {RFd fd}))) K N []"
proof -
  let ?R = "\<lambda>H. locks H \<or> (\<exists>fd. H = {RFd fd})"
  have run: "wp (t3_run i e kms c) (leaving ?R) K N l" if "own (gl_res e) l" for e kms c l
    by (rule wp_mono [OF t3_run_leaves [OF K that]]) (auto simp: leaving_def split: res.splits)
  have none: "locks {}" by (simp add: locks_def)
  note K' = flip_rules_new [OF K]
  show ?thesis
    unfolding drm_gl_test3_def
    by (intro gl_open_leaves [OF K'] gl_display_leaves [OF K'] gl_config_leaves [OF K'] gl_context_leaves [OF K'] run)
      (simp_all add: none)
qed

section \<open>What is on the screen\<close>

text \<open>No buffer has been given back to its surface while it was on the screen, or was to be put there.\<close>

fun released_well :: "drm_call \<Rightarrow> flip_view \<Rightarrow> bool" where
  "released_well (G (ReleaseBuffer s b)) v \<longleftrightarrow> on_screen v \<noteq> Some b \<and> queued v \<noteq> Some b"
| "released_well c v \<longleftrightarrow> True"

primrec flips_safe :: "drm_call history \<Rightarrow> bool" where
  "flips_safe [] = True"
| "flips_safe (x # l) = (case x of Ev c r \<Rightarrow> released_well c (view l) \<and> flips_safe l | Out os \<Rightarrow> flips_safe l)"

text \<open>
  The frames in the state and the device's view of them: the current one is on the screen; the upcoming one is a locked
  buffer that has a frame buffer, and nothing else is queued.
\<close>

definition known :: "drm_fb \<Rightarrow> drm_call history \<Rightarrow> bool" where
  "known f l \<longleftrightarrow> map_of (fb_of (view l)) (fb_id f) = Some (fb_bo f) \<and> RFb (fb_id f) \<in> held l"

definition flip_seen :: "flip_state \<Rightarrow> drm_call history \<Rightarrow> bool" where
  "flip_seen u l \<longleftrightarrow> flips_safe l \<and> (\<forall>f\<in>set (user_data u). known f l) \<and>
     (case current u of
        None \<Rightarrow> upcoming u = None \<longrightarrow> on_screen (view l) = None
      | Some c \<Rightarrow> RLock (fb_bo c) \<in> held l \<and> on_screen (view l) = Some (fb_bo c)) \<and>
     (case upcoming u of
        None \<Rightarrow> queued (view l) = None
      | Some n \<Rightarrow> known n l \<and> RLock (fb_bo n) \<in> held l \<and> queued (view l) \<in> {None, Some (fb_bo n)} \<and>
          (case current u of None \<Rightarrow> True | Some c \<Rightarrow> fb_bo c \<noteq> fb_bo n))"

lemma flip_seen_safe: "flip_seen u l \<Longrightarrow> flips_safe l"
  by (simp add: flip_seen_def)

lemma flip_seen_Out [simp]: "flip_seen u (Out os # l) = flip_seen u l"
  by (simp add: flip_seen_def known_def split: option.split)

lemma flip_seen_calm:
  assumes "flip_seen u l" "view_step c r (view l) = view l" "takes c = {}" "\<And>v. released_well c v"
  shows "flip_seen u (Ev c r # l)"
  using assms by (auto simp: flip_seen_def known_def split: option.splits)

lemma on_drm_input_seen:
  assumes K: "obeys K flip_rules" and u: "flip_seen u l"
  shows "wp (on_drm_input fd u) (kept flip_seen flip_seen) K N l"
  unfolding on_drm_input_def wp_say
proof (rule wp_sysI [OF K])
  let ?c = "G (HandleEvent fd)"
  show "kept flip_seen flip_seen Wait (Out os # l)" for os using u by auto
  fix r assume r: "flip_rules (Out [S ''-> onDrmInput''] # l) ?c r"
  show "wp (flips_done (nat (rv r)) u) (kept flip_seen flip_seen) K N (Ev ?c r # Out [S ''-> onDrmInput''] # l)"
  proof (cases "0 < rv r")
    case True
    obtain b where b: "queued (view l) = Some b" "rv r = 1"
      using r True by (auto simp: flip_rules_def split: if_splits)
    then obtain n where n: "upcoming u = Some n" "b = fb_bo n"
      using u by (auto simp: flip_seen_def split: option.splits)
    let ?v = "u\<lparr>current := upcoming u, upcoming := None, flip_pending := False\<rparr>"
    have v: "flip_seen ?v (Ev ?c r # l)"
      using u b n by (auto simp: flip_seen_def known_def split: option.splits)
    have "flip_seen ?v (Ev (G (ReleaseBuffer s (fb_bo d))) q # Out os # Ev ?c r # Out os' # l)" if "current u = Some d" for s d q os os'
      using u v b n that by (auto simp: flip_seen_def known_def split: option.splits)
    moreover have here: "flip_seen ?v (Out os # Ev ?c r # Out os' # l)" for os os'
      using v by (auto simp: flip_seen_def known_def split: option.splits)
    moreover from here have "\<exists>v. flip_seen v (Out os # Ev ?c r # Out os' # l)" for os os' by blast
    moreover have "nat (rv r) = Suc 0" using b(2) by simp
    ultimately show ?thesis
      by (cases "current u") (simp_all add: page_flip_handler_def Let_def wp_simps split: option.split)
  next
    case False
    then show ?thesis
      using u by (auto simp: wp_ret flip_seen_def known_def split: option.splits)
  qed
qed

lemma flip_queue_seen:
  assumes K: "obeys K flip_rules" and u: "flip_seen u l" "upcoming u = Some f"
  shows "wp (flip_queue fd kms c f u) (kept flip_seen (\<lambda>y. flip_seen (either y))) K N l"
proof -
  have flip: "wp (sys (G (PageFlip fd i (fb_id f) True)) (\<lambda>r. if rv r < 0 then say os (ret (Inr u))
      else ret (Inl (u\<lparr>flip_pending := True\<rparr>)))) (kept flip_seen (\<lambda>y. flip_seen (either y))) K N l" if "flip_seen u l" for i os l
    using that u(2) by (intro wp_stepI wp_ifI)
      (auto simp: wp_simps flip_seen_def known_def split: option.splits)
  show ?thesis
    unfolding flip_queue_def Let_def
    using u by (intro wp_stepI wp_ifI flip wp_say [THEN iffD2] wp_ret [THEN iffD2])
      (auto simp: flip_seen_def known_def split: option.splits)
qed

text \<open>A buffer that has just been locked is none of those that the device knows.\<close>

definition fresh_bo :: "resp \<Rightarrow> flip_state \<Rightarrow> drm_call history \<Rightarrow> bool" where
  "fresh_bo b u l \<longleftrightarrow> flip_seen u l \<and> upcoming u = None \<and> RLock (rv b) \<in> held l \<and>
     locked_last (view l) = rv b \<and> (\<forall>c. current u = Some c \<longrightarrow> fb_bo c \<noteq> rv b)"

lemma fresh_bo_Out [simp]: "fresh_bo b u (Out os # l) = fresh_bo b u l"
  by (simp add: fresh_bo_def)

lemma fresh_bo_next: "fresh_bo b u l \<Longrightarrow> known f l \<Longrightarrow> fb_bo f = rv b \<Longrightarrow> flip_seen (u\<lparr>upcoming := Some f\<rparr>) l"
  by (auto simp: fresh_bo_def flip_seen_def split: option.splits)

lemma get_from_bo_seen:
  assumes K: "obeys K flip_rules" and b: "fresh_bo b u l"
  shows "wp (drm_fb_get_from_bo fd b u) (kept flip_seen (\<lambda>(x, v) l. case x of
     None \<Rightarrow> v = u \<and> fresh_bo b u l
   | Some f \<Rightarrow> flip_seen (v\<lparr>upcoming := Some f\<rparr>) l)) K N l" (is "wp _ (kept _ ?V) K N l")
proof (cases "find (\<lambda>f. fb_bo f = rv b) (user_data u)")
  case (Some f)
  then have "f \<in> set (user_data u)" "fb_bo f = rv b" by (auto simp: find_Some_iff)
  then have "flip_seen (u\<lparr>upcoming := Some f\<rparr>) l"
    using b by (intro fresh_bo_next) (auto simp: fresh_bo_def flip_seen_def)
  then show ?thesis unfolding drm_fb_get_from_bo_def Some by (simp add: wp_say wp_ret)
next
  case None
  have "fresh_bo b u (Ev (P (Calloc n)) r # Out os # Out os' # l)" for n r os os'
    using b by (auto simp: fresh_bo_def intro!: flip_seen_calm)
  then have calloc: "fresh_bo b u (Ev (P (Calloc n)) r # Out os # Out os' # l)"
    "\<exists>v. flip_seen v (Ev (P (Calloc n)) r # Out os # Out os' # l)" for n r os os'
    unfolding fresh_bo_def by blast+
  have add: "wp (sys (AddFB fd w h p d) (\<lambda>a. if rv a \<noteq> 0 then ret (None, u) else
       let f = \<lparr>fb_ptr = q, fb_bo = rv b, fb_id = unum a 0\<rparr> in ret (Some f, u\<lparr>user_data := f # user_data u\<rparr>)))
      (kept flip_seen ?V) K N l" if l: "fresh_bo b u l" for w h p d q l
  proof (rule wp_sysI [OF K])
    let ?c = "AddFB fd w h p d"
    show "kept flip_seen ?V Wait l" using l by (auto simp: fresh_bo_def)
    fix a assume a: "flip_rules l ?c a"
    let ?f = "\<lparr>fb_ptr = q, fb_bo = rv b, fb_id = unum a 0\<rparr>"
    show "wp (if rv a \<noteq> 0 then ret (None, u) else let f = ?f in ret (Some f, u\<lparr>user_data := f # user_data u\<rparr>))
      (kept flip_seen ?V) K N (Ev ?c a # l)"
    proof (cases "rv a = 0")
      case True
      then have "RFb (unum a 0) \<notin> held l" using a by (simp add: flip_rules_def new_res_def)
      then have "known f (Ev ?c a # l)" if "known f l" for f
        using that True by (auto simp: known_def)
      moreover have "known ?f (Ev ?c a # l)" using True l by (simp add: known_def fresh_bo_def)
      ultimately have "flip_seen (u\<lparr>user_data := ?f # user_data u, upcoming := Some ?f\<rparr>) (Ev ?c a # l)"
        using True l by (auto simp: flip_seen_def fresh_bo_def split: option.splits)
      then show ?thesis using True by (simp add: wp_ret Let_def)
    next
      case False
      then have "fresh_bo b u (Ev ?c a # l)"
        using l by (auto simp: fresh_bo_def intro!: flip_seen_calm)
      then show ?thesis using False by (simp add: wp_ret)
    qed
  qed
  show ?thesis
    unfolding drm_fb_get_from_bo_def None
    by (intro wp_say [THEN iffD2], simp only: option.case, intro wp_say [THEN iffD2] add wp_stepI wp_ifI wp_fault [THEN iffD2])
      (use b calloc in \<open>auto simp: fresh_bo_def\<close>)
qed

lemma flip_next_seen:
  assumes K: "obeys K flip_rules" and u: "flip_seen u l"
  shows "wp (flip_next e u) (kept flip_seen (\<lambda>(x, v) l. flip_seen v l \<and> (\<forall>f. x = Some f \<longrightarrow> upcoming v = Some f))) K N l"
    (is "wp _ (kept _ ?V) K N l")
proof (cases "upcoming u")
  case None
  have get: "wp (bind (drm_fb_get_from_bo (gl_fd e) b u) (\<lambda>x. case x of
       (None, u) \<Rightarrow> sys (G (ReleaseBuffer (surface u) (rv b))) (\<lambda>_. ret (None, u))
     | (Some f, u) \<Rightarrow> ret (Some f, u\<lparr>upcoming := Some f\<rparr>))) (kept flip_seen ?V) K N l" if "fresh_bo b u l" for b l
  proof -
    have "flip_seen u (Ev (G (ReleaseBuffer (surface u) (rv b))) r # l)" if "fresh_bo b u l" for r l
      using that by (auto simp: fresh_bo_def flip_seen_def known_def split: option.splits)
    then have give: "wp (sys (G (ReleaseBuffer (surface u) (rv b))) (\<lambda>_. ret (None, u))) (kept flip_seen ?V) K N l" if "fresh_bo b u l" for l
      using that by (intro wp_stepI) (auto simp: wp_ret fresh_bo_def)
    show ?thesis
      by (rule kept_bind [OF get_from_bo_seen [OF K that]]) (auto simp: wp_ret split: option.splits intro!: give)
  qed
  have lock: "wp (sys (G (LockFront s)) (\<lambda>b. if rv b = 0 then say os (ret (None, u)) else
     bind (drm_fb_get_from_bo (gl_fd e) b u) (\<lambda>x. case x of
       (None, u) \<Rightarrow> sys (G (ReleaseBuffer (surface u) (rv b))) (\<lambda>_. ret (None, u))
     | (Some f, u) \<Rightarrow> ret (Some f, u\<lparr>upcoming := Some f\<rparr>)))) (kept flip_seen ?V) K N l" if l: "flip_seen u l" for s os l
  proof (rule wp_sysI [OF K])
    let ?c = "G (LockFront s)"
    show "kept flip_seen ?V Wait l" using l by auto
    fix b assume b: "flip_rules l ?c b"
    have "flip_seen u (Ev ?c b # l)"
      using l by (auto simp: flip_seen_def known_def split: option.splits)
    moreover from this have "rv b \<noteq> 0 \<Longrightarrow> fresh_bo b u (Ev ?c b # l)"
      using b l None by (auto simp: fresh_bo_def some_res_def flip_rules_def new_res_def flip_seen_def)
    ultimately show "wp (if rv b = 0 then say os (ret (None, u)) else
     bind (drm_fb_get_from_bo (gl_fd e) b u) (\<lambda>x. case x of
       (None, u) \<Rightarrow> sys (G (ReleaseBuffer (surface u) (rv b))) (\<lambda>_. ret (None, u))
     | (Some f, u) \<Rightarrow> ret (Some f, u\<lparr>upcoming := Some f\<rparr>))) (kept flip_seen ?V) K N (Ev ?c b # l)"
      using get by (cases "rv b = 0") (simp_all add: wp_say wp_ret)
  qed
  show ?thesis
    unfolding flip_next_def None
    by (simp, intro wp_stepI lock flip_seen_calm) (use u in auto)
qed (use u in \<open>simp add: flip_next_def wp_ret\<close>)

interpretation flips_seen: flips e flip_seen for e
proof
  show "calm c (gl_fd e) \<Longrightarrow> flip_seen u l \<Longrightarrow> flip_seen u (Ev c r # l)" for c u l r
    by (rule flip_seen_calm) (erule calm.elims; auto)+
  show "flip_seen u l \<Longrightarrow> flip_seen (u\<lparr>angle := a\<rparr>) l" for u l a
    by (auto simp: flip_seen_def known_def split: option.splits)
qed (auto intro: on_drm_input_seen flip_next_seen flip_queue_seen)

text \<open>On the way to the context nothing concerns the screen; and after the loop nothing is given back to the surface.\<close>

fun setup_call :: "drm_call \<Rightarrow> bool" where
  "setup_call (AddFB fd w h p d) \<longleftrightarrow> False"
| "setup_call (SetCrtc fd c f x y n m) \<longleftrightarrow> False"
| "setup_call (G (LockFront s)) \<longleftrightarrow> False"
| "setup_call (G (ReleaseBuffer s b)) \<longleftrightarrow> False"
| "setup_call (G (PageFlip fd c f b)) \<longleftrightarrow> False"
| "setup_call (G (HandleEvent fd)) \<longleftrightarrow> False"
| "setup_call c \<longleftrightarrow> True"

definition untouched :: "drm_call history \<Rightarrow> bool" where
  "untouched l \<longleftrightarrow> view l = no_view \<and> flips_safe l"

lemma untouched_step: "setup_call c \<Longrightarrow> untouched l \<Longrightarrow> untouched (Ev c r # l)"
  by (cases c rule: setup_call.cases) (simp_all add: untouched_def)

lemma untouched_simps [simp]: "untouched (Out os # l) = untouched l" "untouched []"
  by (simp_all add: untouched_def)

lemma untouched_conf: "closed_under (conf_call fd) untouched"
proof -
  have "setup_call c" if "conf_call fd c" for c using that by (cases c) simp_all
  then show ?thesis by (auto simp: closed_under_def intro: untouched_step)
qed

lemma untouched_sys:
  assumes "setup_call c" "untouched l" "\<And>r l. untouched l \<Longrightarrow> wp (k r) (\<lambda>_. flips_safe) K N l"
  shows "wp (sys c k) (\<lambda>_. flips_safe) K N l"
  using assms by (auto intro!: wp_stepI untouched_step) (simp add: untouched_def)

lemma labels_safe:
  assumes "flips_safe l"
  shows "wp (gl_close_fd fd rt) (\<lambda>_. flips_safe) K N l" "wp (destroy_gbm_device fd g rt) (\<lambda>_. flips_safe) K N l"
    "wp (egl_terminate fd g d rt) (\<lambda>_. flips_safe) K N l" "wp (destroy_context e rt) (\<lambda>_. flips_safe) K N l"
    "wp (unmake_current e rt) (\<lambda>_. flips_safe) K N l"
  using assms
  by (simp_all add: gl_close_fd_def destroy_gbm_device_def egl_terminate_def destroy_context_def unmake_current_def wp_simps
      split: option.split)

lemma surface_labels_safe:
  assumes "flips_safe l"
  shows "wp (t3_destroy_surface e s fs rt) (\<lambda>_. flips_safe) K N l" "wp (t3_destroy_egl_surface e s x fs rt) (\<lambda>_. flips_safe) K N l"
    "wp (t3_restore e kms c u) (\<lambda>_. flips_safe) K N l"
proof -
  have fbs: "wp (fb_callbacks fd fs (unmake_current e rt)) (\<lambda>_. flips_safe) K N l" if "flips_safe l" for fd fs rt l
    using that by (induction fs arbitrary: l) (simp_all add: labels_safe wp_simps Let_def split: option.split)
  have 1: "wp (t3_destroy_surface e s fs rt) (\<lambda>_. flips_safe) K N l" if "flips_safe l" for s fs rt l
    using that by (simp add: t3_destroy_surface_def wp_sys fbs split: option.split)
  have 2: "wp (t3_destroy_egl_surface e s x fs rt) (\<lambda>_. flips_safe) K N l" if "flips_safe l" for s x fs rt l
    using that by (simp add: t3_destroy_egl_surface_def wp_sys 1 split: option.split)
  show "wp (t3_destroy_surface e s fs rt) (\<lambda>_. flips_safe) K N l" "wp (t3_destroy_egl_surface e s x fs rt) (\<lambda>_. flips_safe) K N l"
    "wp (t3_restore e kms c u) (\<lambda>_. flips_safe) K N l"
    using assms by (simp_all add: 1 2 t3_restore_def wp_simps Let_def split: option.split)
qed

lemma t3_run_safe:
  assumes K: "obeys K flip_rules" and l: "untouched l"
  shows "wp (t3_run i e kms c) (\<lambda>_. flips_safe) K N l"
proof -
  have safe: "flips_safe l" if "untouched l" for l using that by (simp add: untouched_def)
  have go: "wp (bind (foreach [0..<10] (flip_turn e kms c)
       \<lparr>surface = s, egl_surface = x, current = None, upcoming = None, flip_pending = False, user_data = [], angle = 0\<rparr>)
     (\<lambda>y. t3_restore e kms v (either y))) (\<lambda>_. flips_safe) K N l" if "untouched l" for v x s l
  proof (rule wp_bindI [where P = "\<lambda>y. flip_seen (either y)"])
    have "flip_seen \<lparr>surface = s, egl_surface = x, current = None, upcoming = None, flip_pending = False, user_data = [], angle = 0\<rparr> l"
      using that by (simp add: flip_seen_def untouched_def no_view_def)
    then show "wp (foreach [0..<10] (flip_turn e kms c)
       \<lparr>surface = s, egl_surface = x, current = None, upcoming = None, flip_pending = False, user_data = [], angle = 0\<rparr>)
      (seq (\<lambda>y. flip_seen (either y)) (\<lambda>_. flips_safe)) K N l"
      by (rule wp_mono [OF flips_seen.turns [OF K]]) (auto simp: kept_def seq_def flip_seen_safe split: res.splits)
  qed (auto intro: surface_labels_safe flip_seen_safe)
  show ?thesis
    unfolding t3_run_def dump_crtc_configuration_def
    by (intro untouched_sys wp_ifI wp_say [THEN iffD2] wp_fault [THEN iffD2] go) (use l in \<open>auto intro!: labels_safe surface_labels_safe simp: safe\<close>)
qed

lemma drm_gl_test3_safe:
  assumes K: "obeys K flip_rules"
  shows "wp (drm_gl_test3 i name args) (\<lambda>_. flips_safe) K N []"
proof -
  have safe: "flips_safe l" if "untouched l" for l using that by (simp add: untouched_def)
  have ctx: "wp (gl_context fd g d cfg attrs (\<lambda>e. t3_run i e kms c)) (\<lambda>_. flips_safe) K N l" if "untouched l" for fd g d cfg attrs kms c l
    unfolding gl_context_def Let_def
    by (intro untouched_sys wp_ifI wp_say [THEN iffD2] t3_run_safe [OF K]) (use that in \<open>auto intro!: labels_safe simp: safe\<close>)
  have config: "wp (gl_config fd g d (\<lambda>cfg. gl_context fd g d cfg [2] (\<lambda>e. t3_run i e kms c))) (\<lambda>_. flips_safe) K N l" if "untouched l" for fd g d kms c l
    unfolding gl_config_def
    by (intro untouched_sys wp_ifI wp_say [THEN iffD2] ctx) (use that in \<open>auto intro!: labels_safe simp: safe\<close>)
  have display: "wp (gl_display fd (\<lambda>g d. gl_config fd g d (\<lambda>cfg. gl_context fd g d cfg [2] (\<lambda>e. t3_run i e kms c)))) (\<lambda>_. flips_safe) K N l"
    if "untouched l" for fd kms c l
    unfolding gl_display_def
    by (intro untouched_sys wp_ifI wp_say [THEN iffD2] wp_fault [THEN iffD2] config) (use that in \<open>auto intro!: labels_safe simp: safe\<close>)
  have conf: "wp (case args of None \<Rightarrow> drm_autoconf fd | Some opts \<Rightarrow> drm_get_conf_cmdline fd name opts)
      (seq (\<lambda>c. untouched) (\<lambda>_. flips_safe)) K N l" if "untouched l" for fd l
    by (cases args) (auto intro!: wp_mono [OF conf_keep(1) [OF untouched_conf that]] wp_mono [OF conf_keep(2) [OF untouched_conf that]]
        simp: quiet_def seq_def safe split: res.split)
  show ?thesis
    unfolding drm_gl_test3_def gl_open_def
    by (intro untouched_sys wp_ifI wp_say [THEN iffD2] wp_exit [THEN iffD2] wp_bindI [OF conf])
      (auto simp: wp_say wp_fault dump_drm_configuration_def split: option.split intro!: labels_safe display intro: safe)
qed

section \<open>The properties\<close>

text \<open>
  C34: page flipping in \<open>drm_gl_test3\<close>, on a device that keeps \<open>flip_rules\<close> (no frame buffer has the id 0, an event
  comes only for a flip that is queued). For all orders of events and all errors, no buffer is given back to the
  surface while the device shows it or is about to show it. Counted being descriptors, gbm devices, surfaces
  and locked buffers, EGL contexts and windows, and frame buffers, each call uses only what the program owns at
  that point; and when the program exits, with any status, it owns at most the locks of two buffers,
  or the device alone, after \<open>-h\<close>. Not counted are the memory of a \<open>DrmFb\<close> and the structures of libdrm.
\<close>

theorem gl_test3_flips:
  assumes "obeys K flip_rules"
  shows "wp (drm_gl_test3 i name args) (\<lambda>x l. flips_safe l \<and> proper l \<and>
     (\<forall>n. x = Exit n \<longrightarrow> (\<exists>b c. held l \<subseteq> {RLock b, RLock c}) \<or> (\<exists>fd. held l = {RFd fd}))) K N []"
proof -
  have "wp (drm_gl_test3 i name args) (\<lambda>x l. flips_safe l \<and> leaving (\<lambda>H. locks H \<or> (\<exists>fd. H = {RFd fd})) x l) K N []"
    unfolding wp_conj by (intro conjI drm_gl_test3_safe drm_gl_test3_leaves assms)
  then show ?thesis by (rule wp_mono) (simp add: leaving_def locks_def)
qed

text \<open>A device with a surface of two buffers; it fails once both have been on the screen.\<close>

fun gl_device :: "drm_call kernel" where
  "gl_device l (P (Open n)) = Some (ok 3)"
| "gl_device l (P (Select n fds t)) = Some (
     if length (fb_of (view l)) = 2 \<and> on_screen (view l) = Some 22 then failed EINVAL
     else ready_fds (if queued (view l) = None then [] else fds))"
| "gl_device l (GetResources fd) = Some ((ok 10)\<lparr>tables := [[7], [12], [5]]\<rparr>)"
| "gl_device l (GetConnector fd i) = Some ((with_nums 11 [7, 1, 12])\<lparr>tables := [[12], [4], [2]], texts := [[112]]\<rparr>)"
| "gl_device l (GetEncoder fd i) = Some (with_nums 12 [12, 5, 1])"
| "gl_device l (GetCrtc fd i) = Some (with_nums 13 [5, 30])"
| "gl_device l (SetCrtc fd i f x y c m) = Some (ok 0)"
| "gl_device l (AddFB fd w h p d) = Some (with_nums 0 [31 + int (length (fb_of (view l)))])"
| "gl_device l (G (EglQueryString d n)) = Some ((ok 1)\<lparr>bytes := chars ''EGL_KHR_surfaceless_context''\<rparr>)"
| "gl_device l (G (EglChooseConfig d)) = Some (with_nums 1 [9, 1])"
| "gl_device l (G (LockFront s)) = Some (ok (if on_screen (view l) = Some 21 then 22 else 21))"
| "gl_device l (G (PageFlip fd c f b)) = Some (ok (if queued (view l) = None then 0 else -1))"
| "gl_device l (G (HandleEvent fd)) = Some (ok (if queued (view l) = None then 0 else 1))"
| "gl_device l c = Some (ok 1)"

fun plain :: "drm_call \<Rightarrow> bool" where
  "plain (G (Gl f as)) \<longleftrightarrow> True"
| "plain (P Getchar) \<longleftrightarrow> True"
| "plain c \<longleftrightarrow> False"

definition gl_kernel :: "drm_call kernel" where
  "gl_kernel l c = (if plain c then Some (ok 1) else guarded flip_rules gl_device l c)"

lemma gl_obeys: "obeys gl_kernel flip_rules"
proof -
  have "flip_rules l c r" if "plain c" for l c r
    using that by (cases c rule: plain.cases) (simp_all add: flip_rules_def new_res_def)
  then show ?thesis using obeys_guarded [of flip_rules gl_device] by (simp add: gl_kernel_def obeys_def)
qed

primrec releases :: "drm_call history \<Rightarrow> int list" where
  "releases [] = []"
| "releases (x # l) = (case x of
     Ev c r \<Rightarrow> (case c of G g \<Rightarrow> (case g of ReleaseBuffer s b \<Rightarrow> b # releases l | _ \<Rightarrow> releases l) | _ \<Rightarrow> releases l)
   | Out os \<Rightarrow> releases l)"

text \<open>Two frames, with their events: the first buffer is given back once the second is on the screen.\<close>

definition gl_demo :: gl where "gl_demo = \<lparr>gl_fd = 3, gl_gbm = 1, gl_dpy = 1, gl_ctx = 1\<rparr>"

definition flip_demo :: flip_state where
  "flip_demo = \<lparr>surface = 1, egl_surface = 1, current = None, upcoming = None, flip_pending = False, user_data = [], angle = 0\<rparr>"

definition one_flip :: "flip_state \<Rightarrow> (flip_state, drm_call) io" where
  "one_flip u =
     bind (flip_next gl_demo u) (\<lambda>x. case x of
       (None, u) \<Rightarrow> ret u
     | (Some f, u) \<Rightarrow> bind (flip_queue 3 \<lparr>connector = ok 11, encoder = ok 12,
           mode = \<lparr>mode_name = [], hdisplay = 4, vdisplay = 2\<rparr>, crtc = None\<rparr> (ok 13) f u)
         (\<lambda>y. on_drm_input 3 (either y)))"

theorem gl_test3_flips_witness:
  "wp (drm_gl_test3 7 [65] None) (\<lambda>x l. flips_safe l \<and> proper l \<and>
     (\<forall>n. x = Exit n \<longrightarrow> (\<exists>b c. held l \<subseteq> {RLock b, RLock c}) \<or> (\<exists>fd. held l = {RFd fd}))) gl_kernel 1 [] \<and>
   wp (bind (one_flip flip_demo) one_flip) (\<lambda>x l. releases l = [21] \<and> on_screen (view l) = Some 22) gl_kernel 1 []"
  by (rule conjI [OF gl_test3_flips [OF gl_obeys]]) code_simp

end
