(* ===== verification/Drm_Info.thy ===== *)
theory Drm_Info
  imports Drm_Kms
begin

text \<open>
  \<open>drm-tests/drm_info.c\<close>: a report of what libdrm says of a device. The numbers that the headers of the kernel give to
  connectors, encoders and formats are not in the repository: they are a parameter, from the name of a macro to its value.
  Beside the fields that the other programs read, the answers have the type of a connector or an encoder as number 3.
\<close>

section \<open>Names\<close>

type_synonym codes = "string \<Rightarrow> int"

fun type_str :: "codes \<Rightarrow> (string \<times> string) list \<Rightarrow> int \<Rightarrow> string" where
  "type_str code [] t = ''(invalid)''"
| "type_str code ((m, n) # names) t = (if code m = t then n else type_str code names t)"

definition encoder_type_names :: "(string \<times> string) list" where
  "encoder_type_names = [
     (''DRM_MODE_ENCODER_NONE'', ''none''), (''DRM_MODE_ENCODER_DAC'', ''DAC''),
     (''DRM_MODE_ENCODER_TMDS'', ''TMDS''), (''DRM_MODE_ENCODER_LVDS'', ''LVDS''),
     (''DRM_MODE_ENCODER_TVDAC'', ''TVDAC''), (''DRM_MODE_ENCODER_VIRTUAL'', ''VIRTUAL''),
     (''DRM_MODE_ENCODER_DSI'', ''DSI''), (''DRM_MODE_ENCODER_DPMST'', ''DPMST''), (''DRM_MODE_ENCODER_DPI'', ''DPI'')]"

definition connector_status_names :: "(string \<times> string) list" where
  "connector_status_names = [
     (''DRM_MODE_CONNECTED'', ''connected''), (''DRM_MODE_DISCONNECTED'', ''disconnected''),
     (''DRM_MODE_UNKNOWNCONNECTION'', ''unknown'')]"

definition connector_type_names :: "(string \<times> string) list" where
  "connector_type_names = [
     (''DRM_MODE_CONNECTOR_Unknown'', ''unknown''), (''DRM_MODE_CONNECTOR_VGA'', ''VGA''),
     (''DRM_MODE_CONNECTOR_DVII'', ''DVI-I''), (''DRM_MODE_CONNECTOR_DVID'', ''DVI-D''),
     (''DRM_MODE_CONNECTOR_DVIA'', ''DVI-A''), (''DRM_MODE_CONNECTOR_Composite'', ''composite''),
     (''DRM_MODE_CONNECTOR_SVIDEO'', ''s-video''), (''DRM_MODE_CONNECTOR_LVDS'', ''LVDS''),
     (''DRM_MODE_CONNECTOR_Component'', ''component''), (''DRM_MODE_CONNECTOR_9PinDIN'', ''9-pin DIN''),
     (''DRM_MODE_CONNECTOR_DisplayPort'', ''displayport''), (''DRM_MODE_CONNECTOR_HDMIA'', ''HDMI-A''),
     (''DRM_MODE_CONNECTOR_HDMIB'', ''HDMI-B''), (''DRM_MODE_CONNECTOR_TV'', ''TV''),
     (''DRM_MODE_CONNECTOR_eDP'', ''embedded displayport''), (''DRM_MODE_CONNECTOR_VIRTUAL'', ''virtual''),
     (''DRM_MODE_CONNECTOR_DSI'', ''DSI''), (''DRM_MODE_CONNECTOR_DPI'', ''DPI''),
     (''DRM_MODE_CONNECTOR_WRITEBACK'', ''writeback'')]"

text \<open>The macro of a format is its name after \<open>DRM_FORMAT_\<close>.\<close>

definition format_names :: "(string \<times> string) list" where
  "format_names = map (\<lambda>n. (''DRM_FORMAT_'' @ n, n)) [
     ''C8'', ''R8'', ''R16'', ''RG88'', ''GR88'', ''RG1616'', ''GR1616'', ''RGB332'', ''BGR233'', ''XRGB4444'',
     ''XBGR4444'', ''RGBX4444'', ''BGRX4444'', ''ARGB4444'', ''ABGR4444'', ''RGBA4444'', ''BGRA4444'', ''XRGB1555'',
     ''XBGR1555'', ''RGBX5551'', ''BGRX5551'', ''ARGB1555'', ''ABGR1555'', ''RGBA5551'', ''BGRA5551'', ''RGB565'',
     ''BGR565'', ''RGB888'', ''BGR888'', ''XRGB8888'', ''XBGR8888'', ''RGBX8888'', ''BGRX8888'', ''ARGB8888'',
     ''ABGR8888'', ''RGBA8888'', ''BGRA8888'', ''XRGB2101010'', ''XBGR2101010'', ''RGBX1010102'', ''BGRX1010102'',
     ''ARGB2101010'', ''ABGR2101010'', ''RGBA1010102'', ''BGRA1010102'', ''XRGB16161616F'', ''XBGR16161616F'',
     ''ARGB16161616F'', ''ABGR16161616F'', ''YUYV'', ''YVYU'', ''UYVY'', ''VYUY'', ''AYUV'', ''XYUV8888'',
     ''VUY888'', ''VUY101010'', ''Y210'', ''Y212'', ''Y216'', ''Y410'', ''Y412'', ''Y416'', ''XVYU2101010'',
     ''XVYU12_16161616'', ''XVYU16161616'', ''Y0L0'', ''X0L0'', ''Y0L2'', ''X0L2'', ''YUV420_8BIT'',
     ''YUV420_10BIT'', ''XRGB8888_A8'', ''XBGR8888_A8'', ''RGBX8888_A8'', ''BGRX8888_A8'', ''RGB888_A8'',
     ''BGR888_A8'', ''RGB565_A8'', ''BGR565_A8'', ''NV12'', ''NV21'', ''NV16'', ''NV61'', ''NV24'', ''NV42'',
     ''P210'', ''P010'', ''P012'', ''P016'', ''YUV410'', ''YVU410'', ''YUV411'', ''YVU411'', ''YUV420'', ''YVU420'',
     ''YUV422'', ''YVU422'', ''YUV444'', ''YVU444'']"

section \<open>The report\<close>

primrec says :: "out list list \<Rightarrow> ('a, drm_call) io \<Rightarrow> ('a, drm_call) io" where
  "says [] k = k"
| "says (x # xs) k = say x (says xs k)"

definition crtc_info :: "resp \<Rightarrow> ('a, drm_call) io \<Rightarrow> ('a, drm_call) io" where
  "crtc_info c k = says
     [[S ''crtc [id = '', D (uint (unum c 0)), S '']''],
      [S ''buffer [id = '', D (uint (unum c 1)), S '']''],
      [S ''position: '', D (uint (unum c 4)), S ''x'', D (uint (unum c 5)), S '' @ '', D (uint (unum c 2)), S ''x'', D (uint (unum c 3))],
      (if crtc_valid c then [S ''Mode: valid ['', B (crtc_mode_name c), S '']''] else [S ''Mode: invalid''])] k"

text \<open>A list on a line, each entry printed by itself.\<close>

definition listed :: "string \<Rightarrow> out list \<Rightarrow> out list list" where
  "listed h xs = map (\<lambda>i. [S (if i = 0 then h else '' ''), S ''['', xs ! i, S '']'', S (if i = length xs - 1 then [] else '' '')])
     [0..<length xs]"

definition connector_info :: "codes \<Rightarrow> resp \<Rightarrow> ('a, drm_call) io \<Rightarrow> ('a, drm_call) io" where
  "connector_info code c k = says (
     [[S ''Connector [id = '', D (uint (conn_id_of c)), S '']''],
      [S ''type ['', S (type_str code connector_type_names (sint (unum c 3))), S '']''],
      [S ''status ['', S (type_str code connector_status_names (sint (conn_state c))), S '']'']] @
     listed ''supported encoders: '' (map (\<lambda>e. D (uint e)) (conn_encoders c)) @
     [[S ''current encoder: '', D (uint (conn_encoder c))]] @
     listed ''modes: '' (map B (conn_modes c))) k"

text \<open>The crtcs of a mask. The array has 32 entries, or none when \<open>calloc\<close> has failed; only 31 bits are looked at.\<close>

primrec supported :: "nat list \<Rightarrow> uint32 \<Rightarrow> resp option list \<Rightarrow> ('a, drm_call) io \<Rightarrow> ('a, drm_call) io" where
  "supported [] m cs k = k"
| "supported (i # js) m cs k =
     (if bit m i then
        if length cs \<le> i then fault ''access outside of crtcs''
        else case cs ! i of
          Some c \<Rightarrow> say [S '' [id = '', D (sint (crtc_id_of c)), S '']''] (supported js m cs k)
        | None \<Rightarrow> say [S '' [#'', D (int i), S '', ??]''] (supported js m cs k)
      else supported js m cs k)"

definition encoder_info :: "codes \<Rightarrow> resp \<Rightarrow> resp option list \<Rightarrow> ('a, drm_call) io \<Rightarrow> ('a, drm_call) io" where
  "encoder_info code e cs k = says
     [[S ''Encoder [id = '', D (uint (enc_id_of e)), S '']''],
      [S ''type ['', S (type_str code encoder_type_names (sint (unum e 3))), S '']''],
      [S ''Crtc [id = '', D (uint (enc_crtc e)), S '']''],
      [S ''Supported crtc:'']] (supported [0..<31] (enc_possible e) cs k)"

text \<open>The answers for a frame buffer: id, width, height, then pitch, bits and depth, or the format.\<close>

definition fb_info :: "resp \<Rightarrow> ('a, drm_call) io \<Rightarrow> ('a, drm_call) io" where
  "fb_info f k = says
     [[S ''Framebuffer [id = '', D (uint (unum f 0)), S '']''],
      [S ''dimenstions: '', D (uint (unum f 1)), S ''x'', D (uint (unum f 2))],
      [S ''bpp: '', D (uint (unum f 4))],
      [S ''depth: '', D (uint (unum f 5))]] k"

definition fb2_info :: "codes \<Rightarrow> resp \<Rightarrow> ('a, drm_call) io \<Rightarrow> ('a, drm_call) io" where
  "fb2_info code f k = says
     [[S ''Framebuffer [id = '', D (uint (unum f 0)), S '']''],
      [S ''dimenstions: '', D (uint (unum f 1)), S ''x'', D (uint (unum f 2))],
      [S ''pixel format: '', S (type_str code format_names (sint (unum f 3)))]] k"

text \<open>A plane: its id, crtc, frame buffer, both positions, the mask of crtcs; and the table of its formats.\<close>

definition plane_info :: "codes \<Rightarrow> resp \<Rightarrow> resp option list \<Rightarrow> ('a, drm_call) io \<Rightarrow> ('a, drm_call) io" where
  "plane_info code p cs k = says (
     [[S ''Plane [id = '', D (uint (unum p 0)), S '']''],
      [S ''FB ID [id = '', D (uint (unum p 2)), S '']''],
      [S ''crtc ID [id = '', D (uint (unum p 1)), S '']'']] @
     map (\<lambda>i. [S (if i = 0 then ''Formats:'' else '',''), S [CHR '' '', CHR 0x27],
       S (type_str code format_names (sint (utable p 0 ! i))), S [CHR 0x27]])
       [0..<length (utable p 0)] @
     [[S ''CRTC XxY '', D (uint (unum p 3)), S ''x'', D (uint (unum p 4))],
      [S ''XxY '', D (uint (unum p 5)), S ''x'', D (uint (unum p 6))],
      [S ''Supported crtc:'']]) (supported [0..<31] (unum p 7) cs k)"

section \<open>The loops\<close>

definition info_crtc :: "int \<Rightarrow> uint32 list \<Rightarrow> nat \<Rightarrow> resp option list \<Rightarrow> (resp option list + unit, drm_call) io" where
  "info_crtc fd ids i cs =
     sys (GetCrtc fd (ids ! i)) (\<lambda>c.
     if length cs \<le> i then fault ''access outside of crtcs''
     else if rv c = 0 then ret (Inl (cs[i := None]))
     else crtc_info c (ret (Inl (cs[i := Some c]))))"

definition info_connector :: "codes \<Rightarrow> int \<Rightarrow> uint32 \<Rightarrow> unit \<Rightarrow> (unit + unit, drm_call) io" where
  "info_connector code fd i u =
     sys (GetConnector fd i) (\<lambda>c.
     if rv c = 0 then ret (Inl ())
     else connector_info code c (sys (FreeConnector (rv c)) (\<lambda>_. ret (Inl ()))))"

definition info_encoder :: "codes \<Rightarrow> int \<Rightarrow> resp option list \<Rightarrow> uint32 \<Rightarrow> unit \<Rightarrow> (unit + unit, drm_call) io" where
  "info_encoder code fd cs i u =
     sys (GetEncoder fd i) (\<lambda>e.
     if rv e = 0 then ret (Inl ())
     else encoder_info code e cs (sys (FreeEncoder (rv e)) (\<lambda>_. ret (Inl ()))))"

definition info_fb :: "codes \<Rightarrow> int \<Rightarrow> resp option \<Rightarrow> unit \<Rightarrow> (unit + unit, drm_call) io" where
  "info_fb code fd x u = (case x of
     None \<Rightarrow> ret (Inl ())
   | Some c \<Rightarrow>
       sys (GetFB2 fd (unum c 1)) (\<lambda>f.
       if rv f \<noteq> 0 then fb2_info code f (sys (FreeFB2 (rv f)) (\<lambda>_. ret (Inl ())))
       else
         sys (GetFB fd (unum c 1)) (\<lambda>f.
         if rv f = 0 then ret (Inl ())
         else fb_info f (sys (FreeFB (rv f)) (\<lambda>_. ret (Inl ()))))))"

definition info_plane :: "codes \<Rightarrow> int \<Rightarrow> resp option list \<Rightarrow> uint32 \<Rightarrow> unit \<Rightarrow> (unit + unit, drm_call) io" where
  "info_plane code fd cs i u =
     sys (GetPlane fd i) (\<lambda>p.
     if rv p = 0 then ret (Inl ())
     else plane_info code p cs (sys (FreePlane (rv p)) (\<lambda>_. ret (Inl ()))))"

definition planes_info :: "codes \<Rightarrow> int \<Rightarrow> resp option list \<Rightarrow> (unit, drm_call) io" where
  "planes_info code fd cs =
     sys (GetPlaneResources fd) (\<lambda>r.
     if rv r = 0 then say [S ''Error getting plane resources''] (ret ())
     else bind (foreach (utable r 0) (info_plane code fd cs) ()) (\<lambda>_. ret ()))"

definition info_free :: "resp option \<Rightarrow> unit \<Rightarrow> (unit + unit, drm_call) io" where
  "info_free x u = (case x of
     None \<Rightarrow> ret (Inl ())
   | Some c \<Rightarrow> sys (FreeCrtc (rv c)) (\<lambda>_. ret (Inl ())))"

text \<open>\<open>main\<close>; the value of \<open>ret\<close>, which a complete report never sets, is a parameter.\<close>

definition info_close :: "int \<Rightarrow> int \<Rightarrow> (unit, drm_call) io" where
  "info_close fd rt = sys (P (Close fd)) (\<lambda>_. exit (rt mod 256))"

definition drm_info :: "codes \<Rightarrow> int \<Rightarrow> (unit, drm_call) io" where
  "drm_info code rt =
     sys (P (Open ''/dev/dri/card0'')) (\<lambda>f. let fd = rv f in
     if fd < 0 then say [S ''couldn't open '', S ''/dev/dri/card0'', S '', skipping''] (exit 255) else
     sys (GetResources fd) (\<lambda>r.
     if rv r = 0 then say [S ''drmModeGetResources failed''] (info_close fd (-1)) else
     sys (P (Calloc 256)) (\<lambda>a.
     bind (foreach [0..<length (res_crtcs r)] (info_crtc fd (res_crtcs r)) (if rv a = 0 then [] else replicate 32 None)) (\<lambda>x.
     case x of Inr u \<Rightarrow> ret () | Inl cs \<Rightarrow>
     bind (foreach (res_connectors r) (info_connector code fd) ()) (\<lambda>_.
     bind (foreach (res_encoders r) (info_encoder code fd cs) ()) (\<lambda>_.
     bind (foreach (take (length (res_crtcs r)) cs) (info_fb code fd) ()) (\<lambda>_.
     bind (planes_info code fd cs) (\<lambda>_.
     bind (foreach (take (length (res_crtcs r)) cs) info_free ()) (\<lambda>_.
     sys (P (FreeMem (rv a))) (\<lambda>_. info_close fd rt))))))))))"

section \<open>What the report holds\<close>

text \<open>The objects held are \<open>H\<close>, and the one descriptor is the device.\<close>

definition reports :: "int \<Rightarrow> int set \<Rightarrow> drm_call history \<Rightarrow> bool" where
  "reports fd H l \<longleftrightarrow> holds H l \<and> open_fds drm_fds l = {fd} \<and> disciplined drm_fds l"

definition orderly :: "drm_call history \<Rightarrow> bool" where
  "orderly l \<longleftrightarrow> disciplined drm_objs l \<and> disciplined drm_fds l"

definition reported :: "('a \<Rightarrow> drm_call history \<Rightarrow> bool) \<Rightarrow> 'a res \<Rightarrow> drm_call history \<Rightarrow> bool" where
  "reported V x l \<longleftrightarrow> (case x of Val y \<Rightarrow> V y l | Exit n \<Rightarrow> False | _ \<Rightarrow> orderly l)"

lemma reported_simps [simp]:
  "reported V (Val y) l = V y l" "reported V (Fault e) l = orderly l" "reported V Wait l = orderly l" "\<not> reported V (Exit n) l"
  by (simp_all add: reported_def)

lemma reports_orderly: "reports fd H l \<Longrightarrow> orderly l"
  by (simp add: reports_def orderly_def holds_def)

lemma reports_Out [simp]: "reports fd H (Out os # l) = reports fd H l" "orderly (Out os # l) = orderly l"
  by (simp_all add: reports_def orderly_def)

text \<open>The steps: an object is got or not, and freed.\<close>

definition gets :: "int \<Rightarrow> drm_call \<Rightarrow> bool" where
  "gets fd c \<longleftrightarrow> obj_closes c = [] \<and> (\<forall>r. obj_opens c r = (if rv r = 0 then [] else [rv r])) \<and> drm_fd_closes c = [] \<and>
     (\<forall>r. drm_fd_opens c r = []) \<and> set (drm_fd_uses c) \<subseteq> {fd}"

definition frees :: "int \<Rightarrow> drm_call \<Rightarrow> bool" where
  "frees p c \<longleftrightarrow> obj_closes c = [p] \<and> (\<forall>r. obj_opens c r = []) \<and> drm_fd_closes c = [] \<and> (\<forall>r. drm_fd_opens c r = []) \<and> drm_fd_uses c = []"

lemma gets_simps [simp]:
  "gets fd (GetCrtc fd i)" "gets fd (GetConnector fd i)" "gets fd (GetEncoder fd i)" "gets fd (GetFB fd i)" "gets fd (GetFB2 fd i)"
  "gets fd (GetPlane fd i)" "gets fd (GetPlaneResources fd)" "gets fd (GetResources fd)"
  by (simp_all add: gets_def)

lemma frees_simps [simp]:
  "frees p (FreeCrtc p)" "frees p (FreeConnector p)" "frees p (FreeEncoder p)" "frees p (FreeFB p)" "frees p (FreeFB2 p)"
  "p \<noteq> 0 \<Longrightarrow> frees p (FreePlane p)"
  by (simp_all add: frees_def)

lemma get_step:
  assumes K: "obeys K new_ptrs" and l: "reports fd H l" and c: "gets fd c" and wait: "orderly l \<Longrightarrow> Q Wait l"
    and null: "\<And>r l. reports fd H l \<Longrightarrow> rv r = 0 \<Longrightarrow> wp (k r) Q K N l"
    and got: "\<And>r l. reports fd (insert (rv r) H) l \<Longrightarrow> rv r \<noteq> 0 \<Longrightarrow> rv r \<notin> H \<Longrightarrow> wp (k r) Q K N l"
  shows "wp (sys c k) Q K N l"
proof (rule wp_sysI [OF K])
  show "Q Wait l" using wait reports_orderly [OF l] .
  fix r assume "new_ptrs l c r"
  then have new: "rv r \<noteq> 0 \<Longrightarrow> rv r \<notin> H"
    using l c by (auto simp: new_ptrs_def reports_def holds_def gets_def)
  have "reports fd (H \<union> set (obj_opens c r)) (Ev c r # l)"
    using l c by (auto simp: reports_def holds_def gets_def)
  then show "wp (k r) Q K N (Ev c r # l)"
    using c new by (cases "rv r = 0") (auto simp: gets_def intro: null got)
qed

lemma free_step:
  assumes l: "reports fd (insert p H) l" "p \<notin> H" and c: "frees p c" and wait: "orderly l \<Longrightarrow> Q Wait l"
    and k: "\<And>r l. reports fd H l \<Longrightarrow> wp (k r) Q K N l"
  shows "wp (sys c k) Q K N l"
proof (rule wp_stepI)
  show "Q Wait l" using wait reports_orderly [OF l(1)] .
  fix r
  have "reports fd H (Ev c r # l)" using l c by (auto simp: reports_def holds_def frees_def)
  then show "wp (k r) Q K N (Ev c r # l)" by (rule k)
qed

lemma says_reports:
  assumes "reports fd H l" "\<And>l. reports fd H l \<Longrightarrow> wp k Q K N l"
  shows "wp (says os k) Q K N l"
  using assms(1) by (induction os arbitrary: l) (simp_all add: assms(2) wp_say)

lemma info_reports:
  assumes l: "reports fd H l" and k: "\<And>l. reports fd H l \<Longrightarrow> wp k Q K N l" and bad: "\<And>e l. orderly l \<Longrightarrow> Q (Fault e) l"
  shows "wp (supported js m cs k) Q K N l" "wp (crtc_info c k) Q K N l" "wp (connector_info code c k) Q K N l"
    "wp (encoder_info code c cs k) Q K N l" "wp (fb_info c k) Q K N l" "wp (fb2_info code c k) Q K N l" "wp (plane_info code c cs k) Q K N l"
proof -
  have s: "wp (supported js m cs k) Q K N l" if "reports fd H l" for js m l
    using that by (induction js arbitrary: l) (auto simp: k wp_say wp_fault bad reports_orderly split: option.split)
  show "wp (supported js m cs k) Q K N l" "wp (crtc_info c k) Q K N l" "wp (connector_info code c k) Q K N l"
    "wp (encoder_info code c cs k) Q K N l" "wp (fb_info c k) Q K N l" "wp (fb2_info code c k) Q K N l" "wp (plane_info code c cs k) Q K N l"
    unfolding crtc_info_def connector_info_def encoder_info_def fb_info_def fb2_info_def plane_info_def
    by (intro says_reports [OF l] s k l; assumption)+
qed

lemma loop_reports:
  assumes l: "reports fd H l" and body: "\<And>x l. reports fd H l \<Longrightarrow> wp (body x ()) (reported (\<lambda>_. reports fd H)) K N l"
  shows "wp (foreach xs body ()) (reported (\<lambda>_. reports fd H)) K N l"
  by (rule wp_foreach [where I = "\<lambda>_. reports fd H", OF l])
    (auto intro!: wp_mono [OF body] simp: reported_def seq_def for_post_def split: res.splits sum.splits)

lemma report_bodies:
  assumes K: "obeys K new_ptrs" and l: "reports fd H l"
  shows "wp (info_connector code fd i u) (reported (\<lambda>_. reports fd H)) K N l"
    "wp (info_encoder code fd cs i u) (reported (\<lambda>_. reports fd H)) K N l"
    "wp (info_plane code fd cs i u) (reported (\<lambda>_. reports fd H)) K N l"
    "wp (info_fb code fd x u) (reported (\<lambda>_. reports fd H)) K N l"
proof -
  show "wp (info_connector code fd i u) (reported (\<lambda>_. reports fd H)) K N l"
    unfolding info_connector_def
    by (rule get_step [OF K l]) (auto simp: wp_ret intro!: info_reports free_step)
  show "wp (info_encoder code fd cs i u) (reported (\<lambda>_. reports fd H)) K N l"
    unfolding info_encoder_def
    by (rule get_step [OF K l]) (auto simp: wp_ret intro!: info_reports free_step)
  show "wp (info_plane code fd cs i u) (reported (\<lambda>_. reports fd H)) K N l"
    unfolding info_plane_def
    by (rule get_step [OF K l]) (auto simp: wp_ret intro!: info_reports free_step)
  show "wp (info_fb code fd x u) (reported (\<lambda>_. reports fd H)) K N l"
  proof (cases x)
    case (Some c)
    have fb: "wp (sys (GetFB fd i) (\<lambda>f. if rv f = 0 then ret (Inl ()) else fb_info f (sys (FreeFB (rv f)) (\<lambda>_. ret (Inl ())))))
        (reported (\<lambda>_. reports fd H)) K N l" if "reports fd H l" for i l
      by (rule get_step [OF K that]) (auto simp: wp_ret intro!: info_reports free_step)
    show ?thesis
      unfolding info_fb_def Some option.case
      by (rule get_step [OF K l]) (auto simp: wp_ret intro!: fb info_reports free_step)
  qed (use l in \<open>simp add: info_fb_def wp_ret\<close>)
qed

text \<open>The array of crtcs and what it holds.\<close>

primrec somes :: "'a option list \<Rightarrow> 'a list" where
  "somes [] = []"
| "somes (x # xs) = (case x of None \<Rightarrow> somes xs | Some a \<Rightarrow> a # somes xs)"

lemma somes_append [simp]: "somes (xs @ ys) = somes xs @ somes ys"
  by (induction xs) (auto split: option.split)

lemma somes_none [simp]: "set xs \<subseteq> {None} \<Longrightarrow> somes xs = []"
  by (induction xs) auto

definition crtcs_to :: "int \<Rightarrow> int \<Rightarrow> nat \<Rightarrow> nat \<Rightarrow> resp option list \<Rightarrow> drm_call history \<Rightarrow> bool" where
  "crtcs_to fd p n i cs l \<longleftrightarrow> reports fd (insert p (rv ` set (somes cs))) l \<and> distinct (p # map rv (somes cs)) \<and>
     set (drop i cs) \<subseteq> {None}"

lemma crtcs_update:
  assumes "set (drop i cs) \<subseteq> {None}" "i < length cs"
  shows "somes (cs[i := Some c]) = somes cs @ [c]" "set (drop (Suc i) (cs[i := x])) \<subseteq> {None}" "cs[i := None] = cs"
proof -
  have d: "drop i cs = cs ! i # drop (Suc i) cs" using assms(2) by (simp add: Cons_nth_drop_Suc)
  then have i: "cs ! i = None" "set (drop (Suc i) cs) \<subseteq> {None}" using assms(1) by simp_all
  then show "cs[i := None] = cs" by (metis list_update_id)
  show "set (drop (Suc i) (cs[i := x])) \<subseteq> {None}" using i by simp
  have "somes cs = somes (take i cs) @ somes (drop i cs)" by (metis append_take_drop_id somes_append)
  then show "somes (cs[i := Some c]) = somes cs @ [c]"
    using assms(2) i d by (simp add: upd_conv_take_nth_drop)
qed

lemma info_crtc_reports:
  assumes K: "obeys K new_ptrs" and cs: "crtcs_to fd p n i cs l"
  shows "wp (info_crtc fd ids i cs) (reported (\<lambda>y l. case y of Inl cs' \<Rightarrow> crtcs_to fd p n (Suc i) cs' l \<and> length cs' = length cs | Inr u \<Rightarrow> False)) K N l"
proof -
  let ?H = "insert p (rv ` set (somes cs))"
  have l: "reports fd ?H l" using cs by (simp add: crtcs_to_def)
  show ?thesis
    unfolding info_crtc_def
  proof (rule get_step [OF K l])
    fix r :: resp and l1 assume "reports fd ?H l1" "rv r = 0"
    then show "wp (if length cs \<le> i then fault e else if rv r = 0 then ret (Inl (cs[i := None])) else crtc_info r (ret (Inl (cs[i := Some r]))))
      (reported (\<lambda>y l. case y of Inl cs' \<Rightarrow> crtcs_to fd p n (Suc i) cs' l \<and> length cs' = length cs | Inr u \<Rightarrow> False)) K N l1" for e
      using cs crtcs_update [of i cs] by (auto simp: wp_simps crtcs_to_def reports_orderly)
  next
    fix r :: resp and l1 assume r: "reports fd (insert (rv r) ?H) l1" "rv r \<noteq> 0" "rv r \<notin> ?H"
    have "crtcs_to fd p n (Suc i) (cs[i := Some r]) l" if "i < length cs" "reports fd (insert (rv r) ?H) l" for l
      using that cs r(3) crtcs_update [of i cs] by (auto simp: crtcs_to_def insert_commute)
    then show "wp (if length cs \<le> i then fault e else if rv r = 0 then ret (Inl (cs[i := None])) else crtc_info r (ret (Inl (cs[i := Some r]))))
      (reported (\<lambda>y l. case y of Inl cs' \<Rightarrow> crtcs_to fd p n (Suc i) cs' l \<and> length cs' = length cs | Inr u \<Rightarrow> False)) K N l1" for e
      using r by (auto simp: wp_fault wp_ret reports_orderly intro!: info_reports)
  qed simp_all
qed

lemma free_crtcs:
  assumes "reports fd (E \<union> rv ` set (somes cs)) l" "distinct (map rv (somes cs))" "E \<inter> rv ` set (somes cs) = {}"
  shows "wp (foreach cs info_free ()) (reported (\<lambda>_. reports fd E)) K N l"
  using assms
proof (induction cs arbitrary: l)
  case (Cons x cs)
  show ?case
  proof (cases x)
    case None
    then show ?thesis using Cons by (simp add: info_free_def wp_bind wp_ret seq_def)
  next
    case (Some c)
    have "wp (bind (sys (FreeCrtc (rv c)) (\<lambda>_. ret (Inl ()))) (\<lambda>y. case y of Inl s \<Rightarrow> foreach cs info_free s | Inr a \<Rightarrow> ret (Inr a)))
      (reported (\<lambda>_. reports fd E)) K N l"
      unfolding wp_bind
      by (rule free_step [where H = "E \<union> rv ` set (somes cs)" and p = "rv c" and fd = fd])
        (use Cons Some in \<open>auto simp: wp_ret seq_def\<close>)
    then show ?thesis using Some by (simp add: info_free_def [of "Some c" "()"])
  qed
qed (simp add: wp_ret)

definition with_one :: "int \<Rightarrow> int set \<Rightarrow> drm_call history \<Rightarrow> bool" where
  "with_one fd H l \<longleftrightarrow> (\<exists>E. reports fd (E \<union> H) l \<and> E \<inter> H = {} \<and> (E = {} \<or> (\<exists>q. E = {q})))"

lemma planes_reports:
  assumes K: "obeys K new_ptrs" and l: "reports fd H l"
  shows "wp (planes_info code fd cs) (reported (\<lambda>_. with_one fd H)) K N l"
  unfolding planes_info_def
proof (rule get_step [OF K l])
  have none: "with_one fd H l" if "reports fd H l" for l
    using that by (auto simp: with_one_def intro!: exI [of _ "{}"])
  fix r :: resp and l1 assume "reports fd H l1" "rv r = 0"
  then show "wp (if rv r = 0 then say os (ret ()) else bind (foreach (utable r 0) (info_plane code fd cs) ()) (\<lambda>_. ret ()))
      (reported (\<lambda>_. with_one fd H)) K N l1" for os
    using none by (simp add: wp_say wp_ret)
next
  fix r :: resp and l1 assume r: "reports fd (insert (rv r) H) l1" "rv r \<noteq> 0" "rv r \<notin> H"
  have one: "with_one fd H l" if "reports fd (insert (rv r) H) l" for l
    using that r(3) by (auto simp: with_one_def intro!: exI [of _ "{rv r}"])
  have "wp (bind (foreach (utable r 0) (info_plane code fd cs) ()) (\<lambda>_. ret ())) (reported (\<lambda>_. with_one fd H)) K N l1"
    unfolding wp_bind
    by (rule wp_mono [OF loop_reports [OF r(1)]])
      (auto intro: report_bodies [OF K] simp: reported_def seq_def wp_ret one split: res.splits)
  then show "wp (if rv r = 0 then say os (ret ()) else bind (foreach (utable r 0) (info_plane code fd cs) ()) (\<lambda>_. ret ()))
      (reported (\<lambda>_. with_one fd H)) K N l1" for os
    using r(2) by simp
qed simp_all

text \<open>Exits and prefixes of the whole program.\<close>

definition info_end :: "unit res \<Rightarrow> drm_call history \<Rightarrow> bool" where
  "info_end x l \<longleftrightarrow> orderly l \<and> (\<forall>n. x = Exit n \<longrightarrow> open_fds drm_fds l = {} \<and> card (open_fds drm_objs l) \<le> 2)"

lemma info_thru:
  assumes m: "wp m (reported V) K N l" and f: "\<And>y l. V y l \<Longrightarrow> wp (f y) info_end K N l"
  shows "wp (bind m f) info_end K N l"
  by (rule wp_bindI [where P = V]) (auto intro!: wp_mono [OF m] f simp: reported_def seq_def info_end_def split: res.splits)

lemma info_close_ends:
  assumes "reports fd H l" "card H \<le> 2"
  shows "wp (info_close fd n) info_end K N l"
  using assms by (auto simp: info_close_def wp_simps reports_def holds_def orderly_def info_end_def split: option.split)

lemma mem_step:
  assumes l: "reports fd H l" and k: "\<And>r l. reports fd H l \<Longrightarrow> wp (k r) info_end K N l"
  shows "wp (sys (P (Calloc n)) k) info_end K N l" "wp (sys (P (FreeMem p)) k) info_end K N l"
proof -
  have "reports fd H (Ev (P (Calloc n)) r # l)" "reports fd H (Ev (P (FreeMem p)) r # l)" for r
    using l by (simp_all add: reports_def holds_def)
  then show "wp (sys (P (Calloc n)) k) info_end K N l" "wp (sys (P (FreeMem p)) k) info_end K N l"
    using l by (auto intro!: wp_stepI k simp: info_end_def reports_orderly)
qed

lemma report_loops:
  assumes K: "obeys K new_ptrs" and l: "reports fd H l"
  shows "wp (foreach ids (info_connector code fd) ()) (reported (\<lambda>_. reports fd H)) K N l"
    "wp (foreach ids (info_encoder code fd cs) ()) (reported (\<lambda>_. reports fd H)) K N l"
    "wp (foreach xs (info_fb code fd) ()) (reported (\<lambda>_. reports fd H)) K N l"
  by (rule loop_reports [OF l], rule report_bodies [OF K], assumption)+

text \<open>After the crtcs are in the array.\<close>

lemma info_rest:
  assumes K: "obeys K new_ptrs" and cs: "crtcs_to fd p n n cs l"
  shows "wp (bind (foreach ids (info_connector code fd) ()) (\<lambda>_. bind (foreach es (info_encoder code fd cs) ()) (\<lambda>_.
     bind (foreach (take n cs) (info_fb code fd) ()) (\<lambda>_. bind (planes_info code fd cs) (\<lambda>_.
     bind (foreach (take n cs) info_free ()) (\<lambda>_. sys (P (FreeMem a)) (\<lambda>_. info_close fd rt))))))) info_end K N l"
proof -
  let ?C = "rv ` set (somes cs)"
  have "somes cs = somes (take n cs) @ somes (drop n cs)" by (metis append_take_drop_id somes_append)
  then have t: "somes (take n cs) = somes cs" using cs by (simp add: crtcs_to_def)
  have d: "distinct (map rv (somes cs))" "p \<notin> ?C" and l: "reports fd (insert p ?C) l" using cs by (auto simp: crtcs_to_def)
  have free: "wp (bind (foreach (take n cs) info_free ()) (\<lambda>_. sys (P (FreeMem a)) (\<lambda>_. info_close fd rt))) info_end K N l"
    if w: "with_one fd (insert p ?C) l" for l
  proof -
    obtain E where E: "reports fd (E \<union> insert p ?C) l" "E \<inter> insert p ?C = {}" "E = {} \<or> (\<exists>q. E = {q})"
      using w unfolding with_one_def by blast
    have "card (insert p E) \<le> 2" using E(3) by (auto simp: card_insert_if)
    moreover have "wp (foreach (take n cs) info_free ()) (reported (\<lambda>_. reports fd (insert p E))) K N l"
      by (rule free_crtcs) (use E d in \<open>auto simp: t\<close>)
    ultimately show ?thesis
      by (auto intro!: info_thru mem_step info_close_ends)
  qed
  show ?thesis
    by (intro info_thru [OF report_loops(1) [OF K, where H = "insert p ?C"]] info_thru [OF report_loops(2) [OF K, where H = "insert p ?C"]] info_thru [OF report_loops(3) [OF K, where H = "insert p ?C"]]
        info_thru [OF planes_reports [OF K, where H = "insert p ?C"]] free l) assumption+
qed

text \<open>
  C36: The report. Each libdrm object is freed once, while it is held, and each call is on the open device. When the program
  exits it has closed the device and has given back all objects but the two lists of resources, at most.
\<close>

theorem drm_info_objects:
  assumes "obeys K new_ptrs"
  shows "wp (drm_info code rt) (\<lambda>x l. disciplined drm_objs l \<and> disciplined drm_fds l \<and>
    (\<forall>n. x = Exit n \<longrightarrow> open_fds drm_fds l = {} \<and> card (open_fds drm_objs l) \<le> 2)) K N []"
proof -
  have crtcs: "wp (bind (foreach [0..<length (res_crtcs r)] (info_crtc fd (res_crtcs r)) cs) (\<lambda>x. case x of Inr u \<Rightarrow> ret () | Inl cs \<Rightarrow> k cs)) info_end K N l"
    if l: "reports fd {p} l" and k: "\<And>cs l. crtcs_to fd p (length (res_crtcs r)) (length (res_crtcs r)) cs l \<Longrightarrow> wp (k cs) info_end K N l"
      and cs: "set cs \<subseteq> {None}" for fd p k l cs and r :: resp
  proof (rule info_thru)
    let ?n = "length (res_crtcs r)"
    show "wp (foreach [0..<?n] (info_crtc fd (res_crtcs r)) cs)
        (reported (\<lambda>y l. case y of Inl cs \<Rightarrow> crtcs_to fd p ?n ?n cs l | Inr u \<Rightarrow> False)) K N l"
      by (rule wp_for [where I = "crtcs_to fd p ?n"])
        (use l cs in \<open>auto simp: crtcs_to_def [of _ _ _ 0] reported_def seq_def for_post_def
          intro!: wp_mono [OF info_crtc_reports [OF assms]] split: res.splits sum.splits\<close>)
  qed (auto split: sum.splits intro: k)
  have "wp (drm_info code rt) info_end K N []"
    unfolding drm_info_def Let_def
  proof (rule wp_stepI)
    fix f :: resp
    have opened: "reports (rv f) {} [Ev (P (Open nm)) f]" if "0 \<le> rv f" for nm
      using that by (simp add: reports_def holds_def)
    have none: "set (if a = 0 then [] else replicate 32 None) \<subseteq> {None}" for a :: int by auto
    have main: "wp (sys (P (Calloc 256)) (\<lambda>a.
     bind (foreach [0..<length (res_crtcs r)] (info_crtc (rv f) (res_crtcs r)) (if rv a = 0 then [] else replicate 32 None)) (\<lambda>x.
     case x of Inr u \<Rightarrow> ret () | Inl cs \<Rightarrow>
     bind (foreach (res_connectors r) (info_connector code (rv f)) ()) (\<lambda>_.
     bind (foreach (res_encoders r) (info_encoder code (rv f) cs) ()) (\<lambda>_.
     bind (foreach (take (length (res_crtcs r)) cs) (info_fb code (rv f)) ()) (\<lambda>_.
     bind (planes_info code (rv f) cs) (\<lambda>_.
     bind (foreach (take (length (res_crtcs r)) cs) info_free ()) (\<lambda>_.
     sys (P (FreeMem (rv a))) (\<lambda>_. info_close (rv f) rt))))))))) info_end K N l" if "reports (rv f) {rv r} l" for r l
      by (intro mem_step [OF that] crtcs [OF _ _ none] info_rest [OF assms]) assumption+
    show "wp (if rv f < 0 then say o1 (exit 255) else
     sys (GetResources (rv f)) (\<lambda>r.
     if rv r = 0 then say o2 (info_close (rv f) (-1)) else
     sys (P (Calloc 256)) (\<lambda>a.
     bind (foreach [0..<length (res_crtcs r)] (info_crtc (rv f) (res_crtcs r)) (if rv a = 0 then [] else replicate 32 None)) (\<lambda>x.
     case x of Inr u \<Rightarrow> ret () | Inl cs \<Rightarrow>
     bind (foreach (res_connectors r) (info_connector code (rv f)) ()) (\<lambda>_.
     bind (foreach (res_encoders r) (info_encoder code (rv f) cs) ()) (\<lambda>_.
     bind (foreach (take (length (res_crtcs r)) cs) (info_fb code (rv f)) ()) (\<lambda>_.
     bind (planes_info code (rv f) cs) (\<lambda>_.
     bind (foreach (take (length (res_crtcs r)) cs) info_free ()) (\<lambda>_.
     sys (P (FreeMem (rv a))) (\<lambda>_. info_close (rv f) rt)))))))))) info_end K N [Ev (P (Open nm)) f]" for o1 o2 nm
    proof (cases "rv f < 0")
      case False
      then have f: "0 \<le> rv f" by simp
      show ?thesis
        by (intro wp_ifI get_step [OF assms opened [OF f]] wp_say [THEN iffD2] main info_close_ends)
          (use False in \<open>auto simp: info_end_def\<close>)
    qed (simp add: wp_simps info_end_def orderly_def)
  qed (simp add: info_end_def orderly_def)
  then show ?thesis by (rule wp_mono) (simp add: info_end_def orderly_def)
qed

text \<open>A device with two crtcs that share a frame buffer, and without planes.\<close>

fun info_device :: "drm_call \<Rightarrow> resp" where
  "info_device (P (Open n)) = ok 3"
| "info_device (P (Calloc n)) = ok 9"
| "info_device (GetFB fd i) = with_nums 6 [31, 640, 480, 2560, 32, 24]"
| "info_device c = demo_device c"

theorem drm_info_objects_witness:
  "wp (drm_info (\<lambda>m. 1) 7) (\<lambda>x l. disciplined drm_objs l \<and> disciplined drm_fds l \<and>
     (\<forall>n. x = Exit n \<longrightarrow> open_fds drm_fds l = {} \<and> card (open_fds drm_objs l) \<le> 2)) (guarded new_ptrs (\<lambda>l c. Some (info_device c))) 1 [] \<and>
   wp (drm_info (\<lambda>m. 1) 7) (\<lambda>x l. x = Exit 7 \<and> open_fds drm_objs l = {1}) (guarded new_ptrs (\<lambda>l c. Some (info_device c))) 1 []"
  by (rule conjI [OF drm_info_objects [OF obeys_guarded]]) code_simp

section \<open>The names identify\<close>

text \<open>In each table, a name is printed for one number only, that of the first macro with this name.\<close>

lemma names_distinct:
  "distinct (map snd encoder_type_names)" "distinct (map snd connector_status_names)" "distinct (map snd connector_type_names)"
  "distinct (map snd format_names)"
  by code_simp+

lemma type_str_in: "type_str code names t \<noteq> ''(invalid)'' \<Longrightarrow> \<exists>m. (m, type_str code names t) \<in> set names \<and> code m = t"
  by (induction code names t rule: type_str.induct) auto

lemma type_str_identifies:
  assumes "type_str code names t = type_str code names u" "type_str code names t \<noteq> ''(invalid)''" "distinct (map snd names)"
  shows "t = u"
proof -
  obtain m m' where "(m, type_str code names t) \<in> set names" "code m = t" "(m', type_str code names t) \<in> set names" "code m' = u"
    using type_str_in [of code names t] type_str_in [of code names u] assms(1,2) by auto
  moreover have "inj_on snd (set names)" using assms(3) by (simp add: distinct_map)
  ultimately have "m = m'" using inj_onD [of snd "set names" "(m, type_str code names t)" "(m', type_str code names t)"] by simp
  then show ?thesis using \<open>code m = t\<close> \<open>code m' = u\<close> by simp
qed

end
