(* ===== verification/Fbdev.thy ===== *)
theory Fbdev
  imports Linux_Sys Bitmap
begin

text \<open>
  \<open>fbdev/c/fbdev.c\<close>: colour bars over a frame buffer, then the whole screen in each of the six colours. The mapping is a
  list of 32 bit words, as \<open>Bitmap\<close> has it; \<open>FbPut\<close> stands for the stores into it. The functions that draw
  are proved to draw bars and to stay inside of the mapping, for every size that fits an \<open>int\<close>.
\<close>

unbundle bit_operations_syntax

section \<open>The program\<close>

definition color16 :: "uint32 list" where
  "color16 = [0x1F, 0x7E0, 0xF800, 0xF81F, 0xFFE0, 0x7FF]"

text \<open>The word of a colour and the words of a line, for 16 or 32 bits per pixel. \<open>w / 2\<close> rounds to zero.\<close>

definition fb_color :: "int \<Rightarrow> nat \<Rightarrow> uint32" where
  "fb_color bpp k = (if bpp = 16 then push_bit 16 (color16 ! k) OR color16 ! k else color32 ! k)"

definition fb_words :: "int \<Rightarrow> int \<Rightarrow> int" where
  "fb_words bpp w = (if bpp = 16 then (if 0 \<le> w then w div 2 else - (- w div 2)) else w)"

definition fb_line :: "int \<Rightarrow> int \<Rightarrow> int \<Rightarrow> nat \<Rightarrow> uint32 list \<Rightarrow> uint32 list option" where
  "fb_line bpp w h i mem =
     Option.bind (cint (6 * int i)) (\<lambda>s.
     let k = nat (s div h); n = fb_words bpp w in
     for_opt (\<lambda>j m. Option.bind (cint (int i * n)) (\<lambda>p. poke m (nat p + j) (fb_color bpp k))) [0..<nat n] mem)"

definition fb_bars :: "int \<Rightarrow> int \<Rightarrow> int \<Rightarrow> uint32 list \<Rightarrow> uint32 list option" where
  "fb_bars bpp w h mem = for_opt (fb_line bpp w h) [0..<nat h] mem"

definition fb_fill :: "int \<Rightarrow> int \<Rightarrow> int \<Rightarrow> nat \<Rightarrow> uint32 list \<Rightarrow> uint32 list option" where
  "fb_fill bpp w h i mem =
     Option.bind (cint (h * fb_words bpp w)) (\<lambda>n. for_opt (\<lambda>j m. poke m j (fb_color bpp i)) [0..<nat n] mem)"

definition fb_store :: "uint32 list option \<Rightarrow> (uint32 list \<Rightarrow> ('a, linux_call) io) \<Rightarrow> ('a, linux_call) io" where
  "fb_store x k = (case x of
     None \<Rightarrow> fault ''overflow, or store outside of the mapping''
   | Some m \<Rightarrow> sys (FbPut m) (\<lambda>_. k m))"

text \<open>The bars, and the second loop. Other depths are found out in the first turn of whichever loop has one.\<close>

definition fb_out :: "int \<Rightarrow> int \<Rightarrow> int \<Rightarrow> (unit, linux_call) io" where
  "fb_out fd a sz = sys (FbMunmap a sz) (\<lambda>_. sys (L (Close fd)) (\<lambda>_. exit 0))"

definition fb_screen :: "int \<Rightarrow> int \<Rightarrow> int \<Rightarrow> nat \<Rightarrow> uint32 list \<Rightarrow> (uint32 list + unit, linux_call) io" where
  "fb_screen bpp w h i mem =
     say [S ''press enter to continue''] (sys (L Getchar) (\<lambda>_. fb_store (fb_fill bpp w h i mem) (\<lambda>m. ret (Inl m))))"

definition fb_draw :: "int \<Rightarrow> int \<Rightarrow> int \<Rightarrow> int \<Rightarrow> int \<Rightarrow> int \<Rightarrow> uint32 list \<Rightarrow> (unit, linux_call) io" where
  "fb_draw fd a sz bpp w h mem =
     (if bpp \<noteq> 16 \<and> bpp \<noteq> 32 then say [S ''unsupported bpp: '', D bpp] (fb_out fd a sz) else
      fb_store (fb_bars bpp w h mem) (\<lambda>mem.
      bind (foreach [0..<6] (fb_screen bpp w h) mem) (\<lambda>_. fb_out fd a sz)))"

text \<open>\<open>FbInfo\<close> answers with depth, height and width, \<open>FbMmap\<close> with the address and the words that are there.\<close>

definition fb_main :: "(char \<times> byte list) list \<Rightarrow> byte list \<Rightarrow> (unit, linux_call) io" where
  "fb_main opts name =
     (let usage = say [S ''usage: '', B name, S '' [-h] [-d <fbdev>]''] (say [S ''-h: this help message'']
        (say [S ''-d <fbdev>: framebuffer device, default is /dev/fb''] (exit 0))) in
     if list_ex (\<lambda>x. fst x \<noteq> CHR ''d'') opts then usage else
     let fbname = foldl (\<lambda>n x. snd x) (chars ''/dev/fb'') opts in
     sys (OpenArg fbname) (\<lambda>f. let fd = rv f in
     if fd < 0 then perror ''fbdev open'' (exit 255) else
     sys (FbInfo fd) (\<lambda>v.
     if rv v < 0 then perror ''ioctl FBIOGET_VSCREENINFO'' (exit 255) else
     let bpp = sint (word_of_int (num v 0) :: uint32); h = sint (word_of_int (num v 1) :: uint32);
         w = sint (word_of_int (num v 2) :: uint32) in
     case Option.bind (cint (h * w)) (\<lambda>n. cint (n * bpp)) of
       None \<Rightarrow> fault ''overflow of size''
     | Some n \<Rightarrow> let sz = (if 0 \<le> n then n div 8 else - (- n div 8)) in
       say [S ''framebuffer settings: '', D w, S '' x '', D h, S '' x '', D bpp] (
       say [S ''press enter to continue...''] (
       sys (L Getchar) (\<lambda>_.
       sys (FbPan fd) (\<lambda>p.
       if rv p < 0 then perror ''ioctl FBIOPAN_DISPLAY'' (exit 255) else
       sys (FbMmap fd sz) (\<lambda>m.
       if rv m = -1 then perror ''mmap'' (exit 255) else
       fb_draw fd (rv m) sz bpp w h (map word_of_int (table m 0))))))))))"

section \<open>What is drawn\<close>

definition fb_pixel :: "int \<Rightarrow> int \<Rightarrow> nat \<Rightarrow> nat \<Rightarrow> uint32" where
  "fb_pixel bpp h i = (\<lambda>j. fb_color bpp (nat (6 * int i div h)))"

text \<open>The picture: \<open>h\<close> lines of \<open>n\<close> words in six bands of colours.\<close>

definition bars :: "int \<Rightarrow> int \<Rightarrow> int \<Rightarrow> uint32 list" where
  "bars bpp n h = concat (map (\<lambda>i. replicate (nat n) (fb_color bpp (nat (6 * int i div h)))) [0..<nat h])"

lemma fb_bars_drawn:
  assumes sz: "0 \<le> w" "h * fb_words bpp w \<le> int (length mem)" "h * fb_words bpp w < 2 ^ 31" and h: "6 * h \<le> 2 ^ 31"
  shows "fb_bars bpp w h mem = Some (bars bpp (fb_words bpp w) h @ drop (nat h * nat (fb_words bpp w)) mem)"
proof -
  let ?n = "fb_words bpp w" and ?f = "fb_pixel bpp h"
  have n: "0 \<le> ?n" using sz(1) by (simp add: fb_words_def)
  have len: "nat h * nat ?n \<le> length mem"
    using sz(2) n by (cases "0 \<le> h") (simp_all add: nat_mult_distrib [symmetric] nat_le_iff)
  have line: "fb_line bpp w h i (drawn ?f (nat ?n) mem i 0) = Some (drawn ?f (nat ?n) mem (Suc i) 0)" if i: "i < nat h" for i
  proof -
    have "int i * ?n \<le> h * ?n" using i n by (intro mult_right_mono) auto
    moreover have "0 \<le> int i * ?n" using n by simp
    ultimately have p: "cint (int i * ?n) = Some (int i * ?n)" using sz(3) by (intro cint_Some) auto
    have "for_opt (\<lambda>j m. Option.bind (cint (int i * ?n)) (\<lambda>p. poke m (nat p + j) (fb_color bpp (nat (6 * int i div h)))))
        [0..<nat ?n] (drawn ?f (nat ?n) mem i 0) = Some (drawn ?f (nat ?n) mem i (nat ?n))"
    proof (rule for_opt_states)
      fix j assume "j < nat ?n"
      then show "Option.bind (cint (int i * ?n)) (\<lambda>p. poke (drawn ?f (nat ?n) mem i j) (nat p + j) (fb_color bpp (nat (6 * int i div h)))) =
          Some (drawn ?f (nat ?n) mem i (Suc j))"
        using drawn_poke [OF i _ len, of j ?f] n by (simp add: p fb_pixel_def nat_mult_distrib)
    qed
    moreover have "cint (6 * int i) = Some (6 * int i)" using i h by (intro cint_Some) auto
    ultimately show ?thesis by (simp add: fb_line_def Let_def drawn_next)
  qed
  have row: "row_of ?f (nat ?n) = (\<lambda>i. replicate (nat ?n) (fb_color bpp (nat (6 * int i div h))))"
    by (rule ext) (simp add: row_of_def fb_pixel_def map_replicate_const)
  have "for_opt (fb_line bpp w h) [0..<nat h] (drawn ?f (nat ?n) mem 0 0) = Some (drawn ?f (nat ?n) mem (nat h) 0)"
    by (rule for_opt_states [where s = "\<lambda>n. drawn ?f (nat ?n) mem n 0"]) (rule line)
  then show ?thesis
    by (simp add: fb_bars_def drawn_start drawn_end rows_of_def row bars_def)
qed

lemma fb_fill_drawn:
  assumes "h * fb_words bpp w \<le> int (length mem)" "\<bar>h * fb_words bpp w\<bar> < 2 ^ 31"
  shows "fb_fill bpp w h i mem = Some (replicate (nat (h * fb_words bpp w)) (fb_color bpp i) @ drop (nat (h * fb_words bpp w)) mem)"
proof -
  let ?n = "nat (h * fb_words bpp w)" and ?s = "\<lambda>j. replicate j (fb_color bpp i) @ drop j mem"
  have "for_opt (\<lambda>j m. poke m j (fb_color bpp i)) [0..<?n] (?s 0) = Some (?s ?n)"
  proof (rule for_opt_states)
    fix j assume "j < ?n"
    then show "poke (?s j) j (fb_color bpp i) = Some (?s (Suc j))"
      using assms(1) poke_snoc [of "replicate j (fb_color bpp i)" j mem "fb_color bpp i"] by (simp add: replicate_append_same)
  qed
  moreover have "cint (h * fb_words bpp w) = Some (h * fb_words bpp w)" using assms(2) by (intro cint_Some) auto
  ultimately show ?thesis by (simp add: fb_fill_def)
qed

section \<open>What is shown\<close>

primrec puts :: "linux_call history \<Rightarrow> uint32 list list" where
  "puts [] = []"
| "puts (x # l) = (case x of Ev c r \<Rightarrow> (case c of FbPut m \<Rightarrow> m # puts l | _ \<Rightarrow> puts l) | Out os \<Rightarrow> puts l)"

text \<open>The screens of a complete run: the bars, then the six colours; what lies behind the picture stays.\<close>

definition screens :: "int \<Rightarrow> int \<Rightarrow> int \<Rightarrow> uint32 list \<Rightarrow> uint32 list list" where
  "screens bpp w h mem = (let n = fb_words bpp w in
     (bars bpp n h @ drop (nat (h * n)) mem) #
     map (\<lambda>i. replicate (nat (h * n)) (fb_color bpp i) @ drop (nat (h * n)) mem) [0..<6])"

lemma length_bars: "0 \<le> n \<Longrightarrow> 0 \<le> h \<Longrightarrow> length (bars bpp n h) = nat (h * n)"
  by (simp add: bars_def length_concat comp_def sum_list_triv nat_mult_distrib)

text \<open>The screens so far; all of them when the program has ended.\<close>

definition showing :: "uint32 list list \<Rightarrow> 'a res \<Rightarrow> linux_call history \<Rightarrow> bool" where
  "showing ps x l \<longleftrightarrow> (\<exists>k\<le>length ps. puts l = rev (take k ps) \<and> (\<forall>n. x = Exit n \<longrightarrow> k = length ps)) \<and> (\<forall>e. x \<noteq> Fault e)"

lemma fb_draw_shows:
  assumes bpp: "bpp = 16 \<or> bpp = 32" and sz: "0 \<le> w" "0 \<le> h" "h * fb_words bpp w \<le> int (length mem)" "h * fb_words bpp w < 2 ^ 31"
    and h: "6 * h \<le> 2 ^ 31" and l: "puts l = []"
  shows "wp (fb_draw fd a z bpp w h mem) (showing (screens bpp w h mem)) K N l"
proof -
  let ?n = "fb_words bpp w" and ?ps = "screens bpp w h mem"
  define k where "k = nat (h * ?n)"
  have n: "0 \<le> ?n" using sz(1) by (simp add: fb_words_def)
  have "0 \<le> h * ?n" using n sz(2) by simp
  then have abs: "\<bar>h * ?n\<bar> < 2 ^ 31" using sz(4) by simp
  have len: "length ?ps = 7" by (simp add: screens_def Let_def)
  have nth: "?ps ! 0 = bars bpp ?n h @ drop k mem" "\<And>i. i < 6 \<Longrightarrow> ?ps ! Suc i = replicate k (fb_color bpp i) @ drop k mem"
    by (simp_all add: screens_def Let_def k_def)
  have each: "length (?ps ! i) = length mem \<and> drop k (?ps ! i) = drop k mem" if "i \<le> 6" for i
    using that nth sz(2,3) n by (cases i) (auto simp: length_bars k_def)
  have first: "fb_bars bpp w h mem = Some (?ps ! 0)"
    using fb_bars_drawn [OF sz(1,3,4) h] n sz(2) by (simp add: nth k_def nat_mult_distrib)
  have then_: "fb_fill bpp w h i (?ps ! i) = Some (?ps ! Suc i)" if "i < 6" for i
    using fb_fill_drawn [OF _ abs, of "?ps ! i"] each [of i] that sz(3) by (simp add: nth(2) [OF that] k_def [symmetric])
  have out: "wp (fb_out fd a z) (showing ?ps) K N l" if "puts l = rev ?ps" for l
    using that by (auto simp: fb_out_def wp_simps showing_def intro!: exI [of _ "length ?ps"] split: option.split)
  let ?I = "\<lambda>i m l. m = ?ps ! i \<and> puts l = rev (take (Suc i) ?ps)"
  have wait: "showing ?ps Wait l'" if "puts l' = rev (take (Suc i) ?ps)" "i < 6" for i l'
    using that len by (auto simp: showing_def intro!: exI [of _ "Suc i"])
  have turn: "wp (fb_screen bpp w h i m) (seq (for_post (?I (Suc i)) (seq (\<lambda>x l. puts l = rev ?ps) (showing ?ps)))
      (seq (\<lambda>x l. puts l = rev ?ps) (showing ?ps))) K N l" if i: "i < 6" and I: "?I i m l" for i m l
  proof -
    have "take (Suc (Suc i)) ?ps = take (Suc i) ?ps @ [?ps ! Suc i]" using i len by (simp add: take_Suc_conv_app_nth)
    then show ?thesis
      using I i then_ [OF i] by (auto simp: fb_screen_def fb_store_def wp_simps split: option.split intro!: wait [of _ i])
  qed
  have rest: "wp (bind (foreach [0..<6] (fb_screen bpp w h) (?ps ! 0)) (\<lambda>_. fb_out fd a z)) (showing ?ps) K N l" if "puts l = [?ps ! 0]" for l
  proof (rule wp_bindI [where P = "\<lambda>x l. puts l = rev ?ps", OF _ out])
    have "take (Suc 0) ?ps = [?ps ! 0]" using len by (cases ?ps) simp_all
    then show "wp (foreach [0..<6] (fb_screen bpp w h) (?ps ! 0)) (seq (\<lambda>x l. puts l = rev ?ps) (showing ?ps)) K N l"
      by (intro wp_for [where I = ?I] turn) (use that len in auto)
  qed
  have "showing ?ps Wait l" using l by (auto simp: showing_def intro!: exI [of _ 0])
  then show ?thesis
    using bpp first l rest by (auto simp: fb_draw_def fb_store_def wp_simps split: option.split)
qed

text \<open>
  The documented behaviour of a frame buffer with a given depth, height and width: \<open>FBIOGET_VSCREENINFO\<close> tells them, and a
  mapping of \<open>n\<close> bytes has \<open>n div 4\<close> words.
\<close>

definition fb_rules :: "int \<Rightarrow> int \<Rightarrow> int \<Rightarrow> linux_call contract" where
  "fb_rules bpp h w l c r \<longleftrightarrow> (case c of
     FbInfo fd \<Rightarrow> rv r < 0 \<or> num r 0 = bpp \<and> num r 1 = h \<and> num r 2 = w
   | FbMmap fd n \<Rightarrow> 0 \<le> n \<longrightarrow> rv r = -1 \<or> int (length (table r 0)) = n div 4
   | _ \<Rightarrow> True)"

text \<open>What a run may do: no overflow, no store outside, and a beginning of the screens.\<close>

definition fb_runs :: "int \<Rightarrow> int \<Rightarrow> int \<Rightarrow> unit res \<Rightarrow> linux_call history \<Rightarrow> bool" where
  "fb_runs bpp w h x l \<longleftrightarrow> (\<forall>e. x \<noteq> Fault e) \<and>
     (\<exists>mem k. puts l = rev (take k (screens bpp w h mem)) \<and> (x = Exit 0 \<longrightarrow> k = 0 \<or> k = 7))"

lemma fb_runs_quiet: "puts l = [] \<Longrightarrow> (\<And>e. x \<noteq> Fault e) \<Longrightarrow> fb_runs bpp w h x l"
  by (auto simp: fb_runs_def intro!: exI [of _ 0])

lemma fb_runs_showing: "showing (screens bpp w h mem) x l \<Longrightarrow> fb_runs bpp w h x l"
  by (fastforce simp: fb_runs_def showing_def screens_def Let_def)

text \<open>A picture of 16 or 32 bits per pixel lies in the mapping of its size.\<close>

lemma fb_fits:
  assumes "bpp = 16 \<or> bpp = 32" "0 < h" "0 \<le> w" "h * w * bpp < 2 ^ 31"
  shows "cint (h * w) = Some (h * w)" "cint (h * w * bpp) = Some (h * w * bpp)" "0 \<le> h * w * bpp"
    "h * fb_words bpp w \<le> h * w * bpp div 8 div 4" "h * fb_words bpp w < 2 ^ 31"
proof -
  have p: "0 \<le> h * w" using assms by simp
  have le: "h * w \<le> h * w * bpp" using p assms(1) by auto
  show "cint (h * w) = Some (h * w)" "cint (h * w * bpp) = Some (h * w * bpp)" "0 \<le> h * w * bpp"
    using p le assms(4) by (auto intro!: cint_Some)
  have "h * (w div 2) * 2 \<le> h * w" using assms(2) by (simp add: mult.assoc)
  then show words: "h * fb_words bpp w \<le> h * w * bpp div 8 div 4"
    using assms(1,3) by (auto simp: fb_words_def)
  have "h * w * bpp div 8 div 4 \<le> h * w * bpp" using p le by simp
  then show "h * fb_words bpp w < 2 ^ 31" using words assms(4) by linarith
qed

lemma fb_draw_runs:
  assumes "bpp = 16 \<or> bpp = 32" "0 < h" "6 * h \<le> 2 ^ 31" "0 \<le> w" "h * w * bpp < 2 ^ 31"
    and "int (length mem) = h * w * bpp div 8 div 4" "puts l = []"
  shows "wp (fb_draw fd a z bpp w h mem) (fb_runs bpp w h) K N l"
  by (rule wp_mono [OF fb_draw_shows [OF assms(1,4)] fb_runs_showing]) (use assms fb_fits [OF assms(1,2,4,5)] in simp_all)

text \<open>A device of one line of two pixels; its mapping has both of them.\<close>

definition small_fb :: "linux_call kernel" where
  "small_fb l c = Some (case c of
     FbInfo fd \<Rightarrow> with_nums 0 [32, 1, 2]
   | FbMmap fd n \<Rightarrow> ok 64\<lparr>tables := [replicate (nat (n div 4)) 0]\<rparr>
   | _ \<Rightarrow> ok 3)"

lemma small_fb_obeys: "obeys small_fb (fb_rules 32 1 2)"
  by (auto simp: obeys_def small_fb_def fb_rules_def with_nums_def ok_def num_def table_def split: linux_call.split)

text \<open>
  C40: The frame buffer tool. On a device of 16 or 32 bits per pixel whose size in bits fits an \<open>int\<close>, no computation
  overflows and nothing is stored outside of the mapping. What is stored is, in this order, six bands of colours and then each
  colour over the whole picture (all of them, or none after its usage, when the program ends with status 0); what the mapping has behind the picture is kept.
\<close>

theorem fb_main_shows:
  assumes K: "obeys K (fb_rules bpp h w)" and bpp: "bpp = 16 \<or> bpp = 32"
    and h: "0 < h" "6 * h \<le> 2 ^ 31" and w: "0 \<le> w" "w < 2 ^ 31" and sz: "h * w * bpp < 2 ^ 31"
  shows "wp (fb_main opts name) (\<lambda>x l. (\<forall>e. x \<noteq> Fault e) \<and> (\<exists>mem k. puts l = rev (take k (screens bpp w h mem)) \<and>
    (x = Exit 0 \<longrightarrow> k = 0 \<or> k = 7))) K N []"
proof -
  note fits = fb_fits [OF bpp h(1) w(1) sz]
  have nums: "sint (word_of_int bpp :: uint32) = bpp" "sint (word_of_int h :: uint32) = h" "sint (word_of_int w :: uint32) = w"
    using bpp h w by (auto intro!: sint_uint32)
  have "wp (fb_main opts name) (fb_runs bpp w h) K N []"
    unfolding fb_main_def Let_def
    by (intro wp_ifI wp_say [THEN iffD2] wp_exit [THEN iffD2] wp_sysI [OF K])
      (use bpp h w sz nums fits in \<open>auto simp: fb_rules_def wp_simps fb_runs_quiet split: option.split intro!: fb_draw_runs fb_runs_quiet dest!: obeysD [OF K]\<close>)
  then show ?thesis by (rule wp_mono) (simp add: fb_runs_def)
qed

theorem fb_main_shows_witness:
  "wp (fb_main [] (chars ''fbdev'')) (\<lambda>x l. (\<forall>e. x \<noteq> Fault e) \<and>
     (\<exists>mem k. puts l = rev (take k (screens 32 2 1 mem)) \<and> (x = Exit 0 \<longrightarrow> k = 0 \<or> k = 7))) small_fb 9 [] \<and>
   puts (snd (fb_main [] (chars ''fbdev'') small_fb 9 [])) ! 6 = [0xFF, 0xFF]"
proof
  show "wp (fb_main [] (chars ''fbdev'')) (\<lambda>x l. (\<forall>e. x \<noteq> Fault e) \<and>
     (\<exists>mem k. puts l = rev (take k (screens 32 2 1 mem)) \<and> (x = Exit 0 \<longrightarrow> k = 0 \<or> k = 7))) small_fb 9 []"
    by (rule fb_main_shows [OF small_fb_obeys]) simp_all
  show "puts (snd (fb_main [] (chars ''fbdev'') small_fb 9 [])) ! 6 = [0xFF, 0xFF]"
    by code_simp
qed

end
