(* ===== verification/Gles_Sink.thy ===== *)
theory Gles_Sink
  imports C_Lib
begin

text \<open>
  \<open>gst/gst-simple/gles2util.c\<close>, with \<open>x11util.c\<close> and \<open>shutil.c\<close>: the thread that draws the images of the OpenGL sink in a
  window, by its calls of X11, EGL and OpenGL. \<open>CompareSet\<close> and \<open>AtomicSet\<close> are the operations on \<open>gles2_sem\<close>, \<open>TexImage\<close>
  reads the image; \<open>Gles_Handoff\<close> has what they do together with the other thread.
\<close>

section \<open>Calls\<close>

datatype (plugins only: code size) gles_call =
    XOpenDisplay | DefaultScreen int | DefaultDepth int int | RootWindow int int | CallocVisual
  | MatchVisual int int int int | CreateColormap int int int | CreateWindow int int int int int | MapWindow int int | XFlush int
  | CloseDisplay int | Pending int | NextEvent int | LookupKeysym | LookupString
  | EglGetDisplay int | EglInitialize int | ChooseConfig int | CreateWindowSurface int int int | CreateContext int int
  | EglGetError | MakeCurrent int int int | EglTerminate int | SwapBuffers int int
  | Fopen "byte list" | Fseek int | Ftell int | Rewind int | CallocBytes int | Fread int int | Fclose int
  | CreateShader string | ShaderSource int "byte list" | CompileShader int | GetShaderiv int string | ShaderInfoLog int int
  | CreateProgram | AttachShader int int | BindAttrib int nat string | LinkProgram int | GetProgramiv int string | UseProgram int
  | Uniform1i int int | UniformLocation int string | UniformMatrix int "nat \<times> nat \<times> nat"
  | GenBuffers | BindBuffer int | BufferData nat | DeleteBuffers int | Clear
  | EnableAttrib nat | AttribPointer nat nat nat nat | DrawArrays nat
  | DeleteTextures int | GenTextures | BindTexture int | TexImage int int | TexParameter string
  | CompareSet int int | AtomicSet int

section \<open>The window and the shaders\<close>

text \<open>\<open>xutil_create_display\<close>: the result, the display and the window. They are only stored on success.\<close>

definition xutil_create_display :: "int \<Rightarrow> int \<Rightarrow> int \<times> int \<Rightarrow> (int \<times> int \<times> int, gles_call) io" where
  "xutil_create_display w h old =
     sys XOpenDisplay (\<lambda>d.
     if rv d = 0 then say [S ''Error: Unable to open X display''] (ret (-1, old)) else
     sys (DefaultScreen (rv d)) (\<lambda>n.
     sys (DefaultDepth (rv d) (rv n)) (\<lambda>p.
     sys (RootWindow (rv d) (rv n)) (\<lambda>r.
     sys CallocVisual (\<lambda>v.
     sys (MatchVisual (rv d) (rv n) (rv p) (rv v)) (\<lambda>m.
     if rv v = 0 then say [S ''Error: Unable to acquire visual''] (ret (-1, old)) else
     sys (CreateColormap (rv d) (rv r) (num m 0)) (\<lambda>c.
     sys (RootWindow (rv d) (rv n)) (\<lambda>r.
     sys (CreateWindow (rv d) (rv r) w h (rv c)) (\<lambda>x.
     sys (MapWindow (rv d) (rv x)) (\<lambda>_.
     sys (XFlush (rv d)) (\<lambda>_.
     ret (1, rv d, rv x))))))))))))"

text \<open>\<open>shader_fread\<close>: the buffer (\<open>None\<close> for NULL). It is as long as the file; what is not read is 0.\<close>

definition shader_fread :: "byte list \<Rightarrow> (byte list option, gles_call) io" where
  "shader_fread name =
     sys (Fopen name) (\<lambda>f.
     if rv f = 0 then perror ''can't open shader file'' (ret None) else
     sys (Fseek (rv f)) (\<lambda>_.
     sys (Ftell (rv f)) (\<lambda>n.
     sys (Rewind (rv f)) (\<lambda>_.
     sys (CallocBytes (rv n)) (\<lambda>b.
     if rv b = 0 then sys (Fclose (rv f)) (\<lambda>_. ret None) else
     sys (Fread (rv f) (rv n)) (\<lambda>d.
     sys (Fclose (rv f)) (\<lambda>_.
     ret (Some (take (nat (rv n)) (bytes d @ replicate (nat (rv n)) 0))))))))))"

section \<open>Start\<close>

text \<open>The static variables of \<open>gles2util.c\<close>.\<close>

record gles =
  eglDisplay :: int
  eglConfig :: int
  eglSurface :: int
  eglContext :: int
  x11Display :: int
  x11Window :: int
  shaderObject :: int
  texture :: int
  vbo :: int

definition gles_zero :: gles where
  "gles_zero = \<lparr>eglDisplay = 0, eglConfig = 0, eglSurface = 0, eglContext = 0, x11Display = 0, x11Window = 0,
     shaderObject = 0, texture = 0, vbo = 0\<rparr>"

abbreviation (input) EGL_SUCCESS :: int where "EGL_SUCCESS \<equiv> 0x3000"

definition TestEGLError :: "string \<Rightarrow> (bool, gles_call) io" where
  "TestEGLError msg = sys EglGetError (\<lambda>e.
     if rv e \<noteq> EGL_SUCCESS then say [S ''EGL: '', S msg, S '' failed ('', D (rv e), S '').''] (ret False) else ret True)"

definition start_cleanup :: "gles \<Rightarrow> (int \<times> gles, gles_call) io" where
  "start_cleanup g = sys (EglTerminate (eglDisplay g)) (\<lambda>_. ret (-1, g))"

definition gles2_start :: "gles \<Rightarrow> (int \<times> gles, gles_call) io" where
  "gles2_start g0 =
     bind (xutil_create_display 600 600 (x11Display g0, x11Window g0)) (\<lambda>(r, d, x).
     let g = g0\<lparr>x11Display := d, x11Window := x\<rparr> in
     if r = 0 then start_cleanup g else
     sys (EglGetDisplay (x11Display g)) (\<lambda>e.
     let g = g\<lparr>eglDisplay := rv e\<rparr> in
     sys (EglInitialize (eglDisplay g)) (\<lambda>i.
     if rv i = 0 then say [S ''Error: eglInitialize() failed.''] (start_cleanup g) else
     sys (ChooseConfig (eglDisplay g)) (\<lambda>c.
     let g = (if rv c \<noteq> 0 \<and> 0 < num c 0 then g\<lparr>eglConfig := num c 1\<rparr> else g) in
     if rv c = 0 \<or> num c 0 \<noteq> 1 then say [S ''Error: eglChooseConfig() failed.''] (start_cleanup g) else
     sys (CreateWindowSurface (eglDisplay g) (eglConfig g) (x11Window g)) (\<lambda>s.
     let g = g\<lparr>eglSurface := rv s\<rparr> in
     bind (TestEGLError ''eglCreateWindowSurface'') (\<lambda>b.
     if \<not> b then start_cleanup g else
     sys (CreateContext (eglDisplay g) (eglConfig g)) (\<lambda>x.
     let g = g\<lparr>eglContext := rv x\<rparr> in
     bind (TestEGLError ''eglCreateContext'') (\<lambda>b.
     if \<not> b then start_cleanup g else ret (0, g)))))))))"

section \<open>Drawing\<close>

text \<open>The size of the images is set up by the other thread.\<close>

definition update_texture :: "int \<Rightarrow> int \<Rightarrow> gles \<Rightarrow> (gles, gles_call) io" where
  "update_texture w h g =
     sys (DeleteTextures (texture g)) (\<lambda>_.
     sys GenTextures (\<lambda>t.
     let g = g\<lparr>texture := num t 0\<rparr> in
     sys (BindTexture (texture g)) (\<lambda>_.
     sys (TexImage w h) (\<lambda>_.
     sys (TexParameter ''GL_TEXTURE_MIN_FILTER'') (\<lambda>_.
     sys (TexParameter ''GL_TEXTURE_MAG_FILTER'') (\<lambda>_. ret g))))))"

text \<open>
  The rotation: an angle is the number of times that \<open>0.02f\<close> was added to it, an increment is 0 or 1 of these.
\<close>

record spin =
  m_phi :: nat
  m_psi :: nat
  m_theta :: nat
  d_phi :: nat
  d_psi :: nat
  d_theta :: nat
  do_rotation :: bool

definition still :: spin where
  "still = \<lparr>m_phi = 0, m_psi = 0, m_theta = 0, d_phi = 0, d_psi = 0, d_theta = 0, do_rotation = False\<rparr>"

definition turned :: "spin \<Rightarrow> spin" where
  "turned p = (if do_rotation p
     then p\<lparr>m_phi := m_phi p + d_phi p, m_psi := m_psi p + d_psi p, m_theta := m_theta p + d_theta p\<rparr> else p)"

definition display :: "gles \<Rightarrow> spin \<Rightarrow> (spin, gles_call) io" where
  "display g p =
     sys Clear (\<lambda>_.
     sys (UniformLocation (shaderObject g) ''myPMVMatrix'') (\<lambda>lc.
     sys (UniformMatrix (rv lc) (m_phi p, m_psi p, m_theta p)) (\<lambda>_.
     sys (BindBuffer (vbo g)) (\<lambda>_.
     sys (EnableAttrib 0) (\<lambda>_.
     sys (AttribPointer 0 3 20 0) (\<lambda>_.
     sys (EnableAttrib 1) (\<lambda>_.
     sys (AttribPointer 1 2 20 12) (\<lambda>_.
     sys (DrawArrays 6) (\<lambda>_.
     sys (BindBuffer 0) (\<lambda>_.
     sys (SwapBuffers (eglDisplay g) (eglSurface g)) (\<lambda>_. ret (turned p))))))))))))"

section \<open>The loop\<close>

text \<open>Numbers of the X protocol.\<close>

abbreviation (input) KeyPress :: int where "KeyPress \<equiv> 2"
abbreviation (input) Expose :: int where "Expose \<equiv> 12"
abbreviation (input) XK_space :: int where "XK_space \<equiv> 0x20"
abbreviation (input) XK_Left :: int where "XK_Left \<equiv> 0xFF51"
abbreviation (input) XK_Up :: int where "XK_Up \<equiv> 0xFF52"
abbreviation (input) XK_Right :: int where "XK_Right \<equiv> 0xFF53"

text \<open>
  \<open>XLookupString\<close> stores what the key means, without a terminator, in front of what \<open>buffer\<close> had. The first contents of
  \<open>buffer\<close> are a parameter: the code does not initialise it.
\<close>

definition stored :: "byte list \<Rightarrow> byte list \<Rightarrow> byte list" where
  "stored bs buf = take (length buf) bs @ drop (length bs) buf"

type_synonym loop_vars = "bool \<times> spin \<times> byte list"

definition flip_step :: "nat \<Rightarrow> nat" where
  "flip_step d = (if d \<noteq> 0 then 0 else 1)"

definition key_pressed :: "loop_vars \<Rightarrow> (loop_vars, gles_call) io" where
  "key_pressed v = (case v of (b, p, buf) \<Rightarrow>
     sys LookupKeysym (\<lambda>c.
     if rv c = XK_Left then ret (b, p\<lparr>d_phi := flip_step (d_phi p)\<rparr>, buf)
     else if rv c = XK_Right then ret (b, p\<lparr>d_psi := flip_step (d_psi p)\<rparr>, buf)
     else if rv c = XK_Up then ret (b, p\<lparr>d_theta := flip_step (d_theta p)\<rparr>, buf)
     else if rv c = XK_space then ret (b, p\<lparr>do_rotation := \<not> do_rotation p\<rparr>, buf)
     else sys LookupString (\<lambda>s.
       let buf = stored (bytes s) buf in
       if buf ! 0 = 27 then ret (False, p, buf)
       else if buf ! 0 = 115 then ret (b, p\<lparr>do_rotation := \<not> do_rotation p\<rparr>, buf)
       else if buf ! 0 = 113 then ret (False, p, buf)
       else say [S ''KeyPress['', D (sint (buf ! 0)), S '', '', D (sint (buf ! 1)), S '', '', D (sint (buf ! 2)), S '', '',
           D (sint (buf ! 3)), S '']''] (ret (b, p, buf)))))"

definition x_event :: "int \<Rightarrow> nat \<Rightarrow> loop_vars \<Rightarrow> (loop_vars + loop_vars, gles_call) io" where
  "x_event d i v =
     sys (NextEvent d) (\<lambda>e.
     if num e 0 = Expose then say [S ''EXPOSE''] (ret (Inl v))
     else if num e 0 = KeyPress then bind (key_pressed v) (\<lambda>v. ret (Inl v))
     else ret (Inl v))"

definition take_image :: "int \<Rightarrow> int \<Rightarrow> gles \<Rightarrow> (gles, gles_call) io" where
  "take_image w h g =
     sys (CompareSet 2 3) (\<lambda>c.
     if rv c \<noteq> 0 then bind (update_texture w h g) (\<lambda>g. sys (AtomicSet 0) (\<lambda>_. ret g)) else ret g)"

definition gles_round :: "int \<Rightarrow> int \<Rightarrow> gles \<times> spin \<times> byte list \<Rightarrow> (gles \<times> spin \<times> byte list + gles, gles_call) io" where
  "gles_round w h s = (case s of (g, p, buf) \<Rightarrow>
     sys (Pending (x11Display g)) (\<lambda>n.
     bind (foreach [0..<nat (rv n)] (x_event (x11Display g)) (True, p, buf)) (\<lambda>v. case either v of (b, p, buf) \<Rightarrow>
     bind (take_image w h g) (\<lambda>g.
     bind (display g p) (\<lambda>p. ret (if b then Inl (g, p, buf) else Inr g))))))"

definition main_loop :: "int \<Rightarrow> int \<Rightarrow> byte list \<Rightarrow> gles \<Rightarrow> (gles, gles_call) io" where
  "main_loop w h buf g = loop (gles_round w h) (g, still, buf)"

section \<open>The thread\<close>

text \<open>The report of a failure, and the end. The log that is asked for is always the one of \<open>logged\<close>.\<close>

definition gl_failed :: "gles_call \<Rightarrow> int \<Rightarrow> string \<Rightarrow> ('a, gles_call) io" where
  "gl_failed length_call logged msg =
     sys length_call (\<lambda>n.
     sys (CallocBytes (num n 0)) (\<lambda>b.
     if rv b = 0 then fault ''infoLog is NULL'' else
     sys (ShaderInfoLog logged (num n 0)) (\<lambda>i.
     say [S msg, B (bytes i)] (exit 0))))"

text \<open>\<open>glShaderSource\<close> without lengths reads up to a byte 0.\<close>

definition make_shader :: "string \<Rightarrow> byte list \<Rightarrow> (int \<Rightarrow> int) \<Rightarrow> string \<Rightarrow> (int, gles_call) io" where
  "make_shader kind code logged msg =
     sys (CreateShader kind) (\<lambda>s.
     if 0 \<notin> set code then fault ''shader source is not terminated'' else
     sys (ShaderSource (rv s) (takeWhile (\<lambda>b. b \<noteq> 0) code)) (\<lambda>_.
     sys (CompileShader (rv s)) (\<lambda>_.
     sys (GetShaderiv (rv s) ''GL_COMPILE_STATUS'') (\<lambda>c.
     if num c 0 = 0 then gl_failed (GetShaderiv (rv s) ''GL_INFO_LOG_LENGTH'') (logged (rv s)) msg
     else ret (rv s)))))"

definition display_out :: "gles \<Rightarrow> (gles, gles_call) io" where
  "display_out g =
     sys (MakeCurrent (eglDisplay g) 0 0) (\<lambda>_.
     sys (EglTerminate (eglDisplay g)) (\<lambda>_. ret g))"

definition draw_images :: "int \<Rightarrow> int \<Rightarrow> byte list \<Rightarrow> gles \<Rightarrow> (gles, gles_call) io" where
  "draw_images w h buf g =
     sys (UseProgram (shaderObject g)) (\<lambda>_.
     sys (UniformLocation (shaderObject g) ''sampler2d'') (\<lambda>u.
     sys (Uniform1i (rv u) 0) (\<lambda>_.
     sys GenBuffers (\<lambda>v.
     let g = g\<lparr>vbo := num v 0\<rparr> in
     sys (BindBuffer (vbo g)) (\<lambda>_.
     sys (BufferData (5 * 6 * 4)) (\<lambda>_.
     sys (BindBuffer 0) (\<lambda>_.
     bind (update_texture w h g) (\<lambda>g.
     bind (main_loop w h buf g) (\<lambda>g.
     sys (DeleteBuffers (vbo g)) (\<lambda>_.
     sys (DeleteTextures (texture g)) (\<lambda>_.
     sys (CloseDisplay (x11Display g)) (\<lambda>_.
     display_out g))))))))))))"

definition link_program :: "int \<Rightarrow> int \<Rightarrow> gles \<Rightarrow> (gles, gles_call) io" where
  "link_program frag vert g =
     sys CreateProgram (\<lambda>o'.
     let g = g\<lparr>shaderObject := rv o'\<rparr> in
     sys (AttachShader (shaderObject g) frag) (\<lambda>_.
     sys (AttachShader (shaderObject g) vert) (\<lambda>_.
     sys (BindAttrib (shaderObject g) 0 ''myVertex'') (\<lambda>_.
     sys (BindAttrib (shaderObject g) 1 ''myUV'') (\<lambda>_.
     sys (LinkProgram (shaderObject g)) (\<lambda>_.
     sys (GetProgramiv (shaderObject g) ''GL_LINK_STATUS'') (\<lambda>k.
     if num k 0 = 0 then gl_failed (GetShaderiv (shaderObject g) ''GL_INFO_LOG_LENGTH'') frag ''Failed to link shaders: ''
     else ret g)))))))"

definition gles2_thread :: "int \<Rightarrow> int \<Rightarrow> byte list \<Rightarrow> gles \<Rightarrow> (gles, gles_call) io" where
  "gles2_thread w h buf g =
     bind (shader_fread (chars ''fragment.shr'')) (\<lambda>fc. case fc of
       None \<Rightarrow> say [S ''failed to load fragment.shr shader''] (display_out g)
     | Some fc \<Rightarrow> bind (shader_fread (chars ''vertex.shr'')) (\<lambda>vc. case vc of
       None \<Rightarrow> say [S ''failed to load vertex.shr shader''] (display_out g)
     | Some vc \<Rightarrow>
         sys (MakeCurrent (eglDisplay g) (eglSurface g) (eglContext g)) (\<lambda>_.
         bind (TestEGLError ''eglMakeCurrent'') (\<lambda>b. if \<not> b then display_out g else
         bind (make_shader ''GL_FRAGMENT_SHADER'' fc (\<lambda>s. s) ''Failed to compile fragment shader: '') (\<lambda>frag.
         bind (make_shader ''GL_VERTEX_SHADER'' vc (\<lambda>s. frag) ''Failed to compile vertex shader: '') (\<lambda>vert.
         bind (link_program frag vert g) (draw_images w h buf)))))))"

section \<open>The protocol of the image\<close>

text \<open>
  What the thread holds: nothing (before its first texture and after), the image, the image after it was read.
\<close>

datatype holds_image = Start | Free | Held | Seen | Astray

fun hold_step :: "gles_call \<Rightarrow> resp \<Rightarrow> holds_image \<Rightarrow> holds_image" where
  "hold_step (CompareSet a b) r h = (if h = Free \<and> a = 2 \<and> b = 3 then if rv r \<noteq> 0 then Held else Free else Astray)"
| "hold_step (TexImage x y) r h = (if h = Start then Free else if h = Held then Seen else Astray)"
| "hold_step (AtomicSet n) r h = (if h = Seen \<and> n = 0 then Free else Astray)"
| "hold_step (SwapBuffers d s) r h = (if h = Free then Free else Astray)"
| "hold_step c r h = h"

primrec hold :: "gles_call history \<Rightarrow> holds_image" where
  "hold [] = Start"
| "hold (x # l) = (case x of Ev c r \<Rightarrow> hold_step c r (hold l) | Out os \<Rightarrow> hold l)"

text \<open>The textures and buffers that are there.\<close>

fun live_step :: "gles_call \<Rightarrow> resp \<Rightarrow> int set \<times> int set \<Rightarrow> int set \<times> int set" where
  "live_step GenTextures r (T, V) = (insert (num r 0) T, V)"
| "live_step (DeleteTextures t) r (T, V) = (T - {t}, V)"
| "live_step GenBuffers r (T, V) = (T, insert (num r 0) V)"
| "live_step (DeleteBuffers v) r (T, V) = (T, V - {v})"
| "live_step c r x = x"

primrec live :: "gles_call history \<Rightarrow> int set \<times> int set" where
  "live [] = ({}, {})"
| "live (x # l) = (case x of Ev c r \<Rightarrow> live_step c r (live l) | Out os \<Rightarrow> live l)"

text \<open>A key that quits was pressed.\<close>

primrec quit_key :: "gles_call history \<Rightarrow> bool" where
  "quit_key [] = False"
| "quit_key (x # l) = (quit_key l \<or> (case x of
     Ev c r \<Rightarrow> c = LookupString \<and> bytes r \<noteq> [] \<and> hd (bytes r) \<in> {27, 113} | Out os \<Rightarrow> False))"

lemma nth_stored: "buf \<noteq> [] \<Longrightarrow> stored bs buf ! 0 = (if bs = [] then buf ! 0 else hd bs)"
  by (cases bs; cases buf) (simp_all add: stored_def)

lemma length_stored [simp]: "length (stored bs buf) = length buf"
  by (simp add: stored_def)

lemma stored_Nil [simp]: "(stored bs buf = []) = (buf = [])"
  by (metis length_0_conv length_stored)

text \<open>In a round: who asks to quit has pressed a key for it.\<close>

definition keyed :: "(holds_image \<times> int set \<times> int set) \<Rightarrow> loop_vars \<Rightarrow> gles_call history \<Rightarrow> bool" where
  "keyed x v l \<longleftrightarrow> (hold l, live l) = x \<and> (case v of (b, p, buf) \<Rightarrow> buf \<noteq> [] \<and> (quit_key l \<or> b \<and> buf ! 0 \<notin> {27, 113}))"

lemma wp_x_event:
  assumes "keyed x v l" and "\<And>l. (hold l, live l) = x \<Longrightarrow> Q Wait l"
  shows "wp (x_event d i v) (seq (for_post (keyed x) Q) Q) K N l"
proof -
  obtain b p buf where v: "v = (b, p, buf)" by (cases v) auto
  show ?thesis
    unfolding x_event_def key_pressed_def v prod.case Let_def
    by (intro wp_ifI wp_bind [THEN iffD2] wp_say [THEN iffD2] wp_ret [THEN iffD2] wp_stepI)
      (use assms in \<open>auto simp: keyed_def v nth_stored wp_ret split: if_splits\<close>)
qed

definition outcome :: "gles res \<Rightarrow> gles_call history \<Rightarrow> bool" where
  "outcome x l \<longleftrightarrow> hold l \<noteq> Astray \<and>
     (\<forall>g. x = Val g \<longrightarrow> live l = ({}, {}) \<and> (hold l = Start \<or> hold l = Free \<and> quit_key l)) \<and> (\<forall>n. x = Exit n \<longrightarrow> n = 0 \<and> hold l = Start)"

definition round_at :: "gles \<times> spin \<times> byte list \<Rightarrow> gles_call history \<Rightarrow> bool" where
  "round_at s l \<longleftrightarrow> (case s of (g, p, buf) \<Rightarrow> hold l = Free \<and> fst (live l) \<subseteq> {texture g} \<and> snd (live l) \<subseteq> {vbo g} \<and>
     buf \<noteq> [] \<and> (quit_key l \<or> buf ! 0 \<notin> {27, 113}))"

text \<open>The loop has ended.\<close>

definition looped :: "gles res \<Rightarrow> gles_call history \<Rightarrow> bool" where
  "looped x l \<longleftrightarrow> hold l \<notin> {Astray, Start} \<and> (case x of
     Val g \<Rightarrow> hold l = Free \<and> fst (live l) \<subseteq> {texture g} \<and> snd (live l) \<subseteq> {vbo g} \<and> quit_key l
   | Wait \<Rightarrow> True | _ \<Rightarrow> False)"

lemma wp_update_texture:
  assumes "hold l \<in> {Start, Held}" "fst (live l) \<subseteq> {texture g}"
    and k: "\<And>t l'. hold l' = (if hold l = Start then Free else Seen) \<Longrightarrow> fst (live l') \<subseteq> {t} \<Longrightarrow> snd (live l') = snd (live l) \<Longrightarrow>
      quit_key l' = quit_key l \<Longrightarrow> Q (Val (g\<lparr>texture := t\<rparr>)) l'"
    and w: "\<And>l'. hold l' \<in> {hold l, if hold l = Start then Free else Seen} \<Longrightarrow> Q Wait l'"
  shows "wp (update_texture w h g) Q K N l"
proof -
  obtain T V where l: "live l = (T, V)" by (cases "live l")
  show ?thesis
    unfolding update_texture_def Let_def
    by (intro wp_ret [THEN iffD2] wp_stepI) (use assms(1,2) l in \<open>auto intro!: k w\<close>)
qed

lemma wp_display:
  assumes "hold l = Free"
    and "\<And>l'. hold l' = Free \<Longrightarrow> live l' = live l \<Longrightarrow> quit_key l' = quit_key l \<Longrightarrow> Q (Val (turned p)) l' \<and> Q Wait l'"
  shows "wp (display g p) Q K N l"
  unfolding display_def
  by (intro wp_ret [THEN iffD2] wp_stepI) (use assms in simp_all)

lemma looped_Wait [simp]: "looped Wait l = (hold l \<notin> {Astray, Start})"
  by (simp add: looped_def)

lemma gles_round_step:
  assumes "round_at s l"
  shows "wp (gles_round w h s) (seq (next_or round_at looped) looped) K N l"
proof -
  obtain g p buf where s: "s = (g, p, buf)" by (cases s) auto
  have at: "hold l = Free" "fst (live l) \<subseteq> {texture g}" "snd (live l) \<subseteq> {vbo g}" "buf \<noteq> []" "quit_key l \<or> buf ! 0 \<notin> {27, 113}"
    using assms by (simp_all add: s round_at_def)
  let ?x = "(Free, live l)" and ?Q = "seq (next_or round_at looped) looped :: (gles \<times> spin \<times> byte list + gles) res \<Rightarrow> gles_call history \<Rightarrow> bool"
  have drawn: "wp (bind (display g' p) (\<lambda>p. ret (if b then Inl (g', p, buf) else Inr g'))) ?Q K N l'"
    if "hold l' = Free" "fst (live l') \<subseteq> {texture g'}" "snd (live l') \<subseteq> {vbo g'}" "buf \<noteq> []" "quit_key l' \<or> b \<and> buf ! 0 \<notin> {27, 113}"
    for g' p b buf l'
    unfolding wp_bind
    by (rule wp_display) (use that in \<open>auto simp: wp_ret round_at_def looped_def\<close>)
  have rest: "wp (bind (take_image w h g) (\<lambda>g. bind (display g p) (\<lambda>p. ret (if b then Inl (g, p, buf) else Inr g)))) ?Q K N l'"
    if "keyed ?x (b, p, buf) l'" for b p buf l'
    unfolding take_image_def wp_bind
    by (intro wp_ifI wp_bind [THEN iffD2] wp_update_texture wp_ret [THEN iffD2] wp_stepI)
      (use that at in \<open>auto simp: keyed_def wp_simps intro!: drawn [unfolded wp_bind] split: option.split\<close>)
  show ?thesis
    unfolding gles_round_def s prod.case
  proof (intro wp_stepI)
    fix n assume "K l (Pending (x11Display g)) = Some n"
    let ?l = "Ev (Pending (x11Display g)) n # l"
    show "wp (bind (foreach [0..<nat (rv n)] (x_event (x11Display g)) (True, p, buf)) (\<lambda>v. case either v of (b, p, buf) \<Rightarrow>
        bind (take_image w h g) (\<lambda>g. bind (display g p) (\<lambda>p. ret (if b then Inl (g, p, buf) else Inr g))))) ?Q K N ?l"
    proof (rule wp_bindI [where P = "\<lambda>v. keyed ?x (either v)"])
      show "wp (foreach [0..<nat (rv n)] (x_event (x11Display g)) (True, p, buf)) (seq (\<lambda>v. keyed ?x (either v)) ?Q) K N ?l"
        by (rule wp_foreach [where I = "keyed ?x"], use at in \<open>simp add: keyed_def\<close>, rule wp_x_event) simp_all
      fix v l' assume "keyed ?x (either v) l'"
      then show "wp (case either v of (b, p, buf) \<Rightarrow>
          bind (take_image w h g) (\<lambda>g. bind (display g p) (\<lambda>p. ret (if b then Inl (g, p, buf) else Inr g)))) ?Q K N l'"
        by (cases "either v") (simp add: rest)
    qed
  qed (use at in simp)
qed

lemma main_loop_keeps:
  assumes "hold l = Free" "fst (live l) \<subseteq> {texture g}" "snd (live l) \<subseteq> {vbo g}" "buf \<noteq> []" "buf ! 0 \<notin> {27, 113}"
  shows "wp (main_loop w h buf g) looped K N l"
  unfolding main_loop_def
  by (rule wp_loop [where I = round_at]) (use assms gles_round_step in \<open>auto simp: round_at_def\<close>)

section \<open>The thread as a whole\<close>

lemma outcome_simps [simp]:
  "outcome Wait l = (hold l \<noteq> Astray)"
  "outcome (Fault e) l = (hold l \<noteq> Astray)"
  "outcome (Exit n) l = (n = 0 \<and> hold l = Start)"
  "outcome (Val g) l = (hold l \<noteq> Astray \<and> live l = ({}, {}) \<and> (hold l = Start \<or> hold l = Free \<and> quit_key l))"
  by (auto simp: outcome_def)

text \<open>Nothing was drawn yet.\<close>

definition calm :: "'a \<Rightarrow> gles_call history \<Rightarrow> bool" where
  "calm a l \<longleftrightarrow> hold l = Start \<and> live l = ({}, {})"

lemma calm_Out [simp]: "calm a (Out os # l) = calm a l"
  by (simp add: calm_def)

lemma wp_display_out: "live l = ({}, {}) \<Longrightarrow> hold l = Start \<or> hold l = Free \<and> quit_key l \<Longrightarrow> wp (display_out g) outcome K N l"
  unfolding display_out_def
  by (intro wp_ret [THEN iffD2] wp_stepI) auto

lemma wp_TestEGLError: "calm () l \<Longrightarrow> wp (TestEGLError msg) (seq calm outcome) K N l"
  unfolding TestEGLError_def
  by (intro wp_ifI wp_ret [THEN iffD2] wp_say [THEN iffD2] wp_stepI) (simp_all add: calm_def)

lemma wp_shader_fread: "calm () l \<Longrightarrow> wp (shader_fread name) (seq calm outcome) K N l"
  unfolding shader_fread_def
  by (intro wp_ifI wp_ret [THEN iffD2] wp_say [THEN iffD2] wp_stepI) (simp_all add: calm_def)

lemma wp_gl_failed: "calm () l \<Longrightarrow> wp (gl_failed (GetShaderiv s k) f msg) (seq calm outcome) K N l"
  unfolding gl_failed_def
  by (intro wp_ifI wp_exit [THEN iffD2] wp_fault [THEN iffD2] wp_say [THEN iffD2] wp_stepI) (simp_all add: calm_def)

lemma wp_make_shader: "calm () l \<Longrightarrow> wp (make_shader kind code f msg) (seq calm outcome) K N l"
  unfolding make_shader_def
  by (intro wp_ifI wp_gl_failed wp_ret [THEN iffD2] wp_fault [THEN iffD2] wp_say [THEN iffD2] wp_stepI) (simp_all add: calm_def)

lemma wp_link_program: "calm () l \<Longrightarrow> wp (link_program a b g) (seq calm outcome) K N l"
  unfolding link_program_def Let_def
  by (intro wp_ifI wp_gl_failed wp_ret [THEN iffD2] wp_stepI) (simp_all add: calm_def)

lemma wp_draw_images:
  assumes l: "calm () l" and buf: "buf \<noteq> []" "buf ! 0 \<notin> {27, 113}"
  shows "wp (draw_images w h buf g) outcome K N l"
proof -
  have finish: "wp (sys (DeleteBuffers (vbo g)) (\<lambda>_. sys (DeleteTextures (texture g)) (\<lambda>_.
      sys (CloseDisplay (x11Display g)) (\<lambda>_. display_out g)))) outcome K N l"
    if "hold l = Free" "fst (live l) \<subseteq> {texture g}" "snd (live l) \<subseteq> {vbo g}" "quit_key l" for g l
    using that by (cases "live l") (intro wp_display_out wp_stepI; auto)
  have loops: "wp (bind (main_loop w h buf g) (\<lambda>g. sys (DeleteBuffers (vbo g)) (\<lambda>_. sys (DeleteTextures (texture g)) (\<lambda>_.
      sys (CloseDisplay (x11Display g)) (\<lambda>_. display_out g))))) outcome K N l"
    if "hold l = Free" "fst (live l) \<subseteq> {texture g}" "snd (live l) \<subseteq> {vbo g}" for g l
    unfolding wp_bind
    by (rule wp_mono [OF main_loop_keeps [OF that buf]]) (auto simp: looped_def seq_def intro!: finish split: res.splits)
  have first: "wp (bind (update_texture w h g) (\<lambda>g. bind (main_loop w h buf g) (\<lambda>g. sys (DeleteBuffers (vbo g)) (\<lambda>_.
      sys (DeleteTextures (texture g)) (\<lambda>_. sys (CloseDisplay (x11Display g)) (\<lambda>_. display_out g)))))) outcome K N l"
    if "hold l = Start" "fst (live l) \<subseteq> {texture g}" "snd (live l) \<subseteq> {vbo g}" for g l
  proof (rule wp_bindI)
    show "wp (update_texture w h g) (seq (\<lambda>g l. hold l = Free \<and> fst (live l) \<subseteq> {texture g} \<and> snd (live l) \<subseteq> {vbo g}) outcome) K N l"
      by (rule wp_update_texture) (use that in auto)
  qed (use loops in blast)
  show ?thesis
    unfolding draw_images_def Let_def
    by (intro first wp_stepI) (use l in \<open>simp_all add: calm_def\<close>)
qed


text \<open>A screen on which \<open>q\<close> is pressed in the first round.\<close>

definition quitting :: "gles_call kernel" where
  "quitting l c = Some (case c of
     Ftell f \<Rightarrow> ok 2
   | Fread f n \<Rightarrow> got [65, 0]
   | EglGetError \<Rightarrow> ok 0x3000
   | GetShaderiv s k \<Rightarrow> with_nums 0 [1]
   | GetProgramiv s k \<Rightarrow> with_nums 0 [1]
   | NextEvent d \<Rightarrow> with_nums 0 [2]
   | LookupString \<Rightarrow> got [113]
   | GenTextures \<Rightarrow> with_nums 0 [5]
   | GenBuffers \<Rightarrow> with_nums 0 [6]
   | _ \<Rightarrow> ok 1)"


text \<open>A file without a byte 0 makes a shader source that is not terminated.\<close>

lemma shader_overread: "0 \<notin> set code \<Longrightarrow> K l (CreateShader kind) = Some r \<Longrightarrow>
    \<exists>e. fst (make_shader kind code f msg K N l) = Fault e"
  by (simp add: make_shader_def io_simps)

text \<open>
  The start: 0 with a context, or -1 after EGL has been terminated. A display that cannot be opened (\<open>xutil_create_display\<close>
  answers -1, which is not 0) goes unnoticed.
\<close>

lemma gles2_start_result:
  "wp (gles2_start g) (\<lambda>x l. x = Wait \<or> (\<exists>g'. x = Val (0, g') \<and> eglContext g' \<in> {rv r |r d c. Ev (CreateContext d c) r \<in> set l}) \<or>
     (\<exists>g' r l'. x = Val (-1, g') \<and> l = Ev (EglTerminate (eglDisplay g')) r # l')) K N l"
proof -
  have window: "wp (xutil_create_display w h old) (seq (\<lambda>r l. fst r \<noteq> 0) Q) K N l" if "\<And>l. Q Wait l" for w h old l and
    Q :: "(int \<times> gles) res \<Rightarrow> gles_call history \<Rightarrow> bool"
    unfolding xutil_create_display_def
    by (intro wp_ifI wp_ret [THEN iffD2] wp_say [THEN iffD2] wp_stepI) (use that in simp_all)
  show ?thesis
    unfolding gles2_start_def Let_def start_cleanup_def TestEGLError_def
    by (rule wp_bindI [OF window], simp, clarsimp simp del: wp_sys,
        intro conjI impI wp_ifI wp_bind [THEN iffD2] wp_ret [THEN iffD2] wp_say [THEN iffD2] wp_stepI)
      (auto simp: wp_simps split: option.split)
qed

lemma gles2_start_blind:
  "fst (gles2_start gles_zero (\<lambda>l c. Some (case c of XOpenDisplay \<Rightarrow> ok 0 | EglGetError \<Rightarrow> ok 0x3000 | ChooseConfig d \<Rightarrow> with_nums 1 [1, 1]
     | _ \<Rightarrow> ok 1)) 1 []) = Val (0, gles_zero\<lparr>eglDisplay := 1, eglConfig := 1, eglSurface := 1, eglContext := 1\<rparr>)"
  by code_simp

end
