(* ===== verification/Gles_Handoff.thy ===== *)
theory Gles_Handoff
  imports C_Lib
begin

text \<open>
  \<open>gst/gst-simple\<close>: how the streaming thread (\<open>setup\<close>, \<open>render\<close> of \<open>gles2.c\<close>) hands its images to the thread
  that draws (\<open>gles2_thread\<close>, \<open>main_loop\<close>, \<open>update_texture\<close> of \<open>gles2util.c\<close>). The two share the block at \<open>img_ptr\<close>
  and the counter \<open>gles2_sem\<close>: 0 free, 1 being written, 2 written, 3 being read. A step is one atomic operation or
  one byte of a copy, the threads take turns in any order. What the drawing thread does apart from this is in \<open>Gles_Sink\<close>.
\<close>

section \<open>State\<close>

text \<open>
  Where \<open>render\<close> stands: not called, at its compare-and-exchange, in \<open>memcpy\<close> with \<open>k\<close> bytes copied to a block,
  at the test of \<open>glt_active\<close>.
\<close>

datatype render_pc = Away | TryGive "byte list" | Copying nat "byte list" nat | Return

text \<open>
  Where a drawing thread stands: before its first upload, in an upload (of a block, with its size and the bytes read so far;
  before the loop, or in a round of it), at the events of a round, at the compare-and-exchange, after the upload, before
  the end of the round, at the end. A round knows the value of \<open>do_loop\<close>.
\<close>

datatype gl_pc = Boot | Upload "bool option" nat nat "byte list" | Events | TryTake bool | Release bool | Draw bool
  | Ending | Ended

text \<open>
  \<open>blocks\<close> are the blocks that were allocated; the code frees none. \<open>tex\<close> is the texture. \<open>given\<close> are the images that
  \<open>render\<close> has copied, \<open>taken\<close> the textures made in the loop, \<open>flows\<close> what \<open>render\<close> has returned, \<open>wrong\<close> tells of
  an access outside of a block.
\<close>

record handoff =
  gles2_sem :: int
  blocks :: "byte list list"
  img_ptr :: "nat option"
  img_w :: "32 word"
  img_h :: "32 word"
  glt_active :: bool
  rend :: render_pc
  gls :: "gl_pc list"
  tex :: "byte list"
  given :: "byte list list"
  taken :: "byte list list"
  flows :: "bool list"
  wrong :: bool

definition unloaded :: handoff where
  "unloaded = \<lparr>gles2_sem = 0, blocks = [], img_ptr = None, img_w = 0, img_h = 0, glt_active = False, rend = Away,
     gls = [], tex = [], given = [], taken = [], flows = [], wrong = False\<rparr>"

section \<open>The threads\<close>

text \<open>
  \<open>setup\<close>, on a new format: \<open>m\<close> is the block that \<open>posix_memalign\<close> has made, if any; \<open>made\<close> tells whether
  \<open>pthread_create\<close> (whose result is not looked at) has made the thread.
\<close>

definition bufsize :: "handoff \<Rightarrow> int" where
  "bufsize s = sint (img_h s * img_w s * 4)"

definition gles_setup :: "int \<Rightarrow> int \<Rightarrow> byte list option \<Rightarrow> bool \<Rightarrow> handoff \<Rightarrow> bool \<times> handoff" where
  "gles_setup w h m made s0 = (let s = s0\<lparr>img_h := word_of_int h, img_w := word_of_int w\<rparr> in
     case m of
       None \<Rightarrow> (False, s)
     | Some b \<Rightarrow> (True, s\<lparr>blocks := blocks s @ [b], img_ptr := Some (length (blocks s)), gles2_sem := 0, glt_active := True,
         gls := (if made then gls s @ [Boot] else gls s)\<rparr>))"

definition put_byte :: "nat \<Rightarrow> nat \<Rightarrow> byte \<Rightarrow> handoff \<Rightarrow> handoff" where
  "put_byte p k b s = (if p < length (blocks s) \<and> k < length (blocks s ! p)
     then s\<lparr>blocks := (blocks s)[p := (blocks s ! p)[k := b]]\<rparr> else s\<lparr>wrong := True\<rparr>)"

text \<open>One step of \<open>render\<close>. Without a block there is nothing to write to.\<close>

definition render_step :: "handoff \<Rightarrow> handoff option" where
  "render_step s = (case rend s of
     Away \<Rightarrow> None
   | TryGive d \<Rightarrow>
       if gles2_sem s \<noteq> 0 then Some (s\<lparr>rend := Return\<rparr>)
       else (case img_ptr s of
         None \<Rightarrow> Some (s\<lparr>gles2_sem := 1, wrong := True\<rparr>)
       | Some p \<Rightarrow> Some (s\<lparr>gles2_sem := 1, rend := Copying p d 0\<rparr>))
   | Copying p d k \<Rightarrow>
       if k < length d then Some (put_byte p k (d ! k) (s\<lparr>rend := Copying p d (k + 1)\<rparr>))
       else Some (s\<lparr>gles2_sem := 2, given := given s @ [d], rend := Return\<rparr>)
   | Return \<Rightarrow> Some (s\<lparr>flows := flows s @ [glt_active s], rend := Away\<rparr>))"

text \<open>
  \<open>update_texture\<close>: \<open>glTexImage2D\<close> reads \<open>img_w * img_h\<close> pixels of four bytes. A step reads one byte; the last one
  makes the texture.
\<close>

definition tex_size :: "handoff \<Rightarrow> nat" where
  "tex_size s = nat (uint (img_w s) * uint (img_h s) * 4)"

definition begin_upload :: "bool option \<Rightarrow> handoff \<Rightarrow> gl_pc \<times> handoff" where
  "begin_upload a s = (case img_ptr s of
     None \<Rightarrow> (Ended, s\<lparr>wrong := True\<rparr>)
   | Some p \<Rightarrow> (Upload a p (tex_size s) [], s))"

definition upload_step :: "bool option \<Rightarrow> nat \<Rightarrow> nat \<Rightarrow> byte list \<Rightarrow> handoff \<Rightarrow> gl_pc \<times> handoff" where
  "upload_step a p n bs s =
     (if length bs < n then
        if p < length (blocks s) \<and> length bs < length (blocks s ! p)
        then (Upload a p n (bs @ [blocks s ! p ! length bs]), s) else (Ended, s\<lparr>wrong := True\<rparr>)
      else case a of
        None \<Rightarrow> (Events, s\<lparr>tex := bs\<rparr>)
      | Some b \<Rightarrow> (Release b, s\<lparr>tex := bs, taken := taken s @ [bs]\<rparr>))"

text \<open>
  One step of a drawing thread. \<open>q\<close> tells whether it has its shaders and a context, and whether the events of the round
  leave \<open>do_loop\<close> set.
\<close>

definition gl_step :: "bool \<Rightarrow> gl_pc \<Rightarrow> handoff \<Rightarrow> (gl_pc \<times> handoff) option" where
  "gl_step q g s = (case g of
     Boot \<Rightarrow> Some (if q then begin_upload None s else (Ending, s))
   | Upload a p n bs \<Rightarrow> Some (upload_step a p n bs s)
   | Events \<Rightarrow> Some (TryTake q, s)
   | TryTake b \<Rightarrow> Some (if gles2_sem s = 2 then begin_upload (Some b) (s\<lparr>gles2_sem := 3\<rparr>) else (Draw b, s))
   | Release b \<Rightarrow> Some (Draw b, s\<lparr>gles2_sem := 0\<rparr>)
   | Draw b \<Rightarrow> Some (if b then Events else Ending, s)
   | Ending \<Rightarrow> Some (Ended, s\<lparr>glt_active := False\<rparr>)
   | Ended \<Rightarrow> None)"

section \<open>Interleaving\<close>

datatype act = Setup int int "byte list option" bool | Frame "byte list" | Render | Gl nat bool

fun act_step :: "act \<Rightarrow> handoff \<Rightarrow> handoff option" where
  "act_step (Setup w h m made) s = (if rend s = Away then Some (snd (gles_setup w h m made s)) else None)"
| "act_step (Frame d) s = (if rend s = Away then Some (s\<lparr>rend := TryGive d\<rparr>) else None)"
| "act_step Render s = render_step s"
| "act_step (Gl i q) s = (if i < length (gls s) then
     map_option (\<lambda>(g, s'). s'\<lparr>gls := (gls s)[i := g]\<rparr>) (gl_step q (gls s ! i) s) else None)"

text \<open>A schedule; an act that cannot be done now is skipped.\<close>

primrec acts :: "act list \<Rightarrow> handoff \<Rightarrow> handoff" where
  "acts [] s = s"
| "acts (a # as) s = acts as (case act_step a s of None \<Rightarrow> s | Some s' \<Rightarrow> s')"

text \<open>
  The states after one set-up (with memory of the size asked for), with images of the negotiated size. No act but
  a set-up reads the size anew.
\<close>

fun fits :: "nat \<Rightarrow> act \<Rightarrow> bool" where
  "fits n (Setup w h m made) = False"
| "fits n (Frame d) = (length d = n)"
| "fits n _ = True"

inductive streaming :: "nat \<Rightarrow> handoff \<Rightarrow> bool" for n where
  started: "gles_setup w h (Some m) made unloaded = (True, s) \<Longrightarrow> int (length m) = bufsize s \<Longrightarrow> n = length m \<Longrightarrow> tex_size s = n \<Longrightarrow>
    streaming n s"
| act: "streaming n s \<Longrightarrow> fits n a \<Longrightarrow> act_step a s = Some s' \<Longrightarrow> streaming n s'"

section \<open>One image at a time\<close>

text \<open>The image on its way: written and not yet read to its end.\<close>

fun reading :: "gl_pc \<Rightarrow> bool" where
  "reading (Upload (Some b) p n bs) = True"
| "reading g = False"

fun releasing :: "gl_pc \<Rightarrow> bool" where
  "releasing (Release b) = True"
| "releasing g = False"

definition on_way :: "handoff \<Rightarrow> byte list list" where
  "on_way s = (if gles2_sem s = 2 \<or> list_ex reading (gls s) then [hd (blocks s)] else [])"

fun render_at :: "nat \<Rightarrow> byte list \<Rightarrow> int \<Rightarrow> render_pc \<Rightarrow> bool" where
  "render_at n m v (TryGive d) = (length d = n \<and> v \<noteq> 1)"
| "render_at n m v (Copying p d k) = (p = 0 \<and> length d = n \<and> k \<le> n \<and> take k m = take k d \<and> v = 1)"
| "render_at n m v r = (v \<noteq> 1)"

fun gl_at :: "nat \<Rightarrow> byte list \<Rightarrow> int \<Rightarrow> gl_pc \<Rightarrow> bool" where
  "gl_at n m v (Upload a p k bs) =
     (p = 0 \<and> k = n \<and> length bs \<le> n \<and> (if a = None then v \<noteq> 3 else v = 3 \<and> bs = take (length bs) m))"
| "gl_at n m v (Release b) = (v = 3)"
| "gl_at n m v g = (v \<noteq> 3)"

definition handing :: "nat \<Rightarrow> handoff \<Rightarrow> bool" where
  "handing n s \<longleftrightarrow> (\<exists>m. blocks s = [m] \<and> length m = n \<and> img_ptr s = Some 0 \<and> tex_size s = n \<and> \<not> wrong s \<and>
     gles2_sem s \<in> {0, 1, 2, 3} \<and> render_at n m (gles2_sem s) (rend s) \<and>
     (gls s = [] \<and> gles2_sem s \<noteq> 3 \<or> (\<exists>g. gls s = [g] \<and> gl_at n m (gles2_sem s) g)) \<and> given s = taken s @ on_way s)"

lemma render_at_other: "render_at n m v r \<Longrightarrow> v \<noteq> 1 \<Longrightarrow> v' \<noteq> 1 \<Longrightarrow> render_at n m v' r"
  by (cases r) auto

lemma render_at_freed [intro]:
  "render_at n m 2 r \<Longrightarrow> render_at n m 3 r"
  "render_at n m 3 r \<Longrightarrow> render_at n m 0 r"
  by (erule render_at_other; simp)+

lemma gl_at_other: "gl_at n m v g \<Longrightarrow> v \<noteq> 3 \<Longrightarrow> v' \<noteq> 3 \<Longrightarrow> gl_at n m' v' g"
  by (cases g) (auto split: if_splits)

lemma not_reading: "gl_at n m v g \<Longrightarrow> v \<noteq> 3 \<Longrightarrow> \<not> reading g"
  by (cases g rule: reading.cases) auto

lemma handing_render:
  assumes h: "handing n s" and step: "render_step s = Some s'"
  shows "handing n s'"
proof -
  from h obtain m where m: "blocks s = [m]" "length m = n" "img_ptr s = Some 0" "tex_size s = n" "\<not> wrong s"
      "gles2_sem s \<in> {0, 1, 2, 3}" "render_at n m (gles2_sem s) (rend s)"
      "gls s = [] \<and> gles2_sem s \<noteq> 3 \<or> (\<exists>g. gls s = [g] \<and> gl_at n m (gles2_sem s) g)" "given s = taken s @ on_way s"
    unfolding handing_def by blast
  have other: "gls s = [] \<or> (\<exists>g. gls s = [g] \<and> gl_at n m' v g)" if "gles2_sem s \<noteq> 3" "v \<noteq> 3" for m' v
    using m(8) that gl_at_other by blast
  have quiet: "\<not> list_ex reading (gls s)" if "gles2_sem s \<noteq> 3" using m(8) that not_reading by fastforce
  show ?thesis
  proof (cases "rend s")
    case (TryGive d)
    then show ?thesis
      using step m other [of 1] quiet by (auto simp: handing_def render_step_def on_way_def tex_size_def split: if_splits)
  next
    case (Copying p d k)
    then have at: "p = 0" "length d = n" "k \<le> n" "take k m = take k d" "gles2_sem s = 1" using m(7) by simp_all
    show ?thesis
    proof (cases "k < n")
      case True
      have "take (k + 1) (m[k := d ! k]) = take (k + 1) d" using True at m(2) by (simp add: take_Suc_conv_app_nth Suc_eq_plus1 [symmetric])
      moreover have "s' = s\<lparr>rend := Copying 0 d (k + 1), blocks := [m[k := d ! k]]\<rparr>"
        using step Copying True m(1,2) at by (simp add: render_step_def put_byte_def)
      ultimately show ?thesis
        unfolding handing_def
        by (intro exI [of _ "m[k := d ! k]"]) (use True m at other [of 1 "m[k := d ! k]"] quiet in \<open>simp add: on_way_def tex_size_def\<close>)
    next
      case False
      then have "m = d" using at m(2) by simp
      moreover have "s' = s\<lparr>gles2_sem := 2, given := given s @ [d], rend := Return\<rparr>"
        using step Copying False at by (simp add: render_step_def)
      ultimately show ?thesis
        unfolding handing_def
        by (intro exI [of _ m]) (use m at other [of 2 m] quiet in \<open>simp add: on_way_def tex_size_def\<close>)
    qed
  next
    case Return
    then show ?thesis using step m by (auto simp: handing_def render_step_def on_way_def tex_size_def)
  qed (use step in \<open>simp add: render_step_def\<close>)
qed

lemma handing_gl: "handing n s \<Longrightarrow> gls s = [g] \<Longrightarrow> gl_step q g s = Some (g', s') \<Longrightarrow> handing n (s'\<lparr>gls := [g']\<rparr>)"
  by (cases g)
    (auto simp: handing_def gl_step_def begin_upload_def upload_step_def on_way_def tex_size_def take_Suc_conv_app_nth
      split: if_splits option.splits)

lemma streaming_handing: "streaming n s \<Longrightarrow> handing n s"
proof (induction rule: streaming.induct)
  case (started w h m made s)
  then show ?case
    by (cases made) (auto simp: gles_setup_def unloaded_def Let_def handing_def on_way_def tex_size_def)
next
  case (act s a s')
  then show ?case
  proof (cases a)
    case (Gl i q)
    with act obtain g g' s1 where "gls s = [g]" "i = 0" "gl_step q g s = Some (g', s1)" "s' = s1\<lparr>gls := [g']\<rparr>"
      by (auto simp: handing_def split: if_splits)
    then show ?thesis using act by (simp add: handing_gl)
  next
    case (Frame d)
    with act show ?thesis by (auto simp: handing_def on_way_def tex_size_def split: if_splits)
  qed (auto intro: handing_render)
qed

text \<open>
  C37: The images of the OpenGL sink. After one set-up with enough memory, however the streaming and the drawing thread take
  turns, no access leaves the block, every image that \<open>render\<close> has copied becomes a texture as a whole, exactly once and in
  order (at most the last one is still on its way), and the block is never written while the loop makes a texture of it.
\<close>

theorem gles_hands_over:
  assumes "streaming n s"
  shows "\<not> wrong s \<and> given s = taken s @ on_way s \<and> length (on_way s) \<le> 1 \<and>
    (\<forall>p d k. rend s = Copying p d k \<longrightarrow> \<not> list_ex reading (gls s))"
proof -
  from streaming_handing [OF assms] obtain m where m: "\<not> wrong s" "given s = taken s @ on_way s" "render_at n m (gles2_sem s) (rend s)"
      "gls s = [] \<or> (\<exists>g. gls s = [g] \<and> gl_at n m (gles2_sem s) g)"
    unfolding handing_def by blast
  have "\<not> list_ex reading (gls s)" if "rend s = Copying p d k" for p d k
    using m(3,4) that not_reading [of n m "gles2_sem s"] by auto
  then show ?thesis using m(1,2) by (simp add: on_way_def)
qed

text \<open>The formats of the template of the sink (16 to 4096 lines and columns) have a size that fits.\<close>

lemma gles_bufsize:
  assumes "16 \<le> w" "w \<le> 4096" "16 \<le> h" "h \<le> 4096"
  shows "bufsize (snd (gles_setup w h m made s)) = w * h * 4 \<and> tex_size (snd (gles_setup w h m made s)) = nat (w * h * 4)"
proof -
  have wh: "w * h \<le> 4096 * 4096" using assms by (intro mult_mono) auto
  have pos: "0 \<le> w * h" using assms by simp
  have u: "uint (word_of_int n :: 32 word) = n" if "0 \<le> n" "n \<le> 4096" for n using that by (simp add: uint_word_of_int)
  have "sint (word_of_int (h * w * 4) :: 32 word) = w * h * 4"
    using wh pos by (subst sint_uint32) (simp_all add: mult.commute [of w h])
  then show ?thesis
    using assms u by (cases m) (simp_all add: gles_setup_def Let_def bufsize_def tex_size_def)
qed

text \<open>A run with one image of one pixel, while the drawing thread still makes its first texture.\<close>

definition early :: "act list" where
  "early = [Gl 0 True, Frame [1, 2, 3, 4], Render, Render, Render, Gl 0 True, Gl 0 True, Gl 0 True, Gl 0 True] @
     replicate 4 Render @ [Gl 0 True]"

definition one_pixel :: handoff where
  "one_pixel = snd (gles_setup 1 1 (Some [0, 0, 0, 0]) True unloaded)"

lemma streaming_acts: "streaming n s \<Longrightarrow> list_all (fits n) as \<Longrightarrow> streaming n (acts as s)"
  by (induction as arbitrary: s) (auto intro: streaming.act split: option.split)

lemma streaming_one_pixel: "streaming 4 one_pixel"
  unfolding one_pixel_def
  by (rule streaming.started [of 1 1 "[0, 0, 0, 0]" True])
    (simp_all add: gles_setup_def unloaded_def bufsize_def tex_size_def)

theorem gles_hands_over_witness:
  "\<not> wrong (acts early one_pixel) \<and> given (acts early one_pixel) = taken (acts early one_pixel) @ on_way (acts early one_pixel) \<and>
   given (acts early one_pixel) = [[1, 2, 3, 4]]"
proof -
  have "list_all (fits 4) early" by code_simp
  then have "streaming 4 (acts early one_pixel)" by (rule streaming_acts [OF streaming_one_pixel])
  moreover have "given (acts early one_pixel) = [[1, 2, 3, 4]]" by code_simp
  ultimately show ?thesis using gles_hands_over [of 4 "acts early one_pixel"] by simp
qed

text \<open>
  The first texture is made without the counter: here it has two bytes of the image and two of the fresh block.
\<close>

lemma gles_first_torn: "tex (acts early one_pixel) = [1, 2, 0, 0] \<and> streaming 4 (acts early one_pixel)"
proof
  show "tex (acts early one_pixel) = [1, 2, 0, 0]" by code_simp
  have "list_all (fits 4) early" by code_simp
  then show "streaming 4 (acts early one_pixel)" by (rule streaming_acts [OF streaming_one_pixel])
qed

text \<open>
  A second set-up clears the counter under the first drawing thread: here that thread then frees the block in which the
  second thread reads, and the third image is written into the texture of the second.
\<close>

definition set_up_again :: "act list" where
  "set_up_again =
     [Setup 1 1 (Some [0, 0, 0, 0]) True] @ replicate 6 (Gl 0 True) @ Frame [1, 1, 1, 1] # replicate 7 Render @
     replicate 2 (Gl 0 True) @
     [Setup 1 1 (Some [0, 0, 0, 0]) True] @ replicate 6 (Gl 1 True) @ Frame [2, 2, 2, 2] # replicate 7 Render @
     replicate 4 (Gl 1 True) @ replicate 6 (Gl 0 True) @ Frame [3, 3, 3, 3] # replicate 5 Render @ replicate 3 (Gl 1 True)"

lemma gles_setup_again_tears: "taken (acts set_up_again unloaded) = [[1, 1, 1, 1], [2, 2, 3, 3]]"
  by code_simp

section \<open>No image is held back\<close>

text \<open>The steps of a drawing thread until it has made a texture of what is given, for \<open>n\<close> bytes.\<close>

fun steps_left :: "nat \<Rightarrow> gl_pc \<Rightarrow> nat" where
  "steps_left n Boot = 2 * n + 5"
| "steps_left n (Upload a p k bs) = n - length bs + 1 + (if a = None then n + 3 else 0)"
| "steps_left n Events = n + 3"
| "steps_left n (TryTake b) = n + 2"
| "steps_left n (Draw b) = n + 4"
| "steps_left n g = 0"

lemma steps_left_le: "steps_left n g \<le> 2 * n + 5"
  by (cases g) auto

definition draws_on :: "gl_pc \<Rightarrow> bool" where
  "draws_on g \<longleftrightarrow> g \<notin> {Draw False, Ending, Ended}"

definition drawing :: "nat \<Rightarrow> byte list list \<Rightarrow> nat \<Rightarrow> handoff \<Rightarrow> bool" where
  "drawing n fs k s \<longleftrightarrow> handing n s \<and> given s = fs \<and> (\<exists>g. gls s = [g] \<and>
     (on_way s = [] \<or> draws_on g \<and> steps_left n g \<le> k))"

lemma drawing_step:
  assumes d: "drawing n fs (Suc k) s" and step: "act_step (Gl 0 True) s = Some s'"
  shows "drawing n fs k s'"
proof -
  from d obtain g where g: "handing n s" "given s = fs" "gls s = [g]" "on_way s = [] \<or> draws_on g \<and> steps_left n g \<le> Suc k"
    by (auto simp: drawing_def)
  then obtain g' s1 where s1: "gl_step True g s = Some (g', s1)" "s' = s1\<lparr>gls := [g']\<rparr>"
    using step by (auto split: if_splits)
  then have h: "handing n s'" using handing_gl [OF g(1,3)] by simp
  have "given s' = fs" using s1 g(2)
    by (cases g) (auto simp: gl_step_def begin_upload_def upload_step_def split: if_splits option.splits)
  moreover have "on_way s' = [] \<or> draws_on g' \<and> steps_left n g' \<le> k"
  proof (cases "g = Boot")
    case True
    have "img_ptr s = Some 0" "tex_size s = n" using g(1) by (auto simp: handing_def)
    then have "g' = Upload None 0 n []" "s1 = s" using s1(1) True by (simp_all add: gl_step_def begin_upload_def)
    then show ?thesis using g(3,4) s1(2) True by (auto simp: on_way_def draws_on_def)
  next
    case False
    then show ?thesis
      using s1 g h
      by (cases g) (auto simp: gl_step_def begin_upload_def upload_step_def on_way_def draws_on_def handing_def
        split: if_splits option.splits)
  qed
  ultimately show ?thesis using h s1 by (simp add: drawing_def)
qed

lemma drawing_acts: "drawing n fs k s \<Longrightarrow> drawing n fs 0 (acts (replicate k (Gl 0 True)) s)"
proof (induction k arbitrary: s)
  case (Suc k)
  then have "drawing n fs k (case act_step (Gl 0 True) s of None \<Rightarrow> s | Some s' \<Rightarrow> s')"
    using drawing_step [OF Suc.prems]
    by (cases "act_step (Gl 0 True) s") (auto simp: drawing_def gl_step_def on_way_def draws_on_def split: gl_pc.splits if_splits)
  then show ?case using Suc.IH by simp
qed simp

text \<open>
  C38: No image is held back. Once \<open>render\<close> has given an image, whatever the drawing thread was doing (unless it is ending), it
  has made its texture after at most \<open>2 * n + 5\<close> of its own steps, for images of \<open>n\<close> bytes.
\<close>

theorem gles_takes_soon:
  assumes "streaming n s" and "gles2_sem s = 2" and "gls s = [g]" and "g \<notin> {Draw False, Ending, Ended}"
  shows "taken (acts (replicate (2 * n + 5) (Gl 0 True)) s) = given s"
proof -
  have "drawing n (given s) (2 * n + 5) s"
    using assms streaming_handing [OF assms(1)] steps_left_le by (auto simp: drawing_def draws_on_def)
  from drawing_acts [OF this] have "handing n (acts (replicate (2 * n + 5) (Gl 0 True)) s)"
      and "given (acts (replicate (2 * n + 5) (Gl 0 True)) s) = given s"
      and "on_way (acts (replicate (2 * n + 5) (Gl 0 True)) s) = []"
    by (auto simp: drawing_def draws_on_def on_way_def handing_def elim!: steps_left.elims)
  then show ?thesis by (auto simp: handing_def)
qed

definition given_one :: handoff where
  "given_one = acts (Frame [1, 2, 3, 4] # replicate 7 Render) one_pixel"

theorem gles_takes_soon_witness: "taken (acts (replicate 13 (Gl 0 True)) given_one) = [[1, 2, 3, 4]]"
proof -
  have "list_all (fits 4) (Frame [1, 2, 3, 4] # replicate 7 Render)" by code_simp
  then have "streaming 4 given_one" unfolding given_one_def by (rule streaming_acts [OF streaming_one_pixel])
  moreover have "gles2_sem given_one = 2" "gls given_one = [Boot]" "given given_one = [[1, 2, 3, 4]]" by code_simp+
  ultimately show ?thesis using gles_takes_soon [of 4 given_one Boot] by simp
qed

end
