(* ===== verification/Spec2Isabelle.thy ===== *)
theory Spec2Isabelle
  imports Echo_Poll Echo_Fork Echo_Client Exec_Fd Mcast6 Drm_Client_Crtc Drm_Client_Plane Drm_Dumb
    Wiid_Events Wiid_Leds Uinput_Runs Timerfd Inotify Udp Tunnel Gst_Drm Gst_Plane Gl_Flip Drm_Info Fbdev Gles_Sink Gles_Handoff
begin

text \<open>
  A verification library for \<open>sys-snippets\<close>, a collection of C programs that exercise the system
  interfaces of Linux: sockets, processes and signals, semaphores, multicast, and the display
  (drm) with a server that shares it between clients. Every program modelled here is a model of
  the whole \<open>main\<close>: set-up, error exits, loops, handlers and clean-up.

  \<^bold>\<open>How a program is modelled.\<close> (\<open>Sys_Prelude\<close>) A program is a value of type \<open>('a, 'c) io\<close>: a
  function of the kernel, of a bound \<open>N\<close> and of the history so far, which gives an outcome and the
  longer history. The kernel is a parameter, a function from the history and the next call to an
  answer; \<open>None\<close> is a call that does not return. So signals, lost connections, failing calls and
  every order in which descriptors become ready are choices of the kernel, and a theorem is about
  all of them. The outcomes (\<open>res\<close>) are: \<open>Val\<close>, a value; \<open>Exit\<close>, the end of the
  process with its status; \<open>Wait\<close>, where the observation ends, because a call has not returned or
  an unbounded loop has made \<open>N\<close> iterations; and \<open>Fault\<close>, undefined behaviour of C (a store
  outside of an array, a NULL pointer, an uninitialised value that matters, a signed overflow). \<open>N\<close> is
  universally quantified in every property about a server: such a property is about every finite prefix of every run. Where a property says that a program ends, a fault or a run
  cut off at \<open>N\<close> is excluded by the statement.
  \<open>wp\<close> is the weakest precondition of a program, with one equation per construct in the collection
  \<open>wp_simps\<close>, introduction rules in the bundle \<open>wp_intro\<close>, and the loop rules \<open>wp_loop\<close> and \<open>wp_foreach\<close>.
  Locale \<open>service\<close> is the interface between the body of a server's loop and the statements about
  its runs: an invariant kept by one iteration, and what it promises of a history.
  \<open>obeys K R\<close> says that a kernel keeps a documented behaviour \<open>R\<close>; the behaviours used are
  \<open>fresh_fds\<close> (a new descriptor is not one that is open), and for the display library that new
  objects and pointers differ from those in use (\<open>new_res\<close>, \<open>new_ptrs\<close>), that a buffer of libkms is not
  NULL, has room for its pixels in a line and for all its lines in its mapping (\<open>kms_sound\<close>), that no
  frame buffer has the id 0 and the event of a page flip comes only when a flip is queued (\<open>flip_rules\<close>), and that
  the frame buffer driver tells its size and maps what it is asked for (\<open>fb_rules\<close>).
  What a program reads before it has set it is a parameter of its model (the contents of an
  uncleared \<open>fd_set\<close> or buffer, the first value of \<open>ret\<close> or \<open>i\<close>), or a fault where its use is undefined.
  Bytes are \<open>8 word\<close>, \<open>uint32_t\<close> is \<open>32 word\<close>, \<open>int\<close> is \<open>int\<close> with a check of its range where an
  overflow is possible. \<open>C_Lib\<close> has the conversions of \<open>printf\<close>, \<open>sscanf\<close>, \<open>atoi\<close>, \<open>strncpy\<close>.

  \<^bold>\<open>The system calls.\<close> (\<open>Posix\<close>, \<open>Drm_Sys\<close>) One datatype of calls each, and what a call opens,
  uses and closes. \<open>disciplined\<close> says of a history that no call uses or closes a descriptor that is
  not open. Locale \<open>slot_table\<close> is the interface of a server's table of client descriptors; it is
  interpreted for each of the three servers that have one.

  \<^bold>\<open>The programs.\<close>
  \<^item> \<open>Echo_Select\<close>, \<open>Echo_Poll\<close>, \<open>Echo_Fork\<close> (\<open>tcp/c/echo/s_select.c\<close>, \<open>s_poll.c\<close>, \<open>s_fork.c\<close>,
    \<open>tcp/c/time/s_time_fork.c\<close>): the table of clients or the child per client, the echo of a line
    with its fixed array, the handler that reaps the children. Shown: which descriptors are open
    in every state of every run and that none is used after it was closed; what the echo answers;
    that it returns; that a line without a newline overruns the array.
  \<^item> \<open>Echo_Client\<close> (\<open>tcp/c/echo/c_select.c\<close>): the client; composed with the server's \<open>handle_echo\<close>
    it gets back the line it has sent.
  \<^item> \<open>Exec_Fd\<close> (\<open>sem/exec_fd.c\<close>): two processes as interleaved steps over two semaphores and a
    shared file offset, with \<open>SIGINT\<close> between any two steps. Shown by rule induction over the
    reachable states: mutual exclusion, strict turns, no deadlock, termination within a
    number of steps, and that a \<open>SIGINT\<close> can leave the child blocked for ever.
  \<^item> \<open>Mcast4\<close>, \<open>Mcast6\<close> (\<open>multicast/c/mcast4.c\<close>, \<open>mcast6.c\<close>): options, server, client. Shown: what
    the options set, that the server stops after five faults, which packets the client sends,
    the same of the IPv6 tool, whose loops are those of the first.
  \<^item> \<open>Drm_Utils\<close> (\<open>drm-tests/drm_utils.c\<close>), \<open>Bitmap\<close> (\<open>bitmap_utils.c\<close>): the choice of connector,
    encoder, mode and crtc (its three loops over ids are interpretations of the locale
    \<open>object_search\<close>); the images, with the theorem that a drawing fills the mapping and never
    leaves it.
  \<^item> \<open>Drm_Proto\<close>, \<open>Drm_Server\<close>, \<open>Drm_Requests\<close> (\<open>drm_proto.h\<close>, \<open>drm_server.c\<close>): the messages as
    text, with round trips through \<open>snprintf\<close> and \<open>sscanf\<close>; the server with its table, its record
    per client and the five commands. Shown: the descriptors of every run; one answer for each
    request; the refinement of the abstract \<open>request\<close>s by the texts that the server parses;
    a crtc request sets the crtc to what was asked, and the stop request sets it back as it was
    found; a stop that comes before the crtc was taken is undefined behaviour. A mode is represented
    by its name and size, and \<open>poll\<close>, which is told of one array element too many, reports on the six that
    there are.
  \<^item> \<open>Drm_Kms\<close>, \<open>Drm_Client\<close>, \<open>Drm_Client_Crtc\<close>, \<open>Drm_Client_Plane\<close>, \<open>Drm_Dumb\<close>
    (\<open>drm_client_crtc.c\<close>, \<open>drm_client_plane.c\<close>, \<open>drm_dumb_bo.c\<close>, \<open>drm_dumb_bo_libkms.c\<close>,
    \<open>drm_dumb_bo_plane.c\<close>, \<open>drm_dumb_bo_mult.c\<close>): the ledger of what a display program holds
    (descriptors, drivers, buffer objects, mappings, frame buffers, dumb buffers, memory regions), with a
    lemma per step. It does not count the structures that libdrm allocates for its answers (resource
    lists, connectors, encoders, crtcs, planes), many of which the programs never free; \<open>Drm_Utils\<close> has
    a ledger for those; the conversation with the server as the locale \<open>conversation\<close>, interpreted for both
    clients. Shown: the clients ask only after the answer that allows it; each program gives back
    what it has taken on every path, or which path leaks what.

  \<^item> \<open>Gl_Calls\<close>, \<open>Gl_Setup\<close>, \<open>Gl_Tests\<close>, \<open>Gl_Flip\<close> (\<open>drm_gl_test1a.c\<close>, \<open>drm_gl_test1b.c\<close>, \<open>drm_gl_test2.c\<close>,
    \<open>drm_gl_test3.c\<close>, \<open>gl_utils.c\<close>): the OpenGL programs, the same ledger with the objects of gbm and EGL.
    Shown: what each gives back and what it leaves; that page flipping never gives the buffer away that is
    on the screen or queued for it.
  \<^item> \<open>Drm_Info\<close> (\<open>drm_info.c\<close>): the report, with the numbers of the kernel's headers as the parameter
    \<open>codes\<close>. Shown: each object is freed once while it is held, at most two are left.
  \<^item> \<open>Fbdev\<close> (\<open>fbdev/c/fbdev.c\<close>): the frame buffer tool. Shown: the contents of the mapping after each
    screen, its bounds, and for which sizes no computation overflows.
  \<^item> \<open>Input_Sys\<close>, \<open>Wii_Devices\<close>, \<open>Wiid\<close>, \<open>Wiid_Setup\<close>, \<open>Wiid_Events\<close>, \<open>Wiid_Leds\<close> (\<open>wiid-tests\<close>): the daemon
    that turns the messages of a Wii remote into input events: its two uinput devices, the callback for every kind of
    message, the main thread that lets the LEDs chase. Shown: which events are injected, only on devices that have
    registered their codes or have asked to; the rate of the accelerometer; the order of the LED states.
  \<^item> \<open>Uinput\<close>, \<open>Uinput_Runs\<close> (\<open>uinput/tx.c\<close>, \<open>rx.c\<close>, \<open>wiid-tests/test_acc.c\<close>): a sender and two receivers of
    accelerometer readings. Shown: what the sender injects is what the receiver prints; both searches for the
    device by its name are the same and leave nothing open.
  \<^item> \<open>Linux_Sys\<close> with \<open>Timerfd\<close> (\<open>timers/c/timerfd.c\<close>), \<open>Inotify\<close> (\<open>inotify/c/fs_notify.c\<close>), \<open>Udp\<close>
    (\<open>udp/c/msg\<close>), \<open>Tunnel\<close> (\<open>tun-tap/tunnel.c\<close>): programs around one loop over descriptors. Shown: each
    expiration is relayed once; the events printed are those a parser finds in the buffers; what is typed at a udp client
    is what a server prints; frames pass the tunnel unchanged, once and in order.
  \<^item> \<open>Gst_Sink\<close>, \<open>Gst_Frames\<close>, \<open>Gst_Drm\<close>, \<open>Gst_Plane\<close> (\<open>gst/gst-drm/drmsink.c\<close>, \<open>drmplanesink.c\<close>): the two
    GStreamer sinks as objects with handlers. Locale \<open>sink_protocol\<close> is the order in which the framework calls the
    handlers; it is interpreted for both. Shown: while the crtc or plane is kept, an image never goes into a buffer
    that is shown nor outside of a mapping, and after a stop nothing of the ledger is owned; the copying of the rows.
  \<^item> \<open>Gles_Sink\<close>, \<open>Gles_Handoff\<close> (\<open>gst/gst-simple\<close>): the OpenGL sink, its drawing thread as a program over X11, EGL
    and OpenGL, and the hand-over of images between the streaming and the drawing thread as interleaved
    steps over the counter. Shown: each image becomes a texture as a whole, once and in order, and soon; the
    drawing thread keeps to the counter.

  \<^bold>\<open>Interaction.\<close> The echo client and servers meet in the bytes of one line, the display clients and
  their server in the text of the messages and the order of requests and answers, sender and receivers of readings in
  the input events. Both sides are modelled from their own file; the theorems on round trips and on the refinement
  connect them.

  \<^bold>\<open>Bounds.\<close> Apart from \<open>N\<close> there is no fuel: the loops over arrays and lists are structural, the
  number printer has a termination proof. The walk over a buffer of inotify events takes at most 256 passes, as many as
  events fit into its 4096 bytes. The sizes of arrays are the constants of the code.

  \<^bold>\<open>Not modelled.\<close> What the kernel, libdrm, libkms, gbm, EGL, OpenGL, X11, GStreamer, cwiid and the C library
  do inside; \<open>getopt\<close> (the options it yields are a parameter); the registration of the GStreamer classes and
  the wrappers of its log. Out of scope: \<open>gles2-tests\<close> (calls of EGL and OpenGL ES), the small programs in \<open>daemon\<close>, \<open>inetd\<close>,
  \<open>pipe-ipc\<close>, \<open>netdevice\<close>, \<open>netlink_ipc\<close>, \<open>rtnetlink\<close>, \<open>pty\<close>, \<open>usb\<close> and \<open>riscv\<close>, the assembly and C++ snippets.
\<close>

end
